(* ===== verification/Agent_Path.thy ===== *)
theory Agent_Path
  imports Prelude
begin

text \<open>
  \<open>protocol/src/agent_path.rs\<close>: the absolute names of agents in the agent tree. A path is
  \<open>/morpheus\<close> or \<open>/root\<close> followed by segments of lowercase letters, digits and
  underscores. The validators return the source's error strings.
\<close>

datatype agent_path = AgentPath (as_str: str)

definition ROOT :: str where "ROOT = lit ''/root''"
definition MORPHEUS :: str where "MORPHEUS = lit ''/morpheus''"
definition ROOT_SEGMENT :: str where "ROOT_SEGMENT = lit ''root''"

abbreviation slash :: uchar where "slash \<equiv> 47"

definition root :: agent_path where "root = AgentPath ROOT"
definition morpheus :: agent_path where "morpheus = AgentPath MORPHEUS"

definition is_root :: "agent_path \<Rightarrow> bool" where
  "is_root p \<longleftrightarrow> as_str p = ROOT"

definition agent_name_char :: "uchar \<Rightarrow> bool" where
  "agent_name_char c \<longleftrightarrow> is_ascii_lowercase c \<or> is_ascii_digit c \<or> c = 95"

definition validate_agent_name :: "str \<Rightarrow> str + unit" where
  "validate_agent_name n =
     (if n = [] then Inl (lit ''agent_name must not be empty'')
      else if n = ROOT_SEGMENT then Inl (lit ''agent_name `root` is reserved'')
      else if n = lit ''.'' \<or> n = lit ''..''
        then Inl (lit ''agent_name `'' @ n @ lit ''` is reserved'')
      else if slash \<in> set n then Inl (lit ''agent_name must not contain `/`'')
      else if \<not> list_all agent_name_char n
        then Inl (lit ''agent_name must use only lowercase letters, digits, and underscores'')
      else Inr ())"

fun validate_segments :: "str list \<Rightarrow> str + unit" where
  "validate_segments [] = Inr ()"
| "validate_segments (s # ss) = and_then (validate_agent_name s) (\<lambda>_. validate_segments ss)"

definition validate_absolute_path :: "str \<Rightarrow> str + unit" where
  "validate_absolute_path path =
     (if path = MORPHEUS then Inr ()
      else case strip_prefix [slash] path of
        None \<Rightarrow> Inl (lit ''absolute agent paths must start with `/root` or be `/morpheus`'')
      | Some stripped \<Rightarrow>
          (case split_on slash stripped of
             [] \<Rightarrow> Inl (lit ''absolute agent path must not be empty'')
           | r # segments \<Rightarrow>
               if r \<noteq> ROOT_SEGMENT
               then Inl (lit ''absolute agent paths must start with `/root` or be `/morpheus`'')
               else if ends_with [slash] stripped
               then Inl (lit ''absolute agent path must not end with `/`'')
               else validate_segments segments))"

definition validate_relative_reference :: "str \<Rightarrow> str + unit" where
  "validate_relative_reference reference =
     (if ends_with [slash] reference
      then Inl (lit ''relative agent path must not end with `/`'')
      else validate_segments (split_on slash reference))"

definition from_string :: "str \<Rightarrow> str + agent_path" where
  "from_string path = and_then (validate_absolute_path path) (\<lambda>_. Inr (AgentPath path))"

definition name :: "agent_path \<Rightarrow> str" where
  "name p = (if is_root p then ROOT_SEGMENT
     else let segment = last (split_on slash (as_str p))
       in if segment \<noteq> [] then segment else ROOT_SEGMENT)"

definition join :: "agent_path \<Rightarrow> str \<Rightarrow> str + agent_path" where
  "join p agent_name =
     and_then (validate_agent_name agent_name)
       (\<lambda>_. from_string (as_str p @ [slash] @ agent_name))"

definition resolve :: "agent_path \<Rightarrow> str \<Rightarrow> str + agent_path" where
  "resolve p reference =
     (if reference = [] then Inl (lit ''agent path must not be empty'')
      else if reference = ROOT then Inr root
      else if starts_with [slash] reference then from_string reference
      else and_then (validate_relative_reference reference)
        (\<lambda>_. from_string (as_str p @ [slash] @ reference)))"

section \<open>Valid names and paths\<close>

definition valid_name :: "str \<Rightarrow> bool" where
  "valid_name n \<longleftrightarrow> n \<noteq> [] \<and> n \<noteq> ROOT_SEGMENT \<and> list_all agent_name_char n"

text \<open>The abstract tree position a path denotes: \<open>/root\<close> and a list of valid names.\<close>

fun path_of :: "str list \<Rightarrow> str" where
  "path_of segs = ROOT @ concat (map (Cons slash) segs)"

definition valid_path :: "agent_path \<Rightarrow> bool" where
  "valid_path p \<longleftrightarrow> validate_absolute_path (as_str p) = Inr ()"

lemma agent_name_char_not_slash: "agent_name_char c \<Longrightarrow> c \<noteq> slash"
  by (auto simp: agent_name_char_def is_ascii_lowercase_def is_ascii_digit_def)

lemma list_all_name_no_slash: "list_all agent_name_char n \<Longrightarrow> slash \<notin> set n"
  by (auto simp: list_all_iff dest: agent_name_char_not_slash)

lemma dot_not_name_chars: "\<not> list_all agent_name_char (lit ''.'')" "\<not> list_all agent_name_char (lit ''..'')"
  by (simp_all add: lit_eval agent_name_char_def is_ascii_lowercase_def is_ascii_digit_def)

lemma validate_agent_name_ok_iff: "validate_agent_name n = Inr () \<longleftrightarrow> valid_name n"
  using list_all_name_no_slash [of n] dot_not_name_chars
  by (auto simp: validate_agent_name_def valid_name_def)

lemma validate_segments_ok_iff: "validate_segments ss = Inr () \<longleftrightarrow> list_all valid_name ss"
  by (induction ss) (auto simp: and_then_Inr_iff validate_agent_name_ok_iff)

lemma valid_name_no_slash: "valid_name n \<Longrightarrow> slash \<notin> set n"
  by (auto simp: valid_name_def dest: list_all_name_no_slash)

lemma split_on_segments:
  "slash \<notin> set r \<Longrightarrow> list_all valid_name segs \<Longrightarrow>
     split_on slash (r @ concat (map (Cons slash) segs)) = r # segs"
proof (induction segs arbitrary: r)
  case Nil
  then show ?case by (simp add: split_on_no)
next
  case (Cons s ss)
  have "split_on slash (r @ slash # (s @ concat (map (Cons slash) ss)))
      = r # split_on slash (s @ concat (map (Cons slash) ss))"
    using Cons.prems by (simp add: split_on_append_sep)
  also have "\<dots> = r # s # ss"
    using Cons.IH [of s] Cons.prems by (simp add: valid_name_no_slash)
  finally show ?case by simp
qed

lemma concat_split_on:
  "split_on slash s = r # segs \<Longrightarrow> s = r @ concat (map (Cons slash) segs)"
proof -
  assume "split_on slash s = r # segs"
  then have "s = join_with [slash] (r # segs)" using join_split_on [of slash s] by simp
  also have "\<dots> = r @ concat (map (Cons slash) segs)"
    by (induction segs arbitrary: r) (auto simp: join_with_Cons)
  finally show ?thesis .
qed

lemma ends_with_slash_iff: "ends_with [slash] s \<longleftrightarrow> last (split_on slash s) = [] \<and> slash \<in> set s"
proof (cases s rule: rev_cases)
  case Nil
  then show ?thesis by (simp add: ends_with_def strip_suffix_def)
next
  case (snoc t c)
  show ?thesis
  proof (cases "c = slash")
    case True
    then show ?thesis using snoc
      by (simp add: ends_with_def strip_suffix_def split_on_append_gen)
  next
    case False
    have "last (split_on slash (t @ [c])) \<noteq> []"
    proof
      assume "last (split_on slash (t @ [c])) = []"
      moreover obtain r segs where sp: "split_on slash (t @ [c]) = r # segs"
        by (meson split_on_ne neq_Nil_conv)
      ultimately have "t @ [c] = join_with [slash] (r # segs)" "last (r # segs) = []"
        using join_split_on [of slash "t @ [c]"] by auto
      moreover have "last (r # segs) = [] \<Longrightarrow> join_with [slash] (r # segs) = [] \<or>
          last (join_with [slash] (r # segs)) = slash"
        by (induction segs arbitrary: r) (auto simp: join_with_Cons last_append)
      ultimately have "t @ [c] = [] \<or> last (t @ [c]) = slash" by metis
      then show False using False by simp
    qed
    then show ?thesis using snoc False by (simp add: ends_with_def strip_suffix_def)
  qed
qed


lemma validate_absolute_path_ok_iff:
  "validate_absolute_path s = Inr () \<longleftrightarrow>
     s = MORPHEUS \<or> (\<exists>segs. list_all valid_name segs \<and> s = path_of segs)"
proof (cases "s = MORPHEUS")
  case True
  then show ?thesis by (simp add: validate_absolute_path_def)
next
  case False
  have RS: "ROOT = slash # ROOT_SEGMENT" "slash \<notin> set ROOT_SEGMENT"
    by (simp_all add: ROOT_def ROOT_SEGMENT_def lit_eval)
  show ?thesis
  proof
    assume ok: "validate_absolute_path s = Inr ()"
    then obtain t where t: "s = slash # t"
      using False by (auto simp: validate_absolute_path_def strip_prefix_Some_iff split: option.splits)
    obtain r segs where sp: "split_on slash t = r # segs" by (meson split_on_ne neq_Nil_conv)
    from ok False t sp have "r = ROOT_SEGMENT" "list_all valid_name segs"
      by (auto simp: validate_absolute_path_def validate_segments_ok_iff split: if_splits)
    moreover from sp have "t = r @ concat (map (Cons slash) segs)" by (rule concat_split_on)
    ultimately show "s = MORPHEUS \<or> (\<exists>segs. list_all valid_name segs \<and> s = path_of segs)"
      using t RS by auto
  next
    assume "s = MORPHEUS \<or> (\<exists>segs. list_all valid_name segs \<and> s = path_of segs)"
    then obtain segs where v: "list_all valid_name segs" and s: "s = path_of segs"
      using False by auto
    let ?t = "ROOT_SEGMENT @ concat (map (Cons slash) segs)"
    have sp: "split_on slash ?t = ROOT_SEGMENT # segs"
      using RS(2) v by (rule split_on_segments)
    have "\<not> ends_with [slash] ?t"
      unfolding ends_with_slash_iff sp using v
      by (auto simp: list_all_iff valid_name_def ROOT_SEGMENT_def lit_eval)
    moreover have "strip_prefix [slash] s = Some ?t" by (simp add: s RS(1))
    moreover have "validate_segments segs = Inr ()" using v by (simp add: validate_segments_ok_iff)
    ultimately show "validate_absolute_path s = Inr ()"
      using sp False unfolding validate_absolute_path_def by simp
  qed
qed

lemma from_string_Inr_iff: "from_string s = Inr p \<longleftrightarrow> p = AgentPath s \<and> valid_path p"
  by (auto simp: from_string_def and_then_Inr_iff valid_path_def)

lemma valid_path_iff:
  "valid_path p \<longleftrightarrow> p = morpheus \<or> (\<exists>segs. list_all valid_name segs \<and> p = AgentPath (path_of segs))"
  by (cases p) (auto simp: valid_path_def validate_absolute_path_ok_iff morpheus_def)

lemma path_of_snoc: "path_of (segs @ [n]) = path_of segs @ [slash] @ n"
  by simp

lemma split_on_path_of:
  "list_all valid_name segs \<Longrightarrow> split_on slash (path_of segs) = [] # ROOT_SEGMENT # segs"
  using split_on_segments [of ROOT_SEGMENT segs] by (simp add: ROOT_def ROOT_SEGMENT_def lit_eval)

lemma path_of_inject:
  "list_all valid_name a \<Longrightarrow> list_all valid_name b \<Longrightarrow> path_of a = path_of b \<longleftrightarrow> a = b"
  by (metis split_on_path_of list.inject)

lemma path_of_not_morpheus: "path_of segs \<noteq> MORPHEUS"
  by (simp add: ROOT_def MORPHEUS_def lit_eval)

lemma morpheus_child_invalid: "\<not> valid_path (AgentPath (MORPHEUS @ [slash] @ n))"
proof
  assume "valid_path (AgentPath (MORPHEUS @ [slash] @ n))"
  then have "MORPHEUS @ [slash] @ n = MORPHEUS \<or> (\<exists>segs. MORPHEUS @ [slash] @ n = path_of segs)"
    by (auto simp: valid_path_def validate_absolute_path_ok_iff)
  then show False by (auto simp: ROOT_def MORPHEUS_def lit_eval)
qed

text \<open>One step of the tree: joining a valid name to a valid path.\<close>

lemma join_path_of:
  assumes "list_all valid_name segs"
  shows "join (AgentPath (path_of segs)) n =
    and_then (validate_agent_name n) (\<lambda>_. Inr (AgentPath (path_of (segs @ [n]))))"
proof (cases "valid_name n")
  case True
  then have "validate_agent_name n = Inr ()" by (simp add: validate_agent_name_ok_iff)
  moreover have "valid_path (AgentPath (path_of (segs @ [n])))"
    unfolding valid_path_iff using assms True by (intro disjI2 exI [of _ "segs @ [n]"]) simp
  ultimately show ?thesis
    unfolding join_def and_then.simps
    by (simp add: from_string_Inr_iff path_of_snoc del: path_of.simps)
next
  case False
  then obtain e where "validate_agent_name n = Inl e"
    using validate_agent_name_ok_iff [of n] by (cases "validate_agent_name n") auto
  then show ?thesis by (simp add: join_def)
qed

lemma join_morpheus_fails: "join morpheus n \<noteq> Inr p"
  using morpheus_child_invalid [of n]
  by (auto simp: join_def and_then_Inr_iff from_string_Inr_iff morpheus_def)

lemma name_path_of:
  assumes "list_all valid_name segs"
  shows "name (AgentPath (path_of segs)) = (if segs = [] then ROOT_SEGMENT else last segs)"
proof -
  note sp = split_on_path_of [OF assms]
  show ?thesis
  proof (cases "segs = []")
    case True
    then show ?thesis by (simp add: name_def is_root_def)
  next
    case False
    then have "path_of segs \<noteq> ROOT" using path_of_inject [of segs "[]"] assms by simp
    moreover have "last segs \<noteq> []" using False assms by (auto simp: list_all_iff valid_name_def)
    ultimately show ?thesis using False sp by (simp add: name_def is_root_def Let_def)
  qed
qed

fun joins :: "agent_path \<Rightarrow> str list \<Rightarrow> str + agent_path" where
  "joins p [] = Inr p"
| "joins p (n # ns) = and_then (join p n) (\<lambda>q. joins q ns)"

lemma joins_path_of:
  "list_all valid_name segs \<Longrightarrow>
     joins (AgentPath (path_of segs)) ns = Inr q \<longleftrightarrow>
       list_all valid_name ns \<and> q = AgentPath (path_of (segs @ ns))"
proof (induction ns arbitrary: segs)
  case Nil
  then show ?case by auto
next
  case (Cons n ns)
  show ?case
  proof (cases "valid_name n")
    case True
    then have "join (AgentPath (path_of segs)) n = Inr (AgentPath (path_of (segs @ [n])))"
      using Cons.prems by (simp add: join_path_of validate_agent_name_ok_iff [THEN iffD2] del: path_of.simps)
    then show ?thesis using Cons.IH [of "segs @ [n]"] Cons.prems True by (simp del: path_of.simps)
  next
    case False
    then have "validate_agent_name n \<noteq> Inr ()" by (simp add: validate_agent_name_ok_iff)
    then show ?thesis using Cons.prems False
      by (auto simp: join_path_of and_then_Inr_iff simp del: path_of.simps)
  qed
qed

lemma validate_relative_reference_ok_iff:
  "validate_relative_reference r = Inr () \<longleftrightarrow> list_all valid_name (split_on slash r)"
proof -
  have "list_all valid_name (split_on slash r) \<Longrightarrow> \<not> ends_with [slash] r"
    using last_in_set [OF split_on_ne [of slash r]]
    by (auto simp: ends_with_slash_iff list_all_iff valid_name_def)
  then show ?thesis by (auto simp: validate_relative_reference_def validate_segments_ok_iff)
qed

lemma path_of_append_ref:
  "split_on slash r = ns \<Longrightarrow> path_of (segs @ ns) = path_of segs @ [slash] @ r"
proof -
  assume ns: "split_on slash r = ns"
  obtain a as where "ns = a # as" by (metis ns split_on_ne neq_Nil_conv)
  then show ?thesis using concat_split_on [of r a as] ns by simp
qed

section \<open>Properties\<close>

text \<open>
  Resolving a relative reference from a valid path of the \<open>/root\<close> tree succeeds exactly
  when joining its slash-separated segments one by one succeeds, with the same path: the whole
  reference is checked once by \<open>resolve\<close>, name by name by \<open>join\<close>.
\<close>

theorem resolve_relative_is_joins:
  assumes "valid_path p" "p \<noteq> morpheus" "r \<noteq> []" "\<not> starts_with [slash] r"
  shows "resolve p r = Inr q \<longleftrightarrow> joins p (split_on slash r) = Inr q"
proof -
  from assms(1,2) obtain segs where v: "list_all valid_name segs" and p: "p = AgentPath (path_of segs)"
    by (auto simp: valid_path_iff)
  have nr: "r \<noteq> ROOT"
  proof
    assume "r = ROOT"
    then have "starts_with [slash] r" by (simp add: ROOT_def starts_with_def lit_eval)
    with assms(4) show False ..
  qed
  have "resolve p r = Inr q \<longleftrightarrow> list_all valid_name (split_on slash r) \<and>
      q = AgentPath (path_of segs @ [slash] @ r) \<and> valid_path q"
    using assms(3,4) nr p
    by (auto simp: resolve_def and_then_Inr_iff validate_relative_reference_ok_iff from_string_Inr_iff
        simp del: path_of.simps)
  also have "\<dots> \<longleftrightarrow> list_all valid_name (split_on slash r) \<and>
      q = AgentPath (path_of (segs @ split_on slash r))"
    using v unfolding path_of_append_ref [OF refl, symmetric] valid_path_iff
    by (metis list_all_append)
  also have "\<dots> \<longleftrightarrow> joins p (split_on slash r) = Inr q"
    using v unfolding p by (simp add: joins_path_of del: path_of.simps)
  finally show ?thesis .
qed

theorem resolve_relative_is_joins_witness:
  "resolve root (lit ''a/b'') = Inr (AgentPath (lit ''/root/a/b''))
   \<and> joins root (split_on slash (lit ''a/b'')) = Inr (AgentPath (lit ''/root/a/b''))"
proof -
  have h: "valid_path root" "root \<noteq> morpheus" "lit ''a/b'' \<noteq> []" "\<not> starts_with [slash] (lit ''a/b'')"
    by code_simp+
  have "resolve root (lit ''a/b'') = Inr (AgentPath (lit ''/root/a/b''))" by code_simp
  then show ?thesis using resolve_relative_is_joins [OF h] by blast
qed

text \<open>
  \<open>join\<close> is the step of a tree: from valid paths it yields a valid path whose \<open>name\<close> is
  the joined name, and it is injective, so two agents have the same path only when they have the
  same parent and the same name.
\<close>

theorem join_tree_step:
  assumes "valid_path p" "valid_path p'" "join p n = Inr q"
  shows "valid_path q \<and> name q = n \<and> (join p' n' = Inr q \<longrightarrow> p' = p \<and> n' = n)"
proof -
  have tree: "\<exists>segs. list_all valid_name segs \<and> valid_name m \<and> x = AgentPath (path_of segs)
      \<and> q = AgentPath (path_of (segs @ [m]))"
    if "valid_path x" "join x m = Inr q" for x m
  proof -
    from that join_morpheus_fails obtain segs where "list_all valid_name segs" "x = AgentPath (path_of segs)"
      by (auto simp: valid_path_iff)
    then show ?thesis using that(2)
      by (auto simp: join_path_of and_then_Inr_iff validate_agent_name_ok_iff simp del: path_of.simps)
  qed
  from tree [OF assms(1,3)] obtain segs where s: "list_all valid_name (segs @ [n])"
    "p = AgentPath (path_of segs)" "q = AgentPath (path_of (segs @ [n]))" by auto
  have "valid_path q" unfolding valid_path_iff using s by blast
  moreover have "name q = n" using name_path_of [OF s(1)] s(3) by simp
  moreover have "p' = p \<and> n' = n" if j: "join p' n' = Inr q"
  proof -
    from tree [OF assms(2) j] obtain segs' where s': "list_all valid_name (segs' @ [n'])"
      "p' = AgentPath (path_of segs')" "q = AgentPath (path_of (segs' @ [n']))" by auto
    then have "segs @ [n] = segs' @ [n']" using path_of_inject [OF s(1) s'(1)] s(3) by simp
    then show ?thesis using s s' by simp
  qed
  ultimately show ?thesis by blast
qed

theorem join_tree_step_witness:
  "join root (lit ''researcher'') = Inr (AgentPath (lit ''/root/researcher''))
   \<and> name (AgentPath (lit ''/root/researcher'')) = lit ''researcher''"
proof -
  have h: "valid_path root" "join root (lit ''researcher'') = Inr (AgentPath (lit ''/root/researcher''))"
    by code_simp+
  show ?thesis using join_tree_step [OF h(1) h(1) h(2)] h(2) by blast
qed

end
