(* ===== verification/Protocol_Types.thy ===== *)
theory Protocol_Types
  imports Agent_Path
begin

text \<open>
  The data types of \<open>protocol/src/protocol.rs\<close> that the agent components exchange, and the
  functions on them: statuses (\<open>core/src/agent/status.rs\<close>), session sources and spawn depth.
  A \<open>ThreadId\<close> is identified with its canonical text; an \<open>Arc\<close> with the address of its
  allocation (\<open>ptr\<close>), so that \<open>Arc::ptr_eq\<close> is equality.
\<close>

type_synonym thread_id = str
type_synonym turn_id = str
type_synonym ptr = nat

datatype agent_status =
    PendingInit
  | Running
  | Interrupted
  | Completed "str option"
  | Errored str
  | Shutdown
  | NotFound

datatype turn_abort_reason = AbortInterrupted | AbortReplaced | AbortReviewEnded | AbortBudgetLimited

text \<open>The events that move the status; every other event of \<open>EventMsg\<close> is \<open>OtherEvent\<close>.\<close>

datatype event_msg =
    TurnStarted
  | TurnComplete (tc_error: "str option") (tc_last_agent_message: "str option")
  | TurnAborted turn_abort_reason
  | ErrorEvent str
  | ShutdownComplete
  | OtherEvent

fun debug_reason :: "turn_abort_reason \<Rightarrow> str" where
  "debug_reason AbortInterrupted = lit ''Interrupted''"
| "debug_reason AbortReplaced = lit ''Replaced''"
| "debug_reason AbortReviewEnded = lit ''ReviewEnded''"
| "debug_reason AbortBudgetLimited = lit ''BudgetLimited''"

fun agent_status_from_event :: "event_msg \<Rightarrow> agent_status option" where
  "agent_status_from_event TurnStarted = Some Running"
| "agent_status_from_event (TurnComplete err msg) =
     Some (case err of Some e \<Rightarrow> Errored e | None \<Rightarrow> Completed msg)"
| "agent_status_from_event (TurnAborted reason) =
     (if reason = AbortInterrupted \<or> reason = AbortBudgetLimited then Some Interrupted
      else Some (Errored (debug_reason reason)))"
| "agent_status_from_event (ErrorEvent m) = Some (Errored m)"
| "agent_status_from_event ShutdownComplete = Some Shutdown"
| "agent_status_from_event OtherEvent = None"

fun is_final :: "agent_status \<Rightarrow> bool" where
  "is_final PendingInit = False"
| "is_final Running = False"
| "is_final Interrupted = False"
| "is_final _ = True"

fun is_completed :: "agent_status \<Rightarrow> bool" where
  "is_completed (Completed _) = True"
| "is_completed _ = False"

datatype sub_agent_source =
    SubReview
  | SubCompact
  | ThreadSpawn thread_id int "agent_path option" "str option" "str option"
  | SubMemoryConsolidation
  | SubOther str

datatype internal_session_source = InternalMemoryConsolidation | InternalGuardian

datatype session_source =
    Cli | VSCode | Exec | Mcp
  | Custom str
  | Internal internal_session_source
  | SubAgent sub_agent_source
  | UnknownSource

datatype multi_agent_version = Disabled | V1 | V2

text \<open>The errors of \<open>CodexErr\<close> that the modelled operations construct.\<close>

datatype codex_err =
    AgentLimitReached usize
  | UnsupportedOperation str
  | ThreadNotFound thread_id
  | InvalidRequest str
  | OtherErr str

fun is_sub_agent :: "session_source \<Rightarrow> bool" where
  "is_sub_agent (SubAgent _) = True"
| "is_sub_agent _ = False"

text \<open>\<open>i32\<close> values are integers in \<open>[-2^31, 2^31)\<close>.\<close>

definition i32_max :: int where "i32_max = 2 ^ 31 - 1"

fun session_depth :: "session_source \<Rightarrow> int" where
  "session_depth (SubAgent (ThreadSpawn _ depth _ _ _)) = depth"
| "session_depth (SubAgent _) = 0"
| "session_depth _ = 0"

definition next_thread_spawn_depth :: "session_source \<Rightarrow> int" where
  "next_thread_spawn_depth src = min (session_depth src + 1) i32_max"

definition exceeds_thread_spawn_depth_limit :: "int \<Rightarrow> int \<Rightarrow> bool" where
  "exceeds_thread_spawn_depth_limit depth max_depth \<longleftrightarrow> depth > max_depth"

end
