(* ===== verification/Agent_Registry.thy ===== *)
theory Agent_Registry
  imports Protocol_Types
begin

text \<open>
  \<open>core/src/agent/registry.rs\<close>: the table of the agents of a user session. \<open>agent_tree\<close>
  maps a path key to the metadata of the agent there (or to a reservation without an agent),
  \<open>thread_paths\<close> maps a thread to its key, \<open>total_count\<close> counts spawned and reserved agents.
  Every method takes the table's lock once, so it is one step of the state. The random choice of a
  nickname (\<open>rand\<close>) is the parameter \<open>pick\<close>. Atomic counter arithmetic wraps, as
  \<open>fetch_add\<close> and \<open>fetch_sub\<close> do.
\<close>

record agent_metadata =
  agent_id :: "thread_id option"
  agent_path_of :: "agent_path option"
  agent_nickname :: "str option"
  agent_role :: "str option"

record 'env registered_agent =
  ra_path :: str
  evicted_environments :: "'env list option"

record 'env active_agents =
  agent_tree :: "(str, agent_metadata) fmap"
  thread_paths :: "(thread_id, 'env registered_agent) fmap"
  used_agent_nicknames :: "str fset"
  nickname_reset_count :: usize

record 'env agent_registry = "'env active_agents" +
  total_count :: usize

record spawn_reservation =
  sr_active :: bool
  reserved_agent_nickname :: "str option"
  reserved_agent_path :: "agent_path option"

definition empty_registry :: "'env agent_registry" where
  "empty_registry = \<lparr>agent_tree = fmempty, thread_paths = fmempty, used_agent_nicknames = {||},
     nickname_reset_count = 0, total_count = 0\<rparr>"

definition registered_agent_new :: "str \<Rightarrow> 'env registered_agent" where
  "registered_agent_new p = \<lparr>ra_path = p, evicted_environments = None\<rparr>"

definition agent_metadata_default :: agent_metadata where
  "agent_metadata_default =
     \<lparr>agent_id = None, agent_path_of = None, agent_nickname = None, agent_role = None\<rparr>"

definition has_root_path :: "agent_metadata \<Rightarrow> bool" where
  "has_root_path m \<longleftrightarrow> (case agent_path_of m of Some p \<Rightarrow> is_root p | None \<Rightarrow> False)"

definition ordinal_suffix :: "nat \<Rightarrow> str" where
  "ordinal_suffix v =
     (if 11 \<le> v mod 100 \<and> v mod 100 \<le> 13 then lit ''th''
      else if v mod 10 = 1 then lit ''st''
      else if v mod 10 = 2 then lit ''nd''
      else if v mod 10 = 3 then lit ''rd''
      else lit ''th'')"

definition format_agent_nickname :: "str \<Rightarrow> usize \<Rightarrow> str" where
  "format_agent_nickname nm reset_count =
     (if reset_count = 0 then nm
      else let v = unat (reset_count + 1)
        in nm @ lit '' the '' @ show_nat v @ ordinal_suffix v)"

section \<open>Operations\<close>

definition try_increment_spawned :: "usize \<Rightarrow> 'env agent_registry \<Rightarrow> bool \<times> 'env agent_registry" where
  "try_increment_spawned max_threads r =
     (if total_count r \<ge> max_threads then (False, r)
      else (True, r\<lparr>total_count := total_count r + 1\<rparr>))"

definition new_reservation :: spawn_reservation where
  "new_reservation = \<lparr>sr_active = True, reserved_agent_nickname = None, reserved_agent_path = None\<rparr>"

definition reserve_spawn_slot ::
  "usize option \<Rightarrow> 'env agent_registry \<Rightarrow> (codex_err + spawn_reservation) \<times> 'env agent_registry" where
  "reserve_spawn_slot max_threads r =
     (case max_threads of
        Some m \<Rightarrow> (case try_increment_spawned m r of
            (False, r') \<Rightarrow> (Inl (AgentLimitReached m), r')
          | (True, r') \<Rightarrow> (Inr new_reservation, r'))
      | None \<Rightarrow> (Inr new_reservation, r\<lparr>total_count := total_count r + 1\<rparr>))"

definition release_spawned_thread :: "thread_id \<Rightarrow> 'env agent_registry \<Rightarrow> 'env agent_registry" where
  "release_spawned_thread t r =
     (case fmlookup (thread_paths r) t of
        None \<Rightarrow> r
      | Some agent \<Rightarrow>
          (let r1 = r\<lparr>thread_paths := fmdrop t (thread_paths r),
                      agent_tree := fmdrop (ra_path agent) (agent_tree r)\<rparr>
           in case fmlookup (agent_tree r) (ra_path agent) of
                None \<Rightarrow> r1
              | Some metadata \<Rightarrow>
                  if \<not> has_root_path metadata then r1\<lparr>total_count := total_count r1 - 1\<rparr> else r1))"

definition register_root_thread :: "thread_id \<Rightarrow> 'env agent_registry \<Rightarrow> 'env agent_registry" where
  "register_root_thread t r =
     (let entry = (case fmlookup (agent_tree r) ROOT of
            Some m \<Rightarrow> m
          | None \<Rightarrow> agent_metadata_default\<lparr>agent_id := Some t, agent_path_of := Some root\<rparr>);
          r1 = r\<lparr>agent_tree := fmupd ROOT entry (agent_tree r)\<rparr>
      in case agent_id entry of
           Some root_thread_id \<Rightarrow>
             r1\<lparr>thread_paths := fmupd root_thread_id (registered_agent_new ROOT) (thread_paths r1)\<rparr>
         | None \<Rightarrow> r1)"

definition agent_id_for_path :: "agent_path \<Rightarrow> 'env agent_registry \<Rightarrow> thread_id option" where
  "agent_id_for_path p r = Option.bind (fmlookup (agent_tree r) (as_str p)) agent_id"

definition agent_metadata_for_thread :: "thread_id \<Rightarrow> 'env agent_registry \<Rightarrow> agent_metadata option" where
  "agent_metadata_for_thread t r =
     Option.bind (fmlookup (thread_paths r) t) (\<lambda>agent. fmlookup (agent_tree r) (ra_path agent))"

definition save_evicted_environments ::
  "thread_id \<Rightarrow> 'env list \<Rightarrow> 'env agent_registry \<Rightarrow> 'env agent_registry" where
  "save_evicted_environments t envs r =
     (case fmlookup (thread_paths r) t of
        Some agent \<Rightarrow> r\<lparr>thread_paths :=
          fmupd t (agent\<lparr>evicted_environments := Some envs\<rparr>) (thread_paths r)\<rparr>
      | None \<Rightarrow> r)"

definition evicted_environments_for :: "thread_id \<Rightarrow> 'env agent_registry \<Rightarrow> 'env list option" where
  "evicted_environments_for t r = Option.bind (fmlookup (thread_paths r) t) evicted_environments"

definition clear_evicted_environments :: "thread_id \<Rightarrow> 'env agent_registry \<Rightarrow> 'env agent_registry" where
  "clear_evicted_environments t r =
     (case fmlookup (thread_paths r) t of
        Some agent \<Rightarrow> r\<lparr>thread_paths :=
          fmupd t (agent\<lparr>evicted_environments := None\<rparr>) (thread_paths r)\<rparr>
      | None \<Rightarrow> r)"

text \<open>The order of a \<open>HashMap\<close>'s values is unspecified; the model lists them by key.\<close>

definition live_agents :: "'env agent_registry \<Rightarrow> agent_metadata list" where
  "live_agents r = filter (\<lambda>m. agent_id m \<noteq> None \<and> \<not> has_root_path m)
     (map snd (sorted_list_of_fmap (agent_tree r)))"

definition metadata_key :: "thread_id \<Rightarrow> agent_metadata \<Rightarrow> str" where
  "metadata_key t m = (case agent_path_of m of Some p \<Rightarrow> as_str p | None \<Rightarrow> lit ''thread:'' @ t)"

definition register_spawned_thread :: "agent_metadata \<Rightarrow> 'env agent_registry \<Rightarrow> 'env agent_registry" where
  "register_spawned_thread m r =
     (case agent_id m of
        None \<Rightarrow> r
      | Some t \<Rightarrow>
          (let key = metadata_key t m;
               r1 = (case agent_nickname m of
                   Some n \<Rightarrow> r\<lparr>used_agent_nicknames := finsert n (used_agent_nicknames r)\<rparr>
                 | None \<Rightarrow> r);
               previous_agent = fmlookup (thread_paths r1) t;
               r2 = r1\<lparr>thread_paths := fmupd t (registered_agent_new key) (thread_paths r1)\<rparr>;
               r3 = (case previous_agent of
                   Some previous \<Rightarrow>
                     if ra_path previous \<noteq> key
                     then r2\<lparr>agent_tree := fmdrop (ra_path previous) (agent_tree r2)\<rparr> else r2
                 | None \<Rightarrow> r2);
               previous_metadata = fmlookup (agent_tree r3) key;
               r4 = r3\<lparr>agent_tree := fmupd key m (agent_tree r3)\<rparr>
           in case Option.bind previous_metadata agent_id of
                Some previous_thread_id \<Rightarrow>
                  if previous_thread_id \<noteq> t
                  then r4\<lparr>thread_paths := fmdrop previous_thread_id (thread_paths r4)\<rparr> else r4
              | None \<Rightarrow> r4))"

definition reserve_agent_nickname ::
  "(str list \<Rightarrow> str option) \<Rightarrow> str list \<Rightarrow> str option \<Rightarrow> 'env agent_registry
     \<Rightarrow> str option \<times> 'env agent_registry" where
  "reserve_agent_nickname pick names preferred r =
     (let mark = (\<lambda>n r'. (Some n, r'\<lparr>used_agent_nicknames := finsert n (used_agent_nicknames r')\<rparr>))
      in case preferred of
           Some p \<Rightarrow> mark p r
         | None \<Rightarrow>
             if names = [] then (None, r)
             else
               (let available = filter (\<lambda>n. n |\<notin>| used_agent_nicknames r)
                      (map (\<lambda>n. format_agent_nickname n (nickname_reset_count r)) names)
                in case pick available of
                     Some n \<Rightarrow> mark n r
                   | None \<Rightarrow>
                       (let r1 = r\<lparr>used_agent_nicknames := {||},
                                   nickname_reset_count := nickname_reset_count r + 1\<rparr>
                        in case pick names of
                             None \<Rightarrow> (None, r1)
                           | Some n \<Rightarrow> mark (format_agent_nickname n (nickname_reset_count r1)) r1)))"

definition reserve_agent_path :: "agent_path \<Rightarrow> 'env agent_registry \<Rightarrow> (codex_err + unit) \<times> 'env agent_registry" where
  "reserve_agent_path p r =
     (case fmlookup (agent_tree r) (as_str p) of
        Some _ \<Rightarrow> (Inl (UnsupportedOperation (lit ''agent path `'' @ as_str p @ lit ''` already exists'')), r)
      | None \<Rightarrow> (Inr (), r\<lparr>agent_tree :=
          fmupd (as_str p) (agent_metadata_default\<lparr>agent_path_of := Some p\<rparr>) (agent_tree r)\<rparr>))"

definition release_reserved_agent_path :: "agent_path \<Rightarrow> 'env agent_registry \<Rightarrow> 'env agent_registry" where
  "release_reserved_agent_path p r =
     (case fmlookup (agent_tree r) (as_str p) of
        Some m \<Rightarrow> if agent_id m = None then r\<lparr>agent_tree := fmdrop (as_str p) (agent_tree r)\<rparr> else r
      | None \<Rightarrow> r)"

section \<open>Reservations\<close>

definition reservation_reserve_nickname ::
  "(str list \<Rightarrow> str option) \<Rightarrow> str list \<Rightarrow> str option \<Rightarrow> spawn_reservation \<Rightarrow> 'env agent_registry
     \<Rightarrow> (codex_err + str) \<times> spawn_reservation \<times> 'env agent_registry" where
  "reservation_reserve_nickname pick names preferred sr r =
     (case reserve_agent_nickname pick names preferred r of
        (None, r') \<Rightarrow> (Inl (UnsupportedOperation (lit ''no available agent nicknames'')), sr, r')
      | (Some n, r') \<Rightarrow> (Inr n, sr\<lparr>reserved_agent_nickname := Some n\<rparr>, r'))"

definition reservation_reserve_path ::
  "agent_path \<Rightarrow> spawn_reservation \<Rightarrow> 'env agent_registry
     \<Rightarrow> (codex_err + unit) \<times> spawn_reservation \<times> 'env agent_registry" where
  "reservation_reserve_path p sr r =
     (case reserve_agent_path p r of
        (Inl e, r') \<Rightarrow> (Inl e, sr, r')
      | (Inr _, r') \<Rightarrow> (Inr (), sr\<lparr>reserved_agent_path := Some p\<rparr>, r'))"

definition drop_reservation :: "spawn_reservation \<Rightarrow> 'env agent_registry \<Rightarrow> 'env agent_registry" where
  "drop_reservation sr r =
     (if sr_active sr
      then (let r1 = (case reserved_agent_path sr of
                 Some p \<Rightarrow> release_reserved_agent_path p r | None \<Rightarrow> r)
            in r1\<lparr>total_count := total_count r1 - 1\<rparr>)
      else r)"

text \<open>\<open>commit\<close> consumes the reservation: it is dropped at the end, no longer active.\<close>

definition commit :: "agent_metadata \<Rightarrow> spawn_reservation \<Rightarrow> 'env agent_registry \<Rightarrow> 'env agent_registry" where
  "commit m sr r =
     (let r1 = register_spawned_thread m r
      in drop_reservation (sr\<lparr>reserved_agent_nickname := None, reserved_agent_path := None,
           sr_active := False\<rparr>) r1)"

section \<open>The machine of a session's spawns\<close>

text \<open>
  A session's state is the table and its outstanding reservations; an operation is one call, with
  the reservation it is made on by index.
\<close>

datatype 'env reg_op =
    OpReserve "usize option"
  | OpReservePath nat agent_path
  | OpReserveNickname nat "str list" "str option"
  | OpCommit nat agent_metadata
  | OpDrop nat
  | OpRelease thread_id
  | OpRegisterRoot thread_id
  | OpSaveEnvironments thread_id "'env list"
  | OpClearEnvironments thread_id

type_synonym 'env reg_state = "'env agent_registry \<times> spawn_reservation list"

fun reg_step :: "(str list \<Rightarrow> str option) \<Rightarrow> 'env reg_op \<Rightarrow> 'env reg_state \<Rightarrow> 'env reg_state" where
  "reg_step pick (OpReserve m) (r, srs) =
     (case reserve_spawn_slot m r of (Inl e, r') \<Rightarrow> (r', srs) | (Inr sr, r') \<Rightarrow> (r', srs @ [sr]))"
| "reg_step pick (OpReservePath i p) (r, srs) =
     (if i < length srs
      then (case reservation_reserve_path p (srs ! i) r of (_, sr, r') \<Rightarrow> (r', srs[i := sr]))
      else (r, srs))"
| "reg_step pick (OpReserveNickname i names preferred) (r, srs) =
     (if i < length srs
      then (case reservation_reserve_nickname pick names preferred (srs ! i) r of
              (_, sr, r') \<Rightarrow> (r', srs[i := sr]))
      else (r, srs))"
| "reg_step pick (OpCommit i m) (r, srs) =
     (if i < length srs then (commit m (srs ! i) r, remove_nth i srs) else (r, srs))"
| "reg_step pick (OpDrop i) (r, srs) =
     (if i < length srs then (drop_reservation (srs ! i) r, remove_nth i srs) else (r, srs))"
| "reg_step pick (OpRelease t) (r, srs) = (release_spawned_thread t r, srs)"
| "reg_step pick (OpRegisterRoot t) (r, srs) = (register_root_thread t r, srs)"
| "reg_step pick (OpSaveEnvironments t envs) (r, srs) = (save_evicted_environments t envs r, srs)"
| "reg_step pick (OpClearEnvironments t) (r, srs) = (clear_evicted_environments t r, srs)"

text \<open>
  What the callers guarantee: a committed agent is a new thread whose key holds at most a
  reservation and is not the root; the root is registered for a thread that is not a spawned
  agent; an unlimited reservation is not made at the largest count.
\<close>

fun reg_ok :: "'env reg_state \<Rightarrow> 'env reg_op \<Rightarrow> bool" where
  "reg_ok (r, srs) (OpReserve None) = (total_count r \<noteq> - 1)"
| "reg_ok (r, srs) (OpCommit i m) =
     (\<not> has_root_path m \<and>
      (case agent_id m of
         None \<Rightarrow> False
       | Some t \<Rightarrow> fmlookup (thread_paths r) t = None \<and>
           (case fmlookup (agent_tree r) (metadata_key t m) of
              None \<Rightarrow> True | Some m' \<Rightarrow> agent_id m' = None)))"
| "reg_ok (r, srs) (OpRegisterRoot t) =
     (case fmlookup (thread_paths r) t of None \<Rightarrow> True | Some a \<Rightarrow> ra_path a = ROOT)"
| "reg_ok (r, srs) _ = True"

definition counted_md :: "agent_metadata \<Rightarrow> bool" where
  "counted_md m \<longleftrightarrow> agent_id m \<noteq> None \<and> \<not> has_root_path m"

definition counted_keys :: "(str, agent_metadata) fmap \<Rightarrow> str set" where
  "counted_keys tr = {k. \<exists>m. fmlookup tr k = Some m \<and> counted_md m}"

text \<open>Threads and occupied keys are in one-to-one correspondence.\<close>

definition linked :: "(str, agent_metadata) fmap \<Rightarrow> (thread_id, 'env registered_agent) fmap \<Rightarrow> bool" where
  "linked tr tp \<longleftrightarrow>
     (\<forall>t a. fmlookup tp t = Some a \<longrightarrow> (\<exists>m. fmlookup tr (ra_path a) = Some m \<and> agent_id m = Some t)) \<and>
     (\<forall>k m t. fmlookup tr k = Some m \<and> agent_id m = Some t \<longrightarrow>
        (\<exists>a. fmlookup tp t = Some a \<and> ra_path a = k))"

text \<open>An entry with a path is stored under that path.\<close>

definition keyed :: "(str, agent_metadata) fmap \<Rightarrow> bool" where
  "keyed tr \<longleftrightarrow> (\<forall>k m p. fmlookup tr k = Some m \<and> agent_path_of m = Some p \<longrightarrow> k = as_str p)"

definition reg_inv :: "'env reg_state \<Rightarrow> bool" where
  "reg_inv = (\<lambda>(r, srs). linked (agent_tree r) (thread_paths r) \<and> keyed (agent_tree r) \<and>
     (\<forall>sr \<in> set srs. sr_active sr) \<and>
     unat (total_count r) = card (counted_keys (agent_tree r)) + length srs)"

lemma finite_counted_keys [simp]: "finite (counted_keys tr)"
proof -
  have "counted_keys tr \<subseteq> fset (fmdom tr)"
    by (auto simp: counted_keys_def intro: fmdomI)
  then show ?thesis by (rule finite_subset) simp
qed

lemma counted_keys_upd:
  "counted_keys (fmupd k m tr) = (if counted_md m then insert k (counted_keys tr) else counted_keys tr - {k})"
  by (auto simp: counted_keys_def)

lemma counted_keys_drop: "counted_keys (fmdrop k tr) = counted_keys tr - {k}"
  by (auto simp: counted_keys_def split: if_splits)

lemma counted_keys_iff: "k \<in> counted_keys tr \<longleftrightarrow> (\<exists>m. fmlookup tr k = Some m \<and> counted_md m)"
  by (simp add: counted_keys_def)

lemma keyed_upd: "keyed tr \<Longrightarrow> (\<And>p. agent_path_of m = Some p \<Longrightarrow> k = as_str p) \<Longrightarrow> keyed (fmupd k m tr)"
  by (auto simp: keyed_def)

lemma keyed_drop: "keyed tr \<Longrightarrow> keyed (fmdrop k tr)"
  by (auto simp: keyed_def split: if_splits)

lemma keyed_upd_key: "keyed tr \<Longrightarrow> keyed (fmupd (metadata_key t m) m tr)"
  by (rule keyed_upd) (auto simp: metadata_key_def)

lemmas counted_simps = counted_keys_upd counted_keys_drop counted_keys_iff

lemma linked_threadD:
  "linked tr tp \<Longrightarrow> fmlookup tp t = Some a \<Longrightarrow> \<exists>m. fmlookup tr (ra_path a) = Some m \<and> agent_id m = Some t"
  by (auto simp: linked_def)

lemma linked_keyD:
  "linked tr tp \<Longrightarrow> fmlookup tr k = Some m \<Longrightarrow> agent_id m = Some t \<Longrightarrow>
     \<exists>a. fmlookup tp t = Some a \<and> ra_path a = k"
  by (auto simp: linked_def)

lemma linkedI:
  assumes "\<And>t a. fmlookup tp t = Some a \<Longrightarrow> \<exists>m. fmlookup tr (ra_path a) = Some m \<and> agent_id m = Some t"
    and "\<And>k m t. fmlookup tr k = Some m \<Longrightarrow> agent_id m = Some t \<Longrightarrow>
      \<exists>a. fmlookup tp t = Some a \<and> ra_path a = k"
  shows "linked tr tp"
  using assms by (auto simp: linked_def)

lemma linked_release:
  assumes "linked tr tp" "fmlookup tp t = Some a"
  shows "linked (fmdrop (ra_path a) tr) (fmdrop t tp)"
proof (rule linkedI)
  fix t' a' assume "fmlookup (fmdrop t tp) t' = Some a'"
  then have t': "t' \<noteq> t" "fmlookup tp t' = Some a'" by (auto split: if_splits)
  then obtain m where m: "fmlookup tr (ra_path a') = Some m" "agent_id m = Some t'"
    using assms(1) linked_threadD by blast
  moreover have "ra_path a' \<noteq> ra_path a" using m t' linked_threadD [OF assms] by auto
  ultimately show "\<exists>m. fmlookup (fmdrop (ra_path a) tr) (ra_path a') = Some m \<and> agent_id m = Some t'"
    by auto
next
  fix k m t' assume "fmlookup (fmdrop (ra_path a) tr) k = Some m" and m: "agent_id m = Some t'"
  then have k: "k \<noteq> ra_path a" "fmlookup tr k = Some m" by (auto split: if_splits)
  then obtain b where b: "fmlookup tp t' = Some b" "ra_path b = k"
    using assms(1) m linked_keyD by blast
  moreover have "t' \<noteq> t" using b k assms(2) by auto
  ultimately show "\<exists>a. fmlookup (fmdrop t tp) t' = Some a \<and> ra_path a = k" by auto
qed

lemma linked_vacant_upd:
  assumes "linked tr tp" "agent_id m = None" "\<And>m'. fmlookup tr k = Some m' \<Longrightarrow> agent_id m' = None"
  shows "linked (fmupd k m tr) tp"
proof (rule linkedI)
  fix t a assume "fmlookup tp t = Some a"
  then obtain m' where "fmlookup tr (ra_path a) = Some m'" "agent_id m' = Some t"
    using assms(1) linked_threadD by blast
  then show "\<exists>m'. fmlookup (fmupd k m tr) (ra_path a) = Some m' \<and> agent_id m' = Some t"
    using assms(3) by force
next
  fix k' m' t assume "fmlookup (fmupd k m tr) k' = Some m'" "agent_id m' = Some t"
  then show "\<exists>a. fmlookup tp t = Some a \<and> ra_path a = k'"
    using assms(1,2) linked_keyD by (fastforce split: if_splits)
qed

lemma linked_vacant_drop:
  assumes "linked tr tp" "\<And>m'. fmlookup tr k = Some m' \<Longrightarrow> agent_id m' = None"
  shows "linked (fmdrop k tr) tp"
proof (rule linkedI)
  fix t a assume "fmlookup tp t = Some a"
  then obtain m' where "fmlookup tr (ra_path a) = Some m'" "agent_id m' = Some t"
    using assms(1) linked_threadD by blast
  then show "\<exists>m'. fmlookup (fmdrop k tr) (ra_path a) = Some m' \<and> agent_id m' = Some t"
    using assms(2) by force
next
  fix k' m' t assume "fmlookup (fmdrop k tr) k' = Some m'" "agent_id m' = Some t"
  then show "\<exists>a. fmlookup tp t = Some a \<and> ra_path a = k'"
    using assms(1) linked_keyD by (fastforce split: if_splits)
qed

lemma linked_same_path:
  assumes "linked tr tp" "fmlookup tp t = Some a" "ra_path b = ra_path a"
  shows "linked tr (fmupd t b tp)"
proof (rule linkedI)
  fix t' a' assume "fmlookup (fmupd t b tp) t' = Some a'"
  then obtain a'' where "fmlookup tp t' = Some a''" "ra_path a' = ra_path a''"
    using assms(2,3) by (metis fmupd_lookup option.inject)
  then show "\<exists>m. fmlookup tr (ra_path a') = Some m \<and> agent_id m = Some t'"
    using assms(1) linked_threadD by metis
next
  fix k m t' assume "fmlookup tr k = Some m" "agent_id m = Some t'"
  then obtain a' where "fmlookup tp t' = Some a'" "ra_path a' = k"
    using assms(1) linked_keyD by blast
  then show "\<exists>a. fmlookup (fmupd t b tp) t' = Some a \<and> ra_path a = k"
    using assms(2,3) by (metis fmupd_lookup option.inject)
qed

lemma linked_new:
  assumes "linked tr tp" "fmlookup tp t = None" "agent_id m = Some t"
    "\<And>m'. fmlookup tr k = Some m' \<Longrightarrow> agent_id m' = None" "ra_path a = k"
  shows "linked (fmupd k m tr) (fmupd t a tp)"
proof (rule linkedI)
  fix t' a' assume l: "fmlookup (fmupd t a tp) t' = Some a'"
  show "\<exists>m'. fmlookup (fmupd k m tr) (ra_path a') = Some m' \<and> agent_id m' = Some t'"
  proof (cases "t' = t")
    case True
    then show ?thesis using l assms(3,5) by auto
  next
    case False
    then obtain m' where "fmlookup tr (ra_path a') = Some m'" "agent_id m' = Some t'"
      using l assms(1) linked_threadD by (metis fmupd_lookup)
    then show ?thesis using assms(4) by force
  qed
next
  fix k' m' t' assume l: "fmlookup (fmupd k m tr) k' = Some m'" "agent_id m' = Some t'"
  show "\<exists>a'. fmlookup (fmupd t a tp) t' = Some a' \<and> ra_path a' = k'"
  proof (cases "k' = k")
    case True
    then show ?thesis using l assms(3,5) by auto
  next
    case False
    then obtain a' where "fmlookup tp t' = Some a'" "ra_path a' = k'"
      using l assms(1) linked_keyD by (metis fmupd_lookup)
    then show ?thesis using assms(2) by auto
  qed
qed

section \<open>Every operation keeps the invariant\<close>

lemma inv_reserve:
  assumes "reg_inv (r, srs)" "reg_ok (r, srs) (OpReserve m)"
  shows "reg_inv (reg_step pick (OpReserve m) (r, srs))"
proof (cases m)
  case None
  then have "total_count r \<noteq> - 1" using assms(2) by simp
  then have "unat (total_count r + 1) = Suc (unat (total_count r))"
    by (metis add.commute add_eq_0_iff unatSuc)
  then show ?thesis using assms(1) None
    by (auto simp: reg_inv_def reserve_spawn_slot_def new_reservation_def)
next
  case (Some x)
  then show ?thesis using assms(1) unat_plus_one_less [of "total_count r" x]
    by (auto simp: reg_inv_def reserve_spawn_slot_def try_increment_spawned_def new_reservation_def
        not_le split: prod.splits)
qed

lemma inv_reserve_path:
  assumes "reg_inv (r, srs)"
  shows "reg_inv (reg_step pick (OpReservePath i p) (r, srs))"
proof (cases "i < length srs \<and> fmlookup (agent_tree r) (as_str p) = None")
  case False
  then show ?thesis using assms
    by (auto simp: reservation_reserve_path_def reserve_agent_path_def)
next
  case True
  let ?m = "agent_metadata_default\<lparr>agent_path_of := Some p\<rparr>"
  have "linked (fmupd (as_str p) ?m (agent_tree r)) (thread_paths r)"
    using assms True by (intro linked_vacant_upd) (auto simp: reg_inv_def agent_metadata_default_def)
  moreover have "counted_keys (fmupd (as_str p) ?m (agent_tree r)) = counted_keys (agent_tree r)"
    using True by (auto simp: counted_simps counted_md_def agent_metadata_default_def)
  moreover have "sr_active (srs ! i)" using assms True by (auto simp: reg_inv_def)
  moreover have "keyed (fmupd (as_str p) ?m (agent_tree r))"
    using assms by (intro keyed_upd) (auto simp: reg_inv_def)
  ultimately show ?thesis using assms True
    by (auto simp: reservation_reserve_path_def reserve_agent_path_def reg_inv_def
        dest: set_update_subset_insert [THEN subsetD])
qed

lemma reserve_agent_nickname_frame:
  "reserve_agent_nickname pick names preferred r = (res, r') \<Longrightarrow>
     agent_tree r' = agent_tree r \<and> thread_paths r' = thread_paths r \<and> total_count r' = total_count r"
  by (auto simp: reserve_agent_nickname_def Let_def split: option.splits if_splits)

lemma inv_reserve_nickname:
  assumes "reg_inv (r, srs)"
  shows "reg_inv (reg_step pick (OpReserveNickname i names preferred) (r, srs))"
proof (cases "i < length srs")
  case True
  obtain res r' where rn: "reserve_agent_nickname pick names preferred r = (res, r')" by fastforce
  have "sr_active (srs ! i)" using assms True by (auto simp: reg_inv_def)
  then show ?thesis using assms True rn reserve_agent_nickname_frame [OF rn]
    by (cases res) (auto simp: reservation_reserve_nickname_def reg_inv_def
        dest: set_update_subset_insert [THEN subsetD])
next
  case False
  then show ?thesis using assms by simp
qed

lemma length_remove_nth: "i < length xs \<Longrightarrow> length (remove_nth i xs) = length xs - 1"
  by (simp add: remove_nth_def)

lemma register_spawned_fresh:
  assumes "agent_id m = Some t" "fmlookup (thread_paths r) t = None"
    "\<And>m'. fmlookup (agent_tree r) (metadata_key t m) = Some m' \<Longrightarrow> agent_id m' = None"
  shows "agent_tree (register_spawned_thread m r) = fmupd (metadata_key t m) m (agent_tree r)"
    and "thread_paths (register_spawned_thread m r) =
      fmupd t (registered_agent_new (metadata_key t m)) (thread_paths r)"
    and "total_count (register_spawned_thread m r) = total_count r"
proof -
  have "Option.bind (fmlookup (agent_tree r) (metadata_key t m)) agent_id = None"
    using assms(3) by (cases "fmlookup (agent_tree r) (metadata_key t m)") auto
  then show "agent_tree (register_spawned_thread m r) = fmupd (metadata_key t m) m (agent_tree r)"
    and "thread_paths (register_spawned_thread m r) =
      fmupd t (registered_agent_new (metadata_key t m)) (thread_paths r)"
    and "total_count (register_spawned_thread m r) = total_count r"
    using assms(1,2) by (simp_all add: register_spawned_thread_def Let_def split: option.split)
qed

lemma commit_eq: "commit m sr r = register_spawned_thread m r"
  by (simp add: commit_def drop_reservation_def)

lemma inv_commit:
  assumes "reg_inv (r, srs)" "reg_ok (r, srs) (OpCommit i m)"
  shows "reg_inv (reg_step pick (OpCommit i m) (r, srs))"
proof (cases "i < length srs")
  case False
  then show ?thesis using assms by simp
next
  case True
  from assms(2) obtain t where t: "agent_id m = Some t" "fmlookup (thread_paths r) t = None"
    "\<And>m'. fmlookup (agent_tree r) (metadata_key t m) = Some m' \<Longrightarrow> agent_id m' = None"
    and nr: "\<not> has_root_path m"
    by (auto split: option.splits)
  note new = register_spawned_fresh [OF t]
  have "linked (fmupd (metadata_key t m) m (agent_tree r))
      (fmupd t (registered_agent_new (metadata_key t m)) (thread_paths r))"
    using assms(1) t by (intro linked_new) (auto simp: reg_inv_def registered_agent_new_def)
  moreover have "metadata_key t m \<notin> counted_keys (agent_tree r)"
    using t(3) by (auto simp: counted_simps counted_md_def)
  then have "card (counted_keys (fmupd (metadata_key t m) m (agent_tree r)))
      = Suc (card (counted_keys (agent_tree r)))"
    using t(1) nr by (simp add: counted_keys_upd counted_md_def)
  moreover have "keyed (fmupd (metadata_key t m) m (agent_tree r))"
    using assms(1) by (intro keyed_upd_key) (simp add: reg_inv_def)
  ultimately show ?thesis using assms(1) True
    by (auto simp: reg_inv_def commit_eq new length_remove_nth dest: set_remove_nth [THEN subsetD])
qed

lemma inv_drop:
  assumes "reg_inv (r, srs)"
  shows "reg_inv (reg_step pick (OpDrop i) (r, srs))"
proof (cases "i < length srs")
  case False
  then show ?thesis using assms by simp
next
  case True
  have act: "sr_active (srs ! i)" using assms True by (auto simp: reg_inv_def)
  have rel: "linked (agent_tree (release_reserved_agent_path p r)) (thread_paths r) \<and>
      keyed (agent_tree (release_reserved_agent_path p r)) \<and>
      counted_keys (agent_tree (release_reserved_agent_path p r)) = counted_keys (agent_tree r)" for p
    using assms linked_vacant_drop [of "agent_tree r" "thread_paths r" "as_str p"]
    by (auto simp: release_reserved_agent_path_def reg_inv_def counted_simps counted_md_def
        keyed_drop split: option.splits)
  have rel': "thread_paths (release_reserved_agent_path p r) = thread_paths r"
    "total_count (release_reserved_agent_path p r) = total_count r" for p
    by (auto simp: release_reserved_agent_path_def split: option.splits)
  have "unat (total_count r) \<ge> 1" using assms True by (auto simp: reg_inv_def)
  then have "unat (total_count r - 1) = unat (total_count r) - 1"
    by (intro unat_minus_one_pos) auto
  then show ?thesis using assms True act rel rel'
    by (auto simp: reg_inv_def drop_reservation_def length_remove_nth Let_def
        dest: set_remove_nth [THEN subsetD] split: option.splits)
qed

lemma inv_release:
  assumes "reg_inv (r, srs)"
  shows "reg_inv (reg_step pick (OpRelease t) (r, srs))"
proof (cases "fmlookup (thread_paths r) t")
  case None
  then show ?thesis using assms by (simp add: release_spawned_thread_def)
next
  case (Some a)
  then obtain m where m: "fmlookup (agent_tree r) (ra_path a) = Some m" "agent_id m = Some t"
    using assms linked_threadD by (fastforce simp: reg_inv_def)
  have l: "linked (fmdrop (ra_path a) (agent_tree r)) (fmdrop t (thread_paths r))"
    using assms Some by (intro linked_release) (auto simp: reg_inv_def)
  show ?thesis
  proof (cases "has_root_path m")
    case True
    then have "counted_keys (fmdrop (ra_path a) (agent_tree r)) = counted_keys (agent_tree r)"
      using m by (auto simp: counted_simps counted_md_def)
    then show ?thesis using assms Some m True l
      by (simp add: reg_inv_def release_spawned_thread_def keyed_drop)
  next
    case False
    then have "ra_path a \<in> counted_keys (agent_tree r)"
      using m by (auto simp: counted_simps counted_md_def)
    then have c: "card (counted_keys (agent_tree r)) =
        Suc (card (counted_keys (fmdrop (ra_path a) (agent_tree r))))"
      by (metis card.remove counted_keys_drop finite_counted_keys)
    then have "total_count r \<noteq> 0" using assms by (auto simp: reg_inv_def)
    then have "unat (total_count r - 1) = unat (total_count r) - 1" by (rule unat_minus_one_pos)
    then show ?thesis using assms Some m False l c
      by (simp add: reg_inv_def release_spawned_thread_def keyed_drop)
  qed
qed

lemma inv_register_root:
  assumes "reg_inv (r, srs)" "reg_ok (r, srs) (OpRegisterRoot t)"
  shows "reg_inv (reg_step pick (OpRegisterRoot t) (r, srs))"
proof (cases "fmlookup (agent_tree r) ROOT")
  case None
  let ?m = "agent_metadata_default\<lparr>agent_id := Some t, agent_path_of := Some root\<rparr>"
  have lk: "linked (agent_tree r) (thread_paths r)" using assms(1) by (simp add: reg_inv_def)
  have "fmlookup (thread_paths r) t = None"
  proof (rule ccontr)
    assume "fmlookup (thread_paths r) t \<noteq> None"
    then obtain a where "fmlookup (thread_paths r) t = Some a" "ra_path a = ROOT"
      using assms(2) by (auto split: option.splits)
    then show False using linked_threadD [OF lk] None by fastforce
  qed
  then have "linked (fmupd ROOT ?m (agent_tree r)) (fmupd t (registered_agent_new ROOT) (thread_paths r))"
    using lk None by (intro linked_new) (auto simp: registered_agent_new_def)
  moreover have "counted_keys (fmupd ROOT ?m (agent_tree r)) = counted_keys (agent_tree r)"
    using None by (auto simp: counted_simps counted_md_def has_root_path_def is_root_def root_def)
  moreover have "keyed (fmupd ROOT ?m (agent_tree r))"
    using assms(1) by (intro keyed_upd) (auto simp: reg_inv_def root_def)
  ultimately show ?thesis using assms(1) None
    by (simp add: reg_inv_def register_root_thread_def)
next
  case (Some m)
  show ?thesis
  proof (cases "agent_id m")
    case None
    then show ?thesis using assms(1) Some
      by (simp add: reg_inv_def register_root_thread_def fmupd_same)
  next
    case (Some t')
    have "linked (agent_tree r) (thread_paths r)" using assms(1) by (simp add: reg_inv_def)
    from linked_keyD [OF this \<open>fmlookup (agent_tree r) ROOT = Some m\<close> Some] obtain a where
      "fmlookup (thread_paths r) t' = Some a" "ra_path a = ROOT" by blast
    then have "linked (agent_tree r) (fmupd t' (registered_agent_new ROOT) (thread_paths r))"
      using assms(1) by (intro linked_same_path) (auto simp: reg_inv_def registered_agent_new_def)
    then show ?thesis using assms(1) Some \<open>fmlookup (agent_tree r) ROOT = Some m\<close>
      by (simp add: reg_inv_def register_root_thread_def fmupd_same)
  qed
qed

lemma inv_environments:
  assumes "reg_inv (r, srs)"
  shows "reg_inv (reg_step pick (OpSaveEnvironments t envs) (r, srs))"
    and "reg_inv (reg_step pick (OpClearEnvironments t) (r, srs))"
  using assms linked_same_path [of "agent_tree r" "thread_paths r" t]
  by (auto simp: reg_inv_def save_evicted_environments_def clear_evicted_environments_def
      split: option.splits)

interpretation registry: guarded_machine "reg_step pick" reg_inv reg_ok for pick
proof
  fix s :: "'a reg_state" and x
  assume a: "reg_inv s" "reg_ok s x"
  obtain r srs where s: "s = (r, srs)" by (cases s)
  show "reg_inv (reg_step pick x s)"
  proof (cases x)
    case (OpReserve m)
    then show ?thesis using a s inv_reserve by blast
  next
    case (OpCommit i m)
    then show ?thesis using a s inv_commit by blast
  next
    case (OpRegisterRoot t)
    then show ?thesis using a s inv_register_root by blast
  qed (use a s in \<open>simp_all only: inv_reserve_path inv_reserve_nickname inv_drop inv_release
        inv_environments\<close>)
qed

section \<open>Properties\<close>

lemma reg_inv_empty: "reg_inv (empty_registry, [])"
  by (simp add: reg_inv_def empty_registry_def linked_def keyed_def counted_keys_def)

lemma reg_inv_run:
  "allowed_run reg_ok (reg_step pick) ops (empty_registry, []) \<Longrightarrow>
     run_ops (reg_step pick) ops (empty_registry, []) = s \<Longrightarrow> reg_inv s"
  using registry.run_inv [OF reg_inv_empty] by blast

lemma length_filter_values:
  "length (filter P (map snd (sorted_list_of_fmap m))) = card {k. \<exists>v. fmlookup m k = Some v \<and> P v}"
proof -
  let ?l = "filter (\<lambda>kv. P (snd kv)) (sorted_list_of_fmap m)"
  have "distinct (map fst (sorted_list_of_fmap m))" by simp
  then have "distinct (map fst ?l)" by (rule distinct_map_filter)
  moreover have "set (map fst ?l) = {k. \<exists>v. fmlookup m k = Some v \<and> P v}"
    by (auto simp: image_iff in_sorted_list_of_fmap Bex_def split_paired_Ex)
  ultimately have "card {k. \<exists>v. fmlookup m k = Some v \<and> P v} = length ?l"
    by (metis distinct_card length_map)
  then show ?thesis by (simp add: filter_map comp_def)
qed

lemma length_live_agents: "length (live_agents r) = card (counted_keys (agent_tree r))"
  unfolding live_agents_def length_filter_values counted_keys_def counted_md_def ..


definition sample_metadata :: agent_metadata where
  "sample_metadata = \<lparr>agent_id = Some (lit ''t1''), agent_path_of = Some (AgentPath (lit ''/root/a'')),
     agent_nickname = Some (lit ''Ada''), agent_role = None\<rparr>"

definition sample_ops :: "unit reg_op list" where
  "sample_ops = [OpRegisterRoot (lit ''t0''), OpReserve (Some 2),
     OpReservePath 0 (AgentPath (lit ''/root/a'')), OpCommit 0 sample_metadata, OpReserve (Some 2)]"

lemmas sample_eval = sample_ops_def sample_metadata_def empty_registry_def register_root_thread_def
  reserve_spawn_slot_def try_increment_spawned_def reservation_reserve_path_def reserve_agent_path_def
  commit_eq register_spawned_thread_def metadata_key_def new_reservation_def registered_agent_new_def
  agent_metadata_default_def has_root_path_def is_root_def root_def ROOT_def Let_def remove_nth_def lit_eval word_le_nat_alt

lemma sample_allowed: "allowed_run reg_ok (reg_step pick) sample_ops (empty_registry, [])"
  by (simp add: sample_eval)

lemma sample_run: "\<exists>r. run_ops (reg_step pick) sample_ops (empty_registry, []) = (r, [new_reservation])
    \<and> total_count r = 2 \<and> agent_metadata_for_thread (lit ''t1'') r = Some sample_metadata"
  by (simp add: sample_eval agent_metadata_for_thread_def)




text \<open>The limited machine: every reservation is made under a limit of at most \<open>m\<close>.\<close>

fun limited_op :: "usize \<Rightarrow> 'env reg_op \<Rightarrow> bool" where
  "limited_op m (OpReserve lim) = (case lim of Some k \<Rightarrow> k \<le> m | None \<Rightarrow> False)"
| "limited_op m _ = True"

lemma total_count_step:
  assumes "reg_inv s" "reg_ok s x" "limited_op m x" "total_count (fst s) \<le> m"
  shows "total_count (fst (reg_step pick x s)) \<le> m"
proof -
  obtain r srs where s: "s = (r, srs)" by (cases s)
  have dec: "total_count r - 1 \<le> m" if "total_count r \<noteq> 0"
    using that assms(4) s by (simp add: word_le_nat_alt unat_minus_one_pos)
  show ?thesis
  proof (cases x)
    case (OpReserve lim)
    then obtain k where k: "lim = Some k" "k \<le> m" using assms(3) by (auto split: option.splits)
    have "total_count r + 1 \<le> m" if "\<not> k \<le> total_count r"
      using that k(2) unat_plus_one_less [of "total_count r" k]
      by (simp add: word_le_nat_alt word_less_nat_alt not_le)
    then show ?thesis using OpReserve k s assms(4)
      by (auto simp: reserve_spawn_slot_def try_increment_spawned_def split: prod.splits)
  next
    case (OpReservePath i p)
    then show ?thesis using s assms(4)
      by (auto simp: reservation_reserve_path_def reserve_agent_path_def split: option.splits)
  next
    case (OpReserveNickname i names preferred)
    then show ?thesis using s assms(4)
      by (auto simp: reservation_reserve_nickname_def split: prod.splits option.splits
          dest!: reserve_agent_nickname_frame)
  next
    case (OpCommit i md)
    then have "total_count (commit md (srs ! i) r) = total_count r" if "i < length srs"
      using assms(2) s register_spawned_fresh(3) [of md _ r]
      by (auto simp: commit_eq split: option.splits)
    then show ?thesis using OpCommit s assms(4) by simp
  next
    case (OpDrop i)
    have "total_count r \<noteq> 0" if "i < length srs" using assms(1) s that by (auto simp: reg_inv_def)
    then show ?thesis using OpDrop s assms(4) dec
      by (auto simp: drop_reservation_def release_reserved_agent_path_def Let_def split: option.splits)
  next
    case (OpRelease t)
    have "total_count r \<noteq> 0" if l: "fmlookup (thread_paths r) t = Some a"
      "fmlookup (agent_tree r) (ra_path a) = Some md" "\<not> has_root_path md" for a md
    proof -
      have "linked (agent_tree r) (thread_paths r)" using assms(1) s by (simp add: reg_inv_def)
      from linked_threadD [OF this l(1)] have "ra_path a \<in> counted_keys (agent_tree r)"
        using l by (auto simp: counted_keys_iff counted_md_def)
      then have "card (counted_keys (agent_tree r)) > 0" by (auto simp: card_gt_0_iff)
      then show ?thesis using assms(1) s by (auto simp: reg_inv_def)
    qed
    then show ?thesis using OpRelease s assms(4) dec
      by (auto simp: release_spawned_thread_def Let_def split: option.splits)
  next
    case (OpRegisterRoot t)
    then show ?thesis using s assms(4)
      by (auto simp: register_root_thread_def Let_def split: option.splits)
  qed (use s assms(4) in \<open>auto simp: save_evicted_environments_def clear_evicted_environments_def
        split: option.splits\<close>)
qed

interpretation limited_registry: guarded_machine "reg_step pick"
  "\<lambda>s. reg_inv s \<and> total_count (fst s) \<le> m" "\<lambda>s x. reg_ok s x \<and> limited_op m x" for pick m
  by unfold_locales (auto simp: total_count_step registry.step_inv)

text \<open>
  When every spawn is made under a limit of at most \<open>m\<close>, the counter never exceeds \<open>m\<close>,
  so there are never more than \<open>m\<close> live agents and outstanding reservations together.
\<close>

theorem registry_limit_respected:
  assumes "allowed_run (\<lambda>s x. reg_ok s x \<and> limited_op m x) (reg_step pick) ops (empty_registry, [])"
    and "run_ops (reg_step pick) ops (empty_registry, []) = (r, srs)"
  shows "length (live_agents r) + length srs \<le> unat m"
proof -
  have "reg_inv (empty_registry, []) \<and> total_count (fst (empty_registry, [])) \<le> m"
    by (simp add: reg_inv_empty) (simp add: empty_registry_def)
  from limited_registry.run_inv [OF this assms(1)] assms(2)
  have "reg_inv (r, srs) \<and> total_count r \<le> m" by simp
  then show ?thesis by (simp add: reg_inv_def length_live_agents word_le_nat_alt)
qed

theorem registry_limit_respected_witness:
  "\<exists>r. run_ops (reg_step (\<lambda>_. None)) sample_ops (empty_registry, []) = (r, [new_reservation])
    \<and> length (live_agents r) + 1 \<le> 2"
proof -
  obtain r where r: "run_ops (reg_step (\<lambda>_. None)) sample_ops (empty_registry, []) = (r, [new_reservation])"
    using sample_run by blast
  have "allowed_run (\<lambda>s x. reg_ok s x \<and> limited_op 2 x) (reg_step (\<lambda>_. None)) sample_ops (empty_registry, [])"
    by (simp add: sample_eval)
  from registry_limit_respected [OF this r] show ?thesis using r by auto
qed

text \<open>
  A nickname drawn from a non-empty pool is always granted. It is one no agent uses in the
  current generation of the pool; only when all names of the generation are taken is the pool
  reset, and then the name is the only used one of the next generation.
\<close>

theorem nickname_unused_or_reset:
  assumes pick: "\<And>xs. pick xs = None \<longleftrightarrow> xs = []" "\<And>xs x. pick xs = Some x \<Longrightarrow> x \<in> set xs"
    and "names \<noteq> []"
  shows "\<exists>n r'. reserve_agent_nickname pick names None r = (Some n, r') \<and> n |\<in>| used_agent_nicknames r' \<and>
    (n |\<notin>| used_agent_nicknames r \<and> nickname_reset_count r' = nickname_reset_count r \<or>
     (\<forall>x \<in> set names. format_agent_nickname x (nickname_reset_count r) |\<in>| used_agent_nicknames r) \<and>
     nickname_reset_count r' = nickname_reset_count r + 1 \<and> used_agent_nicknames r' = {|n|})"
proof -
  let ?av = "filter (\<lambda>n. n |\<notin>| used_agent_nicknames r)
    (map (\<lambda>n. format_agent_nickname n (nickname_reset_count r)) names)"
  show ?thesis
  proof (cases "pick ?av")
    case (Some n)
    then have "n |\<notin>| used_agent_nicknames r" using pick(2) [of ?av n] by auto
    then show ?thesis using Some assms(3) by (simp add: reserve_agent_nickname_def Let_def)
  next
    case None
    then have "?av = []" by (simp only: pick(1))
    then have all: "\<forall>x \<in> set names. format_agent_nickname x (nickname_reset_count r) |\<in>| used_agent_nicknames r"
      by (auto simp: filter_empty_conv)
    obtain n where "pick names = Some n" using pick(1) [of names] assms(3) by (cases "pick names") auto
    then show ?thesis using None assms(3) all by (simp add: reserve_agent_nickname_def Let_def)
  qed
qed

theorem nickname_unused_or_reset_witness:
  "\<exists>n r'. reserve_agent_nickname (\<lambda>xs. case xs of [] \<Rightarrow> None | x # _ \<Rightarrow> Some x) [lit ''Ada''] None
     (empty_registry :: unit agent_registry) = (Some n, r') \<and> n |\<in>| used_agent_nicknames r'"
proof -
  have p: "(case xs of [] \<Rightarrow> None | x # _ \<Rightarrow> Some x) = None \<longleftrightarrow> xs = []"
    "(case xs of [] \<Rightarrow> None | x # _ \<Rightarrow> Some x) = Some y \<Longrightarrow> y \<in> set xs" for xs :: "str list" and y
    by (auto split: list.splits)
  show ?thesis
    using nickname_unused_or_reset [of "\<lambda>xs. case xs of [] \<Rightarrow> None | x # _ \<Rightarrow> Some x" "[lit ''Ada'']"
        "empty_registry :: unit agent_registry", OF p] by auto
qed

end
