(* ===== verification/Execution_Limiter.thy ===== *)
theory Execution_Limiter
  imports Protocol_Types
begin

text \<open>
  The limiter on concurrently executing sub-agents, \<open>core/src/agent/control/execution.rs\<close>.
  The counter is an atomic updated by a compare-exchange loop, so the loop is modelled twice:
  as the atomic operation its callers see (\<open>try_reserve\<close>), and as the interleaved steps of any
  number of tasks, with spurious failures of the weak exchange and the three separate atomic
  accesses of the guard's destructor. The second refines an abstract limiter that hands out at
  most \<open>max_threads\<close> permits.
\<close>

record limiter =
  lim_active :: usize
  lim_max :: "usize option"
  lim_generation :: u64
  lim_release_tx :: u64

definition limiter_default :: limiter where
  "limiter_default = \<lparr>lim_active = 0, lim_max = None, lim_generation = 0, lim_release_tx = 0\<rparr>"

text \<open>\<open>OnceLock::get_or_init\<close>: only the first value is kept.\<close>

definition limiter_initialize :: "usize \<Rightarrow> limiter \<Rightarrow> limiter" where
  "limiter_initialize m l = (case lim_max l of None \<Rightarrow> l\<lparr>lim_max := Some m\<rparr> | Some _ \<Rightarrow> l)"

definition max_threads :: "limiter \<Rightarrow> usize" where
  "max_threads l = (case lim_max l of Some m \<Rightarrow> m | None \<Rightarrow> - 1)"

definition has_capacity :: "limiter \<Rightarrow> bool" where
  "has_capacity l \<longleftrightarrow> lim_active l < max_threads l"

definition subscribe_release :: "limiter \<Rightarrow> u64" where
  "subscribe_release l = lim_release_tx l"

definition try_reserve :: "limiter \<Rightarrow> codex_err + limiter" where
  "try_reserve l =
     (if lim_active l \<ge> max_threads l then Inl (AgentLimitReached (max_threads l))
      else Inr (l\<lparr>lim_active := lim_active l + 1\<rparr>))"

definition guard_drop :: "limiter \<Rightarrow> limiter" where
  "guard_drop l =
     (let generation = lim_generation l + 1
      in l\<lparr>lim_active := lim_active l - 1, lim_generation := generation,
           lim_release_tx := generation\<rparr>)"

definition is_execution_limited :: "multi_agent_version \<Rightarrow> session_source \<Rightarrow> bool" where
  "is_execution_limited v src \<longleftrightarrow> v = V2 \<and> is_sub_agent src"

definition ensure_execution_capacity ::
  "limiter \<Rightarrow> multi_agent_version \<Rightarrow> session_source \<Rightarrow> codex_err + unit" where
  "ensure_execution_capacity l v src =
     (if \<not> is_execution_limited v src then Inr ()
      else if has_capacity l then Inr ()
      else Inl (AgentLimitReached (max_threads l)))"

text \<open>
  The session is read through its active-turn slot, its fixed version and the version its
  configuration selects.
\<close>

definition ensure_execution_capacity_for_turn_start ::
  "limiter \<Rightarrow> bool \<Rightarrow> multi_agent_version option \<Rightarrow> multi_agent_version \<Rightarrow> session_source
     \<Rightarrow> codex_err + unit" where
  "ensure_execution_capacity_for_turn_start l has_active_turn thread_version config_version src =
     (if has_active_turn then Inr ()
      else ensure_execution_capacity l
             (case thread_version of Some v \<Rightarrow> v | None \<Rightarrow> config_version) src)"

text \<open>The reservation holds a guard exactly when the session is limited.\<close>

definition reserve_execution_capacity ::
  "limiter \<Rightarrow> multi_agent_version \<Rightarrow> session_source \<Rightarrow> codex_err + bool \<times> limiter" where
  "reserve_execution_capacity l v src =
     (if is_execution_limited v src
      then and_then (try_reserve l) (\<lambda>l'. Inr (True, l'))
      else Inr (False, l))"

section \<open>Interleaved tasks\<close>

text \<open>
  Where a task stands in \<open>try_reserve\<close> and in the destructor of the guard. \<open>HaveMax\<close> has read
  the maximum, \<open>Trying m a\<close> is at the head of the loop with the observed counter \<open>a\<close>;
  \<open>Released\<close> has done the \<open>fetch_sub\<close>, \<open>Notifying g\<close> the \<open>fetch_add\<close>.
\<close>

datatype lim_pc =
    Idle
  | HaveMax usize
  | Trying usize usize
  | Rejected usize
  | Holding
  | Released
  | Notifying u64

record lim_system = limiter +
  tasks :: "lim_pc list"

definition at_pc :: "lim_system \<Rightarrow> nat \<Rightarrow> lim_pc \<Rightarrow> bool" where
  "at_pc s t pc \<longleftrightarrow> t < length (tasks s) \<and> tasks s ! t = pc"

definition goto_pc :: "nat \<Rightarrow> lim_pc \<Rightarrow> lim_system \<Rightarrow> lim_system" where
  "goto_pc t pc s = s\<lparr>tasks := (tasks s)[t := pc]\<rparr>"

inductive lim_step :: "lim_system \<Rightarrow> lim_system \<Rightarrow> bool" where
  read_max: "at_pc s t Idle \<Longrightarrow>
     lim_step s (goto_pc t (HaveMax (max_threads (limiter.truncate s))) s)"
| load: "at_pc s t (HaveMax m) \<Longrightarrow> lim_step s (goto_pc t (Trying m (lim_active s)) s)"
| reject: "at_pc s t (Trying m a) \<Longrightarrow> a \<ge> m \<Longrightarrow> lim_step s (goto_pc t (Rejected m) s)"
| cas_ok: "at_pc s t (Trying m a) \<Longrightarrow> \<not> a \<ge> m \<Longrightarrow> lim_active s = a \<Longrightarrow>
     lim_step s (goto_pc t Holding (s\<lparr>lim_active := a + 1\<rparr>))"
| cas_fail: "at_pc s t (Trying m a) \<Longrightarrow> \<not> a \<ge> m \<Longrightarrow>
     lim_step s (goto_pc t (Trying m (lim_active s)) s)"
| return_err: "at_pc s t (Rejected m) \<Longrightarrow> lim_step s (goto_pc t Idle s)"
| release: "at_pc s t Holding \<Longrightarrow>
     lim_step s (goto_pc t Released (s\<lparr>lim_active := lim_active s - 1\<rparr>))"
| bump: "at_pc s t Released \<Longrightarrow>
     lim_step s (goto_pc t (Notifying (lim_generation s + 1))
                   (s\<lparr>lim_generation := lim_generation s + 1\<rparr>))"
| notify: "at_pc s t (Notifying g) \<Longrightarrow> lim_step s (goto_pc t Idle (s\<lparr>lim_release_tx := g\<rparr>))"

definition lim_start :: "usize \<Rightarrow> nat \<Rightarrow> lim_system" where
  "lim_start m n =
     limiter.extend (limiter_initialize m limiter_default) (lim_system.fields (replicate n Idle))"

section \<open>The abstract limiter\<close>

datatype spec_pc = SIdle | SWaiting | SRejected | SHolding

inductive spec_step :: "nat \<Rightarrow> spec_pc list \<Rightarrow> spec_pc list \<Rightarrow> bool" for cap where
  s_begin: "t < length ps \<Longrightarrow> ps ! t = SIdle \<Longrightarrow> spec_step cap ps (ps[t := SWaiting])"
| s_grant: "t < length ps \<Longrightarrow> ps ! t = SWaiting \<Longrightarrow> count_if ((=) SHolding) ps < cap \<Longrightarrow>
     spec_step cap ps (ps[t := SHolding])"
| s_refuse: "t < length ps \<Longrightarrow> ps ! t = SWaiting \<Longrightarrow> count_if ((=) SHolding) ps = cap \<Longrightarrow>
     spec_step cap ps (ps[t := SRejected])"
| s_return: "t < length ps \<Longrightarrow> ps ! t = SRejected \<Longrightarrow> spec_step cap ps (ps[t := SIdle])"
| s_release: "t < length ps \<Longrightarrow> ps ! t = SHolding \<Longrightarrow> spec_step cap ps (ps[t := SIdle])"

fun abs_pc :: "lim_pc \<Rightarrow> spec_pc" where
  "abs_pc Idle = SIdle"
| "abs_pc (HaveMax _) = SWaiting"
| "abs_pc (Trying m a) = (if a \<ge> m then SRejected else SWaiting)"
| "abs_pc (Rejected _) = SRejected"
| "abs_pc Holding = SHolding"
| "abs_pc Released = SIdle"
| "abs_pc (Notifying _) = SIdle"

definition abs_lim :: "lim_system \<Rightarrow> spec_pc list" where
  "abs_lim s = map abs_pc (tasks s)"

fun pc_max :: "lim_pc \<Rightarrow> usize option" where
  "pc_max (HaveMax m) = Some m"
| "pc_max (Trying m _) = Some m"
| "pc_max (Rejected m) = Some m"
| "pc_max _ = None"

definition lim_inv :: "usize \<Rightarrow> lim_system \<Rightarrow> bool" where
  "lim_inv m s \<longleftrightarrow> lim_max s = Some m
     \<and> unat (lim_active s) = count_if ((=) Holding) (tasks s)
     \<and> lim_active s \<le> m
     \<and> (\<forall>pc \<in> set (tasks s). pc_max pc = None \<or> pc_max pc = Some m)"

section \<open>Lemmas\<close>

named_theorems lim_defs \<open>unfolding of the limiter's state updates\<close>

lemmas [lim_defs] = at_pc_def goto_pc_def abs_lim_def max_threads_def limiter.truncate_def

lemma holders_abs: "count_if ((=) SHolding) (abs_lim s) = count_if ((=) Holding) (tasks s)"
proof -
  have "SHolding = abs_pc pc \<longleftrightarrow> Holding = pc" for pc by (cases pc) auto
  then show ?thesis by (simp add: abs_lim_def count_if_map)
qed

lemma pc_max_update:
  assumes "\<forall>pc \<in> set ps. pc_max pc = None \<or> pc_max pc = Some m"
    and "pc_max pc = None \<or> pc_max pc = Some m"
  shows "\<forall>q \<in> set (ps[t := pc]). pc_max q = None \<or> pc_max q = Some m"
  using assms set_update_subset_insert [of ps t pc] by blast

lemma lim_inv_at: "lim_inv m s \<Longrightarrow> at_pc s t pc \<Longrightarrow> pc_max pc = None \<or> pc_max pc = Some m"
  by (auto simp: lim_inv_def at_pc_def)

lemma lim_inv_goto:
  assumes "lim_inv m s" "at_pc s t pc" "pc \<noteq> Holding" "pc' \<noteq> Holding"
    and "pc_max pc' = None \<or> pc_max pc' = Some m"
  shows "lim_inv m (goto_pc t pc' s)"
  using assms count_if_update [of t "tasks s" "(=) Holding" pc'] pc_max_update [of "tasks s" m pc' t]
  by (auto simp: lim_inv_def lim_defs)

lemma lim_inv_step: assumes "lim_step s s'" "lim_inv m s" shows "lim_inv m s'"
  using assms
proof (cases rule: lim_step.cases)
  case (read_max t)
  moreover have "max_threads (limiter.truncate s) = m"
    using assms(2) by (simp add: lim_inv_def max_threads_def limiter.truncate_def)
  ultimately show ?thesis using assms(2) by (auto intro!: lim_inv_goto)
next
  case (load t k)
  then show ?thesis using assms(2) lim_inv_at [of m s t "HaveMax k"] by (auto intro!: lim_inv_goto)
next
  case (reject t k a)
  then show ?thesis using assms(2) lim_inv_at [of m s t "Trying k a"] by (auto intro!: lim_inv_goto)
next
  case (cas_ok t k a)
  then have "k = m" using assms(2) lim_inv_at [of m s t "Trying k a"] by auto
  moreover have "unat (a + 1) = Suc (unat a)" using cas_ok \<open>k = m\<close> unat_plus_one_less [of a m] by simp
  ultimately show ?thesis
    using cas_ok assms(2) count_if_update [of t "tasks s" "(=) Holding" Holding]
      pc_max_update [of "tasks s" m Holding t]
    by (auto simp: lim_inv_def lim_defs word_le_nat_alt)
next
  case (cas_fail t k a)
  then show ?thesis using assms(2) lim_inv_at [of m s t "Trying k a"] by (auto intro!: lim_inv_goto)
next
  case (return_err t k)
  then show ?thesis using assms(2) by (auto intro!: lim_inv_goto)
next
  case (release t)
  then have "0 < count_if ((=) Holding) (tasks s)"
    by (auto simp: at_pc_def intro!: count_if_pos)
  then have "unat (lim_active s) > 0" using assms(2) by (auto simp: lim_inv_def)
  then have "unat (lim_active s - 1) = unat (lim_active s) - 1"
    by (intro unat_minus_one_pos) auto
  then show ?thesis
    using release assms(2) count_if_update [of t "tasks s" "(=) Holding" Released]
      pc_max_update [of "tasks s" m Released t]
    by (auto simp: lim_inv_def lim_defs word_le_nat_alt)
next
  case (bump t)
  then have "lim_inv m (s\<lparr>lim_generation := lim_generation s + 1\<rparr>)"
    using assms(2) by (simp add: lim_inv_def)
  then show ?thesis using bump by (auto intro!: lim_inv_goto simp: at_pc_def)
next
  case (notify t g)
  then have "lim_inv m (s\<lparr>lim_release_tx := g\<rparr>)" using assms(2) by (simp add: lim_inv_def)
  then show ?thesis using notify by (auto intro!: lim_inv_goto simp: at_pc_def)
qed

lemma abs_lim_goto: "abs_lim (goto_pc t pc s) = (abs_lim s)[t := abs_pc pc]"
  by (simp add: abs_lim_def goto_pc_def map_update)

lemma abs_lim_at: "at_pc s t pc \<Longrightarrow> t < length (abs_lim s) \<and> abs_lim s ! t = abs_pc pc"
  by (simp add: abs_lim_def at_pc_def)

lemma abs_lim_upd [simp]:
  "abs_lim (s\<lparr>lim_active := a\<rparr>) = abs_lim s" "abs_lim (s\<lparr>lim_generation := g\<rparr>) = abs_lim s"
  "abs_lim (s\<lparr>lim_release_tx := g\<rparr>) = abs_lim s"
  by (simp_all add: abs_lim_def)

lemma abs_lim_stutter: "at_pc s t pc \<Longrightarrow> abs_pc pc' = abs_pc pc \<Longrightarrow> (abs_lim s)[t := abs_pc pc'] = abs_lim s"
  using abs_lim_at [of s t pc] by (metis list_update_id)

lemma lim_inv_holders:
  "lim_inv m s \<Longrightarrow> count_if ((=) SHolding) (abs_lim s) = unat (lim_active s) \<and> unat (lim_active s) \<le> unat m"
  by (simp add: lim_inv_def holders_abs word_le_nat_alt)

lemma observe_simulates:
  assumes inv: "lim_inv m s" and pc: "at_pc s t pc" "abs_pc pc = SWaiting"
  shows "abs_lim (goto_pc t (Trying m (lim_active s)) s) = abs_lim s
    \<or> spec_step (unat m) (abs_lim s) (abs_lim (goto_pc t (Trying m (lim_active s)) s))"
proof (cases "lim_active s \<ge> m")
  case True
  then have "unat (lim_active s) = unat m" using lim_inv_holders [OF inv] by (simp add: word_le_nat_alt)
  then show ?thesis using True pc abs_lim_at [OF pc(1)] lim_inv_holders [OF inv]
    by (auto simp: abs_lim_goto intro!: spec_step.s_refuse)
next
  case False
  then show ?thesis using abs_lim_stutter [OF pc(1), of "Trying m (lim_active s)"] pc(2)
    by (simp add: abs_lim_goto)
qed

lemma lim_simulates:
  assumes inv: "lim_inv m s" and "lim_step s s'"
  shows "abs_lim s' = abs_lim s \<or> spec_step (unat m) (abs_lim s) (abs_lim s')"
  using assms(2)
proof (cases rule: lim_step.cases)
  case (read_max t)
  then show ?thesis using abs_lim_at [of s t Idle] by (auto simp: abs_lim_goto intro!: spec_step.s_begin)
next
  case (load t k)
  then show ?thesis using lim_inv_at [OF inv, of t "HaveMax k"] observe_simulates [OF inv, of t "HaveMax k"]
    by auto
next
  case (reject t k a)
  then show ?thesis using abs_lim_stutter [of s t "Trying k a" "Rejected k"] by (simp add: abs_lim_goto)
next
  case (cas_ok t k a)
  then have "k = m" using lim_inv_at [OF inv, of t "Trying k a"] by auto
  then show ?thesis using cas_ok lim_inv_holders [OF inv] abs_lim_at [of s t "Trying k a"]
    by (auto simp: abs_lim_goto word_le_nat_alt intro!: spec_step.s_grant)
next
  case (cas_fail t k a)
  then show ?thesis using lim_inv_at [OF inv, of t "Trying k a"] observe_simulates [OF inv, of t "Trying k a"]
    by auto
next
  case (return_err t k)
  then show ?thesis using abs_lim_at [of s t "Rejected k"] by (auto simp: abs_lim_goto intro!: spec_step.s_return)
next
  case (release t)
  then show ?thesis using abs_lim_at [of s t Holding] by (auto simp: abs_lim_goto intro!: spec_step.s_release)
next
  case (bump t)
  then show ?thesis
    using abs_lim_stutter [of s t Released "Notifying (lim_generation s + 1)"] by (simp add: abs_lim_goto)
next
  case (notify t g)
  then show ?thesis using abs_lim_stutter [of s t "Notifying g" Idle] by (simp add: abs_lim_goto)
qed

interpretation limiter_sim: stuttering_simulation lim_step "spec_step (unat m)" abs_lim "lim_inv m" for m
  by unfold_locales (auto intro: lim_inv_step dest: lim_simulates)

lemma lim_inv_start: "lim_inv m (lim_start m n)"
  by (auto simp: lim_inv_def lim_start_def limiter.defs lim_system.defs limiter_initialize_def
      limiter_default_def count_if_def)

lemma abs_lim_start: "abs_lim (lim_start m n) = replicate n SIdle"
  by (simp add: abs_lim_def lim_start_def limiter.defs lim_system.defs)

section \<open>Properties\<close>

text \<open>
  C3. However the loads, weak compare-exchanges and destructor steps of any number of tasks
  interleave, the limiter behaves as an abstract limiter with \<open>max_threads\<close> permits: a permit is
  granted only while fewer than the maximum are held, a task is refused only when the maximum is
  held at the moment it observes the counter, and the counter is exactly the number of guards
  alive.
\<close>

theorem limiter_refines_spec:
  assumes "lim_step\<^sup>*\<^sup>* (lim_start m n) s"
  shows "(spec_step (unat m))\<^sup>*\<^sup>* (replicate n SIdle) (abs_lim s)
    \<and> unat (lim_active s) = count_if ((=) Holding) (tasks s)
    \<and> count_if ((=) Holding) (tasks s) \<le> unat m
    \<and> (\<forall>t k. at_pc s t (Rejected k) \<longrightarrow> k = m)"
proof -
  have inv: "lim_inv m s" using limiter_sim.reach_inv [OF assms lim_inv_start] .
  have "(spec_step (unat m))\<^sup>*\<^sup>* (replicate n SIdle) (abs_lim s)"
    using limiter_sim.reach_simulates [OF assms lim_inv_start] by (simp add: abs_lim_start)
  then show ?thesis using inv lim_inv_at [OF inv] by (force simp: lim_inv_def word_le_nat_alt)
qed

definition sample_lim :: lim_system where
  "sample_lim = (lim_start 1 2)\<lparr>lim_active := 1, tasks := [Holding, Trying 1 1]\<rparr>"

lemma sample_lim_reachable: "lim_step\<^sup>*\<^sup>* (lim_start 1 2) sample_lim"
proof -
  let ?s0 = "lim_start 1 2"
  let ?s1 = "goto_pc 0 (HaveMax 1) ?s0"
  let ?s2 = "goto_pc 0 (Trying 1 0) ?s1"
  let ?s3 = "goto_pc 0 Holding (?s2\<lparr>lim_active := 0 + 1\<rparr>)"
  let ?s4 = "goto_pc 1 (HaveMax 1) ?s3"
  let ?s5 = "goto_pc 1 (Trying 1 1) ?s4"
  note d = lim_defs lim_start_def limiter.defs lim_system.defs limiter_initialize_def
    limiter_default_def numeral_2_eq_2
  have 1: "lim_step ?s0 ?s1" using lim_step.read_max [of ?s0 0] by (simp add: d)
  have 2: "lim_step ?s1 ?s2" using lim_step.load [of ?s1 0 1] by (simp add: d)
  have 3: "lim_step ?s2 ?s3" by (rule lim_step.cas_ok [of _ _ 1]) (simp_all add: d)
  have 4: "lim_step ?s3 ?s4" using lim_step.read_max [of ?s3 1] by (simp add: d)
  have 5: "lim_step ?s4 ?s5" using lim_step.load [of ?s4 1 1] by (simp add: d)
  have "?s5 = sample_lim" by (simp add: sample_lim_def d)
  then show ?thesis using 1 2 3 4 5 by (metis (no_types) rtranclp.rtrancl_into_rtrancl rtranclp.rtrancl_refl)
qed

theorem limiter_refines_spec_witness:
  "lim_step\<^sup>*\<^sup>* (lim_start 1 2) sample_lim \<and> (spec_step 1)\<^sup>*\<^sup>* [SIdle, SIdle] [SHolding, SRejected]"
proof -
  have "abs_lim sample_lim = [SHolding, SRejected]" by (simp add: sample_lim_def abs_lim_def)
  then show ?thesis using limiter_refines_spec [OF sample_lim_reachable] sample_lim_reachable
    by (simp add: numeral_2_eq_2)
qed

end
