(* ===== verification/Residency.thy ===== *)
theory Residency
  imports Agent_Registry "HOL-Library.Multiset"
begin

text \<open>
  The least-recently-used set of loaded sub-agent threads, \<open>core/src/agent/control/residency.rs\<close>,
  with the two operations of the thread manager it calls. A loaded thread is the record of what
  the residency code reads of it. \<open>meanwhile\<close> is what other tasks do to the manager's map while a
  candidate shuts down.
\<close>

record 'env codex_thread =
  ct_ptr :: ptr
  ct_version :: "multi_agent_version option"
  ct_source :: session_source
  ct_status :: agent_status
  ct_active_turn :: bool
  ct_pending_mailbox :: bool
  ct_owned_join :: bool
  ct_shutdown_ok :: bool
  ct_environments :: "'env list"

type_synonym 'env threads = "(thread_id, 'env codex_thread) fmap"

record residency =
  residents :: "thread_id list"
  pending_slots :: usize

record 'env res_world =
  rw_residency :: residency
  rw_threads :: "'env threads"
  rw_registry :: "'env agent_registry"

fun is_internal :: "session_source \<Rightarrow> bool" where
  "is_internal (Internal _) = True"
| "is_internal _ = False"

definition get_thread :: "thread_id \<Rightarrow> 'env threads \<Rightarrow> codex_err + 'env codex_thread" where
  "get_thread t ths =
     (case fmlookup ths t of
        Some th \<Rightarrow> if \<not> is_internal (ct_source th) then Inr th else Inl (ThreadNotFound t)
      | None \<Rightarrow> Inl (ThreadNotFound t))"

definition remove_runtime_if_matches ::
  "thread_id \<Rightarrow> 'env codex_thread \<Rightarrow> 'env threads \<Rightarrow> 'env codex_thread option \<times> 'env threads" where
  "remove_runtime_if_matches t expected ths =
     (case fmlookup ths t of
        Some th \<Rightarrow> if ct_ptr th = ct_ptr expected then (Some th, fmdrop t ths) else (None, ths)
      | None \<Rightarrow> (None, ths))"

definition is_v2_resident_session_source :: "session_source \<Rightarrow> bool" where
  "is_v2_resident_session_source src \<longleftrightarrow> is_sub_agent src"

definition is_resident_candidate :: "'env codex_thread \<Rightarrow> bool" where
  "is_resident_candidate th \<longleftrightarrow> ct_version th = Some V2 \<and> is_v2_resident_session_source (ct_source th)"

definition is_unloadable :: "'env codex_thread \<Rightarrow> bool" where
  "is_unloadable th \<longleftrightarrow>
     (case ct_status th of Completed _ \<Rightarrow> True | Errored _ \<Rightarrow> True | Interrupted \<Rightarrow> True | _ \<Rightarrow> False)
     \<and> \<not> ct_active_turn th \<and> \<not> ct_pending_mailbox th \<and> \<not> ct_owned_join th"

definition touch_resident :: "thread_id \<Rightarrow> thread_id list \<Rightarrow> thread_id list" where
  "touch_resident t rs = filter (\<lambda>r. r \<noteq> t) rs @ [t]"

definition touch :: "thread_id \<Rightarrow> residency \<Rightarrow> residency" where
  "touch t r = r\<lparr>residents := touch_resident t (residents r)\<rparr>"

definition remove_resident :: "thread_id \<Rightarrow> residency \<Rightarrow> residency" where
  "remove_resident t r = r\<lparr>residents := filter (\<lambda>x. x \<noteq> t) (residents r)\<rparr>"

definition commit_slot :: "thread_id \<Rightarrow> residency \<Rightarrow> residency" where
  "commit_slot t r =
     r\<lparr>pending_slots := saturating_sub (pending_slots r) 1, residents := touch_resident t (residents r)\<rparr>"

definition release_pending_slot :: "residency \<Rightarrow> residency" where
  "release_pending_slot r = r\<lparr>pending_slots := saturating_sub (pending_slots r) 1\<rparr>"

text \<open>A slot is its \<open>active\<close> flag; committing consumes it and its destructor then does nothing.\<close>

definition slot_drop :: "bool \<Rightarrow> residency \<Rightarrow> residency" where
  "slot_drop active r = (if active then release_pending_slot r else r)"

definition slot_commit :: "thread_id \<Rightarrow> residency \<Rightarrow> residency" where
  "slot_commit t r = slot_drop False (commit_slot t r)"

definition resident_count :: "residency \<Rightarrow> nat" where
  "resident_count r = length (residents r)"

definition try_reserve_pending_slot :: "usize \<Rightarrow> residency \<Rightarrow> bool \<times> residency" where
  "try_reserve_pending_slot capacity r =
     (if saturating_add (of_nat (length (residents r))) (pending_slots r) \<ge> capacity then (False, r)
      else (True, r\<lparr>pending_slots := pending_slots r + 1\<rparr>))"

fun pop_lru_scan :: "nat \<Rightarrow> thread_id option \<Rightarrow> thread_id list \<Rightarrow> thread_id option \<times> thread_id list" where
  "pop_lru_scan 0 prot rs = (None, rs)"
| "pop_lru_scan (Suc n) prot [] = (None, [])"
| "pop_lru_scan (Suc n) prot (c # rs) =
     (if Some c = prot then pop_lru_scan n prot (rs @ [c]) else (Some c, rs))"

definition pop_lru_candidate :: "thread_id option \<Rightarrow> residency \<Rightarrow> thread_id option \<times> residency" where
  "pop_lru_candidate prot r =
     (let (c, rs) = pop_lru_scan (length (residents r)) prot (residents r)
      in (c, r\<lparr>residents := rs\<rparr>))"

definition loaded_candidate :: "thread_id \<Rightarrow> 'env threads \<Rightarrow> 'env codex_thread option" where
  "loaded_candidate t ths =
     (case get_thread t ths of
        Inr th \<Rightarrow> if is_resident_candidate th then Some th else None
      | Inl _ \<Rightarrow> None)"

fun unload_scan ::
  "(thread_id \<Rightarrow> 'env threads \<Rightarrow> 'env threads) \<Rightarrow> nat \<Rightarrow> thread_id option \<Rightarrow> 'env res_world
     \<Rightarrow> bool \<times> 'env res_world" where
  "unload_scan meanwhile 0 prot w = (False, w)"
| "unload_scan meanwhile (Suc n) prot w =
     (case pop_lru_candidate prot (rw_residency w) of
        (None, r) \<Rightarrow> (False, w\<lparr>rw_residency := r\<rparr>)
      | (Some c, r) \<Rightarrow>
          (case loaded_candidate c (rw_threads w) of
             None \<Rightarrow> unload_scan meanwhile n prot (w\<lparr>rw_residency := r\<rparr>)
           | Some th \<Rightarrow>
               if \<not> is_unloadable th
               then unload_scan meanwhile n prot (w\<lparr>rw_residency := touch c r\<rparr>)
               else if \<not> ct_shutdown_ok th
               then unload_scan meanwhile n prot (w\<lparr>rw_residency := touch c r\<rparr>)
               else (case remove_runtime_if_matches c th (meanwhile c (rw_threads w)) of
                       (Some _, ths) \<Rightarrow>
                         (True, w\<lparr>rw_residency := r, rw_threads := ths,
                                  rw_registry := save_evicted_environments c (ct_environments th)
                                                   (rw_registry w)\<rparr>)
                     | (None, ths) \<Rightarrow> (True, w\<lparr>rw_residency := r, rw_threads := ths\<rparr>))))"

definition try_unload_one_resident ::
  "(thread_id \<Rightarrow> 'env threads \<Rightarrow> 'env threads) \<Rightarrow> thread_id option \<Rightarrow> 'env res_world
     \<Rightarrow> bool \<times> 'env res_world" where
  "try_unload_one_resident meanwhile prot w =
     unload_scan meanwhile (resident_count (rw_residency w)) prot w"

section \<open>The scan for a victim\<close>

lemma pop_lru_scan_Some:
  "pop_lru_scan n prot rs = (Some c, rs') \<Longrightarrow> mset rs = add_mset c (mset rs') \<and> Some c \<noteq> prot"
  by (induction n prot rs rule: pop_lru_scan.induct) (auto split: if_splits)

lemma pop_lru_scan_None_mset: "pop_lru_scan n prot rs = (None, rs') \<Longrightarrow> mset rs' = mset rs"
  by (induction n prot rs rule: pop_lru_scan.induct) (auto split: if_splits)

lemma pop_candidate_Some:
  "pop_lru_candidate prot r = (Some c, r') \<Longrightarrow>
   mset (residents r) = add_mset c (mset (residents r')) \<and> Some c \<noteq> prot
   \<and> pending_slots r' = pending_slots r"
  by (auto simp: pop_lru_candidate_def split: prod.splits dest: pop_lru_scan_Some)

lemma pop_candidate_None:
  "pop_lru_candidate prot r = (None, r') \<Longrightarrow>
   mset (residents r') = mset (residents r) \<and> pending_slots r' = pending_slots r"
  by (auto simp: pop_lru_candidate_def split: prod.splits dest: pop_lru_scan_None_mset)

lemma mset_touch_resident: "t \<notin> set rs \<Longrightarrow> mset (touch_resident t rs) = add_mset t (mset rs)"
proof -
  assume "t \<notin> set rs"
  then have "filter (\<lambda>r. r \<noteq> t) rs = rs" by (intro filter_True) auto
  then show ?thesis by (simp add: touch_resident_def)
qed

lemma set_touch_resident [simp]: "set (touch_resident t rs) = insert t (set rs)"
  by (auto simp: touch_resident_def)

lemma distinct_touch_resident [simp]: "distinct rs \<Longrightarrow> distinct (touch_resident t rs)"
  by (simp add: touch_resident_def)

lemma touch_sel [simp]:
  "residents (touch t r) = touch_resident t (residents r)" "pending_slots (touch t r) = pending_slots r"
  by (simp_all add: touch_def)

lemma mset_add_distinct:
  assumes "distinct xs" "mset xs = add_mset c (mset ys)"
  shows "distinct ys \<and> c \<notin> set ys \<and> set xs = insert c (set ys) \<and> length xs = Suc (length ys)"
proof -
  have "mset xs = mset (c # ys)" using assms(2) by simp
  then have "distinct (c # ys)" "set xs = set (c # ys)" "length xs = length (c # ys)"
    using assms(1) mset_eq_imp_distinct_iff mset_eq_setD mset_eq_length by blast+
  then show ?thesis by simp
qed

lemma touch_popped:
  assumes "distinct (residents r)" "mset (residents r) = add_mset c (mset (residents r'))"
  shows "mset (touch_resident c (residents r')) = mset (residents r)"
  using mset_add_distinct [OF assms] assms(2) by (simp add: mset_touch_resident)

text \<open>
  What one scan promises: a subset of the residents is left, the protected thread among them,
  and each thread that went was not a loaded candidate or was unloadable.
\<close>

definition evictable :: "'env threads \<Rightarrow> thread_id \<Rightarrow> bool" where
  "evictable ths t \<longleftrightarrow>
     (case loaded_candidate t ths of None \<Rightarrow> True | Some th \<Rightarrow> is_unloadable th \<and> ct_shutdown_ok th)"

definition scan_keeps :: "thread_id option \<Rightarrow> 'env res_world \<Rightarrow> 'env res_world \<Rightarrow> bool" where
  "scan_keeps prot w w' \<longleftrightarrow>
     distinct (residents (rw_residency w'))
     \<and> set (residents (rw_residency w')) \<subseteq> set (residents (rw_residency w))
     \<and> pending_slots (rw_residency w') = pending_slots (rw_residency w)
     \<and> (\<forall>t \<in> set (residents (rw_residency w)) - set (residents (rw_residency w')).
          Some t \<noteq> prot \<and> evictable (rw_threads w) t)"

lemma scan_keeps_trans:
  "scan_keeps prot w w' \<Longrightarrow> rw_threads w' = rw_threads w \<Longrightarrow> scan_keeps prot w' w'' \<Longrightarrow>
   scan_keeps prot w w''"
  unfolding scan_keeps_def by (auto; blast)

lemma scan_keeps_same:
  "distinct (residents (rw_residency w)) \<Longrightarrow> mset rs = mset (residents (rw_residency w)) \<Longrightarrow>
   scan_keeps prot w (w\<lparr>rw_residency := (rw_residency w)\<lparr>residents := rs\<rparr>\<rparr>)"
  by (auto simp: scan_keeps_def dest: mset_eq_setD mset_eq_imp_distinct_iff)

lemma loaded_candidate_None_evictable: "loaded_candidate t ths = None \<Longrightarrow> evictable ths t"
  by (simp add: evictable_def)

lemma scan_keeps_pop:
  assumes "distinct (residents (rw_residency w))"
    and "pop_lru_candidate prot (rw_residency w) = (Some c, r)"
    and "evictable (rw_threads w) c"
  shows "scan_keeps prot w (w\<lparr>rw_residency := r\<rparr>)"
proof -
  have pop: "mset (residents (rw_residency w)) = add_mset c (mset (residents r))" "Some c \<noteq> prot"
    "pending_slots r = pending_slots (rw_residency w)"
    using pop_candidate_Some [OF assms(2)] by auto
  show ?thesis using mset_add_distinct [OF assms(1) pop(1)] pop assms(3) by (auto simp: scan_keeps_def)
qed

lemma scan_keeps_mset:
  assumes "distinct (residents (rw_residency w))" "mset (residents r) = mset (residents (rw_residency w))"
    and "pending_slots r = pending_slots (rw_residency w)"
  shows "scan_keeps prot w (w\<lparr>rw_residency := r\<rparr>)"
  using assms mset_eq_setD [OF assms(2)] mset_eq_imp_distinct_iff [OF assms(2)]
  by (auto simp: scan_keeps_def)

lemma scan_keeps_distinct: "scan_keeps prot w w' \<Longrightarrow> distinct (residents (rw_residency w'))"
  by (simp add: scan_keeps_def)

lemma scan_keeps_cong:
  "scan_keeps prot w w' \<Longrightarrow> rw_residency w'' = rw_residency w' \<Longrightarrow> scan_keeps prot w w''"
  by (simp add: scan_keeps_def)

lemma evictable_unloadable:
  "loaded_candidate t ths = Some th \<Longrightarrow> is_unloadable th \<Longrightarrow> ct_shutdown_ok th \<Longrightarrow> evictable ths t"
  by (simp add: evictable_def)

lemma unload_scan_keeps:
  assumes "distinct (residents (rw_residency w))" "unload_scan meanwhile n prot w = (b, w')"
  shows "scan_keeps prot w w'
    \<and> (b \<longrightarrow> length (residents (rw_residency w')) < length (residents (rw_residency w)))
    \<and> (\<not> b \<longrightarrow> rw_threads w' = rw_threads w \<and> rw_registry w' = rw_registry w)"
  using assms
proof (induction meanwhile n prot w rule: unload_scan.induct)
  case (1 meanwhile prot w)
  then show ?case by (auto simp: scan_keeps_def)
next
  case (2 meanwhile n prot w)
  obtain oc r where pop: "pop_lru_candidate prot (rw_residency w) = (oc, r)" by fastforce
  show ?case
  proof (cases oc)
    case None
    then show ?thesis using 2 pop pop_candidate_None [of prot "rw_residency w" r]
      by (auto intro!: scan_keeps_mset)
  next
    case (Some c)
    note pop = pop [unfolded Some] and d = "2.prems"(1)
    have ms: "mset (residents (rw_residency w)) = add_mset c (mset (residents r))"
      and pend: "pending_slots r = pending_slots (rw_residency w)"
      using pop_candidate_Some [OF pop] by auto
    note facts = mset_add_distinct [OF d ms]
    have touched: "scan_keeps prot w (w\<lparr>rw_residency := touch c r\<rparr>)"
      using touch_popped [OF d ms] pend by (intro scan_keeps_mset [OF d]) auto
    have len: "length (residents (touch c r)) = length (residents (rw_residency w))"
      using touch_popped [OF d ms] by (metis size_mset touch_sel(1))
    show ?thesis
    proof (cases "loaded_candidate c (rw_threads w)")
      case None
      then have "unload_scan meanwhile n prot (w\<lparr>rw_residency := r\<rparr>) = (b, w')"
        using "2.prems"(2) pop by simp
      then show ?thesis
        using "2.IH"(1) [OF pop [symmetric] refl None] facts
          scan_keeps_trans [OF scan_keeps_pop [OF d pop loaded_candidate_None_evictable [OF None]], of w']
        by (auto simp: scan_keeps_distinct)
    next
      case (Some th)
      show ?thesis
      proof (cases "is_unloadable th \<and> ct_shutdown_ok th")
        case True
        then have "rw_residency w' = r \<and> b"
          using "2.prems"(2) pop Some by (auto split: prod.splits option.splits)
        then show ?thesis
          using scan_keeps_cong [OF scan_keeps_pop [OF d pop evictable_unloadable [OF Some]]] True facts
          by auto
      next
        case False
        then have "unload_scan meanwhile n prot (w\<lparr>rw_residency := touch c r\<rparr>) = (b, w')"
          using "2.prems"(2) pop Some by (auto split: if_splits)
        then show ?thesis
          using "2.IH"(2,3) [OF pop [symmetric] refl Some] False len
            scan_keeps_trans [OF touched, of w'] scan_keeps_distinct [OF touched]
          by (cases "is_unloadable th") auto
      qed
    qed
  qed
qed

section \<open>Reserving a slot\<close>

text \<open>The scan never grows the residents, with or without duplicates, so the loop ends.\<close>

lemma length_touch_resident: "length (touch_resident t rs) \<le> Suc (length rs)"
  by (simp add: touch_resident_def)

lemma unload_scan_shrinks:
  "unload_scan meanwhile n prot w = (b, w') \<Longrightarrow>
   length (residents (rw_residency w')) + of_bool b \<le> length (residents (rw_residency w))"
proof (induction meanwhile n prot w rule: unload_scan.induct)
  case (2 meanwhile n prot w)
  obtain oc r where pop: "pop_lru_candidate prot (rw_residency w) = (oc, r)" by fastforce
  show ?case
  proof (cases oc)
    case None
    then have "length (residents r) = length (residents (rw_residency w))"
      using pop_candidate_None [of prot "rw_residency w" r] pop mset_eq_length by blast
    then show ?thesis using 2 pop None by auto
  next
    case (Some c)
    note pop = pop [unfolded Some]
    have "mset (residents (rw_residency w)) = mset (c # residents r)"
      using pop_candidate_Some [OF pop] by simp
    then have len: "length (residents (rw_residency w)) = Suc (length (residents r))"
      using mset_eq_length by fastforce
    have t: "length (residents (touch c r)) \<le> length (residents (rw_residency w))"
      using length_touch_resident [of c "residents r"] len by simp
    show ?thesis
    proof (cases "loaded_candidate c (rw_threads w)")
      case None
      then show ?thesis using "2.IH"(1) [OF pop [symmetric] refl None] "2.prems" pop len by auto
    next
      case (Some th)
      show ?thesis
      proof (cases "is_unloadable th \<and> ct_shutdown_ok th")
        case True
        then have "rw_residency w' = r \<and> b"
          using "2.prems" pop Some by (auto split: prod.splits option.splits)
        then show ?thesis using len by simp
      next
        case False
        then have "unload_scan meanwhile n prot (w\<lparr>rw_residency := touch c r\<rparr>) = (b, w')"
          using "2.prems" pop Some by (auto split: if_splits)
        then show ?thesis using "2.IH"(2,3) [OF pop [symmetric] refl Some] False t
          by (cases "is_unloadable th") auto
      qed
    qed
  qed
qed auto

function reserve_slot ::
  "(thread_id \<Rightarrow> 'env threads \<Rightarrow> 'env threads) \<Rightarrow> usize \<Rightarrow> thread_id option \<Rightarrow> 'env res_world
     \<Rightarrow> (codex_err + unit) \<times> 'env res_world" where
  "reserve_slot meanwhile capacity prot w =
     (case try_reserve_pending_slot capacity (rw_residency w) of
        (True, r) \<Rightarrow> (Inr (), w\<lparr>rw_residency := r\<rparr>)
      | (False, _) \<Rightarrow>
          (case try_unload_one_resident meanwhile prot w of
             (True, w') \<Rightarrow> reserve_slot meanwhile capacity prot w'
           | (False, w') \<Rightarrow> (Inl (AgentLimitReached capacity), w')))"
  by pat_completeness auto
termination
  by (relation "measure (\<lambda>(_, _, _, w). length (residents (rw_residency w)))")
    (auto simp: try_unload_one_resident_def dest!: unload_scan_shrinks [OF sym])

declare reserve_slot.simps [simp del]

text \<open>\<open>effective_agent_max_threads(V2)\<close> is the configured maximum less the root thread.\<close>

definition v2_max_threads :: "usize \<Rightarrow> usize option" where
  "v2_max_threads max_concurrent_threads_per_session =
     Some (saturating_sub max_concurrent_threads_per_session 1)"

definition reserve_v2_residency_slot ::
  "(thread_id \<Rightarrow> 'env threads \<Rightarrow> 'env threads) \<Rightarrow> usize \<Rightarrow> thread_id option \<Rightarrow> 'env res_world
     \<Rightarrow> (codex_err + unit) \<times> 'env res_world" where
  "reserve_v2_residency_slot meanwhile max_concurrent prot w =
     reserve_slot meanwhile (case v2_max_threads max_concurrent of Some c \<Rightarrow> c | None \<Rightarrow> - 1) prot w"

definition touch_loaded_v2_residency :: "thread_id \<Rightarrow> 'env res_world \<Rightarrow> 'env res_world" where
  "touch_loaded_v2_residency t w =
     (case get_thread t (rw_threads w) of
        Inr th \<Rightarrow> if is_resident_candidate th then w\<lparr>rw_residency := touch t (rw_residency w)\<rparr> else w
      | Inl _ \<Rightarrow> w)"

definition forget_v2_residency :: "thread_id \<Rightarrow> 'env res_world \<Rightarrow> 'env res_world" where
  "forget_v2_residency t w = w\<lparr>rw_residency := remove_resident t (rw_residency w)\<rparr>"

section \<open>A failed scan leaves only threads that cannot go\<close>

definition blocked :: "thread_id option \<Rightarrow> 'env threads \<Rightarrow> thread_id \<Rightarrow> bool" where
  "blocked prot ths t \<longleftrightarrow> Some t = prot \<or> \<not> evictable ths t"

lemma pop_scan_None_all:
  "pop_lru_scan k prot (us @ ps) = (None, rs') \<Longrightarrow> length us \<le> k \<Longrightarrow> \<forall>p \<in> set ps. Some p = prot \<Longrightarrow>
   \<forall>x \<in> set rs'. Some x = prot"
proof (induction us arbitrary: k ps)
  case Nil
  then show ?case using pop_lru_scan_None_mset [of k prot ps rs'] mset_eq_setD by fastforce
next
  case (Cons u us)
  then obtain k' where k: "k = Suc k'" by (cases k) auto
  then show ?case using Cons.IH [of k' "ps @ [u]"] Cons.prems by (auto split: if_splits)
qed

lemma pop_scan_Some_split:
  "pop_lru_scan k prot (us @ ps) = (Some c, rs') \<Longrightarrow>
   \<exists>us' ps'. rs' = us' @ ps' \<and> length us' \<le> length us - 1
     \<and> (\<forall>x \<in> set ps'. Some x = prot \<or> x \<in> set ps)"
proof (induction us arbitrary: k ps)
  case Nil
  have "set rs' \<subseteq> set ps"
    using pop_lru_scan_Some [of k prot ps c rs'] Nil by (metis append_Nil insert_iff set_mset_add_mset_insert set_mset_mset subsetI)
  then show ?case by (intro exI [of _ "[]"] exI [of _ rs']) auto
next
  case (Cons u us)
  then obtain k' where k: "k = Suc k'" by (cases k) auto
  show ?case
  proof (cases "Some u = prot")
    case True
    then have "pop_lru_scan k' prot (us @ (ps @ [u])) = (Some c, rs')" using Cons.prems k by simp
    from Cons.IH [OF this] obtain us' ps' where "rs' = us' @ ps'" "length us' \<le> length us - 1"
      "\<forall>x \<in> set ps'. Some x = prot \<or> x \<in> set (ps @ [u])" by blast
    then show ?thesis using True by (intro exI [of _ us'] exI [of _ ps']) auto
  next
    case False
    then show ?thesis using Cons.prems k by (intro exI [of _ us] exI [of _ ps]) auto
  qed
qed

lemma unload_scan_False_blocked:
  assumes "unload_scan meanwhile n prot w = (False, w')" "residents (rw_residency w) = us @ ps"
    and "length us \<le> n" "\<forall>p \<in> set ps. blocked prot (rw_threads w) p"
  shows "\<forall>t \<in> set (residents (rw_residency w')). blocked prot (rw_threads w') t"
  using assms
proof (induction meanwhile n prot w arbitrary: us ps rule: unload_scan.induct)
  case (2 meanwhile n prot w)
  obtain oc r where pop: "pop_lru_candidate prot (rw_residency w) = (oc, r)" by fastforce
  then have scan: "pop_lru_scan (length (us @ ps)) prot (us @ ps) = (oc, residents r)"
    using "2.prems"(2) by (auto simp: pop_lru_candidate_def split: prod.splits)
  show ?case
  proof (cases oc)
    case None
    then have "\<forall>x \<in> set (residents r). Some x = prot"
      using pop_scan_None_all [of "length (us @ ps)" prot "us @ ps" "[]" "residents r"] scan by simp
    then show ?thesis using "2.prems"(1) pop None by (auto simp: blocked_def)
  next
    case (Some c)
    note pop = pop [unfolded Some]
    from pop_scan_Some_split [OF scan [unfolded Some]] obtain us' ps' where
      rs: "residents r = us' @ ps'" "length us' \<le> length us - 1"
      and ps': "\<forall>x \<in> set ps'. blocked prot (rw_threads w) x"
      using "2.prems"(4) by (auto simp: blocked_def)
    have n: "length us' \<le> n" using rs(2) "2.prems"(3) by linarith
    show ?thesis
    proof (cases "evictable (rw_threads w) c")
      case True
      then have no: "loaded_candidate c (rw_threads w) = None"
        using "2.prems"(1) pop by (auto simp: evictable_def split: option.splits prod.splits)
      show ?thesis
        using "2.IH"(1) [OF pop [symmetric] refl no, of us' ps'] "2.prems"(1) pop no rs ps' n by simp
    next
      case False
      then obtain th where th: "loaded_candidate c (rw_threads w) = Some th" "\<not> (is_unloadable th \<and> ct_shutdown_ok th)"
        by (auto simp: evictable_def split: option.splits)
      let ?us = "filter (\<lambda>x. x \<noteq> c) us'" and ?ps = "filter (\<lambda>x. x \<noteq> c) ps' @ [c]"
      have "residents (touch c r) = ?us @ ?ps" "length ?us \<le> n"
        using rs order_trans [OF length_filter_le n] by (simp_all add: touch_resident_def)
      moreover have "\<forall>x \<in> set ?ps. blocked prot (rw_threads w) x" using ps' False by (auto simp: blocked_def)
      moreover have "unload_scan meanwhile n prot (w\<lparr>rw_residency := touch c r\<rparr>) = (False, w')"
        using "2.prems"(1) pop th by (auto split: if_splits)
      ultimately show ?thesis
        using "2.IH"(2,3) [OF pop [symmetric] refl th(1), of ?us ?ps] th(2)
        by (cases "is_unloadable th") auto
    qed
  qed
qed simp

section \<open>The reservation loop\<close>

definition slot_result :: "usize \<Rightarrow> thread_id option \<Rightarrow> residency \<Rightarrow> codex_err + unit \<Rightarrow> 'env res_world \<Rightarrow> bool" where
  "slot_result capacity prot r res w' =
     (let r' = rw_residency w' in
      case res of
        Inr _ \<Rightarrow> unat (pending_slots r') = unat (pending_slots r) + 1
          \<and> length (residents r') + unat (pending_slots r') \<le> unat capacity
      | Inl e \<Rightarrow> e = AgentLimitReached capacity \<and> pending_slots r' = pending_slots r
          \<and> (\<forall>t \<in> set (residents r'). blocked prot (rw_threads w') t))"

lemma try_reserve_pending_slot_True:
  assumes "try_reserve_pending_slot capacity r = (True, r')" "length (residents r) < 2 ^ 64"
  shows "unat (pending_slots r') = unat (pending_slots r) + 1 \<and> residents r' = residents r
    \<and> length (residents r) + unat (pending_slots r') \<le> unat capacity"
proof -
  have len: "unat (of_nat (length (residents r)) :: usize) = length (residents r)"
    using assms(2) by (simp add: unat_of_nat)
  have lt: "saturating_add (of_nat (length (residents r))) (pending_slots r) < capacity"
    and r': "r' = r\<lparr>pending_slots := pending_slots r + 1\<rparr>"
    using assms(1) by (auto simp: try_reserve_pending_slot_def split: if_splits)
  have sum: "length (residents r) + unat (pending_slots r) < unat capacity"
    using lt unat_le_max [of capacity] by (simp add: word_less_nat_alt unat_saturating_add len)
  then have "pending_slots r < capacity" by (simp add: word_less_nat_alt)
  then have "unat (pending_slots r + 1) = Suc (unat (pending_slots r))" by (rule unat_plus_one_less)
  then show ?thesis using r' sum by simp
qed

lemma reserve_slot_result:
  assumes "reserve_slot meanwhile capacity prot w = (res, w')"
    and "distinct (residents (rw_residency w))" "length (residents (rw_residency w)) < 2 ^ 64"
  shows "distinct (residents (rw_residency w'))
    \<and> set (residents (rw_residency w')) \<subseteq> set (residents (rw_residency w))
    \<and> (\<forall>t \<in> set (residents (rw_residency w)) - set (residents (rw_residency w')). Some t \<noteq> prot)
    \<and> slot_result capacity prot (rw_residency w) res w'"
  using assms
proof (induction meanwhile capacity prot w rule: reserve_slot.induct)
  case (1 meanwhile capacity prot w)
  obtain b r where tr: "try_reserve_pending_slot capacity (rw_residency w) = (b, r)" by fastforce
  show ?case
  proof (cases b)
    case True
    then have "res = Inr ()" "w' = w\<lparr>rw_residency := r\<rparr>"
      using "1.prems"(1) tr by (auto simp: reserve_slot.simps [of meanwhile])
    then show ?thesis
      using try_reserve_pending_slot_True [of capacity "rw_residency w" r] tr True "1.prems"(2,3)
      by (auto simp: slot_result_def)
  next
    case False
    obtain b2 w2 where un: "try_unload_one_resident meanwhile prot w = (b2, w2)" by fastforce
    then have scan: "unload_scan meanwhile (length (residents (rw_residency w))) prot w = (b2, w2)"
      by (simp add: try_unload_one_resident_def resident_count_def)
    note keep = unload_scan_keeps [OF "1.prems"(2) scan]
    show ?thesis
    proof (cases b2)
      case True
      then have rec: "reserve_slot meanwhile capacity prot w2 = (res, w')"
        using "1.prems"(1) tr False un by (simp add: reserve_slot.simps [of meanwhile capacity prot w])
      have "distinct (residents (rw_residency w2))" "length (residents (rw_residency w2)) < 2 ^ 64"
        using keep True "1.prems"(3) by (auto simp: scan_keeps_def)
      note IH = "1.IH" [OF tr [symmetric] _ un [symmetric] _ rec this]
      show ?thesis using IH False True keep by (auto simp: scan_keeps_def slot_result_def Let_def split: sum.splits)
    next
      case False': False
      then have eq: "res = Inl (AgentLimitReached capacity)" "w' = w2"
        using "1.prems"(1) tr False un by (auto simp: reserve_slot.simps [of meanwhile])
      have "\<forall>t \<in> set (residents (rw_residency w2)). blocked prot (rw_threads w2) t"
        using unload_scan_False_blocked [where us = "residents (rw_residency w)" and ps = "[]"] False' scan
        by fastforce
      then show ?thesis using eq keep by (auto simp: scan_keeps_def slot_result_def)
    qed
  qed
qed

section \<open>What is evicted\<close>

definition only_candidate :: "(thread_id \<Rightarrow> 'env threads \<Rightarrow> 'env threads) \<Rightarrow> bool" where
  "only_candidate meanwhile \<longleftrightarrow> (\<forall>c ths t. t \<noteq> c \<longrightarrow> fmlookup (meanwhile c ths) t = fmlookup ths t)"

lemma evictable_cong: "fmlookup ths t = fmlookup ths' t \<Longrightarrow> evictable ths t = evictable ths' t"
  by (simp add: evictable_def loaded_candidate_def get_thread_def)

lemma remove_runtime_other:
  "t \<noteq> c \<Longrightarrow> fmlookup (snd (remove_runtime_if_matches c th ths)) t = fmlookup ths t"
  by (simp add: remove_runtime_if_matches_def split: option.splits)

lemma unload_scan_threads:
  assumes "unload_scan meanwhile n prot w = (b, w')" "only_candidate meanwhile"
    and "distinct (residents (rw_residency w))"
  shows "\<forall>t \<in> set (residents (rw_residency w')). fmlookup (rw_threads w') t = fmlookup (rw_threads w) t"
  using assms
proof (induction meanwhile n prot w rule: unload_scan.induct)
  case (2 meanwhile n prot w)
  obtain oc r where pop: "pop_lru_candidate prot (rw_residency w) = (oc, r)" by fastforce
  show ?case
  proof (cases oc)
    case None
    then show ?thesis using "2.prems"(1) pop by auto
  next
    case (Some c)
    note pop = pop [unfolded Some]
    have ms: "mset (residents (rw_residency w)) = add_mset c (mset (residents r))"
      using pop_candidate_Some [OF pop] by auto
    note facts = mset_add_distinct [OF "2.prems"(3) ms]
    show ?thesis
    proof (cases "loaded_candidate c (rw_threads w)")
      case None
      then show ?thesis using "2.IH"(1) [OF pop [symmetric] refl None] "2.prems" pop facts by auto
    next
      case (Some th)
      show ?thesis
      proof (cases "is_unloadable th \<and> ct_shutdown_ok th")
        case True
        then have "rw_residency w' = r"
          "rw_threads w' = snd (remove_runtime_if_matches c th (meanwhile c (rw_threads w)))"
          using "2.prems"(1) pop Some by (auto split: prod.splits option.splits)
        moreover have "t \<noteq> c" if "t \<in> set (residents r)" for t using that facts by blast
        ultimately show ?thesis
          using "2.prems"(2) by (simp add: only_candidate_def remove_runtime_other)
      next
        case False
        then have "unload_scan meanwhile n prot (w\<lparr>rw_residency := touch c r\<rparr>) = (b, w')"
          using "2.prems"(1) pop Some by (auto split: if_splits)
        then show ?thesis
          using "2.IH"(2,3) [OF pop [symmetric] refl Some] "2.prems"(2) False facts
          by (cases "is_unloadable th") auto
      qed
    qed
  qed
qed auto

lemma reserve_slot_evicts:
  assumes "reserve_slot meanwhile capacity prot w = (res, w')" "only_candidate meanwhile"
    and "distinct (residents (rw_residency w))"
  shows "\<forall>t \<in> set (residents (rw_residency w)) - set (residents (rw_residency w')). evictable (rw_threads w) t"
  using assms
proof (induction meanwhile capacity prot w rule: reserve_slot.induct)
  case (1 meanwhile capacity prot w)
  obtain b r where tr: "try_reserve_pending_slot capacity (rw_residency w) = (b, r)" by fastforce
  obtain b2 w2 where un: "try_unload_one_resident meanwhile prot w = (b2, w2)" by fastforce
  then have scan: "unload_scan meanwhile (length (residents (rw_residency w))) prot w = (b2, w2)"
    by (simp add: try_unload_one_resident_def resident_count_def)
  note keep = unload_scan_keeps [OF "1.prems"(3) scan] and same = unload_scan_threads [OF scan "1.prems"(2,3)]
  consider "b" | "\<not> b" "b2" | "\<not> b" "\<not> b2" by blast
  then show ?case
  proof cases
    case 1
    then show ?thesis using "1.prems"(1) tr
      by (auto simp: reserve_slot.simps [of meanwhile] try_reserve_pending_slot_def split: if_splits)
  next
    case 2
    then have rec: "reserve_slot meanwhile capacity prot w2 = (res, w')"
      using "1.prems"(1) tr un by (simp add: reserve_slot.simps [of meanwhile capacity prot w])
    have "distinct (residents (rw_residency w2))" using keep by (simp add: scan_keeps_def)
    then have "\<forall>t \<in> set (residents (rw_residency w2)) - set (residents (rw_residency w')). evictable (rw_threads w2) t"
      using "1.IH" [OF tr [symmetric] _ un [symmetric] _ rec "1.prems"(2)] 2 by simp
    then have "\<forall>t \<in> set (residents (rw_residency w2)) - set (residents (rw_residency w')). evictable (rw_threads w) t"
      using same evictable_cong by blast
    then show ?thesis using keep by (auto simp: scan_keeps_def)
  next
    case 3
    then have "w' = w2"
      using "1.prems"(1) tr un by (auto simp: reserve_slot.simps [of meanwhile])
    then show ?thesis using keep by (simp add: scan_keeps_def)
  qed
qed

section \<open>Slots over time\<close>

datatype res_op = ResReserve usize "thread_id option" | ResCommit thread_id | ResDrop
  | ResTouch thread_id | ResForget thread_id

text \<open>A run over a fixed set of loaded threads; the second component counts the slots handed out.\<close>

fun res_step ::
  "(thread_id \<Rightarrow> 'env threads \<Rightarrow> 'env threads) \<Rightarrow> res_op \<Rightarrow> 'env res_world \<times> nat \<Rightarrow> 'env res_world \<times> nat" where
  "res_step meanwhile (ResReserve capacity prot) (w, n) =
     (case reserve_slot meanwhile capacity prot w of
        (Inr _, w') \<Rightarrow> (w', Suc n)
      | (Inl _, w') \<Rightarrow> (w', n))"
| "res_step meanwhile (ResCommit t) (w, n) = (w\<lparr>rw_residency := slot_commit t (rw_residency w)\<rparr>, n - 1)"
| "res_step meanwhile ResDrop (w, n) = (w\<lparr>rw_residency := slot_drop True (rw_residency w)\<rparr>, n - 1)"
| "res_step meanwhile (ResTouch t) (w, n) = (touch_loaded_v2_residency t w, n)"
| "res_step meanwhile (ResForget t) (w, n) = (forget_v2_residency t w, n)"

text \<open>
  A slot is committed or dropped only if handed out, every reservation asks for at most the
  capacity, and a loaded thread that is touched already has a place.
\<close>

fun res_ok :: "usize \<Rightarrow> 'env res_world \<times> nat \<Rightarrow> res_op \<Rightarrow> bool" where
  "res_ok capacity (w, n) (ResReserve c _) = (c \<le> capacity)"
| "res_ok capacity (w, n) (ResCommit t) = (0 < n)"
| "res_ok capacity (w, n) ResDrop = (0 < n)"
| "res_ok capacity (w, n) (ResTouch t) = (t \<in> set (residents (rw_residency w)))"
| "res_ok capacity (w, n) (ResForget t) = True"

definition res_inv :: "usize \<Rightarrow> 'env res_world \<times> nat \<Rightarrow> bool" where
  "res_inv capacity = (\<lambda>(w, n). distinct (residents (rw_residency w))
     \<and> unat (pending_slots (rw_residency w)) = n
     \<and> length (residents (rw_residency w)) + n \<le> unat capacity)"

lemma touch_resident_length:
  assumes "t \<in> set rs" "distinct rs" shows "length (touch_resident t rs) = length rs"
proof -
  have "distinct (touch_resident t rs)" "set (touch_resident t rs) = set rs"
    using assms by (auto simp: insert_absorb)
  then show ?thesis using assms(2) by (metis distinct_card)
qed

lemma unat_release_slot: "0 < unat x \<Longrightarrow> unat (saturating_sub x 1) = unat x - 1" for x :: usize
proof -
  assume "0 < unat x"
  then have "x \<noteq> 0" "\<not> x < 1" by (auto simp: word_less_nat_alt)
  then show ?thesis using unat_minus_one_pos [of x] by (simp add: saturating_sub_def)
qed

lemma res_inv_step:
  assumes "res_inv capacity s" "res_ok capacity s x" shows "res_inv capacity (res_step meanwhile x s)"
proof -
  obtain w n where s: "s = (w, n)" by fastforce
  note inv = assms(1) [unfolded res_inv_def s prod.case]
  show ?thesis
  proof (cases x)
    case (ResReserve c prot)
    obtain res w' where rs: "reserve_slot meanwhile c prot w = (res, w')" by fastforce
    have "length (residents (rw_residency w)) < 2 ^ 64"
      using inv unat_le_max [of capacity] by simp
    note r = reserve_slot_result [OF rs _ this]
    have "length (residents (rw_residency w')) \<le> length (residents (rw_residency w))"
      using r inv by (metis card_mono distinct_card finite_set)
    then show ?thesis using r inv rs ResReserve s assms(2)
      by (cases res) (auto simp: res_inv_def slot_result_def Let_def word_le_nat_alt)
  next
    case (ResCommit t)
    have "length (touch_resident t (residents (rw_residency w))) \<le> Suc (length (residents (rw_residency w)))"
      by (rule length_touch_resident)
    then show ?thesis using inv ResCommit s assms(2)
      by (auto simp: res_inv_def slot_commit_def slot_drop_def commit_slot_def unat_release_slot)
  next
    case ResDrop
    then show ?thesis using inv s assms(2)
      by (auto simp: res_inv_def slot_drop_def release_pending_slot_def unat_release_slot)
  next
    case (ResTouch t)
    then show ?thesis using inv s assms(2) touch_resident_length [of t "residents (rw_residency w)"]
      by (auto simp: res_inv_def touch_loaded_v2_residency_def split: sum.splits)
  next
    case (ResForget t)
    have "length (filter (\<lambda>x. x \<noteq> t) (residents (rw_residency w))) + n
      \<le> length (residents (rw_residency w)) + n"
      by (rule add_right_mono) (rule length_filter_le)
    then have "length (filter (\<lambda>x. x \<noteq> t) (residents (rw_residency w))) + n \<le> unat capacity"
      using inv by (blast intro: le_trans)
    then show ?thesis using inv s ResForget
      by (simp add: res_inv_def forget_v2_residency_def remove_resident_def)
  qed
qed

interpretation residency_machine:
  guarded_machine "res_step meanwhile" "res_inv capacity" "res_ok capacity" for meanwhile capacity
  by unfold_locales (rule res_inv_step)

section \<open>Properties\<close>


definition idle_thread :: "nat \<Rightarrow> unit codex_thread" where
  "idle_thread p = \<lparr>ct_ptr = p, ct_version = Some V2, ct_source = SubAgent SubReview,
     ct_status = Completed None, ct_active_turn = False, ct_pending_mailbox = False,
     ct_owned_join = False, ct_shutdown_ok = True, ct_environments = []\<rparr>"

definition sample_world :: "unit res_world" where
  "sample_world = \<lparr>rw_residency = \<lparr>residents = [[3], [4]], pending_slots = 0\<rparr>,
     rw_threads = fmupd [3] (idle_thread 10) (fmupd [4] (idle_thread 20) fmempty),
     rw_registry = empty_registry\<rparr>"

lemma reserve_slot_free:
  "try_reserve_pending_slot capacity (rw_residency w) = (True, r) \<Longrightarrow>
   reserve_slot meanwhile capacity prot w = (Inr (), w\<lparr>rw_residency := r\<rparr>)"
  by (simp add: reserve_slot.simps)

lemma reserve_slot_full:
  "try_reserve_pending_slot capacity (rw_residency w) = (False, r) \<Longrightarrow>
   try_unload_one_resident meanwhile prot w = (True, w') \<Longrightarrow>
   reserve_slot meanwhile capacity prot w = reserve_slot meanwhile capacity prot w'"
  by (simp add: reserve_slot.simps [of meanwhile capacity prot w])

lemma sample_unload:
  "try_unload_one_resident (\<lambda>_ ths. ths) (Some [3]) sample_world =
     (True, sample_world\<lparr>rw_residency := \<lparr>residents = [[3]], pending_slots = 0\<rparr>,
        rw_threads := fmdrop [4] (rw_threads sample_world)\<rparr>)"
  by (simp add: sample_world_def idle_thread_def try_unload_one_resident_def resident_count_def
      pop_lru_candidate_def loaded_candidate_def get_thread_def is_resident_candidate_def
      is_v2_resident_session_source_def is_unloadable_def remove_runtime_if_matches_def
      save_evicted_environments_def empty_registry_def)

lemma sample_reserve:
  "reserve_slot (\<lambda>_ ths. ths) 2 (Some [3]) sample_world =
     (Inr (), sample_world\<lparr>rw_residency := \<lparr>residents = [[3]], pending_slots = 1\<rparr>,
        rw_threads := fmdrop [4] (rw_threads sample_world)\<rparr>)"
proof -
  have "try_reserve_pending_slot 2 (rw_residency sample_world) = (False, rw_residency sample_world)"
    by (simp add: try_reserve_pending_slot_def sample_world_def saturating_add_def)
  from reserve_slot_full [OF this sample_unload] show ?thesis
    by (simp add: reserve_slot_free try_reserve_pending_slot_def saturating_add_def word_le_nat_alt)
qed


text \<open>
  Over any run of reservations, commits, drops, touches and removals in which slots are
  committed or dropped only when handed out and no reservation exceeds the capacity, the pending
  counter is the number of slots handed out and residents plus pending slots never exceed the
  capacity, with no thread resident twice.
\<close>

theorem residency_within_capacity:
  assumes "allowed_run (res_ok capacity) (res_step meanwhile) ops
      (w\<lparr>rw_residency := \<lparr>residents = [], pending_slots = 0\<rparr>\<rparr>, 0)"
    and "run_ops (res_step meanwhile) ops (w\<lparr>rw_residency := \<lparr>residents = [], pending_slots = 0\<rparr>\<rparr>, 0)
      = (w', n)"
  shows "distinct (residents (rw_residency w')) \<and> unat (pending_slots (rw_residency w')) = n
    \<and> length (residents (rw_residency w')) + n \<le> unat capacity"
proof -
  have "res_inv capacity (w\<lparr>rw_residency := \<lparr>residents = [], pending_slots = 0\<rparr>\<rparr>, 0)"
    by (simp add: res_inv_def)
  from residency_machine.run_inv [OF this assms(1)] show ?thesis
    using assms(2) by (simp add: res_inv_def)
qed

definition sample_res_ops :: "res_op list" where
  "sample_res_ops = [ResReserve 2 None, ResCommit [4], ResReserve 2 None, ResTouch [4], ResForget [4]]"

lemma sample_res_run:
  "allowed_run (res_ok 2) (res_step (\<lambda>_ ths. ths)) sample_res_ops
     (sample_world\<lparr>rw_residency := \<lparr>residents = [], pending_slots = 0\<rparr>\<rparr>, 0)
   \<and> run_ops (res_step (\<lambda>_ ths. ths)) sample_res_ops
     (sample_world\<lparr>rw_residency := \<lparr>residents = [], pending_slots = 0\<rparr>\<rparr>, 0)
     = (sample_world\<lparr>rw_residency := \<lparr>residents = [], pending_slots = 1\<rparr>\<rparr>, 1)"
  by (simp add: sample_res_ops_def sample_world_def reserve_slot_free try_reserve_pending_slot_def
      saturating_add_def saturating_sub_def slot_commit_def commit_slot_def slot_drop_def
      touch_resident_def touch_loaded_v2_residency_def get_thread_def idle_thread_def
      is_resident_candidate_def is_v2_resident_session_source_def touch_def forget_v2_residency_def
      remove_resident_def word_le_nat_alt word_less_nat_alt)

theorem residency_within_capacity_witness:
  "allowed_run (res_ok 2) (res_step (\<lambda>_ ths. ths)) sample_res_ops
     (sample_world\<lparr>rw_residency := \<lparr>residents = [], pending_slots = 0\<rparr>\<rparr>, 0)
   \<and> length ([] :: thread_id list) + 1 \<le> unat (2 :: usize)"
  using residency_within_capacity [OF sample_res_run [THEN conjunct1] sample_res_run [THEN conjunct2]]
    sample_res_run by simp

end
