(* ===== verification/Turn_State.thy ===== *)
theory Turn_State
  imports Protocol_Types
begin

text \<open>
  The state of one turn and of the session's active-turn slot: \<open>core/src/state/turn.rs\<close>, the
  claim on a turn without a task of \<open>core/src/tasks/mod.rs\<close>, and the inputs a turn consumes.
  Senders, contexts and the payloads of inputs are opaque; a \<open>Mutex<TurnState>\<close> behind an
  \<open>Arc\<close> is a cell of a heap (\<open>'c turn_heap\<close>), so that two handles to the same turn alias and a
  \<open>Weak\<close> handle upgrades exactly while its cell is allocated.
\<close>

section \<open>Inputs\<close>

record inter_agent_communication =
  iac_id :: "str option"
  author :: agent_path
  recipient :: agent_path
  other_recipients :: "agent_path list"
  content :: str
  encrypted_content :: "str option"
  metadata_passthrough :: "str option"
  trigger_turn :: bool

definition iac_new ::
  "agent_path \<Rightarrow> agent_path \<Rightarrow> agent_path list \<Rightarrow> str \<Rightarrow> bool \<Rightarrow> inter_agent_communication" where
  "iac_new a r others c trigger =
     \<lparr>iac_id = None, author = a, recipient = r, other_recipients = others, content = c,
      encrypted_content = None, metadata_passthrough = None, trigger_turn = trigger\<rparr>"

definition iac_new_encrypted ::
  "agent_path \<Rightarrow> agent_path \<Rightarrow> agent_path list \<Rightarrow> str \<Rightarrow> bool \<Rightarrow> inter_agent_communication" where
  "iac_new_encrypted a r others e trigger =
     \<lparr>iac_id = None, author = a, recipient = r, other_recipients = others, content = [],
      encrypted_content = Some e, metadata_passthrough = None, trigger_turn = trigger\<rparr>"

datatype 'c turn_input =
    UserInput "'c list" "str option"
  | FunctionCallOutput 'c
  | ResponseItem 'c
  | InterAgentCommunication inter_agent_communication

record turn_start_options =
  turn_trigger :: "str option"
  final_output_json_schema :: "str option"
  service_tier :: "str option"
  parent_turn_id :: "turn_id option"
  root_turn_id :: "turn_id option"
  cyber_access_program :: "str option"

definition start_options_default :: turn_start_options where
  "start_options_default = \<lparr>turn_trigger = None, final_output_json_schema = None, service_tier = None,
     parent_turn_id = None, root_turn_id = None, cyber_access_program = None\<rparr>"

record token_usage =
  input_tokens :: int
  cached_input_tokens :: int
  cache_write_input_tokens :: int
  output_tokens :: int
  reasoning_output_tokens :: int
  total_tokens :: int
  codex_rollout_budget_units :: "str option"

definition token_usage_default :: token_usage where
  "token_usage_default = \<lparr>input_tokens = 0, cached_input_tokens = 0, cache_write_input_tokens = 0,
     output_tokens = 0, reasoning_output_tokens = 0, total_tokens = 0,
     codex_rollout_budget_units = None\<rparr>"

section \<open>The turn's mutable state\<close>

datatype mailbox_delivery_phase = CurrentTurn | NextTurn

record pending_request_permissions =
  prp_tx_response :: ptr
  prp_requested_permissions :: str
  prp_environment :: str

record 'c turn_state =
  pending_approvals :: "(str, ptr) fmap"
  pending_requests :: "(str, pending_request_permissions) fmap"
  pending_user_input :: "(str, ptr) fmap"
  pending_elicitations :: "(str \<times> str, ptr) fmap"
  mcp_tool_approvals :: "(str, str option \<times> str) fmap"
  pending_dynamic_tools :: "(str, ptr) fmap"
  pending_input :: "'c turn_input list"
  delivery_phase :: mailbox_delivery_phase
  strict_auto_review :: bool
  tool_calls :: u64
  has_memory_citation :: bool
  token_usage_at_turn_start :: token_usage
  last_known_step_context :: "ptr option"

definition turn_state_default :: "'c turn_state" where
  "turn_state_default = \<lparr>pending_approvals = fmempty, pending_requests = fmempty,
     pending_user_input = fmempty, pending_elicitations = fmempty, mcp_tool_approvals = fmempty,
     pending_dynamic_tools = fmempty, pending_input = [], delivery_phase = CurrentTurn,
     strict_auto_review = False, tool_calls = 0, has_memory_citation = False,
     token_usage_at_turn_start = token_usage_default, last_known_step_context = None\<rparr>"

definition insert_pending_approval ::
  "str \<Rightarrow> ptr \<Rightarrow> 'c turn_state \<Rightarrow> ptr option \<times> 'c turn_state" where
  "insert_pending_approval key tx s =
     (fmlookup (pending_approvals s) key, s\<lparr>pending_approvals := fmupd key tx (pending_approvals s)\<rparr>)"

definition remove_pending_approval :: "str \<Rightarrow> 'c turn_state \<Rightarrow> ptr option \<times> 'c turn_state" where
  "remove_pending_approval key s =
     (fmlookup (pending_approvals s) key, s\<lparr>pending_approvals := fmdrop key (pending_approvals s)\<rparr>)"

definition clear_pending_waiters :: "'c turn_state \<Rightarrow> 'c turn_state" where
  "clear_pending_waiters s =
     s\<lparr>pending_approvals := fmempty, pending_requests := fmempty, pending_user_input := fmempty,
       pending_elicitations := fmempty, mcp_tool_approvals := fmempty,
       pending_dynamic_tools := fmempty\<rparr>"

definition insert_pending_request_permissions ::
  "str \<Rightarrow> pending_request_permissions \<Rightarrow> 'c turn_state
     \<Rightarrow> pending_request_permissions option \<times> 'c turn_state" where
  "insert_pending_request_permissions key p s =
     (fmlookup (pending_requests s) key, s\<lparr>pending_requests := fmupd key p (pending_requests s)\<rparr>)"

definition remove_pending_request_permissions ::
  "str \<Rightarrow> 'c turn_state \<Rightarrow> pending_request_permissions option \<times> 'c turn_state" where
  "remove_pending_request_permissions key s =
     (fmlookup (pending_requests s) key, s\<lparr>pending_requests := fmdrop key (pending_requests s)\<rparr>)"

definition insert_pending_user_input ::
  "str \<Rightarrow> ptr \<Rightarrow> 'c turn_state \<Rightarrow> ptr option \<times> 'c turn_state" where
  "insert_pending_user_input key tx s =
     (fmlookup (pending_user_input s) key,
      s\<lparr>pending_user_input := fmupd key tx (pending_user_input s)\<rparr>)"

definition remove_pending_user_input :: "str \<Rightarrow> 'c turn_state \<Rightarrow> ptr option \<times> 'c turn_state" where
  "remove_pending_user_input key s =
     (fmlookup (pending_user_input s) key,
      s\<lparr>pending_user_input := fmdrop key (pending_user_input s)\<rparr>)"

definition insert_pending_elicitation ::
  "str \<Rightarrow> str \<Rightarrow> ptr \<Rightarrow> 'c turn_state \<Rightarrow> ptr option \<times> 'c turn_state" where
  "insert_pending_elicitation server request tx s =
     (fmlookup (pending_elicitations s) (server, request),
      s\<lparr>pending_elicitations := fmupd (server, request) tx (pending_elicitations s)\<rparr>)"

definition remove_pending_elicitation ::
  "str \<Rightarrow> str \<Rightarrow> 'c turn_state \<Rightarrow> ptr option \<times> 'c turn_state" where
  "remove_pending_elicitation server request s =
     (fmlookup (pending_elicitations s) (server, request),
      s\<lparr>pending_elicitations := fmdrop (server, request) (pending_elicitations s)\<rparr>)"

definition insert_mcp_tool_approval_metadata ::
  "str \<Rightarrow> str option \<Rightarrow> str \<Rightarrow> 'c turn_state \<Rightarrow> 'c turn_state" where
  "insert_mcp_tool_approval_metadata call invocation metadata s =
     s\<lparr>mcp_tool_approvals := fmupd call (invocation, metadata) (mcp_tool_approvals s)\<rparr>"

definition mcp_tool_approval_metadata :: "str \<Rightarrow> 'c turn_state \<Rightarrow> (str option \<times> str) option" where
  "mcp_tool_approval_metadata call s = fmlookup (mcp_tool_approvals s) call"

definition insert_pending_dynamic_tool ::
  "str \<Rightarrow> ptr \<Rightarrow> 'c turn_state \<Rightarrow> ptr option \<times> 'c turn_state" where
  "insert_pending_dynamic_tool key tx s =
     (fmlookup (pending_dynamic_tools s) key,
      s\<lparr>pending_dynamic_tools := fmupd key tx (pending_dynamic_tools s)\<rparr>)"

definition remove_pending_dynamic_tool :: "str \<Rightarrow> 'c turn_state \<Rightarrow> ptr option \<times> 'c turn_state" where
  "remove_pending_dynamic_tool key s =
     (fmlookup (pending_dynamic_tools s) key,
      s\<lparr>pending_dynamic_tools := fmdrop key (pending_dynamic_tools s)\<rparr>)"

definition set_mailbox_delivery_phase :: "mailbox_delivery_phase \<Rightarrow> 'c turn_state \<Rightarrow> 'c turn_state" where
  "set_mailbox_delivery_phase p s = s\<lparr>delivery_phase := p\<rparr>"

definition accept_mailbox_delivery :: "'c turn_state \<Rightarrow> 'c turn_state" where
  "accept_mailbox_delivery s = set_mailbox_delivery_phase CurrentTurn s"

definition accepts_mailbox_delivery :: "'c turn_state \<Rightarrow> bool" where
  "accepts_mailbox_delivery s \<longleftrightarrow> delivery_phase s = CurrentTurn"

definition enable_strict_auto_review :: "'c turn_state \<Rightarrow> 'c turn_state" where
  "enable_strict_auto_review s = s\<lparr>strict_auto_review := True\<rparr>"

definition strict_auto_review_enabled :: "'c turn_state \<Rightarrow> bool" where
  "strict_auto_review_enabled s = strict_auto_review s"

section \<open>The active turn\<close>

type_synonym 'c turn_heap = "(ptr, 'c turn_state) fmap"

datatype task_kind = Regular | Review | Compact

record running_task =
  rt_kind :: task_kind
  rt_sub_id :: turn_id
  rt_root_turn_id :: "turn_id option"

record pending_wake_start =
  pw_reservation :: "ptr option"
  pw_committed :: bool

record active_turn =
  at_task :: "running_task option"
  at_turn_state :: ptr
  at_claim :: "ptr option"
  at_wake :: "pending_wake_start option"

text \<open>A new active turn owns a newly allocated turn state; \<open>p\<close> is the address it gets.\<close>

definition active_turn_default :: "ptr \<Rightarrow> 'c turn_heap \<Rightarrow> active_turn \<times> 'c turn_heap" where
  "active_turn_default p h =
     (\<lparr>at_task = None, at_turn_state = p, at_claim = None, at_wake = None\<rparr>, fmupd p turn_state_default h)"

definition with_taskless_start_claim ::
  "ptr \<Rightarrow> ptr \<Rightarrow> 'c turn_heap \<Rightarrow> active_turn \<times> 'c turn_heap" where
  "with_taskless_start_claim claim p h =
     (let (a, h') = active_turn_default p h in (a\<lparr>at_claim := Some claim\<rparr>, h'))"

definition with_pending_wake_reservation ::
  "ptr \<Rightarrow> ptr \<Rightarrow> ptr \<Rightarrow> 'c turn_heap \<Rightarrow> active_turn \<times> 'c turn_heap" where
  "with_pending_wake_reservation reservation claim p h =
     (let (a, h') = active_turn_default p h
      in (a\<lparr>at_claim := Some claim,
            at_wake := Some \<lparr>pw_reservation = Some reservation, pw_committed = False\<rparr>\<rparr>, h'))"

definition taskless_start_claim :: "active_turn \<Rightarrow> ptr option" where
  "taskless_start_claim a = at_claim a"

definition ensure_taskless_start_claim :: "ptr \<Rightarrow> active_turn \<Rightarrow> active_turn" where
  "ensure_taskless_start_claim claim a =
     (case at_claim a of None \<Rightarrow> a\<lparr>at_claim := Some claim\<rparr> | Some _ \<Rightarrow> a)"

definition take_pending_wake_reservation_for_user :: "active_turn \<Rightarrow> ptr option \<times> active_turn" where
  "take_pending_wake_reservation_for_user a =
     (case at_wake a of
        None \<Rightarrow> (None, a)
      | Some pending \<Rightarrow>
          if pw_committed pending then (None, a)
          else (pw_reservation pending, a\<lparr>at_wake := None\<rparr>))"

definition commit_pending_wake :: "active_turn \<Rightarrow> ptr option \<times> active_turn" where
  "commit_pending_wake a =
     (case at_wake a of
        None \<Rightarrow> (None, a)
      | Some pending \<Rightarrow>
          if pw_committed pending then (None, a)
          else (pw_reservation pending,
                a\<lparr>at_wake := Some \<lparr>pw_reservation = None, pw_committed = True\<rparr>\<rparr>))"

definition finish_taskless_start :: "active_turn \<Rightarrow> active_turn" where
  "finish_taskless_start a = a\<lparr>at_wake := None, at_claim := None\<rparr>"

text \<open>The root turn id of a turn's metadata is a \<open>OnceLock\<close> that refuses blank values.\<close>

definition set_root_turn_id :: "turn_id \<Rightarrow> running_task \<Rightarrow> running_task" where
  "set_root_turn_id r t =
     (if trim r = [] then t
      else case rt_root_turn_id t of None \<Rightarrow> t\<lparr>rt_root_turn_id := Some r\<rparr> | Some _ \<Rightarrow> t)"

section \<open>The claim on a turn that has no task yet\<close>

datatype claim_status = Starting | ClaimRunning | Cancelled

record claim_owner =
  co_claim :: ptr
  co_completed :: bool

type_synonym claims = "(ptr, claim_status) fmap"

definition claim_new :: "ptr \<Rightarrow> claims \<Rightarrow> claim_owner \<times> claims" where
  "claim_new p cs = (\<lparr>co_claim = p, co_completed = False\<rparr>, fmupd p Starting cs)"

definition claim_set_status :: "ptr \<Rightarrow> claim_status \<Rightarrow> claims \<Rightarrow> claims" where
  "claim_set_status p next cs =
     (case fmlookup cs p of
        Some current \<Rightarrow> if current \<noteq> Starting then cs else fmupd p next cs
      | None \<Rightarrow> cs)"

definition owner_drop :: "claim_owner \<Rightarrow> claims \<Rightarrow> claims" where
  "owner_drop own cs = (if \<not> co_completed own then claim_set_status (co_claim own) Cancelled cs else cs)"

definition owner_complete :: "claim_owner \<Rightarrow> claims \<Rightarrow> claims" where
  "owner_complete own cs =
     owner_drop (own\<lparr>co_completed := True\<rparr>) (claim_set_status (co_claim own) ClaimRunning cs)"

text \<open>
  A waiter returns the first status other than \<open>Starting\<close> among those it observes, and
  \<open>Cancelled\<close> when the channel closes first.
\<close>

fun claim_wait :: "claim_status list \<Rightarrow> claim_status" where
  "claim_wait [] = Cancelled"
| "claim_wait (c # cs) = (if c \<noteq> Starting then c else claim_wait cs)"

section \<open>Properties\<close>

datatype wake_op = TakeForUser | CommitWake | EnsureClaim ptr

fun wake_step :: "wake_op \<Rightarrow> active_turn \<times> ptr list \<Rightarrow> active_turn \<times> ptr list" where
  "wake_step TakeForUser (a, out) =
     (let (r, a') = take_pending_wake_reservation_for_user a
      in (a', out @ (case r of Some x \<Rightarrow> [x] | None \<Rightarrow> [])))"
| "wake_step CommitWake (a, out) =
     (let (r, a') = commit_pending_wake a in (a', out @ (case r of Some x \<Rightarrow> [x] | None \<Rightarrow> [])))"
| "wake_step (EnsureClaim c) (a, out) = (ensure_taskless_start_claim c a, out)"

lemma ensure_claim_wake [simp]: "at_wake (ensure_taskless_start_claim c a) = at_wake a"
  by (simp add: ensure_taskless_start_claim_def split: option.splits)

text \<open>Either the reservation is still stored and none was handed out, or it was handed out once.\<close>

definition wake_inv :: "ptr \<Rightarrow> active_turn \<times> ptr list \<Rightarrow> bool" where
  "wake_inv r = (\<lambda>(a, out).
     (out = [] \<and> at_wake a = Some \<lparr>pw_reservation = Some r, pw_committed = False\<rparr>)
     \<or> (out = [r] \<and> (at_wake a = None \<or> at_wake a = Some \<lparr>pw_reservation = None, pw_committed = True\<rparr>)))"

lemma wake_inv_step: "wake_inv r s \<Longrightarrow> wake_inv r (wake_step x s)"
  by (cases x; cases s)
    (auto simp: wake_inv_def take_pending_wake_reservation_for_user_def commit_pending_wake_def)

text \<open>
  The execution reservation parked with a pending wake is handed out at most once, whatever
  the order in which user starts and wake commits reach the active turn, and it is handed out as
  soon as one of them does: a user start and a mailbox wake never both obtain it and it is never
  lost.
\<close>

theorem wake_reservation_once:
  "snd (run_ops wake_step ops (fst (with_pending_wake_reservation r c p h), []))
     = (if TakeForUser \<in> set ops \<or> CommitWake \<in> set ops then [r] else [])"
proof -
  let ?s = "(fst (with_pending_wake_reservation r c p h), [])"
  have start: "wake_inv r ?s"
    by (simp add: wake_inv_def with_pending_wake_reservation_def active_turn_default_def)
  have out: "snd s = [r] \<Longrightarrow> wake_inv r s \<Longrightarrow> snd (run_ops wake_step xs s) = [r]" for s xs
  proof (induction xs arbitrary: s)
    case (Cons x xs)
    then have "snd (wake_step x s) = [r]" using wake_inv_step [of r s x]
      by (cases x; cases s)
        (auto simp: wake_inv_def take_pending_wake_reservation_for_user_def commit_pending_wake_def)
    then show ?case using Cons wake_inv_step by simp
  qed simp
  have "snd s = [] \<Longrightarrow> wake_inv r s \<Longrightarrow>
    snd (run_ops wake_step ops s) = (if TakeForUser \<in> set ops \<or> CommitWake \<in> set ops then [r] else [])" for s
  proof (induction ops arbitrary: s)
    case (Cons x xs)
    obtain a where s: "s = (a, [])" "at_wake a = Some \<lparr>pw_reservation = Some r, pw_committed = False\<rparr>"
      using Cons.prems by (cases s) (auto simp: wake_inv_def)
    have inv: "wake_inv r (wake_step x s)" using Cons.prems wake_inv_step by blast
    show ?case
    proof (cases x)
      case (EnsureClaim c)
      then show ?thesis using Cons.IH [of "wake_step x s"] inv s by auto
    qed (use out [of "wake_step x s" xs] inv s in \<open>auto simp:
        take_pending_wake_reservation_for_user_def commit_pending_wake_def\<close>)
  qed simp
  then show ?thesis using start by simp
qed

end
