(* ===== verification/Owned_Join.thy ===== *)
theory Owned_Join
  imports Turn_State
begin

text \<open>
  The join obligations a parent session owns towards its children:
  \<open>core/src/session/input_queue/owned_join.rs\<close> with \<open>owned_join/continuation.rs\<close> and
  \<open>owned_join/delivery.rs\<close>, over the state of \<open>InputQueue\<close> (\<open>core/src/session/input_queue.rs\<close>).
  Each method runs under the locks it takes, so it is one function of the queue; watch channels
  are their current value and the broadcast channel is the log of what was sent.
\<close>

section \<open>State\<close>

text \<open>
  A token's \<open>consumed\<close> flag is shared by its clones and only set when an acknowledged obligation
  has been taken out of the store, so the flag is kept with the obligation.
\<close>

record owned_obligation =
  generation :: u64
  consumed :: bool

type_synonym targets = "(thread_id, ptr \<times> turn_id) fmap"

record join_obligation =
  jo_parent_thread_id :: thread_id
  jo_parent_turn_id :: turn_id
  jo_targets :: targets
  jo_results :: "(thread_id, agent_status) fmap"
  jo_ready :: bool
  jo_trigger_sent :: bool
  jo_dispatch_complete :: bool
  jo_trigger_turn :: bool
  jo_retained_targets :: "thread_id fset"
  jo_retained_predecessor :: "turn_id option"
  jo_token :: owned_obligation

record join_continuation_lease =
  jc_parent_thread_id :: thread_id
  jc_generation :: u64
  jc_predecessor_turn_id :: turn_id
  jc_successor_turn_id :: turn_id
  jc_successor_turn_state :: ptr
  jc_terminal_status :: "agent_status option"

record join_obligation_store =
  next_generation :: u64
  obligations :: "join_obligation list"
  continuations :: "join_continuation_lease list"

record join_completion =
  cp_parent_turn_id :: turn_id
  cp_generation :: u64
  cp_outcomes :: "(thread_id \<times> agent_status) list"
  cp_trigger_turn :: bool

record retained_join_resolution =
  rr_completion :: "join_completion option"
  rr_parent_turn_id :: turn_id

record retained_join_delivery_state =
  owner_turn_id :: turn_id
  consumed_for_target :: bool

record exact_join_terminal =
  ej_turn_id :: turn_id
  ej_turn_state :: ptr
  ej_status :: agent_status

datatype activity = ActMailbox | ActSteer

datatype mailbox_provenance = Ordinary | JoinAggregate u64

record pending_mail =
  pm_communication :: inter_agent_communication
  pm_start_options :: turn_start_options
  pm_provenance :: mailbox_provenance

record input_queue =
  activity_tx :: activity
  join_continuation_tx :: u64
  exact_join_terminal_tx :: "exact_join_terminal list"
  exact_join_terminals :: "exact_join_terminal list"
  mailbox_pending_mails :: "pending_mail list"
  join_obligations :: join_obligation_store
  join_trigger_provenance :: "(turn_id, u64) fmap"

definition store_default :: join_obligation_store where
  "store_default = \<lparr>next_generation = 0, obligations = [], continuations = []\<rparr>"

definition input_queue_new :: input_queue where
  "input_queue_new = \<lparr>activity_tx = ActMailbox, join_continuation_tx = 0, exact_join_terminal_tx = [],
     exact_join_terminals = [], mailbox_pending_mails = [], join_obligations = store_default,
     join_trigger_provenance = fmempty\<rparr>"

definition owned_obligation_new :: "u64 \<Rightarrow> owned_obligation" where
  "owned_obligation_new g = \<lparr>generation = g, consumed = False\<rparr>"

definition consume_if_current :: "u64 \<Rightarrow> owned_obligation \<Rightarrow> bool \<times> owned_obligation" where
  "consume_if_current g t =
     (if generation t = g \<and> \<not> consumed t then (True, t\<lparr>consumed := True\<rparr>) else (False, t))"

abbreviation ob_generation :: "join_obligation \<Rightarrow> u64" where
  "ob_generation ob \<equiv> generation (jo_token ob)"

abbreviation with_store :: "input_queue \<Rightarrow> join_obligation_store \<Rightarrow> input_queue" where
  "with_store q st \<equiv> q\<lparr>join_obligations := st\<rparr>"

section \<open>Registration and queries\<close>

definition same_target_bindings :: "targets \<Rightarrow> targets \<Rightarrow> bool" where
  "same_target_bindings left right \<longleftrightarrow>
     fcard (fmdom left) = fcard (fmdom right)
     \<and> list_all (\<lambda>(t, inc, turn).
         case fmlookup right t of
           Some (inc', turn') \<Rightarrow> inc = inc' \<and> turn = turn'
         | None \<Rightarrow> False) (sorted_list_of_fmap left)"

definition register_obligation ::
  "thread_id \<Rightarrow> turn_id \<Rightarrow> targets \<Rightarrow> bool \<Rightarrow> input_queue \<Rightarrow> owned_obligation option \<times> input_queue" where
  "register_obligation thread turn tgts trigger q =
     (let st = join_obligations q;
          existing = (if trigger then None else List.find (\<lambda>ob.
             jo_parent_thread_id ob = thread \<and> jo_parent_turn_id ob = turn
             \<and> same_target_bindings (jo_targets ob) tgts) (obligations st))
      in case existing of
           Some ob \<Rightarrow> (Some (jo_token ob), q)
         | None \<Rightarrow>
             if list_ex (\<lambda>ob. jo_parent_thread_id ob = thread \<and> jo_parent_turn_id ob = turn
                  \<and> jo_trigger_turn ob = trigger) (obligations st)
             then (None, q)
             else let g = saturating_add (next_generation st) 1;
                      token = owned_obligation_new g;
                      ob = \<lparr>jo_parent_thread_id = thread, jo_parent_turn_id = turn,
                            jo_targets = tgts, jo_results = fmempty, jo_ready = False,
                            jo_trigger_sent = False, jo_dispatch_complete = False,
                            jo_trigger_turn = trigger, jo_retained_targets = {||},
                            jo_retained_predecessor = None, jo_token = token\<rparr>
                  in (Some token, with_store q
                        (st\<lparr>next_generation := g, obligations := obligations st @ [ob]\<rparr>)))"

definition register_join_obligation ::
  "thread_id \<Rightarrow> turn_id \<Rightarrow> targets \<Rightarrow> input_queue \<Rightarrow> owned_obligation option \<times> input_queue" where
  "register_join_obligation thread turn tgts q = register_obligation thread turn tgts True q"

definition register_wait_obligation ::
  "thread_id \<Rightarrow> turn_id \<Rightarrow> targets \<Rightarrow> input_queue \<Rightarrow> owned_obligation option \<times> input_queue" where
  "register_wait_obligation thread turn tgts q = register_obligation thread turn tgts False q"

definition subscribe_join_continuations :: "input_queue \<Rightarrow> u64" where
  "subscribe_join_continuations q = join_continuation_tx q"

definition bump_join_continuation_revision :: "input_queue \<Rightarrow> input_queue" where
  "bump_join_continuation_revision q =
     q\<lparr>join_continuation_tx := saturating_add (join_continuation_tx q) 1\<rparr>"

definition status_for :: "'c turn_heap \<Rightarrow> exact_join_terminal \<Rightarrow> turn_id \<Rightarrow> ptr \<Rightarrow> agent_status option" where
  "status_for h e turn ts =
     (if fmlookup h (ej_turn_state e) = None then None
      else if ej_turn_id e = turn \<and> ej_turn_state e = ts then Some (ej_status e) else None)"

definition exact_join_terminal_status ::
  "'c turn_heap \<Rightarrow> turn_id \<Rightarrow> ptr \<Rightarrow> input_queue \<Rightarrow> agent_status option \<times> input_queue" where
  "exact_join_terminal_status h turn ts q =
     (let terminals = filter (\<lambda>e. fmlookup h (ej_turn_state e) \<noteq> None) (exact_join_terminals q)
      in (find_map (\<lambda>e. status_for h e turn ts) (rev terminals), q\<lparr>exact_join_terminals := terminals\<rparr>))"

definition has_owned_join_state :: "input_queue \<Rightarrow> bool" where
  "has_owned_join_state q \<longleftrightarrow>
     obligations (join_obligations q) \<noteq> [] \<or> continuations (join_obligations q) \<noteq> []"

text \<open>\<open>let first = matching.next(); if matching.next().is_some()\<close>: at most one match.\<close>

fun unique_match :: "'a list \<Rightarrow> unit + 'a option" where
  "unique_match [] = Inr None"
| "unique_match [x] = Inr (Some x)"
| "unique_match (x # y # zs) = Inl ()"

definition owned_by :: "thread_id \<Rightarrow> u64 \<Rightarrow> join_obligation \<Rightarrow> bool" where
  "owned_by thread g ob \<longleftrightarrow> jo_parent_thread_id ob = thread \<and> ob_generation ob = g"

definition join_owner_turn_for_generation ::
  "thread_id \<Rightarrow> u64 \<Rightarrow> input_queue \<Rightarrow> unit + turn_id option" where
  "join_owner_turn_for_generation thread g q =
     and_then (unique_match (filter (owned_by thread g) (obligations (join_obligations q))))
       (\<lambda>first. Inr (map_option jo_parent_turn_id first))"

definition retained_join_delivery_state_of ::
  "thread_id \<Rightarrow> u64 \<Rightarrow> thread_id \<Rightarrow> input_queue \<Rightarrow> unit + retained_join_delivery_state option" where
  "retained_join_delivery_state_of thread g child q =
     and_then (unique_match (filter (owned_by thread g) (obligations (join_obligations q))))
       (\<lambda>first. Inr (map_option (\<lambda>ob.
          \<lparr>owner_turn_id = jo_parent_turn_id ob,
           consumed_for_target = (child |\<in>| jo_retained_targets ob
             \<and> fmlookup (jo_results ob) child = None
             \<and> jo_retained_predecessor ob = None)\<rparr>) first))"

definition join_continuation_for_predecessor ::
  "thread_id \<Rightarrow> turn_id \<Rightarrow> input_queue
     \<Rightarrow> unit + (u64 \<times> (turn_id \<times> ptr \<times> agent_status option) option) option" where
  "join_continuation_for_predecessor thread pred q =
     (let st = join_obligations q in
      and_then (unique_match (filter (\<lambda>c.
          jc_parent_thread_id c = thread \<and> jc_predecessor_turn_id c = pred) (continuations st)))
       (\<lambda>first_bound.
      and_then (unique_match (filter (\<lambda>ob.
          jo_trigger_turn ob \<and> jo_parent_thread_id ob = thread \<and> jo_parent_turn_id ob = pred)
          (obligations st)))
       (\<lambda>first_pending.
          if first_bound \<noteq> None \<and> first_pending \<noteq> None then Inl ()
          else case first_bound of
                 Some c \<Rightarrow> Inr (Some (jc_generation c,
                   Some (jc_successor_turn_id c, jc_successor_turn_state c, jc_terminal_status c)))
               | None \<Rightarrow> Inr (map_option (\<lambda>ob. (ob_generation ob, None)) first_pending))))"

section \<open>Resolving a target\<close>

text \<open>The outcome list is sorted by thread id, the order of \<open>sorted_list_of_fmap\<close>.\<close>

definition resolve_obligation ::
  "bool \<Rightarrow> thread_id \<Rightarrow> agent_status \<Rightarrow> join_obligation \<Rightarrow> retained_join_resolution \<times> join_obligation" where
  "resolve_obligation retain child status ob0 =
     (let ob1 = (if retain then ob0\<lparr>jo_retained_targets := finsert child (jo_retained_targets ob0)\<rparr> else ob0);
          ob2 = (case fmlookup (jo_results ob1) child of
                   None \<Rightarrow> ob1\<lparr>jo_results := fmupd child status (jo_results ob1)\<rparr>
                 | Some _ \<Rightarrow> ob1);
          turn = jo_parent_turn_id ob2;
          no_completion = \<lparr>rr_completion = None, rr_parent_turn_id = turn\<rparr>
      in if fcard (fmdom (jo_results ob2)) \<noteq> fcard (fmdom (jo_targets ob2)) then (no_completion, ob2)
         else if jo_retained_targets ob2 \<noteq> {||} \<and> jo_retained_predecessor ob2 \<noteq> None
         then (no_completion, ob2)
         else let ob3 = ob2\<lparr>jo_ready := True\<rparr> in
              if jo_trigger_sent ob3 then (no_completion, ob3)
              else let ob4 = ob3\<lparr>jo_trigger_sent := True\<rparr>;
                       ob5 = (if jo_trigger_turn ob4 \<and> jo_retained_targets ob4 \<noteq> {||}
                              then ob4\<lparr>jo_retained_predecessor := Some turn\<rparr> else ob4)
                   in (\<lparr>rr_completion = Some
                          \<lparr>cp_parent_turn_id = turn, cp_generation = ob_generation ob5,
                           cp_outcomes = sorted_list_of_fmap (jo_results ob5),
                           cp_trigger_turn = jo_trigger_turn ob5\<rparr>,
                        rr_parent_turn_id = turn\<rparr>, ob5))"

definition binds_target :: "thread_id \<Rightarrow> u64 \<Rightarrow> thread_id \<Rightarrow> join_obligation \<Rightarrow> bool" where
  "binds_target thread g child ob \<longleftrightarrow>
     jo_parent_thread_id ob = thread \<and> ob_generation ob = g \<and> fmlookup (jo_targets ob) child \<noteq> None"

definition resolve_join_target_inner ::
  "thread_id \<Rightarrow> u64 \<Rightarrow> thread_id \<Rightarrow> ptr \<Rightarrow> turn_id \<Rightarrow> agent_status \<Rightarrow> bool \<Rightarrow> input_queue
     \<Rightarrow> retained_join_resolution option \<times> input_queue" where
  "resolve_join_target_inner thread g child inc turn status retain q =
     (if \<not> is_final status \<or> (retain \<and> \<not> is_completed status) then (None, q)
      else let st = join_obligations q in
      case position (binds_target thread g child) (obligations st) of
        None \<Rightarrow> (None, q)
      | Some i \<Rightarrow>
          (let ob = obligations st ! i in
           case fmlookup (jo_targets ob) child of
             None \<Rightarrow> (None, q)
           | Some (expected_inc, expected_turn) \<Rightarrow>
               if expected_turn \<noteq> turn \<or> expected_inc \<noteq> inc then (None, q)
               else if retain \<and> \<not> jo_trigger_turn ob then (None, q)
               else let (r, ob') = resolve_obligation retain child status ob
                    in (Some r, with_store q (st\<lparr>obligations := (obligations st)[i := ob']\<rparr>))))"

definition resolve_join_target ::
  "thread_id \<Rightarrow> u64 \<Rightarrow> thread_id \<Rightarrow> ptr \<Rightarrow> turn_id \<Rightarrow> agent_status \<Rightarrow> input_queue
     \<Rightarrow> join_completion option \<times> input_queue" where
  "resolve_join_target thread g child inc turn status q =
     (let (r, q') = resolve_join_target_inner thread g child inc turn status False q
      in (Option.bind r rr_completion, q'))"

definition resolve_join_target_retaining_successor ::
  "thread_id \<Rightarrow> u64 \<Rightarrow> thread_id \<Rightarrow> ptr \<Rightarrow> turn_id \<Rightarrow> agent_status \<Rightarrow> input_queue
     \<Rightarrow> retained_join_resolution option \<times> input_queue" where
  "resolve_join_target_retaining_successor thread g child inc turn status q =
     resolve_join_target_inner thread g child inc turn status True q"

section \<open>Continuations\<close>

text \<open>The obligation whose retained target may move on: not ready and without a result for it.\<close>

definition retains_target :: "thread_id \<Rightarrow> u64 \<Rightarrow> thread_id \<Rightarrow> join_obligation \<Rightarrow> bool" where
  "retains_target thread g child ob \<longleftrightarrow>
     jo_parent_thread_id ob = thread \<and> ob_generation ob = g \<and> \<not> jo_ready ob
     \<and> fmlookup (jo_results ob) child = None \<and> jo_retained_predecessor ob = None
     \<and> child |\<in>| jo_retained_targets ob"

definition rebind_join_target_to_successor ::
  "thread_id \<Rightarrow> u64 \<Rightarrow> thread_id \<Rightarrow> ptr \<Rightarrow> turn_id \<Rightarrow> turn_id \<Rightarrow> input_queue \<Rightarrow> bool \<times> input_queue" where
  "rebind_join_target_to_successor thread g child inc pred succ q =
     (if pred = [] \<or> succ = [] \<or> pred = succ then (False, q)
      else let st = join_obligations q in
      case position (retains_target thread g child) (obligations st) of
        None \<Rightarrow> (False, q)
      | Some i \<Rightarrow>
          (let ob = obligations st ! i in
           case fmlookup (jo_targets ob) child of
             None \<Rightarrow> (False, q)
           | Some (expected_inc, expected_turn) \<Rightarrow>
               if expected_turn \<noteq> pred \<or> expected_inc \<noteq> inc then (False, q)
               else (True, with_store q (st\<lparr>obligations := (obligations st)[i :=
                      ob\<lparr>jo_targets := fmupd child (expected_inc, succ) (jo_targets ob),
                         jo_retained_targets := jo_retained_targets ob |-| {|child|}\<rparr>]\<rparr>))))"

definition retire_join_target_successor_retention ::
  "thread_id \<Rightarrow> u64 \<Rightarrow> thread_id \<Rightarrow> ptr \<Rightarrow> turn_id \<Rightarrow> input_queue \<Rightarrow> bool \<times> input_queue" where
  "retire_join_target_successor_retention thread g child inc pred q =
     (let st = join_obligations q in
      case position (retains_target thread g child) (obligations st) of
        None \<Rightarrow> (False, q)
      | Some i \<Rightarrow>
          (let ob = obligations st ! i in
           case fmlookup (jo_targets ob) child of
             None \<Rightarrow> (False, q)
           | Some (expected_inc, expected_turn) \<Rightarrow>
               if expected_turn \<noteq> pred \<or> expected_inc \<noteq> inc then (False, q)
               else (True, with_store q (st\<lparr>obligations := (obligations st)[i :=
                      ob\<lparr>jo_retained_targets := jo_retained_targets ob |-| {|child|}\<rparr>]\<rparr>))))"

definition retain_continuations :: "(join_continuation_lease \<Rightarrow> bool) \<Rightarrow> input_queue \<Rightarrow> input_queue" where
  "retain_continuations keep q =
     (let st = join_obligations q;
          kept = filter keep (continuations st);
          q' = with_store q (st\<lparr>continuations := kept\<rparr>)
      in if length kept \<noteq> length (continuations st) then bump_join_continuation_revision q' else q')"

definition finish_join_continuation ::
  "thread_id \<Rightarrow> u64 \<Rightarrow> turn_id \<Rightarrow> turn_id \<Rightarrow> ptr \<Rightarrow> input_queue \<Rightarrow> input_queue" where
  "finish_join_continuation thread g pred succ ts q =
     retain_continuations (\<lambda>c. jc_parent_thread_id c \<noteq> thread \<or> jc_generation c \<noteq> g
       \<or> jc_predecessor_turn_id c \<noteq> pred \<or> jc_successor_turn_id c \<noteq> succ
       \<or> jc_successor_turn_state c \<noteq> ts) q"

definition finish_root_join_continuations ::
  "thread_id \<Rightarrow> turn_id \<Rightarrow> ptr \<Rightarrow> input_queue \<Rightarrow> input_queue" where
  "finish_root_join_continuations root_thread turn ts q =
     retain_continuations (\<lambda>c. jc_parent_thread_id c \<noteq> root_thread \<or> jc_successor_turn_id c \<noteq> turn
       \<or> jc_successor_turn_state c \<noteq> ts) q"

definition awaits_terminal :: "thread_id \<Rightarrow> turn_id \<Rightarrow> ptr \<Rightarrow> join_continuation_lease \<Rightarrow> bool" where
  "awaits_terminal thread turn ts c \<longleftrightarrow>
     jc_parent_thread_id c = thread \<and> jc_successor_turn_id c = turn
     \<and> jc_successor_turn_state c = ts \<and> jc_terminal_status c = None"

definition joined_generation :: "u64 list \<Rightarrow> pending_mail \<Rightarrow> bool" where
  "joined_generation gs mail =
     (case pm_provenance mail of JoinAggregate g \<Rightarrow> g \<in> set gs | Ordinary \<Rightarrow> False)"

definition record_exact_terminal ::
  "'c turn_heap \<Rightarrow> exact_join_terminal \<Rightarrow> exact_join_terminal list \<Rightarrow> exact_join_terminal list" where
  "record_exact_terminal h e terminals =
     (let live = filter (\<lambda>x. fmlookup h (ej_turn_state x) \<noteq> None) terminals;
          same = (\<lambda>x. ej_turn_id x = ej_turn_id e \<and> fmlookup h (ej_turn_state x) \<noteq> None
                    \<and> ej_turn_state x = ej_turn_state e)
      in if list_ex same live then update_first same (\<lambda>_. e) live else live @ [e])"

definition retired_generations :: "thread_id \<Rightarrow> turn_id \<Rightarrow> agent_status \<Rightarrow> join_obligation_store \<Rightarrow> u64 list" where
  "retired_generations thread turn status st =
     (if is_completed status then []
      else map ob_generation (filter (\<lambda>ob. jo_trigger_turn ob
             \<and> jo_parent_thread_id ob = thread \<and> jo_parent_turn_id ob = turn) (obligations st)))"

definition record_nested_join_turn_terminal ::
  "'c turn_heap \<Rightarrow> thread_id \<Rightarrow> turn_id \<Rightarrow> ptr \<Rightarrow> agent_status \<Rightarrow> input_queue \<Rightarrow> input_queue" where
  "record_nested_join_turn_terminal h thread turn ts status q =
     (if \<not> is_final status then q
      else
        let st = join_obligations q;
            recorded = list_ex (awaits_terminal thread turn ts) (continuations st);
            st1 = st\<lparr>continuations := map (\<lambda>c. if awaits_terminal thread turn ts c
                       then c\<lparr>jc_terminal_status := Some status\<rparr> else c) (continuations st)\<rparr>;
            retired = retired_generations thread turn status st;
            q1 = (if retired \<noteq> []
                  then q\<lparr>join_obligations := st1\<lparr>obligations :=
                            filter (\<lambda>ob. ob_generation ob \<notin> set retired) (obligations st1)\<rparr>,
                         mailbox_pending_mails :=
                            filter (\<lambda>m. \<not> joined_generation retired m) (mailbox_pending_mails q)\<rparr>
                  else q\<lparr>join_obligations := st1\<rparr>);
            q2 = (if recorded \<or> retired \<noteq> [] then bump_join_continuation_revision q1 else q1);
            e = \<lparr>ej_turn_id = turn, ej_turn_state = ts, ej_status = status\<rparr>
        in q2\<lparr>exact_join_terminals := record_exact_terminal h e (exact_join_terminals q2),
              exact_join_terminal_tx := exact_join_terminal_tx q2 @ [e]\<rparr>)"

section \<open>Delivery\<close>

definition acknowledgeable :: "turn_id \<Rightarrow> u64 \<Rightarrow> join_obligation \<Rightarrow> bool" where
  "acknowledgeable pred g ob \<longleftrightarrow>
     ob_generation ob = g
     \<and> ((jo_parent_turn_id ob = pred \<and> jo_ready ob) \<or> jo_retained_predecessor ob = Some pred)"

definition transfer_retained :: "turn_id \<Rightarrow> join_obligation \<Rightarrow> join_obligation" where
  "transfer_retained succ ob =
     ob\<lparr>jo_results := fmfilter (\<lambda>t. t |\<notin>| jo_retained_targets ob) (jo_results ob),
        jo_parent_turn_id := succ, jo_ready := False, jo_trigger_sent := False,
        jo_dispatch_complete := False, jo_retained_predecessor := None\<rparr>"

definition acknowledge_ready_join_delivery_locked ::
  "turn_id \<Rightarrow> u64 \<Rightarrow> turn_id \<Rightarrow> ptr option \<Rightarrow> join_obligation_store
     \<Rightarrow> bool option \<times> join_obligation_store" where
  "acknowledge_ready_join_delivery_locked pred g succ ts st =
     (case position (acknowledgeable pred g) (obligations st) of
        None \<Rightarrow> (None, st)
      | Some i \<Rightarrow>
          (let ob = obligations st ! i;
               lease = (\<lambda>s. \<lparr>jc_parent_thread_id = jo_parent_thread_id ob, jc_generation = g,
                          jc_predecessor_turn_id = pred, jc_successor_turn_id = succ,
                          jc_successor_turn_state = s, jc_terminal_status = None\<rparr>)
           in if jo_retained_predecessor ob = Some pred
              then let st1 = st\<lparr>obligations := (obligations st)[i := transfer_retained succ ob]\<rparr>
                   in (Some True,
                       if pred \<noteq> succ
                       then (case ts of
                               Some s \<Rightarrow> st1\<lparr>continuations := continuations st1 @ [lease s]\<rparr>
                             | None \<Rightarrow> st1)
                       else st1)
              else let st1 = st\<lparr>obligations := remove_nth i (obligations st)\<rparr>
                   in if \<not> fst (consume_if_current g (jo_token ob)) then (None, st1)
                      else let installs = jo_trigger_turn ob \<and> pred \<noteq> succ \<and> ts \<noteq> None
                           in (Some installs,
                               case ts of
                                 Some s \<Rightarrow> if installs
                                   then st1\<lparr>continuations := continuations st1 @ [lease s]\<rparr> else st1
                               | None \<Rightarrow> st1)))"

definition acknowledge_in_queue ::
  "turn_id \<Rightarrow> u64 \<Rightarrow> turn_id \<Rightarrow> ptr option \<Rightarrow> input_queue \<Rightarrow> bool \<times> input_queue" where
  "acknowledge_in_queue pred g succ ts q =
     (case acknowledge_ready_join_delivery_locked pred g succ ts (join_obligations q) of
        (None, st) \<Rightarrow> (False, with_store q st)
      | (Some changed, st) \<Rightarrow>
          (True, if changed then bump_join_continuation_revision (with_store q st) else with_store q st))"

definition consume_ready_join_obligation :: "turn_id \<Rightarrow> u64 \<Rightarrow> input_queue \<Rightarrow> bool \<times> input_queue" where
  "consume_ready_join_obligation turn g q = acknowledge_in_queue turn g turn None q"

definition acknowledge_ready_join_obligation_for_turn ::
  "turn_id \<Rightarrow> u64 \<Rightarrow> turn_id \<Rightarrow> ptr \<Rightarrow> input_queue \<Rightarrow> bool \<times> input_queue" where
  "acknowledge_ready_join_obligation_for_turn pred g succ ts q = acknowledge_in_queue pred g succ (Some ts) q"

definition target_current :: "join_obligation \<Rightarrow> targets \<Rightarrow> thread_id \<Rightarrow> bool" where
  "target_current ob current t =
     (case fmlookup (jo_targets ob) t of
        None \<Rightarrow> False
      | Some (expected_inc, expected_turn) \<Rightarrow>
          (case fmlookup current t of
             None \<Rightarrow> False
           | Some (current_inc, current_turn) \<Rightarrow>
               expected_turn \<noteq> [] \<and> expected_inc = current_inc
               \<and> (expected_turn = current_turn
                  \<or> (current_turn = [] \<and> fmlookup (jo_results ob) t \<noteq> None))))"

definition ready_for_targets ::
  "thread_id \<Rightarrow> turn_id \<Rightarrow> thread_id list \<Rightarrow> targets \<Rightarrow> join_obligation \<Rightarrow> bool" where
  "ready_for_targets thread turn ids current ob \<longleftrightarrow>
     jo_parent_thread_id ob = thread \<and> jo_parent_turn_id ob = turn \<and> jo_ready ob
     \<and> jo_dispatch_complete ob \<and> fcard (fmdom (jo_targets ob)) = length ids
     \<and> list_all (target_current ob current) ids"

definition consume_ready_join_obligation_for_targets_with_outcomes ::
  "thread_id \<Rightarrow> turn_id \<Rightarrow> thread_id list \<Rightarrow> targets \<Rightarrow> input_queue
     \<Rightarrow> (thread_id \<times> agent_status) list option \<times> input_queue" where
  "consume_ready_join_obligation_for_targets_with_outcomes thread turn ids current q =
     (let st = join_obligations q in
      case unique_match (filter (ready_for_targets thread turn ids current) (obligations st)) of
        Inl _ \<Rightarrow> (None, q)
      | Inr None \<Rightarrow> (None, q)
      | Inr (Some ob) \<Rightarrow>
          (let g = ob_generation ob;
               outcomes = sorted_list_of_fmap (jo_results ob)
           in case acknowledge_ready_join_delivery_locked turn g turn None st of
                (None, st') \<Rightarrow> (None, with_store q st')
              | (Some changed, st') \<Rightarrow>
                  (let q1 = q\<lparr>join_obligations := st',
                              mailbox_pending_mails := filter (\<lambda>m. \<not> joined_generation [g] m)
                                                         (mailbox_pending_mails q)\<rparr>
                   in (Some outcomes, if changed then bump_join_continuation_revision q1 else q1))))"

definition consume_ready_join_obligation_for_targets ::
  "thread_id \<Rightarrow> turn_id \<Rightarrow> thread_id list \<Rightarrow> targets \<Rightarrow> input_queue \<Rightarrow> bool \<times> input_queue" where
  "consume_ready_join_obligation_for_targets thread turn ids current q =
     (let (r, q') = consume_ready_join_obligation_for_targets_with_outcomes thread turn ids current q
      in (r \<noteq> None, q'))"

definition finish_join_dispatch :: "u64 \<Rightarrow> input_queue \<Rightarrow> input_queue" where
  "finish_join_dispatch g q =
     with_store q ((join_obligations q)\<lparr>obligations :=
       update_first (\<lambda>ob. ob_generation ob = g \<and> jo_ready ob)
         (\<lambda>ob. ob\<lparr>jo_dispatch_complete := True\<rparr>) (obligations (join_obligations q))\<rparr>)"

definition notify_wait_obligation_ready :: "input_queue \<Rightarrow> input_queue" where
  "notify_wait_obligation_ready q = q\<lparr>activity_tx := ActMailbox\<rparr>"

definition has_ready_wait_obligation :: "input_queue \<Rightarrow> bool" where
  "has_ready_wait_obligation q \<longleftrightarrow>
     list_ex (\<lambda>ob. jo_ready ob \<and> \<not> jo_trigger_turn ob) (obligations (join_obligations q))"

definition nonblank :: "turn_id option \<Rightarrow> turn_id option" where
  "nonblank t = (case t of Some x \<Rightarrow> if trim x \<noteq> [] then Some x else None | None \<Rightarrow> None)"

definition join_provenance_of :: "pending_mail \<Rightarrow> (turn_id \<times> u64) option" where
  "join_provenance_of mail =
     (if \<not> trigger_turn (pm_communication mail) then None
      else case pm_provenance mail of
             Ordinary \<Rightarrow> None
           | JoinAggregate g \<Rightarrow>
               map_option (\<lambda>p. (p, g)) (nonblank (parent_turn_id (pm_start_options mail))))"

definition mailbox_join_provenance :: "pending_mail list \<Rightarrow> (turn_id \<times> u64) list" where
  "mailbox_join_provenance mails = List.map_filter join_provenance_of mails"

fun validate_joins ::
  "join_obligation_store \<Rightarrow> turn_id option \<Rightarrow> u64 fset \<Rightarrow> (turn_id \<times> u64) list \<Rightarrow> bool" where
  "validate_joins st successor seen [] = True"
| "validate_joins st successor seen ((pred, g) # rest) =
     (if g |\<in>| seen then False
      else case filter (acknowledgeable pred g) (obligations st) of
             [] \<Rightarrow> False
           | ob # others \<Rightarrow>
               (let retained = (jo_retained_predecessor ob = Some pred);
                    succ = (case successor of Some s \<Rightarrow> s | None \<Rightarrow> pred)
                in if others \<noteq> [] \<or> \<not> jo_dispatch_complete ob
                      \<or> (\<not> retained \<and> consumed (jo_token ob)) then False
                   else if jo_trigger_turn ob
                      \<and> (succ = [] \<or> (succ \<noteq> pred \<and> list_ex (\<lambda>c.
                            jc_parent_thread_id c = jo_parent_thread_id ob
                            \<and> jc_predecessor_turn_id c = pred) (continuations st))) then False
                   else validate_joins st successor (finsert g seen) rest))"

definition validated_mailbox_join_provenance ::
  "pending_mail list \<Rightarrow> join_obligation_store \<Rightarrow> turn_id option \<Rightarrow> (turn_id \<times> u64) list option" where
  "validated_mailbox_join_provenance mails st successor =
     (let consumed_joins = mailbox_join_provenance mails;
          tagged = length (filter (\<lambda>m. pm_provenance m \<noteq> Ordinary) mails)
      in if length consumed_joins \<noteq> tagged then None
         else if validate_joins st successor {||} consumed_joins then Some consumed_joins else None)"

end
