(* ===== verification/Join_Invariants.thy ===== *)
theory Join_Invariants
  imports Owned_Join
begin

text \<open>
  What every operation on the join store keeps: the shape of a single obligation (\<open>ob_inv\<close>),
  generations that are unique and never reused (\<open>store_inv\<close>), and the life of a generation as
  seen from outside (\<open>gen_state\<close>: absent, collecting results, or ready and announced).
\<close>

section \<open>Invariants\<close>

definition ob_inv :: "join_obligation \<Rightarrow> bool" where
  "ob_inv ob \<longleftrightarrow>
     \<not> consumed (jo_token ob)
     \<and> fmdom (jo_results ob) |\<subseteq>| fmdom (jo_targets ob)
     \<and> jo_retained_targets ob |\<subseteq>| fmdom (jo_targets ob)
     \<and> (\<forall>t s. fmlookup (jo_results ob) t = Some s \<longrightarrow> is_final s)
     \<and> jo_trigger_sent ob = jo_ready ob
     \<and> (jo_ready ob \<longrightarrow> fmdom (jo_results ob) = fmdom (jo_targets ob))
     \<and> (jo_dispatch_complete ob \<longrightarrow> jo_ready ob)
     \<and> (\<forall>p. jo_retained_predecessor ob = Some p \<longrightarrow>
          p = jo_parent_turn_id ob \<and> jo_ready ob \<and> jo_trigger_turn ob \<and> jo_retained_targets ob \<noteq> {||})"

definition store_inv :: "join_obligation_store \<Rightarrow> bool" where
  "store_inv st \<longleftrightarrow>
     (\<forall>ob \<in> set (obligations st). ob_inv ob \<and> ob_generation ob \<le> next_generation st)
     \<and> distinct (map ob_generation (obligations st))"

definition gen_state :: "join_obligation_store \<Rightarrow> u64 \<Rightarrow> bool option" where
  "gen_state st g = map_option jo_ready (List.find (\<lambda>ob. ob_generation ob = g) (obligations st))"

lemma store_inv_default [simp]: "store_inv store_default"
  by (simp add: store_inv_def store_default_def)

lemma store_invD:
  "store_inv st \<Longrightarrow> ob \<in> set (obligations st) \<Longrightarrow> ob_inv ob"
  "store_inv st \<Longrightarrow> ob \<in> set (obligations st) \<Longrightarrow> ob_generation ob \<le> next_generation st"
  by (auto simp: store_inv_def)

lemma find_key_distinct:
  "distinct (map f xs) \<Longrightarrow> x \<in> set xs \<Longrightarrow> List.find (\<lambda>y. f y = f x) xs = Some x"
  by (induction xs) auto

lemma gen_state_eq:
  "store_inv st \<Longrightarrow> ob \<in> set (obligations st) \<Longrightarrow> gen_state st (ob_generation ob) = Some (jo_ready ob)"
  unfolding gen_state_def store_inv_def by (subst find_key_distinct) auto

lemma gen_state_None: "gen_state st g = None \<longleftrightarrow> g \<notin> ob_generation ` set (obligations st)"
  by (auto simp: gen_state_def find_None_iff)

lemma gen_state_Some:
  "store_inv st \<Longrightarrow>
   gen_state st g = Some b \<longleftrightarrow> (\<exists>ob \<in> set (obligations st). ob_generation ob = g \<and> jo_ready ob = b)"
  using gen_state_eq by (auto simp: gen_state_def dest!: find_Some_D)

lemma same_generation:
  "store_inv st \<Longrightarrow> a \<in> set (obligations st) \<Longrightarrow> b \<in> set (obligations st) \<Longrightarrow>
   ob_generation a = ob_generation b \<Longrightarrow> a = b"
  by (auto simp: store_inv_def distinct_map dest: inj_onD)

lemma gen_state_fresh: "store_inv st \<Longrightarrow> next_generation st < g \<Longrightarrow> gen_state st g = None"
  by (force simp: gen_state_None dest: store_invD(2))

section \<open>Point updates of the obligations\<close>

lemma store_inv_update:
  assumes "store_inv st" "i < length (obligations st)" "ob_inv ob'"
    and "ob_generation ob' = ob_generation (obligations st ! i)"
  shows "store_inv (st\<lparr>obligations := (obligations st)[i := ob']\<rparr>)"
proof -
  have "map ob_generation ((obligations st)[i := ob']) = map ob_generation (obligations st)"
    using assms(2,4) by (simp add: map_update list_update_same_conv)
  moreover have "ob_generation ob' \<le> next_generation st"
    using assms(1,2,4) by (simp add: store_inv_def)
  ultimately show ?thesis using assms(1,3) set_update_subset_insert [of "obligations st" i ob']
    unfolding store_inv_def by auto
qed

lemma find_update_key:
  "distinct (map f xs) \<Longrightarrow> i < length xs \<Longrightarrow> f x' = f (xs ! i) \<Longrightarrow>
   List.find (\<lambda>y. f y = k) (xs[i := x']) = (if k = f (xs ! i) then Some x' else List.find (\<lambda>y. f y = k) xs)"
proof (induction xs arbitrary: i)
  case (Cons x xs)
  show ?case
  proof (cases i)
    case (Suc j)
    then have "f (xs ! j) \<noteq> f x" using Cons.prems nth_mem [of j xs] by (metis distinct.simps(2)
          imageI length_Cons list.map(2) list.set_map not_less_eq)
    moreover have "List.find (\<lambda>y. f y = k) (xs[j := x'])
        = (if k = f (xs ! j) then Some x' else List.find (\<lambda>y. f y = k) xs)"
      using Cons.prems Suc by (intro Cons.IH) auto
    ultimately show ?thesis using Suc by auto
  qed (use Cons.prems in auto)
qed simp

lemma gen_state_update:
  assumes "store_inv st" "i < length (obligations st)"
    and "ob_generation ob' = ob_generation (obligations st ! i)"
  shows "gen_state (st\<lparr>obligations := (obligations st)[i := ob']\<rparr>)
    = (gen_state st)(ob_generation (obligations st ! i) \<mapsto> jo_ready ob')"
proof
  fix g
  have "distinct (map ob_generation (obligations st))" using assms(1) by (simp add: store_inv_def)
  from find_update_key [OF this assms(2,3), of g]
  show "gen_state (st\<lparr>obligations := (obligations st)[i := ob']\<rparr>) g
    = ((gen_state st)(ob_generation (obligations st ! i) \<mapsto> jo_ready ob')) g"
    by (simp add: gen_state_def)
qed

lemma gen_state_update_same:
  assumes "store_inv st" "i < length (obligations st)"
    and "ob_generation ob' = ob_generation (obligations st ! i)" "jo_ready ob' = jo_ready (obligations st ! i)"
  shows "gen_state (st\<lparr>obligations := (obligations st)[i := ob']\<rparr>) = gen_state st"
proof -
  have "gen_state st (ob_generation (obligations st ! i)) = Some (jo_ready ob')"
    using gen_state_eq [OF assms(1) nth_mem [OF assms(2)]] assms(4) by simp
  then show ?thesis unfolding gen_state_update [OF assms(1-3)] by (rule fun_upd_idem)
qed

lemma gen_state_continuations [simp]: "gen_state (st\<lparr>continuations := cs\<rparr>) = gen_state st"
  by (simp add: gen_state_def fun_eq_iff)

lemma store_inv_continuations [simp]: "store_inv (st\<lparr>continuations := cs\<rparr>) = store_inv st"
  by (simp add: store_inv_def)

lemma store_inv_subset:
  assumes "store_inv st" "set xs \<subseteq> set (obligations st)" "distinct (map ob_generation xs)"
  shows "store_inv (st\<lparr>obligations := xs\<rparr>)"
  using assms by (auto simp: store_inv_def)

lemma gen_state_subset:
  assumes "store_inv st" "set xs \<subseteq> set (obligations st)" "distinct (map ob_generation xs)"
  shows "gen_state (st\<lparr>obligations := xs\<rparr>) g
    = (if g \<in> ob_generation ` set xs then gen_state st g else None)"
proof (cases "g \<in> ob_generation ` set xs")
  case True
  then obtain ob where ob: "ob \<in> set xs" "g = ob_generation ob" by blast
  then have "gen_state st g = Some (jo_ready ob)" using assms(1,2) gen_state_eq by blast
  moreover have "gen_state (st\<lparr>obligations := xs\<rparr>) g = Some (jo_ready ob)"
    using gen_state_eq [OF store_inv_subset [OF assms], of ob] ob by simp
  ultimately show ?thesis using True by simp
next
  case False
  then show ?thesis by (simp add: gen_state_None)
qed

section \<open>Registration\<close>

lemma same_target_bindings_eq: "same_target_bindings l r \<longleftrightarrow> l = r"
proof
  assume h: "same_target_bindings l r"
  have sub: "fmlookup r t = Some v" if "fmlookup l t = Some v" for t v
  proof -
    have "(t, v) \<in> set (sorted_list_of_fmap l)" using that by (simp add: in_sorted_list_of_fmap)
    moreover obtain inc turn where "v = (inc, turn)" by (cases v)
    ultimately show ?thesis using h unfolding same_target_bindings_def list_all_iff
      by (auto split: option.splits)
  qed
  then have "fmdom l |\<subseteq>| fmdom r" by (auto simp: fmlookup_dom_iff)
  then have "fmdom l = fmdom r" using h by (simp add: same_target_bindings_def fcard_seteq)
  then have "fmlookup l t = None \<Longrightarrow> fmlookup r t = None" for t
    by (metis fmdom_notD fmdom_notI)
  then have "fmlookup l t = fmlookup r t" for t using sub [of t] by (cases "fmlookup l t") auto
  then show "l = r" by (rule fmap_ext)
next
  assume "l = r"
  then show "same_target_bindings l r"
    by (auto simp: same_target_bindings_def list_all_iff in_sorted_list_of_fmap)
qed

definition register_result :: "input_queue \<Rightarrow> owned_obligation option \<times> input_queue \<Rightarrow> bool" where
  "register_result q r \<longleftrightarrow>
     (let st = join_obligations q; st' = join_obligations (snd r); g = next_generation st + 1 in
      mailbox_pending_mails (snd r) = mailbox_pending_mails q
      \<and> continuations st' = continuations st
      \<and> (case fst r of
           None \<Rightarrow> snd r = q
         | Some token \<Rightarrow>
             (snd r = q \<and> gen_state st (generation token) \<noteq> None)
             \<or> (generation token = g \<and> next_generation st' = g \<and> gen_state st g = None
                 \<and> gen_state st' = (gen_state st)(g \<mapsto> False))))"

lemma saturating_add_one: "a \<noteq> - 1 \<Longrightarrow> saturating_add a 1 = a + 1" for a :: u64
  using unat_le_max [of a] word_unat_eq_iff [of a "- 1"] unat_max_word [where ?'a = 64]
  by (auto simp: saturating_add_def)

lemma gen_state_append:
  "gen_state (st\<lparr>next_generation := n, obligations := obligations st @ [ob]\<rparr>) g
   = (case gen_state st g of Some b \<Rightarrow> Some b | None \<Rightarrow> if ob_generation ob = g then Some (jo_ready ob) else None)"
proof -
  have "List.find P (xs @ ys) = (case List.find P xs of Some x \<Rightarrow> Some x | None \<Rightarrow> List.find P ys)"
    for P and xs ys :: "join_obligation list" by (induction xs) auto
  then show ?thesis by (auto simp: gen_state_def split: option.splits)
qed

lemma register_obligation_inv:
  assumes "store_inv (join_obligations q)" "next_generation (join_obligations q) \<noteq> - 1"
  shows "store_inv (join_obligations (snd (register_obligation thread turn tgts trigger q)))
    \<and> register_result q (register_obligation thread turn tgts trigger q)"
proof -
  let ?st = "join_obligations q"
  let ?g = "next_generation ?st + 1"
  have less: "next_generation ?st < ?g"
    using saturating_add_one_gr [OF assms(2)] saturating_add_one [OF assms(2)] by simp
  define existing where "existing = (if trigger then None else List.find (\<lambda>ob.
     jo_parent_thread_id ob = thread \<and> jo_parent_turn_id ob = turn
     \<and> same_target_bindings (jo_targets ob) tgts) (obligations ?st))"
  show ?thesis
  proof (cases existing)
    case (Some ob)
    then have "ob \<in> set (obligations ?st)" by (auto simp: existing_def split: if_splits dest: find_Some_D)
    then have "gen_state ?st (ob_generation ob) \<noteq> None" using gen_state_eq [OF assms(1)] by simp
    then show ?thesis using Some assms(1)
      by (simp add: register_obligation_def Let_def existing_def [symmetric] register_result_def)
  next
    case None
    define dup where "dup \<longleftrightarrow> list_ex (\<lambda>ob. jo_parent_thread_id ob = thread \<and> jo_parent_turn_id ob = turn
      \<and> jo_trigger_turn ob = trigger) (obligations ?st)"
    show ?thesis
    proof (cases dup)
      case True
      then show ?thesis using None assms(1)
        by (simp add: register_obligation_def Let_def existing_def [symmetric] dup_def [symmetric]
            register_result_def)
    next
      case False
      define ob where "ob = \<lparr>jo_parent_thread_id = thread, jo_parent_turn_id = turn,
        jo_targets = tgts, jo_results = fmempty, jo_ready = False, jo_trigger_sent = False,
        jo_dispatch_complete = False, jo_trigger_turn = trigger, jo_retained_targets = {||},
        jo_retained_predecessor = None, jo_token = owned_obligation_new ?g\<rparr>"
      have res: "register_obligation thread turn tgts trigger q = (Some (owned_obligation_new ?g),
          with_store q (?st\<lparr>next_generation := ?g, obligations := obligations ?st @ [ob]\<rparr>))"
        using None False saturating_add_one [OF assms(2)]
        by (simp add: register_obligation_def Let_def existing_def [symmetric] dup_def [symmetric] ob_def)
      have fresh: "gen_state ?st ?g = None" using gen_state_fresh [OF assms(1) less] .
      have "ob_inv ob" "ob_generation ob = ?g" by (simp_all add: ob_def ob_inv_def owned_obligation_new_def)
      then have "store_inv (?st\<lparr>next_generation := ?g, obligations := obligations ?st @ [ob]\<rparr>)"
        using assms(1) less fresh by (force simp: store_inv_def gen_state_None)
      moreover have "gen_state (?st\<lparr>next_generation := ?g, obligations := obligations ?st @ [ob]\<rparr>)
          = (gen_state ?st)(?g \<mapsto> False)"
        using fresh by (auto simp: fun_eq_iff gen_state_append ob_def owned_obligation_new_def split: option.splits)
      ultimately show ?thesis using res fresh
        by (simp add: register_result_def owned_obligation_new_def)
    qed
  qed
qed

section \<open>Resolution\<close>

text \<open>The obligation after the result is recorded, before readiness is decided.\<close>

definition note_result :: "bool \<Rightarrow> thread_id \<Rightarrow> agent_status \<Rightarrow> join_obligation \<Rightarrow> join_obligation" where
  "note_result retain child status ob =
     ob\<lparr>jo_retained_targets := (if retain then finsert child (jo_retained_targets ob) else jo_retained_targets ob),
        jo_results := (case fmlookup (jo_results ob) child of
           None \<Rightarrow> fmupd child status (jo_results ob) | Some _ \<Rightarrow> jo_results ob)\<rparr>"

lemma note_result_sel [simp]:
  "jo_parent_thread_id (note_result r c s ob) = jo_parent_thread_id ob"
  "jo_parent_turn_id (note_result r c s ob) = jo_parent_turn_id ob"
  "jo_targets (note_result r c s ob) = jo_targets ob"
  "jo_ready (note_result r c s ob) = jo_ready ob"
  "jo_trigger_sent (note_result r c s ob) = jo_trigger_sent ob"
  "jo_dispatch_complete (note_result r c s ob) = jo_dispatch_complete ob"
  "jo_trigger_turn (note_result r c s ob) = jo_trigger_turn ob"
  "jo_retained_predecessor (note_result r c s ob) = jo_retained_predecessor ob"
  "jo_token (note_result r c s ob) = jo_token ob"
  "jo_retained_targets (note_result r c s ob) = (if r then finsert c (jo_retained_targets ob) else jo_retained_targets ob)"
  by (simp_all add: note_result_def)

lemma note_result_lookup:
  "fmlookup (jo_results (note_result r c s ob)) t =
     (if t = c \<and> fmlookup (jo_results ob) c = None then Some s else fmlookup (jo_results ob) t)"
  by (auto simp: note_result_def split: option.splits)

lemma note_result_dom: "fmdom (jo_results (note_result r c s ob)) = finsert c (fmdom (jo_results ob))"
  by (auto simp: note_result_def fmlookup_dom_iff split: option.splits)

lemma resolve_obligation_alt:
  "resolve_obligation retain child status ob =
     (let ob2 = note_result retain child status ob; turn = jo_parent_turn_id ob;
          none = \<lparr>rr_completion = None, rr_parent_turn_id = turn\<rparr> in
      if fcard (fmdom (jo_results ob2)) \<noteq> fcard (fmdom (jo_targets ob)) then (none, ob2)
      else if jo_retained_targets ob2 \<noteq> {||} \<and> jo_retained_predecessor ob \<noteq> None then (none, ob2)
      else if jo_trigger_sent ob then (none, ob2\<lparr>jo_ready := True\<rparr>)
      else (\<lparr>rr_completion = Some \<lparr>cp_parent_turn_id = turn, cp_generation = ob_generation ob,
              cp_outcomes = sorted_list_of_fmap (jo_results ob2), cp_trigger_turn = jo_trigger_turn ob\<rparr>,
              rr_parent_turn_id = turn\<rparr>,
            ob2\<lparr>jo_ready := True, jo_trigger_sent := True, jo_retained_predecessor :=
              (if jo_trigger_turn ob \<and> jo_retained_targets ob2 \<noteq> {||} then Some turn
               else jo_retained_predecessor ob)\<rparr>))"
proof -
  let ?ob1 = "if retain then ob\<lparr>jo_retained_targets := finsert child (jo_retained_targets ob)\<rparr> else ob"
  have eq: "(case fmlookup (jo_results ?ob1) child of
      None \<Rightarrow> ?ob1\<lparr>jo_results := fmupd child status (jo_results ?ob1)\<rparr> | Some _ \<Rightarrow> ?ob1)
      = note_result retain child status ob"
    by (cases ob) (auto simp: note_result_def split: option.splits)
  show ?thesis unfolding resolve_obligation_def Let_def eq by simp
qed

definition resolve_spec ::
  "thread_id \<Rightarrow> agent_status \<Rightarrow> join_obligation \<Rightarrow> retained_join_resolution \<times> join_obligation \<Rightarrow> bool" where
  "resolve_spec child status ob r \<longleftrightarrow>
     (let ob' = snd r in
      ob_inv ob' \<and> jo_token ob' = jo_token ob \<and> jo_parent_thread_id ob' = jo_parent_thread_id ob
      \<and> jo_parent_turn_id ob' = jo_parent_turn_id ob \<and> jo_targets ob' = jo_targets ob
      \<and> jo_trigger_turn ob' = jo_trigger_turn ob
      \<and> (\<forall>t. fmlookup (jo_results ob') t =
            (if t = child \<and> fmlookup (jo_results ob) t = None then Some status
             else fmlookup (jo_results ob) t))
      \<and> rr_parent_turn_id (fst r) = jo_parent_turn_id ob
      \<and> (case rr_completion (fst r) of
           None \<Rightarrow> jo_ready ob' = jo_ready ob
         | Some c \<Rightarrow> \<not> jo_ready ob \<and> jo_ready ob'
             \<and> fmdom (jo_results ob') = fmdom (jo_targets ob)
             \<and> c = \<lparr>cp_parent_turn_id = jo_parent_turn_id ob, cp_generation = ob_generation ob,
                    cp_outcomes = sorted_list_of_fmap (jo_results ob'),
                    cp_trigger_turn = jo_trigger_turn ob\<rparr>))"

lemma resolve_obligation_spec:
  assumes inv: "ob_inv ob" and child: "child |\<in>| fmdom (jo_targets ob)" and final: "is_final status"
  shows "resolve_spec child status ob (resolve_obligation retain child status ob)"
proof -
  let ?ob2 = "note_result retain child status ob"
  have sub: "fmdom (jo_results ?ob2) |\<subseteq>| fmdom (jo_targets ob)"
    using inv child by (simp add: note_result_dom ob_inv_def)
  have full: "fmdom (jo_results ?ob2) = fmdom (jo_targets ob)"
    if "fcard (fmdom (jo_results ?ob2)) = fcard (fmdom (jo_targets ob))"
    using fcard_seteq [OF sub] that by simp
  have ret: "jo_retained_targets ?ob2 |\<subseteq>| fmdom (jo_targets ob)"
    using inv child by (auto simp: ob_inv_def)
  have fin: "\<forall>t s. fmlookup (jo_results ?ob2) t = Some s \<longrightarrow> is_final s"
    using inv final by (auto simp: note_result_lookup ob_inv_def)
  have inv2: "ob_inv ?ob2"
    using inv sub ret fin child by (auto simp: ob_inv_def note_result_dom finsert_absorb)
  have lookup: "\<forall>t. fmlookup (jo_results ?ob2) t =
      (if t = child \<and> fmlookup (jo_results ob) t = None then Some status else fmlookup (jo_results ob) t)"
    by (auto simp: note_result_lookup)
  consider "fcard (fmdom (jo_results ?ob2)) \<noteq> fcard (fmdom (jo_targets ob))
      \<or> jo_retained_targets ?ob2 \<noteq> {||} \<and> jo_retained_predecessor ob \<noteq> None"
    | "fcard (fmdom (jo_results ?ob2)) = fcard (fmdom (jo_targets ob))"
      "\<not> (jo_retained_targets ?ob2 \<noteq> {||} \<and> jo_retained_predecessor ob \<noteq> None)" "jo_trigger_sent ob"
    | "fcard (fmdom (jo_results ?ob2)) = fcard (fmdom (jo_targets ob))"
      "\<not> (jo_retained_targets ?ob2 \<noteq> {||} \<and> jo_retained_predecessor ob \<noteq> None)" "\<not> jo_trigger_sent ob"
    by blast
  then show ?thesis
  proof cases
    case 1
    then have "resolve_obligation retain child status ob
        = (\<lparr>rr_completion = None, rr_parent_turn_id = jo_parent_turn_id ob\<rparr>, ?ob2)"
      by (auto simp: resolve_obligation_alt Let_def)
    then show ?thesis using inv2 lookup by (simp add: resolve_spec_def)
  next
    case 2
    then have eq: "resolve_obligation retain child status ob
        = (\<lparr>rr_completion = None, rr_parent_turn_id = jo_parent_turn_id ob\<rparr>, ?ob2\<lparr>jo_ready := True\<rparr>)"
      by (auto simp: resolve_obligation_alt Let_def)
    have "jo_ready ob" using inv 2(3) by (simp add: ob_inv_def)
    then have "ob_inv (?ob2\<lparr>jo_ready := True\<rparr>)" using inv2 by (auto simp: ob_inv_def)
    then show ?thesis using eq \<open>jo_ready ob\<close> lookup by (simp add: resolve_spec_def)
  next
    case 3
    have nr: "\<not> jo_ready ob" using inv 3(3) by (simp add: ob_inv_def)
    then have np: "jo_retained_predecessor ob = None" using inv by (auto simp: ob_inv_def)
    let ?ob5 = "?ob2\<lparr>jo_ready := True, jo_trigger_sent := True, jo_retained_predecessor :=
      (if jo_trigger_turn ob \<and> jo_retained_targets ?ob2 \<noteq> {||} then Some (jo_parent_turn_id ob)
       else jo_retained_predecessor ob)\<rparr>"
    have eq: "resolve_obligation retain child status ob
        = (\<lparr>rr_completion = Some \<lparr>cp_parent_turn_id = jo_parent_turn_id ob, cp_generation = ob_generation ob,
             cp_outcomes = sorted_list_of_fmap (jo_results ?ob2), cp_trigger_turn = jo_trigger_turn ob\<rparr>,
             rr_parent_turn_id = jo_parent_turn_id ob\<rparr>, ?ob5)"
      unfolding resolve_obligation_alt Let_def using 3 by simp
    have "ob_inv ?ob5" using inv2 nr np full [OF 3(1)] by (auto simp: ob_inv_def)
    then show ?thesis unfolding eq using full [OF 3(1)] nr lookup by (simp add: resolve_spec_def)
  qed
qed

text \<open>What a resolution attempt does to the queue.\<close>

definition resolve_queue_spec ::
  "u64 \<Rightarrow> input_queue \<Rightarrow> retained_join_resolution option \<times> input_queue \<Rightarrow> bool" where
  "resolve_queue_spec g q r \<longleftrightarrow>
     (let st = join_obligations q; st' = join_obligations (snd r) in
      store_inv st' \<and> snd r = with_store q st' \<and> next_generation st' = next_generation st
      \<and> continuations st' = continuations st
      \<and> (case Option.bind (fst r) rr_completion of
           None \<Rightarrow> gen_state st' = gen_state st
         | Some c \<Rightarrow> cp_generation c = g \<and> gen_state st g = Some False
             \<and> gen_state st' = (gen_state st)(g \<mapsto> True)))"

lemma resolve_join_target_inner_cases:
  obtains (stale) "resolve_join_target_inner thread g child inc turn status retain q = (None, q)"
  | (hit) i ob r ob' where "i < length (obligations (join_obligations q))"
      "ob = obligations (join_obligations q) ! i" "jo_parent_thread_id ob = thread" "ob_generation ob = g"
      "fmlookup (jo_targets ob) child = Some (inc, turn)" "is_final status"
      "resolve_obligation retain child status ob = (r, ob')"
      "resolve_join_target_inner thread g child inc turn status retain q =
         (Some r, with_store q ((join_obligations q)\<lparr>obligations := (obligations (join_obligations q))[i := ob']\<rparr>))"
proof (cases "fst (resolve_join_target_inner thread g child inc turn status retain q)")
  case None
  then show ?thesis
    by (intro stale) (auto simp: resolve_join_target_inner_def Let_def simp del: position_None_iff
        split: if_splits option.splits prod.splits)
next
  case (Some r0)
  let ?P = "binds_target thread g child"
  obtain i where i: "position ?P (obligations (join_obligations q)) = Some i" and final: "is_final status"
    using Some by (auto simp: resolve_join_target_inner_def Let_def simp del: position_None_iff
        split: if_splits option.splits)
  let ?ob = "obligations (join_obligations q) ! i"
  have at: "i < length (obligations (join_obligations q))" "?P ?ob" using position_nth [OF i] by auto
  obtain r ob' where res: "resolve_obligation retain child status ?ob = (r, ob')" by fastforce
  show ?thesis
  proof (rule hit [OF at(1) refl _ _ _ final res])
    show "jo_parent_thread_id ?ob = thread" "ob_generation ?ob = g" using at(2) by (auto simp: binds_target_def)
    show "fmlookup (jo_targets ?ob) child = Some (inc, turn)"
      "resolve_join_target_inner thread g child inc turn status retain q =
         (Some r, with_store q ((join_obligations q)\<lparr>obligations := (obligations (join_obligations q))[i := ob']\<rparr>))"
      using Some i res by (auto simp: resolve_join_target_inner_def Let_def simp del: position_None_iff
          split: if_splits option.splits)
  qed
qed

lemma resolve_join_target_inner_spec:
  assumes "store_inv (join_obligations q)"
  shows "resolve_queue_spec g q (resolve_join_target_inner thread g child inc turn status retain q)"
proof (cases rule: resolve_join_target_inner_cases [of thread g child inc turn status retain q])
  case stale
  then show ?thesis using assms by (simp add: resolve_queue_spec_def)
next
  case (hit i ob r ob')
  let ?st = "join_obligations q"
  have "ob \<in> set (obligations ?st)" using hit(1,2) by simp
  then have inv: "ob_inv ob" using assms store_invD by blast
  have spec: "resolve_spec child status ob (r, ob')"
    using resolve_obligation_spec [OF inv _ hit(6), of child retain] hit(5,7) by (simp add: fmdomI)
  then have same: "ob_generation ob' = ob_generation (obligations ?st ! i)" "ob_inv ob'"
    using hit(2) by (simp_all add: resolve_spec_def)
  have inv': "store_inv (?st\<lparr>obligations := (obligations ?st)[i := ob']\<rparr>)"
    using store_inv_update [OF assms hit(1) same(2,1)] .
  have gs: "gen_state (?st\<lparr>obligations := (obligations ?st)[i := ob']\<rparr>) = (gen_state ?st)(g \<mapsto> jo_ready ob')"
    using gen_state_update [OF assms hit(1) same(1)] hit(2,4) by simp
  have now: "gen_state ?st g = Some (jo_ready ob)"
    using gen_state_eq [OF assms \<open>ob \<in> set (obligations ?st)\<close>] hit(4) by simp
  show ?thesis
  proof (cases "rr_completion r")
    case None
    then have "jo_ready ob' = jo_ready ob" using spec by (simp add: resolve_spec_def)
    then have "gen_state (?st\<lparr>obligations := (obligations ?st)[i := ob']\<rparr>) = gen_state ?st"
      unfolding gs using now by (simp add: fun_upd_idem)
    then show ?thesis using hit(8) inv' None by (simp add: resolve_queue_spec_def)
  next
    case (Some c)
    then have "jo_ready ob'" "\<not> jo_ready ob" "cp_generation c = g" using spec hit(4) by (auto simp: resolve_spec_def)
    then show ?thesis using hit(8) inv' gs now Some by (simp add: resolve_queue_spec_def)
  qed
qed

section \<open>Retained targets\<close>

definition unchanged_gens :: "input_queue \<Rightarrow> input_queue \<Rightarrow> bool" where
  "unchanged_gens q q' \<longleftrightarrow>
     store_inv (join_obligations q') \<and> gen_state (join_obligations q') = gen_state (join_obligations q)
     \<and> next_generation (join_obligations q') = next_generation (join_obligations q)"

lemma unchanged_gens_refl: "store_inv (join_obligations q) \<Longrightarrow> unchanged_gens q q"
  by (simp add: unchanged_gens_def)

lemma retains_target_inv:
  assumes "store_inv (join_obligations q)" "position (retains_target thread g child) (obligations (join_obligations q)) = Some i"
    and "ob = obligations (join_obligations q) ! i" "fmlookup (jo_targets ob) child = Some b"
    and "ob' = ob\<lparr>jo_targets := tg, jo_retained_targets := jo_retained_targets ob |-| {|child|}\<rparr>"
    and "tg = jo_targets ob \<or> tg = fmupd child b' (jo_targets ob)"
  shows "unchanged_gens q (with_store q ((join_obligations q)\<lparr>obligations := (obligations (join_obligations q))[i := ob']\<rparr>))"
proof -
  let ?st = "join_obligations q"
  have i: "i < length (obligations ?st)" "retains_target thread g child ob"
    using position_nth [OF assms(2)] assms(3) by auto
  have "ob_inv ob" using store_invD(1) [OF assms(1)] i(1) assms(3) by simp
  moreover have dom: "fmdom tg = fmdom (jo_targets ob)"
    using assms(4,6) by (auto simp: finsert_absorb fmdomI)
  ultimately have inv': "ob_inv ob'"
    using i(2) assms(5) by (auto simp: ob_inv_def retains_target_def)
  have same: "ob_generation ob' = ob_generation (obligations ?st ! i)" "jo_ready ob' = jo_ready (obligations ?st ! i)"
    using assms(3,5) by simp_all
  show ?thesis
    using store_inv_update [OF assms(1) i(1) inv' same(1)] gen_state_update_same [OF assms(1) i(1) same]
    by (simp add: unchanged_gens_def)
qed

lemma rebind_unchanged:
  assumes "store_inv (join_obligations q)"
  shows "unchanged_gens q (snd (rebind_join_target_to_successor thread g child inc pred succ q))"
  using unchanged_gens_refl [OF assms]
  by (auto simp: rebind_join_target_to_successor_def Let_def simp del: position_None_iff
      split: option.splits intro!: retains_target_inv [OF assms _ refl _ refl])

lemma retains_target_retire:
  assumes "store_inv (join_obligations q)" "position (retains_target thread g child) (obligations (join_obligations q)) = Some i"
    and "fmlookup (jo_targets (obligations (join_obligations q) ! i)) child = Some b"
  shows "unchanged_gens q (with_store q ((join_obligations q)\<lparr>obligations := (obligations (join_obligations q))[i :=
     (obligations (join_obligations q) ! i)\<lparr>jo_retained_targets :=
        jo_retained_targets (obligations (join_obligations q) ! i) |-| {|child|}\<rparr>]\<rparr>))"
  using retains_target_inv [OF assms(1,2) refl assms(3) refl disjI1 [OF refl]] by simp

lemma retire_unchanged:
  assumes "store_inv (join_obligations q)"
  shows "unchanged_gens q (snd (retire_join_target_successor_retention thread g child inc pred q))"
  using unchanged_gens_refl [OF assms]
  by (auto simp: retire_join_target_successor_retention_def Let_def simp del: position_None_iff
      split: option.splits intro!: retains_target_retire [OF assms])

section \<open>Continuations and dispatch\<close>

lemma bump_sel [simp]:
  "join_obligations (bump_join_continuation_revision q) = join_obligations q"
  "mailbox_pending_mails (bump_join_continuation_revision q) = mailbox_pending_mails q"
  "exact_join_terminals (bump_join_continuation_revision q) = exact_join_terminals q"
  "exact_join_terminal_tx (bump_join_continuation_revision q) = exact_join_terminal_tx q"
  "activity_tx (bump_join_continuation_revision q) = activity_tx q"
  "join_trigger_provenance (bump_join_continuation_revision q) = join_trigger_provenance q"
  by (simp_all add: bump_join_continuation_revision_def)

lemma retain_continuations_unchanged:
  "store_inv (join_obligations q) \<Longrightarrow> unchanged_gens q (retain_continuations keep q)"
  by (simp add: retain_continuations_def unchanged_gens_def Let_def)

lemma finish_unchanged:
  "store_inv (join_obligations q) \<Longrightarrow> unchanged_gens q (finish_join_continuation thread g pred succ ts q)"
  "store_inv (join_obligations q) \<Longrightarrow> unchanged_gens q (finish_root_join_continuations thread turn ts q)"
  by (simp_all add: finish_join_continuation_def finish_root_join_continuations_def retain_continuations_unchanged)

lemma update_first_position:
  "update_first P f xs = (case position P xs of None \<Rightarrow> xs | Some i \<Rightarrow> xs[i := f (xs ! i)])"
  by (induction xs) (auto split: option.splits simp del: position_None_iff)

lemma finish_join_dispatch_unchanged:
  assumes "store_inv (join_obligations q)"
  shows "unchanged_gens q (finish_join_dispatch g q)"
proof (cases "position (\<lambda>ob. ob_generation ob = g \<and> jo_ready ob) (obligations (join_obligations q))")
  case None
  then show ?thesis using assms
    by (simp add: finish_join_dispatch_def update_first_position unchanged_gens_def del: position_None_iff)
next
  case (Some i)
  let ?st = "join_obligations q"
  let ?ob' = "(obligations ?st ! i)\<lparr>jo_dispatch_complete := True\<rparr>"
  have i: "i < length (obligations ?st)" "jo_ready (obligations ?st ! i)" using position_nth [OF Some] by auto
  have "ob_inv (obligations ?st ! i)" using store_invD(1) [OF assms] i(1) by simp
  then have inv': "ob_inv ?ob'" using i(2) by (simp add: ob_inv_def)
  show ?thesis
    using store_inv_update [OF assms i(1) inv'] gen_state_update_same [OF assms i(1), of ?ob'] Some
    by (simp add: finish_join_dispatch_def update_first_position unchanged_gens_def)
qed

text \<open>A terminal of a turn only takes generations away, and only when the turn did not succeed.\<close>

lemma distinct_map_filter: "distinct (map f xs) \<Longrightarrow> distinct (map f (filter P xs))"
  by (induction xs) auto

lemma record_terminal_gens:
  assumes "store_inv (join_obligations q)"
    and q'_def: "q' = record_nested_join_turn_terminal h thread turn ts status q"
  shows "store_inv (join_obligations q')
    \<and> next_generation (join_obligations q') = next_generation (join_obligations q)
    \<and> (\<forall>g. gen_state (join_obligations q') g = gen_state (join_obligations q) g
           \<or> gen_state (join_obligations q') g = None)"
proof (cases "is_final status")
  case True
  define retired where "retired = retired_generations thread turn status (join_obligations q)"
  let ?xs = "filter (\<lambda>ob. ob_generation ob \<notin> set retired) (obligations (join_obligations q))"
  have d: "distinct (map ob_generation ?xs)"
    using assms(1) unfolding store_inv_def by (blast intro: distinct_map_filter)
  have sub: "set ?xs \<subseteq> set (obligations (join_obligations q))" by auto
  let ?cs = "map (\<lambda>c. if awaits_terminal thread turn ts c then c\<lparr>jc_terminal_status := Some status\<rparr> else c)
    (continuations (join_obligations q))"
  have st: "join_obligations q' = (join_obligations q)\<lparr>obligations := ?xs, continuations := ?cs\<rparr>"
    using True by (cases "retired = []")
      (simp_all add: q'_def record_nested_join_turn_terminal_def Let_def retired_def [symmetric])
  show ?thesis
    using store_inv_subset [OF assms(1) sub d] gen_state_subset [OF assms(1) sub d]
    by (auto simp: st store_inv_def gen_state_def)
next
  case False
  then show ?thesis using assms(1) by (simp add: q'_def record_nested_join_turn_terminal_def)
qed

section \<open>Acknowledgement\<close>

definition ack_spec :: "u64 \<Rightarrow> join_obligation_store \<Rightarrow> bool option \<times> join_obligation_store \<Rightarrow> bool" where
  "ack_spec g st r \<longleftrightarrow>
     store_inv (snd r) \<and> next_generation (snd r) = next_generation st
     \<and> (\<forall>ob. ob_generation ob \<noteq> g \<longrightarrow>
          (ob \<in> set (obligations (snd r)) \<longleftrightarrow> ob \<in> set (obligations st)))
     \<and> (case fst r of
          None \<Rightarrow> snd r = st
        | Some _ \<Rightarrow> gen_state st g = Some True
            \<and> (gen_state (snd r) = (gen_state st)(g \<mapsto> False) \<or> gen_state (snd r) = (gen_state st)(g := None)))"

lemma ob_inv_transfer: "ob_inv ob \<Longrightarrow> ob_inv (transfer_retained succ ob)"
  by (auto simp: ob_inv_def transfer_retained_def)

lemma acknowledgeable_ready: "ob_inv ob \<Longrightarrow> acknowledgeable pred g ob \<Longrightarrow> jo_ready ob \<and> jo_parent_turn_id ob = pred"
  by (auto simp: ob_inv_def acknowledgeable_def)

lemma in_list_update_other:
  "x \<noteq> v \<Longrightarrow> x \<noteq> xs ! i \<Longrightarrow> x \<in> set (xs[i := v]) \<longleftrightarrow> x \<in> set xs"
  by (metis in_set_conv_nth length_list_update nth_list_update_neq nth_list_update_eq)

lemma in_remove_nth_other: "i < length xs \<Longrightarrow> x \<noteq> xs ! i \<Longrightarrow> x \<in> set (remove_nth i xs) \<longleftrightarrow> x \<in> set xs"
  using remove_nth_in set_remove_nth by fastforce

lemma gen_state_remove:
  assumes "store_inv st" "i < length (obligations st)"
  shows "store_inv (st\<lparr>obligations := remove_nth i (obligations st)\<rparr>)
    \<and> gen_state (st\<lparr>obligations := remove_nth i (obligations st)\<rparr>)
        = (gen_state st)(ob_generation (obligations st ! i) := None)"
proof -
  let ?xs = "remove_nth i (obligations st)"
  have d: "distinct (map ob_generation (obligations st))" using assms(1) by (simp add: store_inv_def)
  then have d': "distinct (map ob_generation ?xs)" by (simp add: map_remove_nth distinct_remove_nth)
  have sub: "set ?xs \<subseteq> set (obligations st)" by (rule set_remove_nth)
  have notin: "ob_generation (obligations st ! i) \<notin> ob_generation ` set ?xs"
    using remove_nth_not_in [OF d, of i] assms(2) by (simp add: map_remove_nth [symmetric] image_set del: set_map)
  have "gen_state (st\<lparr>obligations := ?xs\<rparr>) g = ((gen_state st)(ob_generation (obligations st ! i) := None)) g" for g
  proof (cases "g = ob_generation (obligations st ! i)")
    case True
    then show ?thesis using gen_state_subset [OF assms(1) sub d', of g] notin by simp
  next
    case False
    have "g \<in> ob_generation ` set ?xs" if "g \<in> ob_generation ` set (obligations st)"
    proof -
      from that obtain ob where ob: "ob \<in> set (obligations st)" "g = ob_generation ob" by blast
      then have "ob \<in> set ?xs" using False in_remove_nth_other [OF assms(2), of ob] by blast
      then show ?thesis using ob by blast
    qed
    then have "g \<in> ob_generation ` set ?xs \<longleftrightarrow> g \<in> ob_generation ` set (obligations st)"
      using sub by blast
    then show ?thesis using gen_state_subset [OF assms(1) sub d', of g] False gen_state_None [of st g] by auto
  qed
  then show ?thesis using store_inv_subset [OF assms(1) sub d'] by (simp add: fun_eq_iff)
qed

lemma ack_None: "fst (acknowledge_ready_join_delivery_locked pred g succ ts st) = None \<Longrightarrow> store_inv st \<Longrightarrow>
    snd (acknowledge_ready_join_delivery_locked pred g succ ts st) = st
    \<and> (\<forall>ob \<in> set (obligations st). \<not> acknowledgeable pred g ob)"
proof (cases "position (acknowledgeable pred g) (obligations st)")
  case None
  then have "\<forall>ob \<in> set (obligations st). \<not> acknowledgeable pred g ob" by simp
  then show ?thesis using None by (simp add: acknowledge_ready_join_delivery_locked_def del: position_None_iff)
next
  case (Some i)
  assume none: "fst (acknowledge_ready_join_delivery_locked pred g succ ts st) = None" and inv: "store_inv st"
  have "ob_inv (obligations st ! i)" "acknowledgeable pred g (obligations st ! i)"
    using position_nth [OF Some] store_invD(1) [OF inv] by auto
  then show ?thesis using none Some
    by (auto simp: acknowledge_ready_join_delivery_locked_def Let_def consume_if_current_def ob_inv_def
        acknowledgeable_def simp del: position_None_iff split: if_splits)
qed

text \<open>The two ways an acknowledgement succeeds: the generation moves to its successor, or ends.\<close>

lemma ack_Some:
  assumes "fst (acknowledge_ready_join_delivery_locked pred g succ ts st) = Some b"
  obtains i where "i < length (obligations st)" "acknowledgeable pred g (obligations st ! i)"
    and "obligations (snd (acknowledge_ready_join_delivery_locked pred g succ ts st)) =
      (if jo_retained_predecessor (obligations st ! i) = Some pred
       then (obligations st)[i := transfer_retained succ (obligations st ! i)]
       else remove_nth i (obligations st))"
    and "next_generation (snd (acknowledge_ready_join_delivery_locked pred g succ ts st)) = next_generation st"
proof -
  obtain i where i: "position (acknowledgeable pred g) (obligations st) = Some i"
    using assms by (cases "position (acknowledgeable pred g) (obligations st)")
      (auto simp: acknowledge_ready_join_delivery_locked_def simp del: position_None_iff)
  have "i < length (obligations st)" "acknowledgeable pred g (obligations st ! i)"
    using position_nth [OF i] by auto
  then show ?thesis using that [of i] i assms
    by (auto simp: acknowledge_ready_join_delivery_locked_def Let_def split: if_splits option.splits)
qed

lemma transfer_retained_sel [simp]:
  "jo_token (transfer_retained succ ob) = jo_token ob" "\<not> jo_ready (transfer_retained succ ob)"
  by (simp_all add: transfer_retained_def)

lemma gen_state_cong: "obligations st = obligations st' \<Longrightarrow> gen_state st = gen_state st'"
  by (simp add: gen_state_def fun_eq_iff)

lemma store_inv_cong:
  "obligations st = obligations st' \<Longrightarrow> next_generation st = next_generation st' \<Longrightarrow> store_inv st = store_inv st'"
  by (simp add: store_inv_def)

lemma acknowledge_spec:
  assumes inv: "store_inv st"
  shows "ack_spec g st (acknowledge_ready_join_delivery_locked pred g succ ts st)"
proof (cases "fst (acknowledge_ready_join_delivery_locked pred g succ ts st)")
  case None
  then show ?thesis using ack_None [OF None inv] inv by (simp add: ack_spec_def)
next
  case (Some b)
  let ?st' = "snd (acknowledge_ready_join_delivery_locked pred g succ ts st)"
  from ack_Some [OF Some] obtain i where i: "i < length (obligations st)" "acknowledgeable pred g (obligations st ! i)"
    and obs: "obligations ?st' = (if jo_retained_predecessor (obligations st ! i) = Some pred
       then (obligations st)[i := transfer_retained succ (obligations st ! i)]
       else remove_nth i (obligations st))"
    and nxt: "next_generation ?st' = next_generation st" by blast
  let ?ob = "obligations st ! i"
  have mem: "?ob \<in> set (obligations st)" using i(1) by simp
  have obinv: "ob_inv ?ob" using store_invD(1) [OF inv mem] .
  have g: "ob_generation ?ob = g" using i(2) by (simp add: acknowledgeable_def)
  have now: "gen_state st g = Some True"
    using gen_state_eq [OF inv mem] acknowledgeable_ready [OF obinv i(2)] g by simp
  show ?thesis
  proof (cases "jo_retained_predecessor ?ob = Some pred")
    case True
    let ?u = "st\<lparr>obligations := (obligations st)[i := transfer_retained succ ?ob]\<rparr>"
    have eq: "obligations ?st' = obligations ?u" "next_generation ?st' = next_generation ?u"
      using obs True nxt by simp_all
    have "store_inv ?u" using store_inv_update [OF inv i(1) ob_inv_transfer [OF obinv]] by simp
    moreover have "gen_state ?u = (gen_state st)(g \<mapsto> False)"
      using gen_state_update [OF inv i(1), of "transfer_retained succ ?ob"] g by simp
    moreover have "x \<in> set (obligations ?u) \<longleftrightarrow> x \<in> set (obligations st)" if "ob_generation x \<noteq> g" for x
      using that g in_list_update_other [of x "transfer_retained succ ?ob" "obligations st" i] by fastforce
    ultimately show ?thesis
      using Some now nxt eq store_inv_cong [OF eq] gen_state_cong [OF eq(1)] by (simp add: ack_spec_def)
  next
    case False
    let ?u = "st\<lparr>obligations := remove_nth i (obligations st)\<rparr>"
    have eq: "obligations ?st' = obligations ?u" "next_generation ?st' = next_generation ?u"
      using obs False nxt by simp_all
    have "x \<in> set (obligations ?u) \<longleftrightarrow> x \<in> set (obligations st)" if "ob_generation x \<noteq> g" for x
      using that g in_remove_nth_other [OF i(1), of x] by fastforce
    then show ?thesis
      using Some now nxt eq store_inv_cong [OF eq] gen_state_cong [OF eq(1)] gen_state_remove [OF inv i(1)] g
      by (simp add: ack_spec_def)
  qed
qed

lemma acknowledge_Some_iff:
  assumes "store_inv st"
  shows "fst (acknowledge_ready_join_delivery_locked pred g succ ts st) \<noteq> None
    \<longleftrightarrow> (\<exists>ob \<in> set (obligations st). acknowledgeable pred g ob)"
proof (cases "fst (acknowledge_ready_join_delivery_locked pred g succ ts st)")
  case None
  then show ?thesis using ack_None [OF None assms] by blast
next
  case (Some b)
  then show ?thesis using ack_Some [OF Some] by (metis nth_mem option.discI)
qed

end
