(* ===== verification/Input_Queue.thy ===== *)
theory Input_Queue
  imports Join_Invariants
begin

text \<open>
  The mailbox side of the session's input queue: \<open>core/src/session/input_queue.rs\<close> and
  \<open>core/src/session/input_queue/mailbox_delivery.rs\<close>. Mail is queued with its provenance, drained
  into a starting turn (\<open>commit_startup_mailbox_for_turn\<close>) or an active one
  (\<open>get_pending_input\<close>), and draining acknowledges the join generations the mail carries.
\<close>

section \<open>Enqueueing\<close>

definition take_provenance ::
  "inter_agent_communication \<Rightarrow> turn_start_options \<Rightarrow> (turn_id, u64) fmap
     \<Rightarrow> mailbox_provenance \<times> (turn_id, u64) fmap" where
  "take_provenance comm opts marks =
     (if trigger_turn comm
      then (case parent_turn_id opts of
              None \<Rightarrow> (Ordinary, marks)
            | Some p \<Rightarrow>
                (case fmlookup marks p of
                   None \<Rightarrow> (Ordinary, marks)
                 | Some g \<Rightarrow> (JoinAggregate g, fmdrop p marks)))
      else (Ordinary, marks))"

definition enqueue_mailbox_communication ::
  "inter_agent_communication \<Rightarrow> turn_start_options \<Rightarrow> input_queue \<Rightarrow> input_queue" where
  "enqueue_mailbox_communication comm opts q =
     (let (provenance, marks) = take_provenance comm opts (join_trigger_provenance q);
          q1 = q\<lparr>join_trigger_provenance := marks,
                 mailbox_pending_mails := mailbox_pending_mails q @
                   [\<lparr>pm_communication = comm, pm_start_options = opts, pm_provenance = provenance\<rparr>]\<rparr>;
          q2 = (case provenance of
                  JoinAggregate g \<Rightarrow> finish_join_dispatch g q1
                | Ordinary \<Rightarrow> q1)
      in q2\<lparr>activity_tx := ActMailbox\<rparr>)"

definition mark_join_trigger :: "turn_id \<Rightarrow> u64 \<Rightarrow> input_queue \<Rightarrow> input_queue" where
  "mark_join_trigger turn g q =
     q\<lparr>join_trigger_provenance := fmupd turn g (join_trigger_provenance q)\<rparr>"

definition clear_join_trigger :: "turn_id \<Rightarrow> u64 \<Rightarrow> input_queue \<Rightarrow> input_queue" where
  "clear_join_trigger turn g q =
     (if fmlookup (join_trigger_provenance q) turn = Some g
      then q\<lparr>join_trigger_provenance := fmdrop turn (join_trigger_provenance q)\<rparr> else q)"

definition has_pending_mailbox_items :: "input_queue \<Rightarrow> bool" where
  "has_pending_mailbox_items q \<longleftrightarrow> mailbox_pending_mails q \<noteq> []"

definition has_trigger_turn_mailbox_items :: "input_queue \<Rightarrow> bool" where
  "has_trigger_turn_mailbox_items q \<longleftrightarrow>
     list_ex (\<lambda>m. trigger_turn (pm_communication m)) (mailbox_pending_mails q)"

definition has_pending_join_generation :: "u64 \<Rightarrow> input_queue \<Rightarrow> bool" where
  "has_pending_join_generation g q \<longleftrightarrow>
     list_ex (joined_generation [g]) (mailbox_pending_mails q)
     \<or> list_ex (\<lambda>ob. ob_generation ob = g) (obligations (join_obligations q))"

section \<open>Start options of a batch\<close>

fun reduce :: "('a \<Rightarrow> 'a \<Rightarrow> 'a) \<Rightarrow> 'a list \<Rightarrow> 'a option" where
  "reduce f [] = None"
| "reduce f (x # xs) = Some (foldl f x xs)"

abbreviation is_trigger :: "pending_mail \<Rightarrow> bool" where
  "is_trigger m \<equiv> trigger_turn (pm_communication m)"

definition common_parent :: "turn_id option \<Rightarrow> turn_id option \<Rightarrow> turn_id option" where
  "common_parent expected candidate =
     (case expected of Some i \<Rightarrow> if candidate = Some i then Some i else None | None \<Rightarrow> None)"

definition mailbox_start_options :: "pending_mail list \<Rightarrow> turn_start_options" where
  "mailbox_start_options mails =
     (let start = (case List.find is_trigger (rev mails) of
                     Some m \<Rightarrow> pm_start_options m | None \<Rightarrow> start_options_default);
          parent = Option.bind (reduce common_parent
                     (map (\<lambda>m. parent_turn_id (pm_start_options m)) (filter is_trigger mails))) nonblank;
          root = Option.bind (List.find is_trigger mails) (\<lambda>m.
                   case nonblank (parent_turn_id (pm_start_options m)) of
                     Some _ \<Rightarrow> nonblank (root_turn_id (pm_start_options m)) | None \<Rightarrow> None)
      in start\<lparr>parent_turn_id := parent, root_turn_id := root\<rparr>)"

definition mail_items :: "pending_mail list \<Rightarrow> 'c turn_input list" where
  "mail_items mails = map (\<lambda>m. InterAgentCommunication (pm_communication m)) mails"

definition preview_mailbox_input_items :: "input_queue \<Rightarrow> 'c turn_input list \<times> turn_start_options" where
  "preview_mailbox_input_items q =
     (mail_items (mailbox_pending_mails q), mailbox_start_options (mailbox_pending_mails q))"

definition drain_mailbox_input_items_with_provenance ::
  "input_queue \<Rightarrow> ('c turn_input list \<times> turn_start_options \<times> (turn_id \<times> u64) list) \<times> input_queue" where
  "drain_mailbox_input_items_with_provenance q =
     (let mails = mailbox_pending_mails q
      in ((mail_items mails, mailbox_start_options mails, mailbox_join_provenance mails),
          q\<lparr>mailbox_pending_mails := []\<rparr>))"

section \<open>Delivery to a starting turn\<close>

definition matches_taskless_turn :: "active_turn \<Rightarrow> ptr \<Rightarrow> ptr \<Rightarrow> bool" where
  "matches_taskless_turn active claim ts \<longleftrightarrow>
     at_task active = None \<and> at_turn_state active = ts \<and> taskless_start_claim active = Some claim"

text \<open>Acknowledges each join of a batch in order; the successor may depend on the predecessor.\<close>

fun ack_all ::
  "(turn_id \<Rightarrow> turn_id) \<Rightarrow> ptr option \<Rightarrow> (turn_id \<times> u64) list \<Rightarrow> join_obligation_store
     \<Rightarrow> bool option list \<times> join_obligation_store" where
  "ack_all succ_of ts [] st = ([], st)"
| "ack_all succ_of ts ((pred, g) # rest) st =
     (let (r, st1) = acknowledge_ready_join_delivery_locked pred g (succ_of pred) ts st;
          (rs, st2) = ack_all succ_of ts rest st1
      in (r # rs, st2))"

definition blocks_startup :: "turn_id \<Rightarrow> join_obligation_store \<Rightarrow> turn_id \<times> u64 \<Rightarrow> bool" where
  "blocks_startup succ st = (\<lambda>(pred, g).
     case List.find (acknowledgeable pred g) (obligations st) of
       None \<Rightarrow> False
     | Some ob \<Rightarrow> jo_trigger_turn ob \<and> (succ = [] \<or> pred = [] \<or> pred = succ
         \<or> list_ex (\<lambda>c. jc_parent_thread_id c = jo_parent_thread_id ob
              \<and> jc_predecessor_turn_id c = pred) (continuations st)))"

text \<open>
  The caller holds the turn state's \<open>Arc\<close>, so its cell is allocated; the revision is bumped once
  per acknowledgement that changed it.
\<close>

definition commit_startup_mailbox_for_turn ::
  "active_turn \<Rightarrow> ptr \<Rightarrow> ptr \<Rightarrow> turn_id \<Rightarrow> token_usage \<Rightarrow> 'c turn_heap \<times> input_queue
     \<Rightarrow> turn_start_options option \<times> 'c turn_heap \<times> input_queue" where
  "commit_startup_mailbox_for_turn active claim ts succ usage = (\<lambda>(h, q).
     if \<not> matches_taskless_turn active claim ts then (None, h, q)
     else case fmlookup h ts of
       None \<Rightarrow> (None, h, q)
     | Some state \<Rightarrow>
         (let mails = mailbox_pending_mails q;
              consumed_joins = mailbox_join_provenance mails
          in if list_ex (blocks_startup succ (join_obligations q)) consumed_joins then (None, h, q)
             else let state' = state\<lparr>token_usage_at_turn_start := usage,
                                     pending_input := pending_input state @ mail_items mails\<rparr>;
                      (rs, st') = ack_all (\<lambda>_. succ) (Some ts) consumed_joins (join_obligations q);
                      bumps = length (filter (\<lambda>r. r = Some True) rs);
                      q' = (bump_join_continuation_revision ^^ bumps)
                             (q\<lparr>mailbox_pending_mails := [], join_obligations := st'\<rparr>)
                  in (Some (mailbox_start_options mails), fmupd ts state' h, q')))"

section \<open>Delivery to the active turn\<close>

record 'c world =
  w_active :: "active_turn option"
  w_heap :: "'c turn_heap"
  w_queue :: input_queue

definition matches_active_delivery :: "active_turn option \<Rightarrow> turn_id option \<Rightarrow> ptr option \<Rightarrow> bool" where
  "matches_active_delivery active expected_id expected_state =
     (case active of
        None \<Rightarrow> expected_state = None \<and> expected_id = None
      | Some a \<Rightarrow> expected_state = Some (at_turn_state a)
          \<and> map_option rt_sub_id (at_task a) = expected_id)"

definition active_id :: "'c world \<Rightarrow> turn_id option" where
  "active_id w = Option.bind (w_active w) (\<lambda>a. map_option rt_sub_id (at_task a))"

definition active_state :: "'c world \<Rightarrow> ptr option" where
  "active_state w = map_option at_turn_state (w_active w)"

definition state_of :: "'c turn_heap \<Rightarrow> ptr option \<Rightarrow> 'c turn_state option" where
  "state_of h ts = Option.bind ts (fmlookup h)"

definition refuses_delivery :: "'c turn_state option \<Rightarrow> bool" where
  "refuses_delivery s = (case s of Some t \<Rightarrow> \<not> accepts_mailbox_delivery t | None \<Rightarrow> False)"

text \<open>
  \<open>get_pending_input\<close> looks at the session three times and releases its locks in between, so it
  is a function of the three worlds it finds: \<open>w0\<close> when it reads the active turn, \<open>w1\<close> when it
  checks that delivery is possible and \<open>w2\<close> when it delivers. The result is the panic of its
  \<open>expect\<close> (\<open>None\<close>) or the items, the start options and the world it leaves.
\<close>

definition get_pending_input ::
  "'c world \<Rightarrow> 'c world \<Rightarrow> 'c world \<Rightarrow> ('c turn_input list \<times> turn_start_options \<times> 'c world) option" where
  "get_pending_input w0 w1 w2 =
     (let turn = active_id w0; ts = active_state w0;
          has_metadata = (Option.bind (w_active w0) at_task \<noteq> None)
      in if \<not> matches_active_delivery (w_active w1) turn ts then Some ([], start_options_default, w1)
         else if refuses_delivery (state_of (w_heap w1) ts)
            \<or> validated_mailbox_join_provenance (mailbox_pending_mails (w_queue w1))
                (join_obligations (w_queue w1)) turn = None
         then Some ([], start_options_default, w1)
         else if \<not> matches_active_delivery (w_active w2) turn ts then Some ([], start_options_default, w2)
         else if refuses_delivery (state_of (w_heap w2) ts) then Some ([], start_options_default, w2)
         else
           let mails = mailbox_pending_mails (w_queue w2);
               opts = mailbox_start_options mails
           in case validated_mailbox_join_provenance mails (join_obligations (w_queue w2)) turn of
                None \<Rightarrow> Some ([], start_options_default, w2)
              | Some consumed_joins \<Rightarrow>
                  (let taken = (case state_of (w_heap w2) ts of Some s \<Rightarrow> pending_input s | None \<Rightarrow> []);
                       h = (case ts of
                              Some p \<Rightarrow> (case fmlookup (w_heap w2) p of
                                           Some s \<Rightarrow> fmupd p (s\<lparr>pending_input := []\<rparr>) (w_heap w2)
                                         | None \<Rightarrow> w_heap w2)
                            | None \<Rightarrow> w_heap w2);
                       (rs, st) = ack_all (\<lambda>pred. case turn of Some t \<Rightarrow> t | None \<Rightarrow> pred) ts consumed_joins
                                    (join_obligations (w_queue w2));
                       q1 = (w_queue w2)\<lparr>mailbox_pending_mails := [], join_obligations := st\<rparr>;
                       q2 = (if Some True \<in> set rs then bump_join_continuation_revision q1 else q1);
                       active = (if has_metadata
                                 then map_option (\<lambda>a. a\<lparr>at_task := map_option (\<lambda>t.
                                        case (rt_root_turn_id t, root_turn_id opts) of
                                          (None, Some r) \<Rightarrow> set_root_turn_id r t
                                        | _ \<Rightarrow> t) (at_task a)\<rparr>) (w_active w2)
                                 else w_active w2)
                   in if None \<in> set rs then None
                      else Some (taken @ mail_items mails, opts,
                                 \<lparr>w_active = active, w_heap = h, w_queue = q2\<rparr>)))"

section \<open>Turn-local input\<close>

definition update_cell :: "ptr \<Rightarrow> ('c turn_state \<Rightarrow> 'c turn_state) \<Rightarrow> 'c turn_heap \<Rightarrow> 'c turn_heap" where
  "update_cell p f h = (case fmlookup h p of Some s \<Rightarrow> fmupd p (f s) h | None \<Rightarrow> h)"

fun is_explicit_input :: "'c turn_input \<Rightarrow> bool" where
  "is_explicit_input (UserInput _ _) = True"
| "is_explicit_input (FunctionCallOutput _) = True"
| "is_explicit_input _ = False"

definition queue_has_pending_input :: "'c turn_input list \<Rightarrow> bool" where
  "queue_has_pending_input items = list_ex is_explicit_input items"

definition turn_state_for_sub_id :: "turn_id \<Rightarrow> 'c world \<Rightarrow> ptr option" where
  "turn_state_for_sub_id sub w =
     Option.bind (w_active w) (\<lambda>a.
       case at_task a of
         Some t \<Rightarrow> if rt_sub_id t = sub then Some (at_turn_state a) else None
       | None \<Rightarrow> None)"

definition subscribe_activity :: "ptr option \<Rightarrow> 'c world \<Rightarrow> activity \<times> activity option" where
  "subscribe_activity ts w =
     (let steer = (case state_of (w_heap w) ts of
                     Some s \<Rightarrow> queue_has_pending_input (pending_input s) | None \<Rightarrow> False)
      in (activity_tx (w_queue w),
          if steer then Some ActSteer
          else if has_pending_mailbox_items (w_queue w) \<or> has_ready_wait_obligation (w_queue w)
          then Some ActMailbox else None))"

definition clear_pending :: "active_turn \<Rightarrow> 'c turn_heap \<Rightarrow> 'c turn_heap" where
  "clear_pending a h =
     update_cell (at_turn_state a) (\<lambda>s. (clear_pending_waiters s)\<lparr>pending_input := []\<rparr>) h"

fun is_queue_only_mail :: "'c turn_input \<Rightarrow> bool" where
  "is_queue_only_mail (InterAgentCommunication comm) = (\<not> trigger_turn comm)"
| "is_queue_only_mail _ = False"

definition defer_mailbox_delivery_to_next_turn :: "turn_id \<Rightarrow> 'c world \<Rightarrow> 'c world" where
  "defer_mailbox_delivery_to_next_turn sub w =
     (case turn_state_for_sub_id sub w of
        None \<Rightarrow> w
      | Some p \<Rightarrow> w\<lparr>w_heap := update_cell p (\<lambda>s.
          if list_ex (\<lambda>i. \<not> is_queue_only_mail i) (pending_input s) then s
          else set_mailbox_delivery_phase NextTurn s) (w_heap w)\<rparr>)"

definition accept_mailbox_delivery_for_turn_state :: "ptr \<Rightarrow> 'c world \<Rightarrow> 'c world" where
  "accept_mailbox_delivery_for_turn_state p w = w\<lparr>w_heap := update_cell p accept_mailbox_delivery (w_heap w)\<rparr>"

definition accept_mailbox_delivery_for_current_turn :: "turn_id \<Rightarrow> 'c world \<Rightarrow> 'c world" where
  "accept_mailbox_delivery_for_current_turn sub w =
     (case turn_state_for_sub_id sub w of
        None \<Rightarrow> w
      | Some p \<Rightarrow> accept_mailbox_delivery_for_turn_state p w)"

definition extend_pending_input_and_accept ::
  "ptr \<Rightarrow> 'c turn_input list \<Rightarrow> 'c world \<Rightarrow> 'c world" where
  "extend_pending_input_and_accept p items w =
     w\<lparr>w_heap := update_cell p (\<lambda>s. accept_mailbox_delivery
                    (s\<lparr>pending_input := pending_input s @ items\<rparr>)) (w_heap w),
       w_queue := (w_queue w)\<lparr>activity_tx := ActSteer\<rparr>\<rparr>"

definition extend_pending_input_for_turn_state ::
  "ptr \<Rightarrow> 'c turn_input list \<Rightarrow> 'c world \<Rightarrow> 'c world" where
  "extend_pending_input_for_turn_state p items w =
     w\<lparr>w_heap := update_cell p (\<lambda>s. s\<lparr>pending_input := pending_input s @ items\<rparr>) (w_heap w)\<rparr>"

definition take_pending_input_for_turn_state :: "ptr \<Rightarrow> 'c world \<Rightarrow> 'c turn_input list \<times> 'c world" where
  "take_pending_input_for_turn_state p w =
     ((case fmlookup (w_heap w) p of Some s \<Rightarrow> pending_input s | None \<Rightarrow> []),
      w\<lparr>w_heap := update_cell p (\<lambda>s. s\<lparr>pending_input := []\<rparr>) (w_heap w)\<rparr>)"

definition has_pending_input :: "'c world \<Rightarrow> bool" where
  "has_pending_input w =
     (let (turn_input, accepts) =
            (case w_active w of
               Some a \<Rightarrow>
                 (case fmlookup (w_heap w) (at_turn_state a) of
                    Some s \<Rightarrow> (pending_input s \<noteq> [], accepts_mailbox_delivery s)
                  | None \<Rightarrow> (False, True))
             | None \<Rightarrow> (False, True))
      in if \<not> accepts then False
         else if turn_input then True
         else has_pending_mailbox_items (w_queue w))"

end
