(* ===== verification/Join_Delivery.thy ===== *)
theory Join_Delivery
  imports Input_Queue
begin

text \<open>
  Properties of the input queue as a whole. A run is any interleaving of its operations; the log
  of a run records each completion that was announced for a generation and each acknowledgement
  of it. Every operation is shown to follow the life of a generation
  (absent, collecting, announced, acknowledged), from which at-most-once delivery follows.
\<close>

section \<open>The log of a generation\<close>

datatype join_event = EvCompleted u64 | EvAcked u64

definition completions :: "u64 \<Rightarrow> join_event list \<Rightarrow> nat" where
  "completions g log = count_list log (EvCompleted g)"

definition acks :: "u64 \<Rightarrow> join_event list \<Rightarrow> nat" where
  "acks g log = count_list log (EvAcked g)"

definition log_inv :: "join_obligation_store \<Rightarrow> join_event list \<Rightarrow> bool" where
  "log_inv st log \<longleftrightarrow> (\<forall>g.
     (gen_state st g = Some True \<longrightarrow> completions g log = Suc (acks g log))
     \<and> (gen_state st g = Some False \<longrightarrow> completions g log = acks g log)
     \<and> acks g log \<le> completions g log \<and> completions g log \<le> Suc (acks g log)
     \<and> (next_generation st < g \<longrightarrow> completions g log = 0 \<and> acks g log = 0))"

lemma counts_append [simp]:
  "completions g (log @ log') = completions g log + completions g log'"
  "acks g (log @ log') = acks g log + acks g log'"
  "completions g [] = 0" "acks g [] = 0"
  "completions g [EvCompleted g'] = of_bool (g = g')" "completions g [EvAcked g'] = 0"
  "acks g [EvAcked g'] = of_bool (g = g')" "acks g [EvCompleted g'] = 0"
  by (auto simp: completions_def acks_def)

lemma log_inv_complete:
  assumes "log_inv st log" "gen_state st g = Some False" "gen_state st' = (gen_state st)(g \<mapsto> True)"
    and "next_generation st' = next_generation st" "store_inv st"
  shows "log_inv st' (log @ [EvCompleted g])"
proof -
  have "\<not> next_generation st < g" using gen_state_fresh [OF assms(5)] assms(2) by auto
  then show ?thesis using assms(1-4) unfolding log_inv_def by (auto simp: of_bool_def)
qed

lemma log_inv_ack:
  assumes "log_inv st log" "gen_state st g = Some True"
    and "gen_state st' = (gen_state st)(g \<mapsto> False) \<or> gen_state st' = (gen_state st)(g := None)"
    and "next_generation st' = next_generation st" "store_inv st"
  shows "log_inv st' (log @ [EvAcked g])"
proof -
  have "\<not> next_generation st < g" using gen_state_fresh [OF assms(5)] assms(2) by auto
  then show ?thesis using assms(1-4) unfolding log_inv_def by (auto simp: of_bool_def)
qed

lemma log_inv_fewer:
  assumes "log_inv st log" "\<forall>g. gen_state st' g = gen_state st g \<or> gen_state st' g = None"
    and "next_generation st' = next_generation st"
  shows "log_inv st' log"
  unfolding log_inv_def
proof
  fix g
  show "(gen_state st' g = Some True \<longrightarrow> completions g log = Suc (acks g log))
     \<and> (gen_state st' g = Some False \<longrightarrow> completions g log = acks g log)
     \<and> acks g log \<le> completions g log \<and> completions g log \<le> Suc (acks g log)
     \<and> (next_generation st' < g \<longrightarrow> completions g log = 0 \<and> acks g log = 0)"
    using assms(1) [unfolded log_inv_def, rule_format, of g] assms(2) [rule_format, of g] assms(3) by auto
qed

lemma log_inv_register:
  assumes "log_inv st log" "gen_state st' = (gen_state st)(g \<mapsto> False)"
    and "next_generation st < g" "next_generation st' = g"
  shows "log_inv st' log"
  unfolding log_inv_def
proof
  fix k
  show "(gen_state st' k = Some True \<longrightarrow> completions k log = Suc (acks k log))
     \<and> (gen_state st' k = Some False \<longrightarrow> completions k log = acks k log)
     \<and> acks k log \<le> completions k log \<and> completions k log \<le> Suc (acks k log)
     \<and> (next_generation st' < k \<longrightarrow> completions k log = 0 \<and> acks k log = 0)"
    using assms(1) [unfolded log_inv_def, rule_format, of k] assms(2-4)
    by (cases "k = g") auto
qed

section \<open>Acknowledging a batch\<close>

definition acked_gens :: "(turn_id \<times> u64) list \<Rightarrow> bool option list \<Rightarrow> u64 list" where
  "acked_gens cs rs = map (\<lambda>x. snd (fst x)) (filter (\<lambda>x. snd x \<noteq> None) (zip cs rs))"

lemma ack_all_length [simp]: "length (fst (ack_all f ts cs st)) = length cs"
  by (induction f ts cs st rule: ack_all.induct) (auto simp: Let_def split: prod.splits)

lemma ack_all_inv:
  assumes "store_inv st"
  shows "store_inv (snd (ack_all f ts cs st))
    \<and> next_generation (snd (ack_all f ts cs st)) = next_generation st
    \<and> (log_inv st log \<longrightarrow> log_inv (snd (ack_all f ts cs st))
         (log @ map EvAcked (acked_gens cs (fst (ack_all f ts cs st)))))"
  using assms
proof (induction f ts cs st arbitrary: log rule: ack_all.induct)
  case (1 f ts st)
  then show ?case by (simp add: acked_gens_def)
next
  case (2 f ts pred g rest st)
  obtain r st1 where r: "acknowledge_ready_join_delivery_locked pred g (f pred) ts st = (r, st1)" by fastforce
  have spec: "ack_spec g st (r, st1)" using acknowledge_spec [OF "2.prems", of g pred "f pred" ts] r by simp
  then have inv1: "store_inv st1" by (simp add: ack_spec_def)
  obtain rs st2 where rs: "ack_all f ts rest st1 = (rs, st2)" by fastforce
  note IH = "2.IH" [OF r [symmetric] refl inv1, unfolded rs, simplified]
  show ?case
  proof (cases r)
    case None
    then have "st1 = st" using spec by (simp add: ack_spec_def)
    then show ?thesis using IH r rs None by (simp add: acked_gens_def)
  next
    case (Some b)
    have nxt: "next_generation st1 = next_generation st" using spec by (simp add: ack_spec_def)
    have log1: "log_inv st1 (log @ [EvAcked g])" if "log_inv st log"
      using log_inv_ack [OF that, of g st1] spec Some "2.prems" by (simp add: ack_spec_def)
    have gens: "acked_gens ((pred, g) # rest) (r # rs) = g # acked_gens rest rs"
      using Some by (simp add: acked_gens_def)
    have log2: "log_inv st2 (log @ EvAcked g # map EvAcked (acked_gens rest rs))" if "log_inv st log"
      using IH log1 [OF that] by (metis append.assoc append_Cons append_Nil)
    show ?thesis using IH r rs nxt gens log2 by simp
  qed
qed

text \<open>A batch that was validated is acknowledged completely: no acknowledgement is missing.\<close>

lemma ack_all_validated:
  assumes "store_inv st" "\<forall>ob. ob_generation ob |\<notin>| seen \<longrightarrow> (ob \<in> set (obligations st) \<longleftrightarrow> ob \<in> set (obligations st0))"
    and "validate_joins st0 successor seen cs"
  shows "None \<notin> set (fst (ack_all f ts cs st))
    \<and> (\<forall>ob. ob_generation ob |\<notin>| seen \<and> ob_generation ob \<notin> snd ` set cs \<longrightarrow>
          (ob \<in> set (obligations (snd (ack_all f ts cs st))) \<longleftrightarrow> ob \<in> set (obligations st0)))"
  using assms
proof (induction f ts cs st arbitrary: seen rule: ack_all.induct)
  case (2 f ts pred g rest st)
  obtain r st1 where r: "acknowledge_ready_join_delivery_locked pred g (f pred) ts st = (r, st1)" by fastforce
  obtain rs st2 where rs: "ack_all f ts rest st1 = (rs, st2)" by fastforce
  have g: "g |\<notin>| seen" and ne: "filter (acknowledgeable pred g) (obligations st0) \<noteq> []"
    and rest: "validate_joins st0 successor (finsert g seen) rest"
    using "2.prems"(3) by (auto simp: Let_def split: if_splits list.splits)
  from ne obtain ob where ob: "ob \<in> set (obligations st0)" "acknowledgeable pred g ob"
    by (auto simp: filter_empty_conv)
  then have "ob \<in> set (obligations st)" using "2.prems"(2) g by (simp add: acknowledgeable_def)
  then have "r \<noteq> None" using acknowledge_Some_iff [OF "2.prems"(1), of pred g "f pred" ts] r ob(2) by auto
  have spec: "ack_spec g st (r, st1)" using acknowledge_spec [OF "2.prems"(1), of g pred "f pred" ts] r by simp
  have other: "\<forall>ob. ob_generation ob |\<notin>| finsert g seen \<longrightarrow>
      (ob \<in> set (obligations st1) \<longleftrightarrow> ob \<in> set (obligations st0))"
    using spec "2.prems"(2) by (auto simp: ack_spec_def)
  have inv1: "store_inv st1" using spec by (simp add: ack_spec_def)
  from "2.IH" [OF r [symmetric] refl inv1 other rest] show ?case
    using r rs \<open>r \<noteq> None\<close> by (auto simp: Let_def)
qed simp

lemma validated_acks:
  assumes "store_inv st" "validated_mailbox_join_provenance mails st successor = Some cs"
  shows "None \<notin> set (fst (ack_all f ts cs st))"
  using ack_all_validated [OF assms(1), of "{||}" st successor cs f ts] assms(2)
  by (auto simp: validated_mailbox_join_provenance_def Let_def split: if_splits)

end
