(* ===== verification/Join_Runs.thy ===== *)
theory Join_Runs
  imports Join_Delivery
begin

text \<open>
  Runs of the input queue under any interleaving of its operations, and the properties of the
  owned joins and the mailbox that hold in every state such a run reaches.
\<close>

section \<open>The queue as a machine\<close>

text \<open>
  One constructor per operation of the queue. \<open>JPending\<close> carries the two earlier worlds that
  \<open>get_pending_input\<close> looked at and the active turn and heap at delivery.
\<close>

datatype 'c join_op =
    JRegister thread_id turn_id targets bool
  | JResolve thread_id u64 thread_id ptr turn_id agent_status bool
  | JRebind thread_id u64 thread_id ptr turn_id turn_id
  | JRetire thread_id u64 thread_id ptr turn_id
  | JFinish thread_id u64 turn_id turn_id ptr
  | JFinishRoot thread_id turn_id ptr
  | JTerminal "'c turn_heap" thread_id turn_id ptr agent_status
  | JAck turn_id u64 turn_id "ptr option"
  | JConsumeTargets thread_id turn_id "thread_id list" targets
  | JDispatch u64
  | JEnqueue inter_agent_communication turn_start_options
  | JMark turn_id u64
  | JClear turn_id u64
  | JStartup active_turn ptr ptr turn_id token_usage "'c turn_heap"
  | JPending "'c world" "'c world" "active_turn option" "'c turn_heap"

definition delivery_joins ::
  "'c world \<Rightarrow> 'c world \<Rightarrow> 'c world \<Rightarrow> (turn_id \<times> u64) list option" where
  "delivery_joins w0 w1 w2 =
     (let turn = active_id w0; ts = active_state w0;
          valid = (\<lambda>w. validated_mailbox_join_provenance (mailbox_pending_mails (w_queue w))
                     (join_obligations (w_queue w)) turn)
      in if \<not> matches_active_delivery (w_active w1) turn ts \<or> refuses_delivery (state_of (w_heap w1) ts)
            \<or> valid w1 = None \<or> \<not> matches_active_delivery (w_active w2) turn ts
            \<or> refuses_delivery (state_of (w_heap w2) ts) then None
         else valid w2)"

definition successor_of :: "'c world \<Rightarrow> turn_id \<Rightarrow> turn_id" where
  "successor_of w pred = (case active_id w of Some t \<Rightarrow> t | None \<Rightarrow> pred)"

fun join_step :: "'c join_op \<Rightarrow> input_queue \<times> join_event list \<Rightarrow> input_queue \<times> join_event list" where
  "join_step (JRegister thread turn tgts trigger) (q, log) =
     (snd (register_obligation thread turn tgts trigger q), log)"
| "join_step (JResolve thread g child inc turn status retain) (q, log) =
     (let (r, q') = resolve_join_target_inner thread g child inc turn status retain q
      in (q', log @ (case Option.bind r rr_completion of
                       Some c \<Rightarrow> [EvCompleted (cp_generation c)] | None \<Rightarrow> [])))"
| "join_step (JRebind thread g child inc pred succ) (q, log) =
     (snd (rebind_join_target_to_successor thread g child inc pred succ q), log)"
| "join_step (JRetire thread g child inc pred) (q, log) =
     (snd (retire_join_target_successor_retention thread g child inc pred q), log)"
| "join_step (JFinish thread g pred succ ts) (q, log) =
     (finish_join_continuation thread g pred succ ts q, log)"
| "join_step (JFinishRoot thread turn ts) (q, log) =
     (finish_root_join_continuations thread turn ts q, log)"
| "join_step (JTerminal h thread turn ts status) (q, log) =
     (record_nested_join_turn_terminal h thread turn ts status q, log)"
| "join_step (JAck pred g succ ts) (q, log) =
     (let (b, q') = acknowledge_in_queue pred g succ ts q
      in (q', log @ (if b then [EvAcked g] else [])))"
| "join_step (JConsumeTargets thread turn ids current) (q, log) =
     (let (r, q') = consume_ready_join_obligation_for_targets_with_outcomes thread turn ids current q
      in (q', log @ (if r = None then []
            else map (\<lambda>ob. EvAcked (ob_generation ob))
                   (filter (ready_for_targets thread turn ids current) (obligations (join_obligations q))))))"
| "join_step (JDispatch g) (q, log) = (finish_join_dispatch g q, log)"
| "join_step (JEnqueue comm opts) (q, log) = (enqueue_mailbox_communication comm opts q, log)"
| "join_step (JMark turn g) (q, log) = (mark_join_trigger turn g q, log)"
| "join_step (JClear turn g) (q, log) = (clear_join_trigger turn g q, log)"
| "join_step (JStartup active claim ts succ usage h) (q, log) =
     (let (r, h', q') = commit_startup_mailbox_for_turn active claim ts succ usage (h, q);
          cs = mailbox_join_provenance (mailbox_pending_mails q)
      in (q', log @ (if r = None then []
            else map EvAcked (acked_gens cs (fst (ack_all (\<lambda>_. succ) (Some ts) cs (join_obligations q)))))))"
| "join_step (JPending w0 w1 active h) (q, log) =
     (let w2 = \<lparr>w_active = active, w_heap = h, w_queue = q\<rparr> in
      case delivery_joins w0 w1 w2 of
        None \<Rightarrow> (q, log)
      | Some cs \<Rightarrow>
          (case get_pending_input w0 w1 w2 of
             None \<Rightarrow> (q, log)
           | Some (items, opts, w) \<Rightarrow>
               (w_queue w, log @ map EvAcked (acked_gens cs
                  (fst (ack_all (successor_of w0) (active_state w0) cs (join_obligations q)))))))"

text \<open>The generation counter saturates; a run makes fewer than \<open>2^64\<close> registrations.\<close>

fun join_ok :: "input_queue \<times> join_event list \<Rightarrow> 'c join_op \<Rightarrow> bool" where
  "join_ok (q, log) (JRegister _ _ _ _) = (next_generation (join_obligations q) \<noteq> - 1)"
| "join_ok _ _ = True"

definition join_inv :: "input_queue \<times> join_event list \<Rightarrow> bool" where
  "join_inv = (\<lambda>(q, log). store_inv (join_obligations q) \<and> log_inv (join_obligations q) log)"

section \<open>Every operation keeps the invariant\<close>

lemma join_inv_unchanged:
  "unchanged_gens q q' \<Longrightarrow> join_inv (q, log) \<Longrightarrow> join_inv (q', log)"
  by (auto simp: unchanged_gens_def join_inv_def intro: log_inv_fewer)

lemma join_inv_same_store:
  "join_obligations q' = join_obligations q \<Longrightarrow> join_inv (q, log) \<Longrightarrow> join_inv (q', log)"
  by (simp add: join_inv_def)

lemma join_inv_register:
  assumes "join_inv (q, log)" "next_generation (join_obligations q) \<noteq> - 1"
  shows "join_inv (snd (register_obligation thread turn tgts trigger q), log)"
proof -
  let ?r = "register_obligation thread turn tgts trigger q"
  have inv: "store_inv (join_obligations q)" "log_inv (join_obligations q) log"
    using assms(1) by (auto simp: join_inv_def)
  note reg = register_obligation_inv [OF inv(1) assms(2), of thread turn tgts trigger]
  have less: "next_generation (join_obligations q) < next_generation (join_obligations q) + 1"
    using saturating_add_one_gr [OF assms(2)] saturating_add_one [OF assms(2)] by simp
  show ?thesis
  proof (cases "snd ?r = q")
    case True
    then show ?thesis using assms(1) by simp
  next
    case False
    then have "gen_state (join_obligations (snd ?r))
        = (gen_state (join_obligations q))(next_generation (join_obligations q) + 1 \<mapsto> False)"
      "next_generation (join_obligations (snd ?r)) = next_generation (join_obligations q) + 1"
      using reg by (auto simp: register_result_def Let_def split: option.splits)
    then show ?thesis using reg log_inv_register [OF inv(2) _ less] by (simp add: join_inv_def)
  qed
qed

lemma join_inv_resolve:
  assumes "join_inv (q, log)"
  shows "join_inv (join_step (JResolve thread g child inc turn status retain) (q, log))"
proof -
  obtain r q' where r: "resolve_join_target_inner thread g child inc turn status retain q = (r, q')" by fastforce
  have inv: "store_inv (join_obligations q)" "log_inv (join_obligations q) log"
    using assms by (auto simp: join_inv_def)
  have spec: "resolve_queue_spec g q (r, q')"
    using resolve_join_target_inner_spec [OF inv(1), of g thread child inc turn status retain] r by simp
  show ?thesis
  proof (cases "Option.bind r rr_completion")
    case None
    then show ?thesis using spec r inv(2)
      by (auto simp: resolve_queue_spec_def join_inv_def Let_def intro: log_inv_fewer)
  next
    case (Some c)
    then show ?thesis using spec r inv(1) log_inv_complete [OF inv(2), of g "join_obligations q'"]
      by (simp add: resolve_queue_spec_def join_inv_def Let_def)
  qed
qed

lemma join_inv_ack:
  assumes "join_inv (q, log)"
    and "acknowledge_ready_join_delivery_locked pred g succ ts (join_obligations q) = (r, st)"
    and "join_obligations q' = st"
  shows "join_inv (q', log @ (if r = None then [] else [EvAcked g]))"
proof -
  have inv: "store_inv (join_obligations q)" "log_inv (join_obligations q) log"
    using assms(1) by (auto simp: join_inv_def)
  have spec: "ack_spec g (join_obligations q) (r, st)"
    using acknowledge_spec [OF inv(1), of g pred succ ts] assms(2) by simp
  show ?thesis
  proof (cases r)
    case None
    then show ?thesis using spec inv assms(3) by (simp add: ack_spec_def join_inv_def)
  next
    case (Some b)
    then show ?thesis using spec inv assms(3) log_inv_ack [OF inv(2), of g st]
      by (simp add: ack_spec_def join_inv_def)
  qed
qed

lemma unique_match_Some: "unique_match xs = Inr (Some x) \<longleftrightarrow> xs = [x]"
  by (cases xs rule: unique_match.cases) auto

lemma join_inv_consume_targets:
  assumes "join_inv (q, log)"
  shows "join_inv (join_step (JConsumeTargets thread turn ids current) (q, log))"
proof (cases "unique_match (filter (ready_for_targets thread turn ids current) (obligations (join_obligations q)))")
  case (Inl a)
  then show ?thesis using assms
    by (simp add: consume_ready_join_obligation_for_targets_with_outcomes_def Let_def)
next
  case (Inr m)
  show ?thesis
  proof (cases m)
    case None
    then show ?thesis using assms Inr
      by (simp add: consume_ready_join_obligation_for_targets_with_outcomes_def Let_def)
  next
    case (Some ob)
    then have f: "filter (ready_for_targets thread turn ids current) (obligations (join_obligations q)) = [ob]"
      using Inr by (simp add: unique_match_Some)
    obtain r st where r: "acknowledge_ready_join_delivery_locked turn (ob_generation ob) turn None (join_obligations q) = (r, st)"
      by fastforce
    show ?thesis using join_inv_ack [OF assms r] f r
      by (cases r) (simp_all add: consume_ready_join_obligation_for_targets_with_outcomes_def Let_def)
  qed
qed

lemma funpow_bump [simp]: "join_obligations ((bump_join_continuation_revision ^^ n) q) = join_obligations q"
  "mailbox_pending_mails ((bump_join_continuation_revision ^^ n) q) = mailbox_pending_mails q"
  by (induction n) auto

lemma join_inv_batch:
  assumes "join_inv (q, log)" "join_obligations q' = snd (ack_all f ts cs (join_obligations q))"
  shows "join_inv (q', log @ map EvAcked (acked_gens cs (fst (ack_all f ts cs (join_obligations q)))))"
  using assms ack_all_inv [of "join_obligations q" f ts cs log] by (simp add: join_inv_def)

lemma commit_startup_cases:
  obtains (refused) "commit_startup_mailbox_for_turn active claim ts succ usage (h, q) = (None, h, q)"
  | (committed) state where "fmlookup h ts = Some state" "matches_taskless_turn active claim ts"
      "\<not> list_ex (blocks_startup succ (join_obligations q)) (mailbox_join_provenance (mailbox_pending_mails q))"
      "commit_startup_mailbox_for_turn active claim ts succ usage (h, q) =
        (let cs = mailbox_join_provenance (mailbox_pending_mails q);
             a = ack_all (\<lambda>_. succ) (Some ts) cs (join_obligations q) in
         (Some (mailbox_start_options (mailbox_pending_mails q)),
          fmupd ts (state\<lparr>token_usage_at_turn_start := usage,
             pending_input := pending_input state @ mail_items (mailbox_pending_mails q)\<rparr>) h,
          (bump_join_continuation_revision ^^ length (filter (\<lambda>r. r = Some True) (fst a)))
            (q\<lparr>mailbox_pending_mails := [], join_obligations := snd a\<rparr>)))"
proof (cases "matches_taskless_turn active claim ts \<and> fmlookup h ts \<noteq> None
    \<and> \<not> list_ex (blocks_startup succ (join_obligations q)) (mailbox_join_provenance (mailbox_pending_mails q))")
  case True
  then obtain state where "fmlookup h ts = Some state" by auto
  then show ?thesis using True by (intro committed [of state])
      (auto simp: commit_startup_mailbox_for_turn_def Let_def split: prod.splits)
next
  case False
  then show ?thesis by (intro refused)
      (auto simp: commit_startup_mailbox_for_turn_def Let_def split: option.splits)
qed

lemma join_inv_startup:
  assumes "join_inv (q, log)"
  shows "join_inv (join_step (JStartup active claim ts succ usage h) (q, log))"
proof (cases rule: commit_startup_cases [of active claim ts succ usage h q])
  case refused
  then show ?thesis using assms by simp
next
  case (committed state)
  then show ?thesis using join_inv_batch [OF assms] by (simp add: Let_def)
qed

text \<open>\<open>get_pending_input\<close> either leaves everything alone or delivers the whole mailbox.\<close>

definition taken_input :: "'c world \<Rightarrow> 'c world \<Rightarrow> 'c turn_input list" where
  "taken_input w0 w2 =
     (case state_of (w_heap w2) (active_state w0) of Some s \<Rightarrow> pending_input s | None \<Rightarrow> [])"

definition delivered :: "'c world \<Rightarrow> 'c world \<Rightarrow> (turn_id \<times> u64) list \<Rightarrow> 'c world \<Rightarrow> bool" where
  "delivered w0 w2 cs w \<longleftrightarrow>
     mailbox_pending_mails (w_queue w) = []
     \<and> join_obligations (w_queue w)
         = snd (ack_all (successor_of w0) (active_state w0) cs (join_obligations (w_queue w2)))
     \<and> (\<forall>p. fmlookup (w_heap w) p = (if active_state w0 = Some p
            then map_option (\<lambda>s. s\<lparr>pending_input := []\<rparr>) (fmlookup (w_heap w2) p)
            else fmlookup (w_heap w2) p))"

lemma get_pending_input_refused:
  "delivery_joins w0 w1 w2 = None \<Longrightarrow>
   \<exists>w \<in> {w1, w2}. get_pending_input w0 w1 w2 = Some ([], start_options_default, w)"
  by (auto simp: delivery_joins_def get_pending_input_def Let_def split: if_splits option.splits)

lemma get_pending_input_delivers:
  assumes "delivery_joins w0 w1 w2 = Some cs" "store_inv (join_obligations (w_queue w2))"
  shows "\<exists>w. get_pending_input w0 w1 w2 = Some (taken_input w0 w2 @ mail_items (mailbox_pending_mails (w_queue w2)),
            mailbox_start_options (mailbox_pending_mails (w_queue w2)), w)
          \<and> delivered w0 w2 cs w"
proof -
  let ?mails = "mailbox_pending_mails (w_queue w2)" and ?st = "join_obligations (w_queue w2)"
  let ?a = "ack_all (successor_of w0) (active_state w0) cs ?st"
  have val: "validated_mailbox_join_provenance ?mails ?st (active_id w0) = Some cs"
    and gates: "matches_active_delivery (w_active w1) (active_id w0) (active_state w0)"
      "\<not> refuses_delivery (state_of (w_heap w1) (active_state w0))"
      "validated_mailbox_join_provenance (mailbox_pending_mails (w_queue w1)) (join_obligations (w_queue w1)) (active_id w0) \<noteq> None"
      "matches_active_delivery (w_active w2) (active_id w0) (active_state w0)"
      "\<not> refuses_delivery (state_of (w_heap w2) (active_state w0))"
    using assms(1) by (auto simp: delivery_joins_def Let_def split: if_splits)
  have acks: "None \<notin> set (fst ?a)" using validated_acks [OF assms(2) val] .
  have succ: "(\<lambda>pred. case active_id w0 of Some t \<Rightarrow> t | None \<Rightarrow> pred) = successor_of w0"
    by (rule ext) (simp add: successor_of_def)
  obtain rs st where a: "?a = (rs, st)" by fastforce
  show ?thesis unfolding get_pending_input_def Let_def succ
    using gates acks val a
    by (auto simp: taken_input_def delivered_def state_of_def split: option.splits)
qed

lemma join_inv_pending:
  assumes "join_inv (q, log)"
  shows "join_inv (join_step (JPending w0 w1 active h) (q, log))"
proof (cases "delivery_joins w0 w1 \<lparr>w_active = active, w_heap = h, w_queue = q\<rparr>")
  case None
  then show ?thesis using assms by simp
next
  case (Some cs)
  have inv: "store_inv (join_obligations (w_queue \<lparr>w_active = active, w_heap = h, w_queue = q\<rparr>))"
    using assms by (simp add: join_inv_def)
  show ?thesis using get_pending_input_delivers [OF Some inv] Some join_inv_batch [OF assms]
    by (auto simp: delivered_def)
qed

lemma join_inv_step: "join_inv s \<Longrightarrow> join_ok s x \<Longrightarrow> join_inv (join_step x s)"
proof -
  assume inv: "join_inv s" and ok: "join_ok s x"
  obtain q log where s: "s = (q, log)" by fastforce
  note inv = inv [unfolded s]
  have st: "store_inv (join_obligations q)" using inv by (simp add: join_inv_def)
  show ?thesis
  proof (cases x)
    case (JRegister thread turn tgts trigger)
    then show ?thesis using join_inv_register [OF inv] ok s by simp
  next
    case (JResolve thread g child inc turn status retain)
    then show ?thesis using join_inv_resolve [OF inv] s by simp
  next
    case (JRebind thread g child inc pred succ)
    then show ?thesis using join_inv_unchanged [OF rebind_unchanged [OF st] inv] s by simp
  next
    case (JRetire thread g child inc pred)
    then show ?thesis using join_inv_unchanged [OF retire_unchanged [OF st] inv] s by simp
  next
    case (JFinish thread g pred succ ts)
    then show ?thesis using join_inv_unchanged [OF finish_unchanged(1) [OF st] inv] s by simp
  next
    case (JFinishRoot thread turn ts)
    then show ?thesis using join_inv_unchanged [OF finish_unchanged(2) [OF st] inv] s by simp
  next
    case (JTerminal h thread turn ts status)
    then show ?thesis using record_terminal_gens [OF st refl, of h thread turn ts status] inv s
      by (auto simp: join_inv_def intro: log_inv_fewer)
  next
    case (JAck pred g succ ts)
    obtain r st' where r: "acknowledge_ready_join_delivery_locked pred g succ ts (join_obligations q) = (r, st')"
      by fastforce
    show ?thesis using join_inv_ack [OF inv r] JAck s r
      by (cases r) (simp_all add: acknowledge_in_queue_def Let_def)
  next
    case (JConsumeTargets thread turn ids current)
    then show ?thesis using join_inv_consume_targets [OF inv] s by simp
  next
    case (JDispatch g)
    then show ?thesis using join_inv_unchanged [OF finish_join_dispatch_unchanged [OF st] inv] s by simp
  next
    case (JEnqueue comm opts)
    then show ?thesis
      using s inv join_inv_unchanged [OF finish_join_dispatch_unchanged] join_inv_same_store
      by (auto simp: enqueue_mailbox_communication_def Let_def join_inv_def
          split: prod.splits mailbox_provenance.splits)
  next
    case (JMark turn g)
    then show ?thesis using join_inv_same_store [OF _ inv] s by (simp add: mark_join_trigger_def)
  next
    case (JClear turn g)
    then show ?thesis using join_inv_same_store [OF _ inv] s by (simp add: clear_join_trigger_def)
  next
    case (JStartup active claim ts succ usage h)
    then show ?thesis using join_inv_startup [OF inv] s by simp
  next
    case (JPending w0 w1 active h)
    then show ?thesis using join_inv_pending [OF inv] s by simp
  qed
qed

interpretation join_machine: guarded_machine join_step join_inv join_ok
  by unfold_locales (rule join_inv_step)

lemma join_inv_new: "join_inv (input_queue_new, [])"
  by (simp add: join_inv_def input_queue_new_def log_inv_def store_default_def store_inv_def gen_state_def)

definition reaches :: "'c join_op list \<Rightarrow> input_queue \<Rightarrow> join_event list \<Rightarrow> bool" where
  "reaches ops q log \<longleftrightarrow> allowed_run join_ok join_step ops (input_queue_new, [])
     \<and> run_ops join_step ops (input_queue_new, []) = (q, log)"

lemma reaches_inv: "reaches ops q log \<Longrightarrow> store_inv (join_obligations q) \<and> log_inv (join_obligations q) log"
  using join_machine.run_inv [OF join_inv_new] by (fastforce simp: reaches_def join_inv_def)

end
