(* ===== verification/Join_Properties.thy ===== *)
theory Join_Properties
  imports Join_Runs
begin

text \<open>
  The contract of the owned joins and of mailbox delivery, in every state that a run of the input
  queue reaches: what a completion reports, which terminal signals count, what registration,
  rebinding, retirement and consumption do, and what a drained mailbox leaves behind.
\<close>

section \<open>A sample run\<close>

text \<open>
  Turn \<open>50\<close> of thread \<open>10\<close> owns a join on child \<open>3\<close> (incarnation \<open>7\<close>, turn \<open>4\<close>); the child
  completes and the trigger mail is queued.
\<close>

definition sample_targets :: targets where
  "sample_targets = fmupd [3] (7, [4]) fmempty"

definition sample_mail :: inter_agent_communication where
  "sample_mail = iac_new root root [] [9] True"

definition sample_opts :: turn_start_options where
  "sample_opts = start_options_default\<lparr>parent_turn_id := Some [50]\<rparr>"

definition sample_register :: "unit join_op" where
  "sample_register = JRegister [10] [50] sample_targets True"

definition sample_resolve :: "unit join_op" where
  "sample_resolve = JResolve [10] 1 [3] 7 [4] (Completed None) False"

definition sample_prefix :: "unit join_op list" where
  "sample_prefix = [sample_register]"

definition sample_ready :: "unit join_op list" where
  "sample_ready = [sample_register, sample_resolve, JMark [50] 1, JEnqueue sample_mail sample_opts]"

definition sample_done :: "unit join_op list" where
  "sample_done = sample_ready @ [JAck [50] 1 [50] None]"

definition queue_after :: "unit join_op list \<Rightarrow> input_queue" where
  "queue_after ops = fst (run_ops join_step ops (input_queue_new, []))"

definition log_after :: "unit join_op list \<Rightarrow> join_event list" where
  "log_after ops = snd (run_ops join_step ops (input_queue_new, []))"

lemma sample_reaches:
  "reaches sample_prefix (queue_after sample_prefix) (log_after sample_prefix)"
  "reaches sample_ready (queue_after sample_ready) (log_after sample_ready)"
  "reaches sample_done (queue_after sample_done) (log_after sample_done)"
  by (simp_all add: reaches_def queue_after_def log_after_def sample_prefix_def sample_ready_def
      sample_done_def sample_register_def sample_resolve_def input_queue_new_def store_default_def)

definition sample_obligation :: join_obligation where
  "sample_obligation = \<lparr>jo_parent_thread_id = [10], jo_parent_turn_id = [50], jo_targets = sample_targets,
     jo_results = fmempty, jo_ready = False, jo_trigger_sent = False, jo_dispatch_complete = False,
     jo_trigger_turn = True, jo_retained_targets = {||}, jo_retained_predecessor = None,
     jo_token = \<lparr>generation = 1, consumed = False\<rparr>\<rparr>"

lemmas sample_eval = sample_prefix_def sample_ready_def sample_done_def sample_register_def
  sample_resolve_def queue_after_def log_after_def input_queue_new_def store_default_def

lemma sample_prefix_queue:
  "queue_after sample_prefix = input_queue_new\<lparr>join_obligations :=
     \<lparr>next_generation = 1, obligations = [sample_obligation], continuations = []\<rparr>\<rparr>"
  by (simp add: sample_eval register_obligation_def owned_obligation_new_def sample_obligation_def
      saturating_add_def Let_def)

definition sample_completed :: join_obligation where
  "sample_completed = sample_obligation\<lparr>jo_results := fmupd [3] (Completed None) fmempty,
     jo_ready := True, jo_trigger_sent := True, jo_dispatch_complete := True\<rparr>"

lemma sample_resolved:
  "resolve_obligation False [3] (Completed None) sample_obligation =
     (\<lparr>rr_completion = Some \<lparr>cp_parent_turn_id = [50], cp_generation = 1,
          cp_outcomes = [([3], Completed None)], cp_trigger_turn = True\<rparr>, rr_parent_turn_id = [50]\<rparr>,
      sample_completed\<lparr>jo_dispatch_complete := False\<rparr>)"
  by (simp add: resolve_obligation_def sample_obligation_def sample_completed_def sample_targets_def
      sorted_list_of_fmap_def sorted_list_of_fset_def Let_def)

lemma fmdrop_upd_empty: "fmdrop k (fmupd k v fmempty) = fmempty"
  by (rule fmap_ext) simp

definition sample_pending :: pending_mail where
  "sample_pending = \<lparr>pm_communication = sample_mail, pm_start_options = sample_opts,
     pm_provenance = JoinAggregate 1\<rparr>"

lemma sample_ready_queue:
  "queue_after sample_ready = input_queue_new\<lparr>mailbox_pending_mails := [sample_pending],
     join_obligations := \<lparr>next_generation = 1, obligations = [sample_completed], continuations = []\<rparr>\<rparr>"
  "log_after sample_ready = [EvCompleted 1]"
proof -
  let ?q1 = "input_queue_new\<lparr>join_obligations :=
     \<lparr>next_generation = 1, obligations = [sample_obligation], continuations = []\<rparr>\<rparr>"
  have p: "queue_after sample_prefix = ?q1" by (rule sample_prefix_queue)
  have b: "binds_target [10] 1 [3] sample_obligation" "jo_trigger_turn sample_obligation"
    "fmlookup (jo_targets sample_obligation) [3] = Some (7, [4])"
    by (simp_all add: binds_target_def sample_obligation_def sample_targets_def)
  have r: "join_step sample_resolve (?q1, []) =
      (input_queue_new\<lparr>join_obligations := \<lparr>next_generation = 1,
         obligations = [sample_completed\<lparr>jo_dispatch_complete := False\<rparr>], continuations = []\<rparr>\<rparr>, [EvCompleted 1])"
    using b by (simp add: sample_resolve_def resolve_join_target_inner_def sample_resolved Let_def)
  have "join_step sample_register (input_queue_new, []) = (?q1, [])"
    using p by (simp add: sample_prefix_def queue_after_def sample_register_def)
  then have "run_ops join_step sample_ready (input_queue_new, []) =
      join_step (JEnqueue sample_mail sample_opts :: unit join_op)
        (join_step (JMark [50] 1 :: unit join_op) (join_step sample_resolve (?q1, [])))"
    by (simp only: sample_ready_def run_ops.simps)
  also have "\<dots> = (input_queue_new\<lparr>mailbox_pending_mails := [sample_pending],
     join_obligations := \<lparr>next_generation = 1, obligations = [sample_completed], continuations = []\<rparr>\<rparr>, [EvCompleted 1])"
    unfolding r using fmdrop_upd_empty [of "[50]" "1 :: u64"] by (simp add: mark_join_trigger_def enqueue_mailbox_communication_def take_provenance_def
        sample_mail_def iac_new_def sample_opts_def start_options_default_def finish_join_dispatch_def
        sample_completed_def sample_obligation_def sample_pending_def input_queue_new_def Let_def)
  finally show "queue_after sample_ready = input_queue_new\<lparr>mailbox_pending_mails := [sample_pending],
     join_obligations := \<lparr>next_generation = 1, obligations = [sample_completed], continuations = []\<rparr>\<rparr>"
  "log_after sample_ready = [EvCompleted 1]"
    by (simp_all add: queue_after_def log_after_def)
qed

section \<open>Delivery at most once\<close>

text \<open>
  C1. In every run of the queue, under any interleaving of registrations, terminal signals,
  rebinds, retirements, mail and drains, a join generation is acknowledged at most once per
  announced completion and no completion is announced while an earlier one of the same generation
  is unacknowledged; a generation with an announced, unacknowledged completion is exactly one whose
  obligation is ready.
\<close>

theorem join_delivered_at_most_once:
  assumes "reaches ops q log"
  shows "acks g log \<le> completions g log \<and> completions g log \<le> acks g log + 1
    \<and> (gen_state (join_obligations q) g = Some True \<longrightarrow> completions g log = acks g log + 1)
    \<and> (gen_state (join_obligations q) g = Some False \<longrightarrow> completions g log = acks g log)"
  using reaches_inv [OF assms] unfolding log_inv_def by auto

theorem join_delivered_at_most_once_witness:
  "reaches sample_ready (queue_after sample_ready) (log_after sample_ready)
   \<and> completions 1 (log_after sample_ready) = acks 1 (log_after sample_ready) + 1"
proof -
  have "gen_state (join_obligations (queue_after sample_ready)) 1 = Some True"
    by (simp add: sample_ready_queue gen_state_def sample_completed_def sample_obligation_def)
  then show ?thesis
    using join_delivered_at_most_once [OF sample_reaches(2), of 1] sample_reaches(2) by blast
qed

section \<open>Resolution\<close>

text \<open>
  C6. When a terminal signal completes a generation, the completion carries the generation and the
  turn that owns it, and its outcomes list every target of the obligation exactly once, sorted by
  thread, each with a final status: the one recorded first for that child, and the signal's own
  status for the last child. The obligation was not announced before.
\<close>

theorem completion_reports_all_targets:
  assumes "reaches ops q log"
    and "fst (resolve_join_target_inner thread g child inc turn status retain q) = Some r"
    and "rr_completion r = Some c"
  shows "\<exists>ob \<in> set (obligations (join_obligations q)).
     ob_generation ob = g \<and> jo_parent_thread_id ob = thread \<and> \<not> jo_ready ob
     \<and> cp_generation c = g \<and> cp_parent_turn_id c = jo_parent_turn_id ob \<and> cp_trigger_turn c = jo_trigger_turn ob
     \<and> map fst (cp_outcomes c) = sorted_list_of_fset (fmdom (jo_targets ob))
     \<and> list_all (\<lambda>(t, s). is_final s \<and> (case fmlookup (jo_results ob) t of
            Some s' \<Rightarrow> s = s' | None \<Rightarrow> t = child \<and> s = status)) (cp_outcomes c)"
proof (cases rule: resolve_join_target_inner_cases [of thread g child inc turn status retain q])
  case stale
  then show ?thesis using assms(2) by simp
next
  case (hit i ob r' ob')
  have mem: "ob \<in> set (obligations (join_obligations q))" using hit(1,2) by simp
  have inv: "ob_inv ob" using reaches_inv [OF assms(1)] mem store_invD(1) by blast
  have "resolve_spec child status ob (r', ob')"
    using resolve_obligation_spec [OF inv _ hit(6), of child retain] hit(5,7) by (simp add: fmdomI)
  moreover have "r' = r" using assms(2) hit(8) by simp
  ultimately have spec: "resolve_spec child status ob (r, ob')" by simp
  have inv': "ob_inv ob'" using spec by (simp add: resolve_spec_def)
  have look: "fmlookup (jo_results ob') t = (if t = child \<and> fmlookup (jo_results ob) t = None then Some status
      else fmlookup (jo_results ob) t)" for t
    using spec by (simp add: resolve_spec_def)
  have c: "c = \<lparr>cp_parent_turn_id = jo_parent_turn_id ob, cp_generation = ob_generation ob,
      cp_outcomes = sorted_list_of_fmap (jo_results ob'), cp_trigger_turn = jo_trigger_turn ob\<rparr>"
    "\<not> jo_ready ob" "fmdom (jo_results ob') = fmdom (jo_targets ob)"
    using spec assms(3) by (auto simp: resolve_spec_def)
  have "is_final s \<and> (case fmlookup (jo_results ob) t of Some s' \<Rightarrow> s = s' | None \<Rightarrow> t = child \<and> s = status)"
    if "(t, s) \<in> set (sorted_list_of_fmap (jo_results ob'))" for t s
  proof -
    have s: "fmlookup (jo_results ob') t = Some s" using that by (simp add: in_sorted_list_of_fmap)
    then have "is_final s" using inv' by (simp add: ob_inv_def)
    then show ?thesis using s look [of t] by (cases "fmlookup (jo_results ob) t") (auto split: if_splits)
  qed
  then have "list_all (\<lambda>(t, s). is_final s \<and> (case fmlookup (jo_results ob) t of
      Some s' \<Rightarrow> s = s' | None \<Rightarrow> t = child \<and> s = status)) (sorted_list_of_fmap (jo_results ob'))"
    by (auto simp: list_all_iff)
  then show ?thesis using c hit(3,4) mem by (intro bexI [of _ ob]) simp_all
qed

lemma sample_resolve_call:
  "fst (resolve_join_target_inner [10] 1 [3] 7 [4] (Completed None) False (queue_after sample_prefix)) =
     Some \<lparr>rr_completion = Some \<lparr>cp_parent_turn_id = [50], cp_generation = 1,
          cp_outcomes = [([3], Completed None)], cp_trigger_turn = True\<rparr>, rr_parent_turn_id = [50]\<rparr>"
proof -
  have b: "binds_target [10] 1 [3] sample_obligation" "jo_trigger_turn sample_obligation"
    "fmlookup (jo_targets sample_obligation) [3] = Some (7, [4])"
    by (simp_all add: binds_target_def sample_obligation_def sample_targets_def)
  then show ?thesis
    by (simp add: sample_prefix_queue resolve_join_target_inner_def sample_resolved Let_def)
qed

theorem completion_reports_all_targets_witness:
  "\<exists>ob \<in> set (obligations (join_obligations (queue_after sample_prefix))).
     map fst [([3 :: nat], Completed None)] = sorted_list_of_fset (fmdom (jo_targets ob)) \<and> \<not> jo_ready ob"
  using completion_reports_all_targets [OF sample_reaches(1) sample_resolve_call] by auto

lemma resolve_retain:
  assumes "fst (resolve_join_target_inner thread g child inc turn status retain q) \<noteq> None"
    and "store_inv (join_obligations q)" "ob \<in> set (obligations (join_obligations q))" "ob_generation ob = g"
  shows "retain \<longrightarrow> is_completed status \<and> jo_trigger_turn ob"
proof (cases "position (binds_target thread g child) (obligations (join_obligations q))")
  case None
  then show ?thesis using assms(1)
    by (auto simp: resolve_join_target_inner_def Let_def simp del: position_None_iff split: if_splits)
next
  case (Some i)
  have "obligations (join_obligations q) ! i = ob"
    using position_nth [OF Some] same_generation [OF assms(2) _ assms(3)] assms(4) by (simp add: binds_target_def)
  then show ?thesis using assms(1) Some
    by (auto simp: resolve_join_target_inner_def Let_def split: if_splits option.splits)
qed

lemma resolve_accepts:
  assumes inv: "store_inv (join_obligations q)"
  shows "(fst (resolve_join_target_inner thread g child inc turn status retain q) \<noteq> None \<longleftrightarrow>
      is_final status \<and> (retain \<longrightarrow> is_completed status)
      \<and> (\<exists>ob \<in> set (obligations (join_obligations q)). jo_parent_thread_id ob = thread \<and> ob_generation ob = g
           \<and> fmlookup (jo_targets ob) child = Some (inc, turn) \<and> (retain \<longrightarrow> jo_trigger_turn ob)))
    \<and> (fst (resolve_join_target_inner thread g child inc turn status retain q) = None \<longrightarrow>
         snd (resolve_join_target_inner thread g child inc turn status retain q) = q)"
proof -
  let ?r = "resolve_join_target_inner thread g child inc turn status retain q"
  let ?bound = "\<lambda>ob. jo_parent_thread_id ob = thread \<and> ob_generation ob = g
    \<and> fmlookup (jo_targets ob) child = Some (inc, turn) \<and> (retain \<longrightarrow> jo_trigger_turn ob)"
  have acc: "fst ?r \<noteq> None"
    if f: "is_final status" "retain \<longrightarrow> is_completed status"
      and ob: "ob \<in> set (obligations (join_obligations q))" "?bound ob" for ob
  proof -
    have "binds_target thread g child ob" using ob by (simp add: binds_target_def)
    then obtain i where i: "position (binds_target thread g child) (obligations (join_obligations q)) = Some i"
      using ob(1) by (cases "position (binds_target thread g child) (obligations (join_obligations q))") auto
    then have "obligations (join_obligations q) ! i \<in> set (obligations (join_obligations q))"
      "ob_generation (obligations (join_obligations q) ! i) = g"
      using position_nth [OF i] by (auto simp: binds_target_def)
    then have "obligations (join_obligations q) ! i = ob" using same_generation [OF inv _ ob(1)] ob(2) by simp
    then show ?thesis using f ob i by (auto simp: resolve_join_target_inner_def Let_def split: prod.splits)
  qed
  show ?thesis
  proof (cases rule: resolve_join_target_inner_cases [of thread g child inc turn status retain q])
    case stale
    then show ?thesis using acc by auto
  next
    case (hit i ob r ob')
    have "ob \<in> set (obligations (join_obligations q))" using hit(1,2) by simp
    moreover have "retain \<longrightarrow> is_completed status \<and> jo_trigger_turn ob"
      using resolve_retain [OF _ inv calculation hit(4), of thread child inc turn status retain] hit(8) by simp
    ultimately show ?thesis using hit by auto
  qed
qed

text \<open>
  A terminal signal is accepted exactly when its status is final (a success, where the
  successor is to be retained) and it names the generation, the child, the incarnation and the turn
  that the obligation is currently bound to; any other signal, in particular one from an earlier
  incarnation or turn of the child, leaves the queue exactly as it was.
\<close>

theorem resolve_accepts_exactly_bound:
  assumes "reaches ops q log"
  shows "(fst (resolve_join_target_inner thread g child inc turn status retain q) \<noteq> None \<longleftrightarrow>
      is_final status \<and> (retain \<longrightarrow> is_completed status)
      \<and> (\<exists>ob \<in> set (obligations (join_obligations q)). jo_parent_thread_id ob = thread \<and> ob_generation ob = g
           \<and> fmlookup (jo_targets ob) child = Some (inc, turn) \<and> (retain \<longrightarrow> jo_trigger_turn ob)))
    \<and> (fst (resolve_join_target_inner thread g child inc turn status retain q) = None \<longrightarrow>
         snd (resolve_join_target_inner thread g child inc turn status retain q) = q)"
  using reaches_inv [OF assms] resolve_accepts by blast

theorem resolve_accepts_exactly_bound_witness:
  "snd (resolve_join_target_inner [10] 1 [3] 8 [4] (Completed None) False (queue_after sample_prefix))
     = queue_after sample_prefix"
proof -
  have "fst (resolve_join_target_inner [10] 1 [3] 8 [4] (Completed None) False (queue_after sample_prefix)) = None"
    by (simp add: sample_prefix_queue resolve_join_target_inner_def binds_target_def sample_obligation_def
        sample_targets_def)
  then show ?thesis using resolve_accepts_exactly_bound [OF sample_reaches(1), of "[10]" 1 "[3]" 8 "[4]"] by blast
qed

section \<open>Draining the mailbox\<close>

text \<open>An acknowledged batch leaves no acknowledgeable obligation behind.\<close>

lemma ack_ready_old:
  assumes "store_inv st" "ob \<in> set (obligations (snd (acknowledge_ready_join_delivery_locked pred g succ ts st)))" "jo_ready ob"
  shows "ob \<in> set (obligations st)"
proof (cases "fst (acknowledge_ready_join_delivery_locked pred g succ ts st)")
  case None
  then show ?thesis using ack_None [OF None assms(1)] assms(2) by simp
next
  case (Some b)
  from ack_Some [OF Some] obtain i where i: "i < length (obligations st)"
    and obs: "obligations (snd (acknowledge_ready_join_delivery_locked pred g succ ts st)) =
      (if jo_retained_predecessor (obligations st ! i) = Some pred
       then (obligations st)[i := transfer_retained succ (obligations st ! i)]
       else remove_nth i (obligations st))" by blast
  have "ob \<noteq> transfer_retained succ (obligations st ! i)" using assms(3) by auto
  then show ?thesis using assms(2) obs set_remove_nth [of i "obligations st"]
      set_update_subset_insert [of "obligations st" i "transfer_retained succ (obligations st ! i)"]
    by (auto split: if_splits)
qed

lemma ack_all_ready_old:
  assumes "store_inv st" "ob \<in> set (obligations (snd (ack_all f ts cs st)))" "jo_ready ob"
  shows "ob \<in> set (obligations st)"
  using assms
proof (induction f ts cs st rule: ack_all.induct)
  case (2 f ts pred g rest st)
  obtain r st1 where r: "acknowledge_ready_join_delivery_locked pred g (f pred) ts st = (r, st1)" by fastforce
  have inv1: "store_inv st1" using acknowledge_spec [OF "2.prems"(1), of g pred "f pred" ts] r by (simp add: ack_spec_def)
  obtain rs st2 where rs: "ack_all f ts rest st1 = (rs, st2)" by fastforce
  have "ob \<in> set (obligations st1)" using "2.IH" [OF r [symmetric] refl inv1] "2.prems" r rs by simp
  then show ?case using ack_ready_old [OF "2.prems"(1), of ob pred g "f pred" ts] "2.prems"(3) r by simp
qed simp

lemma ack_all_none_left:
  assumes "store_inv st" "(pred, g) \<in> set cs" "ob \<in> set (obligations (snd (ack_all f ts cs st)))"
  shows "\<not> acknowledgeable pred g ob"
  using assms
proof (induction f ts cs st rule: ack_all.induct)
  case (2 f ts pred' g' rest st)
  obtain r st1 where r: "acknowledge_ready_join_delivery_locked pred' g' (f pred') ts st = (r, st1)" by fastforce
  have spec: "ack_spec g' st (r, st1)" using acknowledge_spec [OF "2.prems"(1), of g' pred' "f pred'" ts] r by simp
  then have inv1: "store_inv st1" by (simp add: ack_spec_def)
  obtain rs st2 where rs: "ack_all f ts rest st1 = (rs, st2)" by fastforce
  have ob2: "ob \<in> set (obligations st2)" using "2.prems"(3) r rs by simp
  show ?case
  proof (cases "(pred, g) \<in> set rest")
    case True
    then show ?thesis using "2.IH" [OF r [symmetric] refl inv1] ob2 rs by simp
  next
    case False
    then have eq: "pred' = pred" "g' = g" using "2.prems"(2) by auto
    show ?thesis
    proof
      assume ack: "acknowledgeable pred g ob"
      have "ob_inv ob" using ack_all_inv [OF inv1, of f ts rest] ob2 rs store_invD(1) by fastforce
      then have ready: "jo_ready ob" using acknowledgeable_ready ack by blast
      then have st1: "ob \<in> set (obligations st1)" using ack_all_ready_old [OF inv1, of ob f ts rest] ob2 rs by simp
      then have now: "gen_state st1 g = Some True" using gen_state_eq [OF inv1 st1] ready ack by (simp add: acknowledgeable_def)
      show False
      proof (cases r)
        case None
        then have "st1 = st" using spec by (simp add: ack_spec_def)
        then show False using ack_None [of pred' g' "f pred'" ts st] "2.prems"(1) r None st1 ack eq by simp
      next
        case (Some b)
        then show False using spec now eq by (auto simp: ack_spec_def)
      qed
    qed
  qed
qed simp

definition settled :: "(turn_id \<times> u64) list \<Rightarrow> join_obligation_store \<Rightarrow> bool" where
  "settled cs st \<longleftrightarrow> list_all (\<lambda>(pred, g). \<not> list_ex (acknowledgeable pred g) (obligations st)) cs"

lemma ack_all_settled: "store_inv st \<Longrightarrow> settled cs (snd (ack_all f ts cs st))"
  using ack_all_none_left [of st _ _ cs _ f ts] by (auto simp: settled_def list_all_iff list_ex_iff)

text \<open>
  C2. \<open>get_pending_input\<close> never reaches the panic of its \<open>expect\<close>, whatever other tasks did
  between its three looks at the session. Either it is refused and neither the mailbox nor the turn
  changes, or it returns the turn's buffered input followed by every queued mail in order, empties
  both, and leaves no delivered join acknowledgeable a second time.
\<close>

theorem get_pending_input_total:
  assumes "reaches ops (w_queue w2) log"
  shows "case delivery_joins w0 w1 w2 of
      None \<Rightarrow> \<exists>w \<in> {w1, w2}. get_pending_input w0 w1 w2 = Some ([], start_options_default, w)
    | Some cs \<Rightarrow> \<exists>w. get_pending_input w0 w1 w2 =
          Some (taken_input w0 w2 @ mail_items (mailbox_pending_mails (w_queue w2)),
                mailbox_start_options (mailbox_pending_mails (w_queue w2)), w)
        \<and> mailbox_pending_mails (w_queue w) = []
        \<and> taken_input w0 w = []
        \<and> settled cs (join_obligations (w_queue w))"
proof (cases "delivery_joins w0 w1 w2")
  case None
  then show ?thesis using get_pending_input_refused [OF None] by simp
next
  case (Some cs)
  have inv: "store_inv (join_obligations (w_queue w2))" using reaches_inv [OF assms] by blast
  from get_pending_input_delivers [OF Some inv] obtain w where
    w: "get_pending_input w0 w1 w2 = Some (taken_input w0 w2 @ mail_items (mailbox_pending_mails (w_queue w2)),
          mailbox_start_options (mailbox_pending_mails (w_queue w2)), w)" "delivered w0 w2 cs w" by blast
  have "settled cs (join_obligations (w_queue w))"
    using w(2) ack_all_settled [OF inv] by (simp add: delivered_def)
  moreover have "taken_input w0 w = []"
    using w(2) by (cases "active_state w0") (auto simp: delivered_def taken_input_def state_of_def split: option.splits)
  ultimately show ?thesis using w Some by (auto simp: delivered_def)
qed

definition sample_world2 :: "unit world" where
  "sample_world2 = \<lparr>w_active = None, w_heap = fmempty, w_queue = queue_after sample_ready\<rparr>"

lemma sample_delivery: "delivery_joins sample_world2 sample_world2 sample_world2 = Some [([50], 1)]"
proof -
  have "validated_mailbox_join_provenance [sample_pending]
      \<lparr>next_generation = 1, obligations = [sample_completed], continuations = []\<rparr> None = Some [([50], 1)]"
    by (simp add: validated_mailbox_join_provenance_def mailbox_join_provenance_def map_filter_simps
        join_provenance_of_def sample_pending_def sample_mail_def iac_new_def sample_opts_def
        start_options_default_def nonblank_def trim_empty_iff is_whitespace_def acknowledgeable_def
        sample_completed_def sample_obligation_def Let_def)
  then show ?thesis
    by (simp add: delivery_joins_def sample_world2_def sample_ready_queue active_id_def active_state_def
        matches_active_delivery_def refuses_delivery_def state_of_def Let_def)
qed

theorem get_pending_input_total_witness:
  "\<exists>w. get_pending_input sample_world2 sample_world2 sample_world2 =
       Some ([InterAgentCommunication sample_mail], mailbox_start_options [sample_pending], w)
     \<and> mailbox_pending_mails (w_queue w) = [] \<and> settled [([50], 1)] (join_obligations (w_queue w))"
proof -
  have r: "reaches sample_ready (w_queue sample_world2) (log_after sample_ready)"
    using sample_reaches(2) by (simp add: sample_world2_def)
  have "taken_input sample_world2 sample_world2 @ mail_items (mailbox_pending_mails (w_queue sample_world2))
      = [InterAgentCommunication sample_mail]" "mailbox_pending_mails (w_queue sample_world2) = [sample_pending]"
    by (simp_all add: taken_input_def sample_world2_def active_state_def state_of_def mail_items_def
        sample_ready_queue sample_pending_def)
  then show ?thesis
    using get_pending_input_total [OF r, of sample_world2 sample_world2] by (auto simp: sample_delivery)
qed

text \<open>
  C7. Committing the mailbox into a starting turn is all or nothing: if it is refused, the turn
  state and the queue are untouched; otherwise the turn gets its token usage and every queued mail in
  order after its buffered input, the mailbox is empty, the start options are those of the batch, and
  none of the batch's joins is acknowledgeable again.
\<close>

theorem startup_commit_all_or_nothing:
  assumes "reaches ops q log"
  shows "case commit_startup_mailbox_for_turn active claim ts succ usage (h, q) of
      (None, h', q') \<Rightarrow> h' = h \<and> q' = q
    | (Some opts, h', q') \<Rightarrow>
        matches_taskless_turn active claim ts
        \<and> opts = mailbox_start_options (mailbox_pending_mails q)
        \<and> mailbox_pending_mails q' = []
        \<and> map_option pending_input (fmlookup h' ts)
            = map_option (\<lambda>s. pending_input s @ mail_items (mailbox_pending_mails q)) (fmlookup h ts)
        \<and> map_option token_usage_at_turn_start (fmlookup h' ts) = Some usage
        \<and> settled (mailbox_join_provenance (mailbox_pending_mails q)) (join_obligations q')"
proof (cases rule: commit_startup_cases [of active claim ts succ usage h q])
  case refused
  then show ?thesis by simp
next
  case (committed state)
  have "store_inv (join_obligations q)" using reaches_inv [OF assms] by blast
  then show ?thesis using committed by (simp add: Let_def ack_all_settled)
qed

definition sample_turn :: active_turn where
  "sample_turn = \<lparr>at_task = None, at_turn_state = 5, at_claim = Some 6, at_wake = None\<rparr>"

theorem startup_commit_all_or_nothing_witness:
  "\<exists>opts h q. commit_startup_mailbox_for_turn sample_turn 6 5 [60] token_usage_default
      (fmupd 5 turn_state_default fmempty, queue_after sample_ready) = (Some opts, h, q)
    \<and> mailbox_pending_mails q = []
    \<and> map_option pending_input (fmlookup (h :: unit turn_heap) 5) = Some [InterAgentCommunication sample_mail]"
proof -
  let ?h = "fmupd 5 turn_state_default fmempty :: unit turn_heap"
  have cs: "mailbox_join_provenance [sample_pending] = [([50], 1)]"
    by (simp add: mailbox_join_provenance_def map_filter_simps
        join_provenance_of_def sample_pending_def sample_mail_def iac_new_def sample_opts_def
        start_options_default_def nonblank_def trim_empty_iff is_whitespace_def)
  have "fst (commit_startup_mailbox_for_turn sample_turn 6 5 [60] token_usage_default (?h, queue_after sample_ready)) \<noteq> None"
    by (simp add: commit_startup_mailbox_for_turn_def matches_taskless_turn_def sample_turn_def
        taskless_start_claim_def sample_ready_queue cs blocks_startup_def Let_def split: option.split prod.split)
  then show ?thesis
    using startup_commit_all_or_nothing [OF sample_reaches(2), where active = sample_turn and claim = 6 and ts = 5
        and succ = "[60]" and usage = token_usage_default and h = ?h]
    by (auto simp: sample_ready_queue mail_items_def sample_pending_def turn_state_default_def split: option.splits prod.splits)
qed

end
