(* ===== verification/Patch_Text.thy ===== *)
theory Patch_Text
  imports Prelude
begin

text \<open>
  Applying the chunks of a patch to a file: \<open>apply-patch/src/seek_sequence.rs\<close>,
  \<open>apply-patch/src/text_file.rs\<close> and \<open>apply-patch/src/file_update.rs\<close>. Indices are natural
  numbers; every subtraction, slice and insertion that would panic in Rust is a \<open>Panicked\<close> or
  \<open>None\<close> branch. The unified diff shown to the user comes from the \<open>similar\<close> crate and is a
  parameter.
\<close>

datatype update_mode = NormalizeToLf | PreserveLineEndings

text \<open>A replacement is a start index, the number of old lines and the new lines.\<close>

type_synonym replacement = "nat \<times> nat \<times> str list"

record update_file_chunk =
  change_context :: "str option"
  old_lines :: "str list"
  new_lines :: "str list"
  context_line_indices :: "(nat \<times> nat) list"
  is_end_of_file :: bool

datatype parse_error = InvalidPatchError str | InvalidHunkError str nat

text \<open>
  The errors of the crate; an I/O error is its context and the text of its source, a path error
  its text. \<open>Panicked\<close> stands for a panic of the code that computes an update.
\<close>

datatype patch_error =
    ParseError parse_error
  | IoError str str
  | ComputeReplacements str
  | PathUriError str
  | ImplicitInvocation
  | Panicked

section \<open>Seeking a sequence of lines\<close>

definition normalise_char :: "uchar \<Rightarrow> uchar" where
  "normalise_char c =
     (if c \<in> {0x2010, 0x2011, 0x2012, 0x2013, 0x2014, 0x2015, 0x2212} then 45
      else if c \<in> {0x2018, 0x2019, 0x201A, 0x201B} then 39
      else if c \<in> {0x201C, 0x201D, 0x201E, 0x201F} then 34
      else if c \<in> {0x00A0, 0x2002, 0x2003, 0x2004, 0x2005, 0x2006, 0x2007, 0x2008, 0x2009, 0x200A,
                   0x202F, 0x205F, 0x3000} then 32
      else c)"

definition normalise :: "str \<Rightarrow> str" where
  "normalise s = map normalise_char (trim s)"

definition matches_at :: "(str \<Rightarrow> str) \<Rightarrow> str list \<Rightarrow> str list \<Rightarrow> nat \<Rightarrow> bool" where
  "matches_at f lines pat i \<longleftrightarrow> map f (take (length pat) (drop i lines)) = map f pat"

text \<open>One pass: the first index from \<open>search_start\<close> to the last possible one that matches.\<close>

definition seek_pass :: "(str \<Rightarrow> str) \<Rightarrow> str list \<Rightarrow> str list \<Rightarrow> nat \<Rightarrow> nat option" where
  "seek_pass f lines pat search_start =
     List.find (matches_at f lines pat) [search_start ..< Suc (length lines - length pat)]"

definition search_start :: "str list \<Rightarrow> str list \<Rightarrow> nat \<Rightarrow> bool \<Rightarrow> update_mode \<Rightarrow> nat" where
  "search_start lines pat start eof mode =
     (if eof \<and> length lines \<ge> length pat
      then let eof_start = length lines - length pat
           in (case mode of NormalizeToLf \<Rightarrow> eof_start | PreserveLineEndings \<Rightarrow> max eof_start start)
      else start)"

definition seek_sequence :: "str list \<Rightarrow> str list \<Rightarrow> nat \<Rightarrow> bool \<Rightarrow> update_mode \<Rightarrow> nat option" where
  "seek_sequence lines pat start eof mode =
     (if pat = [] then Some start
      else if length pat > length lines then None
      else let from = search_start lines pat start eof mode in
           case seek_pass id lines pat from of
             Some i \<Rightarrow> Some i
           | None \<Rightarrow>
               (case seek_pass trim_end lines pat from of
                  Some i \<Rightarrow> Some i
                | None \<Rightarrow>
                    (case seek_pass trim lines pat from of
                       Some i \<Rightarrow> Some i
                     | None \<Rightarrow> seek_pass normalise lines pat from)))"

section \<open>Source files\<close>

datatype line_ending = Lf | CrLf | Cr

fun ending_str :: "line_ending \<Rightarrow> str" where
  "ending_str Lf = [10]"
| "ending_str CrLf = [13, 10]"
| "ending_str Cr = [13]"

record source_line =
  sl_text :: str
  sl_ending :: "line_ending option"

record source_file =
  sf_lines :: "source_line list"
  sf_preferred_ending :: line_ending

text \<open>\<open>cur\<close> is the text between \<open>line_start\<close> and the cursor.\<close>

fun parse_lines :: "str \<Rightarrow> str \<Rightarrow> source_line list" where
  "parse_lines cur [] = (if cur = [] then [] else [\<lparr>sl_text = cur, sl_ending = None\<rparr>])"
| "parse_lines cur (c # cs) =
     (if c = 13
      then (case cs of
              d # ds \<Rightarrow> if d = 10 then \<lparr>sl_text = cur, sl_ending = Some CrLf\<rparr> # parse_lines [] ds
                        else \<lparr>sl_text = cur, sl_ending = Some Cr\<rparr> # parse_lines [] cs
            | [] \<Rightarrow> [\<lparr>sl_text = cur, sl_ending = Some Cr\<rparr>])
      else if c = 10 then \<lparr>sl_text = cur, sl_ending = Some Lf\<rparr> # parse_lines [] cs
      else parse_lines (cur @ [c]) cs)"

definition source_file_parse :: "str \<Rightarrow> source_file" where
  "source_file_parse contents =
     (let lines = parse_lines [] contents
      in \<lparr>sf_lines = lines,
          sf_preferred_ending = (case find_map sl_ending lines of Some e \<Rightarrow> e | None \<Rightarrow> Lf)\<rparr>)"

definition line_texts :: "source_file \<Rightarrow> str list" where
  "line_texts sf = map sl_text (sf_lines sf)"

fun splice_lines :: "line_ending \<Rightarrow> source_line list \<Rightarrow> nat \<Rightarrow> replacement list \<Rightarrow> source_line list option" where
  "splice_lines e src source_index [] = Some src"
| "splice_lines e src source_index ((start, old_len, segment) # reps) =
     (if start < source_index then None
      else map_option (\<lambda>rest. take (start - source_index) src
               @ map (\<lambda>t. \<lparr>sl_text = t, sl_ending = Some e\<rparr>) segment @ rest)
             (splice_lines e (drop old_len (drop (start - source_index) src)) (start + old_len) reps))"

definition source_apply_replacements :: "replacement list \<Rightarrow> source_file \<Rightarrow> source_file option" where
  "source_apply_replacements reps sf =
     map_option (\<lambda>lines. sf\<lparr>sf_lines := map (\<lambda>l. l\<lparr>sl_ending := Some
            (case sl_ending l of Some x \<Rightarrow> x | None \<Rightarrow> sf_preferred_ending sf)\<rparr>) lines\<rparr>)
       (splice_lines (sf_preferred_ending sf) (sf_lines sf) 0 reps)"

definition line_str :: "source_line \<Rightarrow> str" where
  "line_str l = sl_text l @ (case sl_ending l of Some e \<Rightarrow> ending_str e | None \<Rightarrow> [])"

definition into_contents :: "source_file \<Rightarrow> str" where
  "into_contents sf = concat (map line_str (sf_lines sf))"

section \<open>Computing replacements\<close>

text \<open>The edits between context lines of one chunk, as \<open>PreserveLineEndings\<close> schedules them.\<close>

definition final_edit :: "nat \<Rightarrow> nat \<Rightarrow> str list \<Rightarrow> nat \<Rightarrow> nat \<Rightarrow> patch_error + replacement list" where
  "final_edit start plen segment old_start new_start =
     (if old_start \<noteq> plen \<or> new_start \<noteq> length segment
      then if plen < old_start \<or> length segment < new_start then Inl Panicked
           else Inr [(start + old_start, plen - old_start, drop new_start segment)]
      else Inr [])"

fun context_edits ::
  "nat \<Rightarrow> nat \<Rightarrow> str list \<Rightarrow> nat \<Rightarrow> nat \<Rightarrow> (nat \<times> nat) list \<Rightarrow> patch_error + replacement list" where
  "context_edits start plen segment old_start new_start [] =
     final_edit start plen segment old_start new_start"
| "context_edits start plen segment old_start new_start ((oc, nc) # rest) =
     (if oc \<ge> plen \<or> nc \<ge> length segment then final_edit start plen segment old_start new_start
      else if old_start \<noteq> oc \<or> new_start \<noteq> nc
      then if oc < old_start \<or> nc < new_start then Inl Panicked
           else and_then (context_edits start plen segment (oc + 1) (nc + 1) rest)
                  (\<lambda>es. Inr ((start + old_start, oc - old_start,
                             take (nc - new_start) (drop new_start segment)) # es))
      else context_edits start plen segment (oc + 1) (nc + 1) rest)"

definition ends_empty :: "str list \<Rightarrow> bool" where
  "ends_empty ls \<longleftrightarrow> ls \<noteq> [] \<and> last ls = []"

text \<open>Where the old lines are found, with the retry that drops a trailing empty line.\<close>

definition locate_chunk ::
  "str list \<Rightarrow> update_file_chunk \<Rightarrow> nat \<Rightarrow> update_mode \<Rightarrow> (nat \<times> str list \<times> str list) option" where
  "locate_chunk lines chunk line_index mode =
     (case seek_sequence lines (old_lines chunk) line_index (is_end_of_file chunk) mode of
        Some i \<Rightarrow> Some (i, old_lines chunk, new_lines chunk)
      | None \<Rightarrow>
          if ends_empty (old_lines chunk)
          then let pat = butlast (old_lines chunk);
                   segment = (if ends_empty (new_lines chunk) then butlast (new_lines chunk)
                              else new_lines chunk)
               in map_option (\<lambda>i. (i, pat, segment))
                    (seek_sequence lines pat line_index (is_end_of_file chunk) mode)
          else None)"

definition insertion_index :: "str list \<Rightarrow> update_mode \<Rightarrow> nat" where
  "insertion_index lines mode =
     (case mode of
        NormalizeToLf \<Rightarrow> if ends_empty lines then length lines - 1 else length lines
      | PreserveLineEndings \<Rightarrow> length lines)"

text \<open>The lookup of a chunk's context line.\<close>

definition context_start :: "str list \<Rightarrow> str \<Rightarrow> update_mode \<Rightarrow> update_file_chunk \<Rightarrow> nat \<Rightarrow> patch_error + nat" where
  "context_start lines path mode chunk line_index =
     (case change_context chunk of
        None \<Rightarrow> Inr line_index
      | Some ctx \<Rightarrow>
          (case seek_sequence lines [ctx] line_index False mode of
             Some idx \<Rightarrow> Inr (idx + 1)
           | None \<Rightarrow> Inl (ComputeReplacements
               (lit ''Failed to find context '' @ [39] @ ctx @ [39] @ lit '' in '' @ path))))"

definition chunk_edits ::
  "str list \<Rightarrow> str \<Rightarrow> update_mode \<Rightarrow> update_file_chunk \<Rightarrow> nat \<Rightarrow> patch_error + nat \<times> replacement list" where
  "chunk_edits lines path mode chunk line_index =
     and_then (context_start lines path mode chunk line_index)
       (\<lambda>line_index.
          if old_lines chunk = [] then Inr (line_index, [(insertion_index lines mode, 0, new_lines chunk)])
          else case locate_chunk lines chunk line_index mode of
                 None \<Rightarrow> Inl (ComputeReplacements (lit ''Failed to find expected lines in '' @ path
                           @ lit '':'' @ [10] @ join_with [10] (old_lines chunk)))
               | Some (start, pat, segment) \<Rightarrow>
                   and_then
                     (case mode of
                        NormalizeToLf \<Rightarrow> Inr [(start, length pat, segment)]
                      | PreserveLineEndings \<Rightarrow>
                          context_edits start (length pat) segment 0 0 (context_line_indices chunk))
                     (\<lambda>edits. Inr (start + length pat, edits)))"

fun chunks_edits ::
  "str list \<Rightarrow> str \<Rightarrow> update_mode \<Rightarrow> update_file_chunk list \<Rightarrow> nat \<Rightarrow> patch_error + replacement list" where
  "chunks_edits lines path mode [] line_index = Inr []"
| "chunks_edits lines path mode (chunk # chunks) line_index =
     and_then (chunk_edits lines path mode chunk line_index) (\<lambda>(line_index', edits).
       and_then (chunks_edits lines path mode chunks line_index') (\<lambda>rest. Inr (edits @ rest)))"

definition compute_replacements ::
  "str list \<Rightarrow> str \<Rightarrow> update_file_chunk list \<Rightarrow> update_mode \<Rightarrow> patch_error + replacement list" where
  "compute_replacements lines path chunks mode =
     and_then (chunks_edits lines path mode chunks 0) (\<lambda>reps. Inr (sort_key fst reps))"

section \<open>Applying replacements to lines\<close>

fun remove_lines :: "nat \<Rightarrow> nat \<Rightarrow> str list \<Rightarrow> str list" where
  "remove_lines 0 start ls = ls"
| "remove_lines (Suc n) start ls =
     remove_lines n start (if start < length ls then remove_nth start ls else ls)"

text \<open>\<open>Vec::insert\<close> panics when the index is beyond the end.\<close>

fun insert_lines :: "nat \<Rightarrow> str list \<Rightarrow> str list \<Rightarrow> str list option" where
  "insert_lines i [] ls = Some ls"
| "insert_lines i (x # xs) ls =
     (if length ls < i then None else insert_lines (Suc i) xs (take i ls @ x # drop i ls))"

fun apply_rev_replacements :: "replacement list \<Rightarrow> str list \<Rightarrow> str list option" where
  "apply_rev_replacements [] ls = Some ls"
| "apply_rev_replacements ((start, old_len, segment) # reps) ls =
     Option.bind (insert_lines start segment (remove_lines old_len start ls)) (apply_rev_replacements reps)"

definition apply_replacements :: "str list \<Rightarrow> replacement list \<Rightarrow> str list option" where
  "apply_replacements ls reps = apply_rev_replacements (rev reps) ls"

record applied_patch =
  original_contents :: str
  new_contents :: str

definition of_option :: "'a option \<Rightarrow> patch_error + 'a" where
  "of_option x = (case x of Some y \<Rightarrow> Inr y | None \<Rightarrow> Inl Panicked)"

text \<open>\<open>read\<close> is the result of reading the file through the executor's file system.\<close>

definition derive_new_contents_from_chunks ::
  "str + str \<Rightarrow> str \<Rightarrow> update_file_chunk list \<Rightarrow> update_mode \<Rightarrow> patch_error + applied_patch" where
  "derive_new_contents_from_chunks read path chunks mode =
     (case read of
        Inl e \<Rightarrow> Inl (IoError (lit ''Failed to read file to update '' @ path) e)
      | Inr original \<Rightarrow>
          and_then
            (case mode of
               NormalizeToLf \<Rightarrow>
                 (let split = split_on 10 original;
                      lines = (if ends_empty split then butlast split else split)
                  in and_then (compute_replacements lines path chunks mode) (\<lambda>reps.
                     and_then (of_option (apply_replacements lines reps)) (\<lambda>ls.
                       Inr (join_with [10] (if ends_empty ls then ls else ls @ [[]])))))
             | PreserveLineEndings \<Rightarrow>
                 (let sf = source_file_parse original
                  in and_then (compute_replacements (line_texts sf) path chunks mode) (\<lambda>reps.
                     and_then (of_option (source_apply_replacements reps sf)) (\<lambda>sf'.
                       Inr (into_contents sf')))))
            (\<lambda>new. Inr \<lparr>original_contents = original, new_contents = new\<rparr>))"

record file_update =
  unified_diff :: str
  original_content :: str
  updated_content :: str

definition unified_diff_from_chunks_with_context_and_mode ::
  "(nat \<Rightarrow> str \<Rightarrow> str \<Rightarrow> str) \<Rightarrow> str + str \<Rightarrow> str \<Rightarrow> update_file_chunk list \<Rightarrow> nat \<Rightarrow> update_mode
     \<Rightarrow> patch_error + file_update" where
  "unified_diff_from_chunks_with_context_and_mode diff read path chunks ctx mode =
     and_then (derive_new_contents_from_chunks read path chunks mode) (\<lambda>p.
       Inr \<lparr>unified_diff = diff ctx (original_contents p) (new_contents p),
            original_content = original_contents p, updated_content = new_contents p\<rparr>)"

definition default_update_mode :: update_mode where
  "default_update_mode = NormalizeToLf"

definition unified_diff_from_chunks_with_mode ::
  "(nat \<Rightarrow> str \<Rightarrow> str \<Rightarrow> str) \<Rightarrow> str + str \<Rightarrow> str \<Rightarrow> update_file_chunk list \<Rightarrow> update_mode
     \<Rightarrow> patch_error + file_update" where
  "unified_diff_from_chunks_with_mode diff read path chunks mode =
     unified_diff_from_chunks_with_context_and_mode diff read path chunks 1 mode"

definition unified_diff_from_chunks ::
  "(nat \<Rightarrow> str \<Rightarrow> str \<Rightarrow> str) \<Rightarrow> str + str \<Rightarrow> str \<Rightarrow> update_file_chunk list \<Rightarrow> patch_error + file_update" where
  "unified_diff_from_chunks diff read path chunks =
     unified_diff_from_chunks_with_mode diff read path chunks default_update_mode"

definition unified_diff_from_chunks_with_context ::
  "(nat \<Rightarrow> str \<Rightarrow> str \<Rightarrow> str) \<Rightarrow> str + str \<Rightarrow> str \<Rightarrow> update_file_chunk list \<Rightarrow> nat
     \<Rightarrow> patch_error + file_update" where
  "unified_diff_from_chunks_with_context diff read path chunks ctx =
     unified_diff_from_chunks_with_context_and_mode diff read path chunks ctx default_update_mode"

end
