(* ===== verification/Patch_Parser.thy ===== *)
theory Patch_Parser
  imports Patch_Text
begin

text \<open>
  The patch language: \<open>apply-patch/src/parser.rs\<close> and \<open>apply-patch/src/streaming_parser.rs\<close>.
  The streaming parser is a record; an operation that can fail returns the error, and
  \<open>push_delta\<close> and \<open>finish\<close> also return the parser as the failing call leaves it. Paths are
  strings. Line numbers are natural numbers: each line consumes a character of the input, so the
  counter cannot reach the width of \<open>usize\<close>.
\<close>

section \<open>Data\<close>

abbreviation BEGIN_PATCH_MARKER :: str where "BEGIN_PATCH_MARKER \<equiv> lit ''*** Begin Patch''"
abbreviation END_PATCH_MARKER :: str where "END_PATCH_MARKER \<equiv> lit ''*** End Patch''"
abbreviation ADD_FILE_MARKER :: str where "ADD_FILE_MARKER \<equiv> lit ''*** Add File: ''"
abbreviation DELETE_FILE_MARKER :: str where "DELETE_FILE_MARKER \<equiv> lit ''*** Delete File: ''"
abbreviation UPDATE_FILE_MARKER :: str where "UPDATE_FILE_MARKER \<equiv> lit ''*** Update File: ''"
abbreviation MOVE_TO_MARKER :: str where "MOVE_TO_MARKER \<equiv> lit ''*** Move to: ''"
abbreviation EOF_MARKER :: str where "EOF_MARKER \<equiv> lit ''*** End of File''"
abbreviation CHANGE_CONTEXT_MARKER :: str where "CHANGE_CONTEXT_MARKER \<equiv> lit ''@@ ''"
abbreviation EMPTY_CHANGE_CONTEXT_MARKER :: str where "EMPTY_CHANGE_CONTEXT_MARKER \<equiv> lit ''@@''"
abbreviation ENVIRONMENT_ID_MARKER :: str where "ENVIRONMENT_ID_MARKER \<equiv> lit ''*** Environment ID:''"

datatype hunk =
    AddFile str str
  | DeleteFile str
  | UpdateFile str "str option" "update_file_chunk list"

fun hunk_path :: "hunk \<Rightarrow> str" where
  "hunk_path (AddFile path contents) = path"
| "hunk_path (DeleteFile path) = path"
| "hunk_path (UpdateFile path (Some dest) chunks) = dest"
| "hunk_path (UpdateFile path None chunks) = path"

definition chunk_default :: update_file_chunk where
  "chunk_default = \<lparr>change_context = None, old_lines = [], new_lines = [], context_line_indices = [],
     is_end_of_file = False\<rparr>"

definition push_context_line :: "str \<Rightarrow> update_file_chunk \<Rightarrow> update_file_chunk" where
  "push_context_line line c =
     c\<lparr>context_line_indices := context_line_indices c @ [(length (old_lines c), length (new_lines c))],
       old_lines := old_lines c @ [line],
       new_lines := new_lines c @ [line]\<rparr>"

datatype streaming_parser_mode =
    NotStarted
  | StartedPatch
  | AddFileMode
  | DeleteFileMode
  | UpdateFileMode nat
  | EndedPatch

record streaming_parser_state =
  ps_mode :: streaming_parser_mode
  ps_hunks :: "hunk list"
  ps_environment_id :: "str option"

record streaming_patch_parser =
  sp_line_buffer :: str
  sp_state :: streaming_parser_state
  sp_line_number :: nat

definition parser_default :: streaming_patch_parser where
  "parser_default = \<lparr>sp_line_buffer = [],
     sp_state = \<lparr>ps_mode = NotStarted, ps_hunks = [], ps_environment_id = None\<rparr>, sp_line_number = 0\<rparr>"

definition sp_environment_id :: "streaming_patch_parser \<Rightarrow> str option" where
  "sp_environment_id p = ps_environment_id (sp_state p)"

section \<open>Messages\<close>

definition quoted :: "str \<Rightarrow> str" where
  "quoted s = [39] @ s @ [39]"

definition msg_first_line :: str where
  "msg_first_line = lit ''The first line of the patch must be '' @ quoted BEGIN_PATCH_MARKER"

definition msg_last_line :: str where
  "msg_last_line = lit ''The last line of the patch must be '' @ quoted END_PATCH_MARKER"

definition msg_unexpected_line :: "str \<Rightarrow> str" where
  "msg_unexpected_line line = lit ''Unexpected line found in update hunk: '' @ quoted line
     @ lit ''. Every line should start with '' @ quoted (lit '' '') @ lit '' (context line), ''
     @ quoted (lit ''+'') @ lit '' (added line), or '' @ quoted (lit ''-'') @ lit '' (removed line)''"

definition msg_expected_context :: "str \<Rightarrow> str" where
  "msg_expected_context line =
     lit ''Expected update hunk to start with a @@ context marker, got: '' @ quoted line"

definition msg_invalid_header :: "str \<Rightarrow> str" where
  "msg_invalid_header trimmed = quoted trimmed @ lit '' is not a valid hunk header. Valid hunk headers: ''
     @ quoted (lit ''*** Add File: {path}'') @ lit '', '' @ quoted (lit ''*** Delete File: {path}'')
     @ lit '', '' @ quoted (lit ''*** Update File: {path}'')"

definition msg_no_lines :: str where
  "msg_no_lines = lit ''Update hunk does not contain any lines''"

section \<open>The streaming parser\<close>

definition modify_last :: "('a \<Rightarrow> 'a) \<Rightarrow> 'a list \<Rightarrow> 'a list" where
  "modify_last f xs = (if xs = [] then [] else butlast xs @ [f (last xs)])"

definition last_is :: "('a \<Rightarrow> bool) \<Rightarrow> 'a list \<Rightarrow> bool" where
  "last_is P xs \<longleftrightarrow> xs \<noteq> [] \<and> P (last xs)"

definition chunk_is_empty :: "update_file_chunk \<Rightarrow> bool" where
  "chunk_is_empty c \<longleftrightarrow> old_lines c = [] \<and> new_lines c = []"

definition ensure_update_hunk_is_not_empty :: "str \<Rightarrow> streaming_patch_parser \<Rightarrow> parse_error + unit" where
  "ensure_update_hunk_is_not_empty line p =
     (case last_opt (ps_hunks (sp_state p)) of
        Some (UpdateFile path mv chunks) \<Rightarrow>
          (case (chunks, ps_mode (sp_state p)) of
             ([], UpdateFileMode hunk_line_number) \<Rightarrow>
               Inl (InvalidHunkError (lit ''Update file hunk for path '' @ quoted path @ lit '' is empty'')
                      hunk_line_number)
           | _ \<Rightarrow>
               if last_is chunk_is_empty chunks
               then if line = END_PATCH_MARKER then Inl (InvalidHunkError msg_no_lines (sp_line_number p))
                    else Inl (InvalidHunkError (msg_unexpected_line line) (sp_line_number p))
               else Inr ())
      | _ \<Rightarrow> Inr ())"

definition set_mode :: "streaming_parser_mode \<Rightarrow> streaming_patch_parser \<Rightarrow> streaming_patch_parser" where
  "set_mode m p = p\<lparr>sp_state := (sp_state p)\<lparr>ps_mode := m\<rparr>\<rparr>"

definition push_hunk :: "hunk \<Rightarrow> streaming_patch_parser \<Rightarrow> streaming_patch_parser" where
  "push_hunk h p = p\<lparr>sp_state := (sp_state p)\<lparr>ps_hunks := ps_hunks (sp_state p) @ [h]\<rparr>\<rparr>"

definition set_last_hunk :: "hunk \<Rightarrow> streaming_patch_parser \<Rightarrow> streaming_patch_parser" where
  "set_last_hunk h p = p\<lparr>sp_state := (sp_state p)\<lparr>ps_hunks := butlast (ps_hunks (sp_state p)) @ [h]\<rparr>\<rparr>"

text \<open>The result says whether the line was a header; the parser is unchanged when it was not.\<close>

definition handle_environment_id :: "str \<Rightarrow> streaming_patch_parser \<Rightarrow> parse_error + streaming_patch_parser" where
  "handle_environment_id rest p =
     (if ps_environment_id (sp_state p) \<noteq> None
      then Inl (InvalidPatchError (lit ''apply_patch environment_id cannot be specified more than once''))
      else if trim rest = []
      then Inl (InvalidPatchError (lit ''apply_patch environment_id cannot be empty''))
      else Inr (p\<lparr>sp_state := (sp_state p)\<lparr>ps_environment_id := Some (trim rest)\<rparr>\<rparr>))"

definition handle_hunk_headers_and_end_patch ::
  "str \<Rightarrow> streaming_patch_parser \<Rightarrow> parse_error + bool \<times> streaming_patch_parser" where
  "handle_hunk_headers_and_end_patch trimmed p =
     (case (ps_mode (sp_state p), strip_prefix ENVIRONMENT_ID_MARKER trimmed) of
        (StartedPatch, Some rest) \<Rightarrow> and_then (handle_environment_id rest p) (\<lambda>p'. Inr (True, p'))
      | _ \<Rightarrow>
          if trimmed = END_PATCH_MARKER
          then and_then (ensure_update_hunk_is_not_empty trimmed p) (\<lambda>_. Inr (True, set_mode EndedPatch p))
          else (case strip_prefix ADD_FILE_MARKER trimmed of
            Some path \<Rightarrow> and_then (ensure_update_hunk_is_not_empty trimmed p) (\<lambda>_.
              Inr (True, set_mode AddFileMode (push_hunk (AddFile path []) p)))
          | None \<Rightarrow> (case strip_prefix DELETE_FILE_MARKER trimmed of
            Some path \<Rightarrow> and_then (ensure_update_hunk_is_not_empty trimmed p) (\<lambda>_.
              Inr (True, set_mode DeleteFileMode (push_hunk (DeleteFile path) p)))
          | None \<Rightarrow> (case strip_prefix UPDATE_FILE_MARKER trimmed of
            Some path \<Rightarrow> and_then (ensure_update_hunk_is_not_empty trimmed p) (\<lambda>_.
              Inr (True, set_mode (UpdateFileMode (sp_line_number p)) (push_hunk (UpdateFile path None []) p)))
          | None \<Rightarrow> Inr (False, p)))))"

definition is_context_marker :: "str \<Rightarrow> bool" where
  "is_context_marker l \<longleftrightarrow> l = EMPTY_CHANGE_CONTEXT_MARKER \<or> starts_with CHANGE_CONTEXT_MARKER l"

definition ensure_chunk :: "update_file_chunk list \<Rightarrow> update_file_chunk list" where
  "ensure_chunk chunks = (if chunks = [] then [chunk_default] else chunks)"

text \<open>A line that starts with a space, a plus or a minus, or is empty; \<open>None\<close> for any other line.\<close>

fun diff_line_chunks :: "str \<Rightarrow> update_file_chunk list \<Rightarrow> update_file_chunk list option" where
  "diff_line_chunks [] chunks = Some (modify_last (push_context_line []) (ensure_chunk chunks))"
| "diff_line_chunks (c # cs) chunks =
     (if c = 32 then Some (modify_last (push_context_line cs) (ensure_chunk chunks))
      else if c = 43 then Some (modify_last (\<lambda>k. k\<lparr>new_lines := new_lines k @ [cs]\<rparr>) (ensure_chunk chunks))
      else if c = 45 then Some (modify_last (\<lambda>k. k\<lparr>old_lines := old_lines k @ [cs]\<rparr>) (ensure_chunk chunks))
      else None)"

text \<open>
  The lines of an update hunk, after the headers: the new destination and chunks of the hunk.
  \<open>n\<close> is the number of the line.
\<close>

definition update_hunk_line ::
  "nat \<Rightarrow> str \<Rightarrow> str option \<Rightarrow> update_file_chunk list \<Rightarrow> parse_error + str option \<times> update_file_chunk list" where
  "update_hunk_line n line mv chunks =
     (let update_line = trim_end line in
      if last_is is_end_of_file chunks \<and> update_line = [] then Inr (mv, chunks)
      else if last_is is_end_of_file chunks \<and> \<not> is_context_marker update_line
      then Inl (InvalidHunkError (msg_expected_context line) n)
      else if chunks = [] \<and> mv = None \<and> starts_with MOVE_TO_MARKER update_line
      then Inr (strip_prefix MOVE_TO_MARKER update_line, chunks)
      else if is_context_marker update_line \<and> last_is chunk_is_empty chunks
      then Inl (InvalidHunkError (msg_unexpected_line line) n)
      else if update_line = EMPTY_CHANGE_CONTEXT_MARKER then Inr (mv, chunks @ [chunk_default])
      else case strip_prefix CHANGE_CONTEXT_MARKER update_line of
        Some ctx \<Rightarrow> Inr (mv, chunks @ [chunk_default\<lparr>change_context := Some ctx\<rparr>])
      | None \<Rightarrow>
          if update_line = EOF_MARKER
          then if last_is chunk_is_empty chunks then Inl (InvalidHunkError msg_no_lines n)
               else Inr (mv, modify_last (\<lambda>c. c\<lparr>is_end_of_file := True\<rparr>) chunks)
          else case diff_line_chunks line chunks of
            Some chunks' \<Rightarrow> Inr (mv, chunks')
          | None \<Rightarrow>
              if last_is (\<lambda>c. \<not> chunk_is_empty c) chunks
              then Inl (InvalidHunkError (msg_expected_context line) n)
              else Inl (InvalidHunkError (msg_unexpected_line line) n))"

definition process_line :: "str \<Rightarrow> streaming_patch_parser \<Rightarrow> parse_error + streaming_patch_parser" where
  "process_line line p =
     (let trimmed = trim line;
          invalid_header = Inl (InvalidHunkError (msg_invalid_header trimmed) (sp_line_number p))
      in case ps_mode (sp_state p) of
        NotStarted \<Rightarrow>
          if trimmed = BEGIN_PATCH_MARKER then Inr (set_mode StartedPatch p)
          else Inl (InvalidPatchError msg_first_line)
      | StartedPatch \<Rightarrow>
          and_then (handle_hunk_headers_and_end_patch trimmed p) (\<lambda>(handled, p').
            if handled then Inr p' else invalid_header)
      | AddFileMode \<Rightarrow>
          and_then (handle_hunk_headers_and_end_patch trimmed p) (\<lambda>(handled, p').
            if handled then Inr p'
            else case (strip_prefix [43] line, last_opt (ps_hunks (sp_state p))) of
              (Some line_to_add, Some (AddFile path contents)) \<Rightarrow>
                Inr (set_last_hunk (AddFile path (contents @ line_to_add @ [10])) p)
            | _ \<Rightarrow> invalid_header)
      | DeleteFileMode \<Rightarrow>
          and_then (handle_hunk_headers_and_end_patch trimmed p) (\<lambda>(handled, p').
            if handled then Inr p' else invalid_header)
      | UpdateFileMode hunk_line_number \<Rightarrow>
          and_then (handle_hunk_headers_and_end_patch (trim_end line) p) (\<lambda>(handled, p').
            if handled then Inr p'
            else case last_opt (ps_hunks (sp_state p)) of
              Some (UpdateFile path mv chunks) \<Rightarrow>
                and_then (update_hunk_line (sp_line_number p) line mv chunks) (\<lambda>(mv', chunks').
                  Inr (set_mode (UpdateFileMode hunk_line_number)
                         (set_last_hunk (UpdateFile path mv' chunks') p)))
            | _ \<Rightarrow> Inl (InvalidHunkError (msg_unexpected_line line) (sp_line_number p)))
      | EndedPatch \<Rightarrow>
          if trimmed = [] then Inr p else Inl (InvalidPatchError msg_last_line))"

definition take_line :: "streaming_patch_parser \<Rightarrow> streaming_patch_parser" where
  "take_line p = p\<lparr>sp_line_buffer := [], sp_line_number := sp_line_number p + 1\<rparr>"

fun push_chars :: "str \<Rightarrow> streaming_patch_parser \<Rightarrow> streaming_patch_parser \<times> parse_error option" where
  "push_chars [] p = (p, None)"
| "push_chars (ch # chs) p =
     (if ch = 10
      then (case process_line (strip_cr (sp_line_buffer p)) (take_line p) of
              Inl e \<Rightarrow> (take_line p, Some e)
            | Inr p' \<Rightarrow> push_chars chs p')
      else push_chars chs (p\<lparr>sp_line_buffer := sp_line_buffer p @ [ch]\<rparr>))"

definition push_delta ::
  "str \<Rightarrow> streaming_patch_parser \<Rightarrow> streaming_patch_parser \<times> (parse_error + hunk list)" where
  "push_delta delta p =
     (case push_chars delta p of
        (p', Some e) \<Rightarrow> (p', Inl e)
      | (p', None) \<Rightarrow> (p', Inr (ps_hunks (sp_state p'))))"

definition finish_line :: "streaming_patch_parser \<Rightarrow> streaming_patch_parser \<times> parse_error option" where
  "finish_line p =
     (if sp_line_buffer p = [] then (p, None)
      else let line = sp_line_buffer p; q = take_line p in
           if trim line = END_PATCH_MARKER
           then (case ensure_update_hunk_is_not_empty (trim line) q of
                   Inl e \<Rightarrow> (q, Some e)
                 | Inr _ \<Rightarrow> (set_mode EndedPatch q, None))
           else (case process_line line q of Inl e \<Rightarrow> (q, Some e) | Inr q' \<Rightarrow> (q', None)))"

definition finish :: "streaming_patch_parser \<Rightarrow> streaming_patch_parser \<times> (parse_error + hunk list)" where
  "finish p =
     (case finish_line p of
        (q, Some e) \<Rightarrow> (q, Inl e)
      | (q, None) \<Rightarrow>
          if ps_mode (sp_state q) = EndedPatch then (q, Inr (ps_hunks (sp_state q)))
          else (q, Inl (InvalidPatchError msg_last_line)))"

section \<open>Parsing a whole patch\<close>

record apply_patch_args =
  aa_patch :: str
  aa_hunks :: "hunk list"
  aa_workdir :: "str option"
  aa_environment_id :: "str option"

datatype parse_mode = Strict | Lenient

definition check_start_and_end_lines_strict :: "str option \<Rightarrow> str option \<Rightarrow> parse_error + unit" where
  "check_start_and_end_lines_strict first_line last_line =
     (case (map_option trim first_line, map_option trim last_line) of
        (Some a, Some b) \<Rightarrow>
          if a = BEGIN_PATCH_MARKER \<and> b = END_PATCH_MARKER then Inr ()
          else if a \<noteq> BEGIN_PATCH_MARKER then Inl (InvalidPatchError msg_first_line)
          else Inl (InvalidPatchError msg_last_line)
      | (Some a, None) \<Rightarrow>
          if a \<noteq> BEGIN_PATCH_MARKER then Inl (InvalidPatchError msg_first_line)
          else Inl (InvalidPatchError msg_last_line)
      | (None, _) \<Rightarrow> Inl (InvalidPatchError msg_last_line))"

definition check_patch_boundaries_strict :: "str list \<Rightarrow> parse_error + str list" where
  "check_patch_boundaries_strict lines =
     (let (first_line, last_line) =
            (case lines of [] \<Rightarrow> (None, None) | x # xs \<Rightarrow> (Some x, Some (last (x # xs))))
      in and_then (check_start_and_end_lines_strict first_line last_line) (\<lambda>_. Inr lines))"

definition check_patch_boundaries_lenient :: "str list \<Rightarrow> parse_error + str list" where
  "check_patch_boundaries_lenient lines =
     (case check_patch_boundaries_strict lines of
        Inr ls \<Rightarrow> Inr ls
      | Inl e \<Rightarrow>
          (case lines of
             a # b # rest \<Rightarrow>
               if (a = lit ''<<EOF'' \<or> a = lit ''<<'' @ quoted (lit ''EOF'') \<or> a = lit ''<<'' @ [34] @ lit ''EOF'' @ [34])
                  \<and> ends_with (lit ''EOF'') (last lines) \<and> 4 \<le> length lines
               then check_patch_boundaries_strict (butlast (tl lines))
               else Inl e
           | _ \<Rightarrow> Inl e))"

definition parse_patch_text :: "str \<Rightarrow> parse_mode \<Rightarrow> parse_error + apply_patch_args" where
  "parse_patch_text text m =
     and_then (case m of
                 Strict \<Rightarrow> check_patch_boundaries_strict (str_lines (trim text))
               | Lenient \<Rightarrow> check_patch_boundaries_lenient (str_lines (trim text)))
       (\<lambda>patch_lines.
         let patch = join_with [10] patch_lines in
         case push_delta patch parser_default of
           (p, Inl e) \<Rightarrow> Inl e
         | (p, Inr _) \<Rightarrow>
             (case finish p of
                (q, Inl e) \<Rightarrow> Inl e
              | (q, Inr hs) \<Rightarrow>
                  Inr \<lparr>aa_patch = patch, aa_hunks = hs, aa_workdir = None,
                       aa_environment_id = sp_environment_id q\<rparr>))"

definition parse_patch :: "str \<Rightarrow> parse_error + apply_patch_args" where
  "parse_patch text = parse_patch_text text Lenient"

end
