(* ===== verification/Patch_Apply.thy ===== *)
theory Patch_Apply
  imports Patch_Text
begin

text \<open>
  Correctness of applying chunks to a file: seeking finds the first match of the strictest kind,
  splitting a file into lines loses nothing, the scheduled replacements never overlap when line
  endings are preserved, no index is ever out of range, and the two ways of applying replacements
  agree.
\<close>

section \<open>Seeking\<close>

lemma seek_pass_Some:
  "seek_pass f lines pat from = Some i \<longleftrightarrow>
     from \<le> i \<and> i \<le> length lines - length pat \<and> matches_at f lines pat i
     \<and> (\<forall>j. from \<le> j \<and> j < i \<longrightarrow> \<not> matches_at f lines pat j)"
proof -
  have "List.find P [from ..< n] = Some i \<longleftrightarrow> from \<le> i \<and> i < n \<and> P i \<and> (\<forall>j. from \<le> j \<and> j < i \<longrightarrow> \<not> P j)" for P n
  proof
    assume "List.find P [from ..< n] = Some i"
    then obtain k where k: "k < n - from" "P (from + k)" "i = from + k" "\<forall>j < k. \<not> P (from + j)"
      by (auto simp: find_Some_iff)
    have "\<not> P j" if "from \<le> j" "j < i" for j
      using k(4) [rule_format, of "j - from"] that k(3) by auto
    then show "from \<le> i \<and> i < n \<and> P i \<and> (\<forall>j. from \<le> j \<and> j < i \<longrightarrow> \<not> P j)" using k by auto
  next
    assume "from \<le> i \<and> i < n \<and> P i \<and> (\<forall>j. from \<le> j \<and> j < i \<longrightarrow> \<not> P j)"
    then show "List.find P [from ..< n] = Some i"
      unfolding find_Some_iff by (intro exI [of _ "i - from"]) auto
  qed
  then show ?thesis unfolding seek_pass_def less_Suc_eq_le [symmetric] .
qed

lemma seek_pass_None:
  "seek_pass f lines pat from = None \<longleftrightarrow>
     (\<forall>i. from \<le> i \<and> i \<le> length lines - length pat \<longrightarrow> \<not> matches_at f lines pat i)"
  unfolding seek_pass_def find_None_iff set_upt atLeastLessThan_iff less_Suc_eq_le by blast

lemma seek_sequence_range:
  assumes "seek_sequence lines pat start eof mode = Some i" "pat \<noteq> []"
  shows "search_start lines pat start eof mode \<le> i \<and> i + length pat \<le> length lines"
  using assms by (auto simp: seek_sequence_def Let_def seek_pass_Some split: if_splits option.splits)

lemma seek_sequence_preserve_start:
  "seek_sequence lines pat start eof PreserveLineEndings = Some i \<Longrightarrow> start \<le> i"
  by (cases "pat = []")
    (auto simp: seek_sequence_def search_start_def Let_def seek_pass_Some split: if_splits option.splits)

text \<open>
  The four passes weaken each other: a line that matches exactly matches after trimming, and so on.
\<close>

lemma matches_at_comp: "matches_at f lines pat i \<Longrightarrow> matches_at (g \<circ> f) lines pat i"
  by (auto simp: matches_at_def simp flip: map_map)

lemma trim_append_ws:
  assumes "\<forall>c \<in> set ws. is_whitespace c"
  shows "trim (x @ ws) = trim x"
proof (cases "\<forall>c \<in> set x. is_whitespace c")
  case True
  then have "trim (x @ ws) = []" "trim x = []" using assms by (auto simp: trim_empty_iff)
  then show ?thesis by simp
next
  case False
  then obtain c where "c \<in> set x" "\<not> is_whitespace c" by blast
  then have "dropWhile is_whitespace (x @ ws) = dropWhile is_whitespace x @ ws" by (rule dropWhile_append1)
  then show ?thesis using assms by (simp add: trim_def trim_start_def trim_end_append)
qed

lemma trim_alt: "trim = trim \<circ> trim_end"
proof
  fix s
  let ?ws = "rev (takeWhile is_whitespace (rev s))"
  have "rev s = takeWhile is_whitespace (rev s) @ dropWhile is_whitespace (rev s)" by simp
  then have "s = trim_end s @ ?ws" unfolding trim_end_def by (metis rev_append rev_rev_ident)
  moreover have "\<forall>c \<in> set ?ws. is_whitespace c" by (auto dest: set_takeWhileD)
  ultimately show "trim s = (trim \<circ> trim_end) s" using trim_append_ws [of ?ws "trim_end s"] by (metis comp_apply)
qed

lemma matches_at_weaken:
  "matches_at id lines pat i \<Longrightarrow> matches_at trim_end lines pat i"
  "matches_at trim_end lines pat i \<Longrightarrow> matches_at trim lines pat i"
  "matches_at trim lines pat i \<Longrightarrow> matches_at normalise lines pat i"
proof -
  show "matches_at id lines pat i \<Longrightarrow> matches_at trim_end lines pat i"
    using matches_at_comp [of id lines pat i trim_end] by simp
  show "matches_at trim_end lines pat i \<Longrightarrow> matches_at trim lines pat i"
    using matches_at_comp [of trim_end lines pat i trim] by (simp flip: trim_alt)
  have "normalise = map normalise_char \<circ> trim" by (rule ext) (simp add: normalise_def)
  then show "matches_at trim lines pat i \<Longrightarrow> matches_at normalise lines pat i"
    using matches_at_comp [of trim lines pat i "map normalise_char"] by simp
qed

text \<open>
  Seeking a non-empty sequence succeeds exactly when the lines occur, up to trimming and
  typographic punctuation, at some index between the search start and the last index where they
  fit; the index returned is in that range, and if the lines occur verbatim there, it is the first
  verbatim occurrence.
\<close>

theorem seek_sequence_finds:
  assumes "pat \<noteq> []" "length pat \<le> length lines"
  shows "(seek_sequence lines pat start eof mode \<noteq> None \<longleftrightarrow>
      (\<exists>i. search_start lines pat start eof mode \<le> i \<and> i + length pat \<le> length lines
         \<and> matches_at normalise lines pat i))
    \<and> (\<forall>i. seek_sequence lines pat start eof mode = Some i \<longrightarrow>
         search_start lines pat start eof mode \<le> i \<and> i + length pat \<le> length lines
         \<and> matches_at normalise lines pat i)
    \<and> (\<forall>i. search_start lines pat start eof mode \<le> i \<and> take (length pat) (drop i lines) = pat
         \<and> (\<forall>j. search_start lines pat start eof mode \<le> j \<and> j < i \<longrightarrow> take (length pat) (drop j lines) \<noteq> pat)
         \<longrightarrow> seek_sequence lines pat start eof mode = Some i)"
proof -
  let ?from = "search_start lines pat start eof mode"
  let ?s = "seek_sequence lines pat start eof mode"
  have fits: "i \<le> length lines - length pat \<longleftrightarrow> i + length pat \<le> length lines" for i using assms(2) by linarith
  have found: "?from \<le> i \<and> i + length pat \<le> length lines \<and> matches_at normalise lines pat i" if "?s = Some i" for i
    using that assms matches_at_weaken [of lines pat i]
    by (auto simp: seek_sequence_def Let_def seek_pass_Some fits split: if_splits option.splits)
  have none: "\<not> matches_at normalise lines pat i" if "?s = None" "?from \<le> i" "i + length pat \<le> length lines" for i
    using that assms by (auto simp: seek_sequence_def Let_def seek_pass_None fits split: if_splits option.splits)
  have exact: "?s = Some i" if "?from \<le> i" "take (length pat) (drop i lines) = pat"
    "\<forall>j. ?from \<le> j \<and> j < i \<longrightarrow> take (length pat) (drop j lines) \<noteq> pat" for i
  proof -
    have "i + length pat \<le> length lines"
      using arg_cong [OF that(2), of length] assms(1) by (cases "i \<le> length lines") (auto simp: min_def split: if_splits)
    then have "seek_pass id lines pat ?from = Some i"
      using that by (simp add: seek_pass_Some fits matches_at_def)
    then show ?thesis using assms by (simp add: seek_sequence_def Let_def)
  qed
  show ?thesis using found none exact by (metis option.exhaust)
qed

theorem seek_sequence_finds_witness:
  "seek_sequence [[97], [98], [97, 32], [98]] [[97], [98]] 1 False NormalizeToLf = Some 2
   \<and> 2 + length [[97 :: nat], [98]] \<le> length [[97 :: nat], [98], [97, 32], [98]]"
proof -
  let ?ls = "[[97], [98], [97, 32], [98]] :: str list" and ?p = "[[97], [98]] :: str list"
  have "seek_sequence ?ls ?p 1 False NormalizeToLf = Some 2"
    by (simp add: seek_sequence_def search_start_def seek_pass_def matches_at_def upt_rec trim_end_def
        is_whitespace_def Let_def)
  then show ?thesis using seek_sequence_finds [of ?p ?ls 1 False NormalizeToLf] by auto
qed

section \<open>Splitting a file into lines\<close>

lemma parse_lines_contents: "concat (map line_str (parse_lines cur s)) = cur @ s"
  by (induction cur s rule: parse_lines.induct) (auto simp: line_str_def split: list.splits)

text \<open>
  Splitting a file into lines with their endings and writing them back gives the file again,
  whatever mix of line endings it has and with or without a final newline.
\<close>

theorem source_file_roundtrip: "into_contents (source_file_parse contents) = contents"
  by (simp add: into_contents_def source_file_parse_def Let_def parse_lines_contents)

section \<open>Order of replacements\<close>

definition rep_end :: "replacement \<Rightarrow> nat" where
  "rep_end r = fst r + fst (snd r)"

definition before :: "replacement \<Rightarrow> replacement \<Rightarrow> bool" where
  "before a b \<longleftrightarrow> rep_end a \<le> fst b"

definition ordered :: "nat \<Rightarrow> replacement list \<Rightarrow> bool" where
  "ordered n reps \<longleftrightarrow> sorted_wrt before reps \<and> list_all (\<lambda>r. rep_end r \<le> n) reps"

text \<open>Context indices that advance on both sides.\<close>

fun context_advances :: "nat \<Rightarrow> nat \<Rightarrow> (nat \<times> nat) list \<Rightarrow> bool" where
  "context_advances o0 n0 [] = True"
| "context_advances o0 n0 ((a, b) # rest) = (o0 \<le> a \<and> n0 \<le> b \<and> context_advances (a + 1) (b + 1) rest)"

definition wf_chunk :: "update_file_chunk \<Rightarrow> bool" where
  "wf_chunk c \<longleftrightarrow> context_advances 0 0 (context_line_indices c)
     \<and> list_all (\<lambda>(a, b). a < length (old_lines c) \<and> b < length (new_lines c)
          \<and> old_lines c ! a = new_lines c ! b) (context_line_indices c)"

lemma final_edit_ok:
  assumes "os \<le> plen" "ns \<le> length seg"
  shows "\<exists>es. final_edit start plen seg os ns = Inr es \<and> sorted_wrt before es
    \<and> (\<forall>e \<in> set es. start + os \<le> fst e \<and> rep_end e \<le> start + plen)"
  using assms by (auto simp: final_edit_def rep_end_def)

lemma context_edits_ok:
  assumes "context_advances os ns idx" "os \<le> plen" "ns \<le> length seg"
  shows "\<exists>es. context_edits start plen seg os ns idx = Inr es \<and> sorted_wrt before es
    \<and> (\<forall>e \<in> set es. start + os \<le> fst e \<and> rep_end e \<le> start + plen)"
  using assms
proof (induction start plen seg os ns idx rule: context_edits.induct)
  case (1 start plen seg os ns)
  then show ?case using final_edit_ok by simp
next
  case (2 start plen seg os ns oc nc rest)
  show ?case
  proof (cases "oc \<ge> plen \<or> nc \<ge> length seg")
    case True
    then show ?thesis using final_edit_ok [OF "2.prems"(2,3)] by simp
  next
    case False
    then have adv: "context_advances (oc + 1) (nc + 1) rest" "oc + 1 \<le> plen" "nc + 1 \<le> length seg"
      using "2.prems"(1) by auto
    have le: "os \<le> oc" "ns \<le> nc" using "2.prems"(1) by auto
    obtain es where es: "context_edits start plen seg (oc + 1) (nc + 1) rest = Inr es" "sorted_wrt before es"
      "\<forall>e \<in> set es. start + (oc + 1) \<le> fst e \<and> rep_end e \<le> start + plen"
      using "2.IH"(1) [OF False _ _ adv] "2.IH"(2) [OF False _ adv] le by (cases "os \<noteq> oc \<or> ns \<noteq> nc") auto
    show ?thesis
    proof (cases "os \<noteq> oc \<or> ns \<noteq> nc")
      case True
      let ?e = "(start + os, oc - os, take (nc - ns) (drop ns seg))"
      have eq: "context_edits start plen seg os ns ((oc, nc) # rest) = Inr (?e # es)"
        using False True le es(1) by auto
      have "rep_end ?e = start + oc" using le(1) by (simp add: rep_end_def)
      then have "sorted_wrt before (?e # es)"
        using es(2,3) by (auto simp: before_def)
      then show ?thesis using eq es(3) le False \<open>rep_end ?e = start + oc\<close> by auto
    next
      case same: False
      then have "context_edits start plen seg os ns ((oc, nc) # rest) = Inr es" using False es(1) by simp
      moreover have "\<forall>e\<in>set es. start + os \<le> fst e \<and> rep_end e \<le> start + plen"
      proof
        fix e
        assume "e \<in> set es"
        then have "start + (oc + 1) \<le> fst e \<and> rep_end e \<le> start + plen" using es(3) by blast
        then show "start + os \<le> fst e \<and> rep_end e \<le> start + plen" using same by linarith
      qed
      ultimately show ?thesis using es(2) by blast
    qed
  qed
qed

lemma sort_key_sorted_wrt:
  assumes "sorted_wrt (\<lambda>x y. (f x \<le> f y \<longrightarrow> P x y) \<and> (f y < f x \<longrightarrow> P y x)) xs"
  shows "sorted_wrt P (sort_key f xs)"
  using assms
proof (induction xs)
  case (Cons x xs)
  have ins: "sorted_wrt P (insort_key f x ys)"
    if "sorted_wrt P ys" "sorted (map f ys)" "\<forall>y \<in> set ys. (f x \<le> f y \<longrightarrow> P x y) \<and> (f y < f x \<longrightarrow> P y x)" for ys
    using that
  proof (induction ys)
    case (Cons y ys)
    then show ?case by (auto simp: set_insort_key)
  qed simp
  show ?case using ins [of "sort_key f xs"] Cons by simp
qed simp

text \<open>Insertions at the end of the file may be scheduled before edits further up.\<close>

definition before_or_end :: "nat \<Rightarrow> replacement \<Rightarrow> replacement \<Rightarrow> bool" where
  "before_or_end n a b \<longleftrightarrow> before a b \<or> (fst a = n \<and> fst (snd a) = 0)"

lemma sort_edits_ordered:
  assumes "sorted_wrt (before_or_end n) reps" "\<forall>r \<in> set reps. rep_end r \<le> n"
  shows "ordered n (sort_key fst reps)"
proof -
  have "sorted_wrt (\<lambda>x y. (fst x \<le> fst y \<longrightarrow> before x y) \<and> (fst y < fst x \<longrightarrow> before y x)) reps"
  proof (rule sorted_wrt_mono_rel [OF _ assms(1)])
    fix x y assume xy: "x \<in> set reps" "y \<in> set reps" "before_or_end n x y"
    have "rep_end x \<le> n" "rep_end y \<le> n" using assms(2) xy by auto
    then show "(fst x \<le> fst y \<longrightarrow> before x y) \<and> (fst y < fst x \<longrightarrow> before y x)"
      using xy(3) by (auto simp: before_or_end_def before_def rep_end_def)
  qed
  then show ?thesis using sort_key_sorted_wrt [of fst before reps] assms(2)
    by (simp add: ordered_def list_all_iff)
qed

section \<open>Where chunks are located\<close>

lemma seek_sequence_start:
  assumes "seek_sequence lines pat start eof mode = Some i" "start \<le> length lines"
  shows "i + length pat \<le> length lines"
  using assms seek_sequence_range [OF assms(1)] by (cases "pat = []") (auto simp: seek_sequence_def)

lemma locate_chunk_range:
  assumes "locate_chunk lines chunk li mode = Some (i, pat, seg)" "li \<le> length lines"
  shows "i + length pat \<le> length lines \<and> (mode = PreserveLineEndings \<longrightarrow> li \<le> i)"
proof -
  have s: "seek_sequence lines pat li (is_end_of_file chunk) mode = Some i"
    using assms(1) by (auto simp: locate_chunk_def Let_def split: option.splits if_splits)
  show ?thesis using seek_sequence_start [OF s assms(2)] s by (auto dest: seek_sequence_preserve_start)
qed

lemma insertion_index_le: "insertion_index lines mode \<le> length lines"
  by (simp add: insertion_index_def split: update_mode.splits)

lemma context_start_range:
  assumes "context_start lines path mode chunk li = Inr li'" "li \<le> length lines"
  shows "li \<le> li' \<and> li' \<le> length lines"
proof (cases "change_context chunk")
  case (Some ctx)
  then obtain i where i: "seek_sequence lines [ctx] li False mode = Some i" "li' = i + 1"
    using assms(1) by (auto simp: context_start_def split: option.splits)
  then show ?thesis using seek_sequence_range [OF i(1)] by (simp add: search_start_def)
qed (use assms in \<open>simp add: context_start_def\<close>)

lemma context_start_no_panic: "context_start lines path mode chunk li \<noteq> Inl Panicked"
  by (simp add: context_start_def split: option.splits)

lemma chunk_edits_cases:
  assumes "li \<le> length lines" "mode = PreserveLineEndings \<longrightarrow> wf_chunk chunk"
  obtains (err) e where "chunk_edits lines path mode chunk li = Inl e" "e \<noteq> Panicked"
  | (ins) li' where "chunk_edits lines path mode chunk li
        = Inr (li', [(insertion_index lines mode, 0, new_lines chunk)])" "li \<le> li'" "li' \<le> length lines"
  | (edit) i li' es where "chunk_edits lines path mode chunk li = Inr (li', es)" "li' \<le> length lines"
      "i \<le> li'" "mode = PreserveLineEndings \<longrightarrow> li \<le> i" "sorted_wrt before es"
      "\<forall>e \<in> set es. i \<le> fst e \<and> rep_end e \<le> li'"
proof (cases "context_start lines path mode chunk li")
  case (Inl e)
  then show ?thesis using context_start_no_panic [of lines path mode chunk li]
    by (intro err [of e]) (auto simp: chunk_edits_def)
next
  case (Inr l1)
  note l1 = context_start_range [OF Inr assms(1)]
  show ?thesis
  proof (cases "old_lines chunk = []")
    case True
    then show ?thesis using Inr l1 by (intro ins [of l1]) (auto simp: chunk_edits_def)
  next
    case ne: False
    show ?thesis
    proof (cases "locate_chunk lines chunk l1 mode")
      case None
      then show ?thesis using Inr ne
        by (intro err) (auto simp: chunk_edits_def)
    next
      case (Some t)
      obtain i pat seg where t: "t = (i, pat, seg)" by (cases t)
      have range: "i + length pat \<le> length lines" "mode = PreserveLineEndings \<longrightarrow> l1 \<le> i"
        using locate_chunk_range [OF Some [unfolded t]] l1 by auto
      obtain es where es: "(case mode of NormalizeToLf \<Rightarrow> Inr [(i, length pat, seg)]
          | PreserveLineEndings \<Rightarrow> context_edits i (length pat) seg 0 0 (context_line_indices chunk)) = Inr es"
        "sorted_wrt before es" "\<forall>e \<in> set es. i \<le> fst e \<and> rep_end e \<le> i + length pat"
      proof (cases mode)
        case NormalizeToLf
        then show ?thesis using that by (simp add: rep_end_def)
      next
        case PreserveLineEndings
        then have "context_advances 0 0 (context_line_indices chunk)" using assms(2) by (simp add: wf_chunk_def)
        from context_edits_ok [OF this, of "length pat" seg i] show ?thesis
          using that PreserveLineEndings by auto
      qed
      have eq: "chunk_edits lines path mode chunk li = Inr (i + length pat, es)"
        using Inr ne Some t es(1) by (simp add: chunk_edits_def)
      show ?thesis using eq range es l1 by (intro edit [of "i + length pat" es i]) auto
    qed
  qed
qed

lemma preserve_edits:
  assumes "list_all wf_chunk chunks" "li \<le> length lines"
  shows "case chunks_edits lines path PreserveLineEndings chunks li of
      Inl e \<Rightarrow> e \<noteq> Panicked
    | Inr reps \<Rightarrow> sorted_wrt (before_or_end (length lines)) reps
        \<and> (\<forall>r \<in> set reps. li \<le> fst r \<and> rep_end r \<le> length lines)"
  using assms
proof (induction chunks arbitrary: li)
  case (Cons chunk chunks)
  let ?n = "length lines"
  have wf: "PreserveLineEndings = PreserveLineEndings \<longrightarrow> wf_chunk chunk" using Cons.prems(1) by simp
  from Cons.prems(2) wf show ?case
  proof (cases rule: chunk_edits_cases [where path = path])
    case (err e)
    then show ?thesis by simp
  next
    case (ins li')
    show ?thesis using ins Cons.IH [of li'] Cons.prems(1)
      by (cases "chunks_edits lines path PreserveLineEndings chunks li'")
        (auto simp: insertion_index_def before_or_end_def rep_end_def)
  next
    case (edit i li' es)
    then have "sorted_wrt (before_or_end ?n) es"
      by (auto simp: before_or_end_def intro: sorted_wrt_mono_rel [of es before])
    then show ?thesis using edit Cons.IH [of li'] Cons.prems(1)
      by (cases "chunks_edits lines path PreserveLineEndings chunks li'")
        (fastforce simp: sorted_wrt_append before_or_end_def before_def)+
  qed
qed simp

lemma normalize_edits:
  assumes "li \<le> length lines"
  shows "case chunks_edits lines path NormalizeToLf chunks li of
      Inl e \<Rightarrow> e \<noteq> Panicked
    | Inr reps \<Rightarrow> (\<forall>r \<in> set reps. rep_end r \<le> length lines)"
  using assms
proof (induction chunks arbitrary: li)
  case (Cons chunk chunks)
  have wf: "NormalizeToLf = PreserveLineEndings \<longrightarrow> wf_chunk chunk" by simp
  from Cons.prems wf show ?case
  proof (cases rule: chunk_edits_cases [where path = path])
    case (err e)
    then show ?thesis by simp
  next
    case (ins li')
    show ?thesis using ins Cons.IH [of li'] insertion_index_le [of lines NormalizeToLf]
      by (cases "chunks_edits lines path NormalizeToLf chunks li'") (auto simp: rep_end_def)
  next
    case (edit i li' es)
    then show ?thesis using Cons.IH [of li']
      by (cases "chunks_edits lines path NormalizeToLf chunks li'") fastforce+
  qed
qed simp

lemma compute_preserve:
  assumes "list_all wf_chunk chunks"
  shows "case compute_replacements lines path chunks PreserveLineEndings of
      Inl e \<Rightarrow> e \<noteq> Panicked | Inr reps \<Rightarrow> ordered (length lines) reps"
  using preserve_edits [OF assms, of 0 lines path]
  by (cases "chunks_edits lines path PreserveLineEndings chunks 0")
    (auto simp: compute_replacements_def intro!: sort_edits_ordered)

lemma compute_normalize:
  "case compute_replacements lines path chunks NormalizeToLf of
      Inl e \<Rightarrow> e \<noteq> Panicked
    | Inr reps \<Rightarrow> sorted (map fst reps) \<and> list_all (\<lambda>r. rep_end r \<le> length lines) reps"
  using normalize_edits [of 0 lines path chunks]
  by (cases "chunks_edits lines path NormalizeToLf chunks 0")
    (auto simp: compute_replacements_def list_all_iff)

text \<open>
  When line endings are preserved and the chunks come from the parser (their context indices
  advance), the replacements scheduled for a file are in ascending order, never overlap and stay
  inside the file, including insertions at the end of the file that were scheduled before edits
  further up; no index computation underflows.
\<close>

theorem preserve_replacements_ordered:
  assumes "list_all wf_chunk chunks"
  shows "case compute_replacements lines path chunks PreserveLineEndings of
      Inl e \<Rightarrow> e \<noteq> Panicked | Inr reps \<Rightarrow> ordered (length lines) reps"
  using assms by (rule compute_preserve)

definition sample_insert :: update_file_chunk where
  "sample_insert = \<lparr>change_context = None, old_lines = [], new_lines = [[99]], context_line_indices = [],
     is_end_of_file = False\<rparr>"

definition sample_edit :: update_file_chunk where
  "sample_edit = \<lparr>change_context = None, old_lines = [[97], [98]], new_lines = [[97], [100]],
     context_line_indices = [(0, 0)], is_end_of_file = False\<rparr>"

lemma sample_compute:
  "compute_replacements [[97], [98]] [] [sample_insert, sample_edit] PreserveLineEndings
     = Inr [(1, 1, [[100]]), (2, 0, [[99]])]"
  by (simp add: compute_replacements_def chunk_edits_def context_start_def locate_chunk_def seek_sequence_def search_start_def
      seek_pass_def matches_at_def upt_rec insertion_index_def sample_insert_def sample_edit_def
      final_edit_def Let_def)

theorem preserve_replacements_ordered_witness:
  "ordered 2 [(1, 1, [[100]]), (2, 0, [[99]])]"
proof -
  have "list_all wf_chunk [sample_insert, sample_edit]"
    by (simp add: wf_chunk_def sample_insert_def sample_edit_def)
  from preserve_replacements_ordered [OF this, of "[[97], [98]]" "[]"] show ?thesis
    by (simp add: sample_compute numeral_2_eq_2)
qed

section \<open>Applying replacements\<close>

lemma remove_lines_eq: "remove_lines n s ls = take s ls @ drop (s + n) ls"
proof (induction n s ls rule: remove_lines.induct)
  case (2 n s ls)
  then show ?case
    by (cases "s < length ls") (auto simp: remove_nth_def min_def drop_drop add.commute)
qed simp

lemma insert_lines_eq: "i \<le> length ls \<Longrightarrow> insert_lines i seg ls = Some (take i ls @ seg @ drop i ls)"
proof (induction i seg ls rule: insert_lines.induct)
  case (2 i x xs ls)
  then show ?case by (simp add: min_def)
qed simp

lemma apply_rev_total:
  assumes "sorted_wrt (\<lambda>a b. fst b \<le> fst a) reps" "\<forall>r \<in> set reps. fst r \<le> length ls"
  shows "apply_rev_replacements reps ls \<noteq> None"
  using assms
proof (induction reps ls rule: apply_rev_replacements.induct)
  case (2 s l seg reps ls)
  have s: "s \<le> length ls" using "2.prems"(2) by simp
  let ?ls = "take s ls @ seg @ drop (s + l) ls"
  have ins: "insert_lines s seg (remove_lines l s ls) = Some ?ls"
    using s by (simp add: remove_lines_eq insert_lines_eq)
  have "\<forall>r \<in> set reps. fst r \<le> length ?ls" using "2.prems"(1) s by auto
  then show ?case using "2.IH" [OF ins] "2.prems"(1) ins by simp
qed simp

lemma splice_total:
  assumes "sorted_wrt before reps" "\<forall>r \<in> set reps. idx \<le> fst r"
  shows "splice_lines e src idx reps \<noteq> None"
  using assms
proof (induction e src idx reps rule: splice_lines.induct)
  case (2 e src idx s l seg reps)
  have "\<forall>r \<in> set reps. s + l \<le> fst r" using "2.prems"(1) by (auto simp: before_def rep_end_def)
  then show ?case using 2 by auto
qed simp

lemma apply_replacements_total:
  assumes "sorted (map fst reps)" "list_all (\<lambda>r. rep_end r \<le> length ls) reps"
  shows "apply_replacements ls reps \<noteq> None"
  unfolding apply_replacements_def
proof (rule apply_rev_total)
  show "sorted_wrt (\<lambda>a b. fst b \<le> fst a) (rev reps)"
    using assms(1) by (simp add: sorted_map sorted_wrt_rev)
  show "\<forall>r \<in> set (rev reps). fst r \<le> length ls"
    using assms(2) by (auto simp: list_all_iff rep_end_def)
qed

lemma source_apply_total:
  assumes "ordered n reps"
  shows "source_apply_replacements reps sf \<noteq> None"
  using assms splice_total [of reps 0] by (simp add: source_apply_replacements_def ordered_def)

text \<open>
  Updating a file never panics for chunks whose context indices advance: it returns new contents,
  or reports that the file could not be read or that expected lines were not found.
\<close>

lemma derive_no_panic:
  assumes "list_all wf_chunk chunks"
  shows "derive_new_contents_from_chunks read path chunks mode \<noteq> Inl Panicked"
proof (cases "read")
  case (Inr contents)
  show ?thesis
  proof (cases mode)
    case NormalizeToLf
    define ls where "ls = (if ends_empty (split_on 10 contents) then butlast (split_on 10 contents) else split_on 10 contents)"
    show ?thesis
    proof (cases "compute_replacements ls path chunks NormalizeToLf")
      case (Inl e)
      then show ?thesis using compute_normalize [of ls path chunks] NormalizeToLf Inr
        by (simp add: derive_new_contents_from_chunks_def ls_def [symmetric] Let_def)
    next
      case reps: (Inr reps)
      then obtain out where "apply_replacements ls reps = Some out"
        using compute_normalize [of ls path chunks] apply_replacements_total [of reps ls] by auto
      then show ?thesis using reps NormalizeToLf Inr
        by (simp add: derive_new_contents_from_chunks_def ls_def [symmetric] Let_def of_option_def)
    qed
  next
    case PreserveLineEndings
    let ?sf = "source_file_parse contents"
    show ?thesis
    proof (cases "compute_replacements (line_texts ?sf) path chunks PreserveLineEndings")
      case (Inl e)
      then show ?thesis using compute_preserve [OF assms, of "line_texts ?sf" path] PreserveLineEndings Inr
        by (simp add: derive_new_contents_from_chunks_def Let_def)
    next
      case reps: (Inr reps)
      then obtain out where "source_apply_replacements reps ?sf = Some out"
        using compute_preserve [OF assms, of "line_texts ?sf" path] source_apply_total [of _ reps ?sf] by auto
      then show ?thesis using reps PreserveLineEndings Inr
        by (simp add: derive_new_contents_from_chunks_def Let_def of_option_def)
    qed
  qed
qed (simp add: derive_new_contents_from_chunks_def)

section \<open>The two ways of applying replacements agree\<close>

text \<open>What ordered replacements mean: each replaces its old lines where they stand.\<close>

fun edited :: "nat \<Rightarrow> 'a list \<Rightarrow> (nat \<times> nat \<times> 'a list) list \<Rightarrow> 'a list" where
  "edited idx ls [] = ls"
| "edited idx ls ((s, l, seg) # reps) =
     take (s - idx) ls @ seg @ edited (s + l) (drop (s + l - idx) ls) reps"

lemma apply_rev_append:
  "apply_rev_replacements (xs @ ys) ls = Option.bind (apply_rev_replacements xs ls) (apply_rev_replacements ys)"
  by (induction xs ls rule: apply_rev_replacements.induct) (auto split: Option.bind_splits)

lemma apply_one:
  assumes "s + l \<le> length ls"
  shows "apply_rev_replacements [(s, l, seg)] (take (s + l) ls @ rest) = Some (take s ls @ seg @ rest)"
  using assms by (simp add: remove_lines_eq insert_lines_eq)

lemma apply_rev_edited:
  assumes "sorted_wrt before reps" "\<forall>r \<in> set reps. idx \<le> fst r \<and> rep_end r \<le> length ls" "idx \<le> length ls"
  shows "apply_rev_replacements (rev reps) ls = Some (take idx ls @ edited idx (drop idx ls) reps)"
  using assms
proof (induction reps arbitrary: idx)
  case (Cons r reps)
  obtain s l seg where r: "r = (s, l, seg)" by (cases r)
  have b: "idx \<le> s" "s + l \<le> length ls" using Cons.prems(2) by (auto simp: r rep_end_def)
  have "\<forall>r \<in> set reps. s + l \<le> fst r \<and> rep_end r \<le> length ls"
    using Cons.prems(1,2) by (auto simp: r before_def rep_end_def)
  then have IH: "apply_rev_replacements (rev reps) ls
      = Some (take (s + l) ls @ edited (s + l) (drop (s + l) ls) reps)"
    using Cons.IH [of "s + l"] Cons.prems(1) b(2) by simp
  have "take s ls = take idx ls @ take (s - idx) (drop idx ls)"
    using b(1) by (metis le_add_diff_inverse take_add)
  then show ?case using b(1) by (simp only: rev.simps apply_rev_append IH r apply_one [OF b(2)] Option.bind.bind_lunit)
      (simp add: drop_drop)
qed simp

lemma splice_edited:
  assumes "sorted_wrt before reps" "\<forall>r \<in> set reps. idx \<le> fst r"
  shows "splice_lines e src idx reps = Some (edited idx src
    (map (\<lambda>(s, l, seg). (s, l, map (\<lambda>t. \<lparr>sl_text = t, sl_ending = Some e\<rparr>) seg)) reps))"
  using assms
proof (induction e src idx reps rule: splice_lines.induct)
  case (2 e src idx s l seg reps)
  have "\<forall>r \<in> set reps. s + l \<le> fst r" using "2.prems"(1) by (auto simp: before_def rep_end_def)
  then show ?case using 2 by (simp add: drop_drop add.commute)
qed simp

lemma edited_map:
  "map f (edited idx ls reps) = edited idx (map f ls) (map (\<lambda>(s, l, seg). (s, l, map f seg)) reps)"
  by (induction idx ls reps rule: edited.induct) (auto simp: take_map drop_map)

text \<open>
  For ordered replacements the two ways of applying them, in place from the last to the
  first on bare lines and in one pass over source lines, both give the file in which each
  replacement stands where its old lines stood: the first returns those lines, the second the same
  texts, where inserted lines carry the preferred ending, kept lines keep theirs, and every
  line has an ending.
\<close>

theorem replacements_agree:
  assumes "ordered (length (line_texts sf)) reps"
  shows "apply_replacements (line_texts sf) reps = Some (edited 0 (line_texts sf) reps)
    \<and> (\<exists>sf'. source_apply_replacements reps sf = Some sf'
         \<and> line_texts sf' = edited 0 (line_texts sf) reps
         \<and> map sl_ending (sf_lines sf') = map (\<lambda>e. Some (case e of Some x \<Rightarrow> x | None \<Rightarrow> sf_preferred_ending sf))
              (edited 0 (map sl_ending (sf_lines sf))
                 (map (\<lambda>(s, l, seg). (s, l, map (\<lambda>t. Some (sf_preferred_ending sf)) seg)) reps)))"
proof -
  let ?e = "sf_preferred_ending sf"
  let ?reps = "map (\<lambda>(s, l, seg). (s, l, map (\<lambda>t. \<lparr>sl_text = t, sl_ending = Some ?e\<rparr>) seg)) reps"
  have o: "sorted_wrt before reps" "\<forall>r \<in> set reps. rep_end r \<le> length (line_texts sf)"
    using assms by (auto simp: ordered_def list_all_iff)
  have lines: "apply_replacements (line_texts sf) reps = Some (edited 0 (line_texts sf) reps)"
    using apply_rev_edited [of reps 0 "line_texts sf"] o by (simp add: apply_replacements_def)
  have spl: "splice_lines ?e (sf_lines sf) 0 reps = Some (edited 0 (sf_lines sf) ?reps)"
    using splice_edited [of reps 0 ?e "sf_lines sf"] o(1) by simp
  have texts: "map sl_text (edited 0 (sf_lines sf) ?reps) = edited 0 (line_texts sf) reps"
    by (simp add: edited_map line_texts_def o_def case_prod_beta')
  have ends: "map sl_ending (edited 0 (sf_lines sf) ?reps)
      = edited 0 (map sl_ending (sf_lines sf)) (map (\<lambda>(s, l, seg). (s, l, map (\<lambda>t. Some ?e) seg)) reps)"
    by (simp add: edited_map o_def case_prod_beta')
  show ?thesis
    using lines spl by (auto simp: source_apply_replacements_def line_texts_def o_def texts [unfolded line_texts_def]
        simp flip: ends)
qed

theorem replacements_agree_witness:
  "source_apply_replacements [(1, 1, [[100]])]
     \<lparr>sf_lines = [\<lparr>sl_text = [97], sl_ending = Some CrLf\<rparr>, \<lparr>sl_text = [98], sl_ending = None\<rparr>],
      sf_preferred_ending = CrLf\<rparr> \<noteq> None"
proof -
  let ?sf = "\<lparr>sf_lines = [\<lparr>sl_text = [97], sl_ending = Some CrLf\<rparr>, \<lparr>sl_text = [98], sl_ending = None\<rparr>],
      sf_preferred_ending = CrLf\<rparr>"
  have "ordered (length (line_texts ?sf)) [(1, 1, [[100]])]"
    by (simp add: ordered_def line_texts_def rep_end_def)
  from replacements_agree [OF this] show ?thesis by auto
qed

end
