(* ===== verification/Patch_Roundtrip.thy ===== *)
theory Patch_Roundtrip
  imports Patch_Grammar
begin

text \<open>
  The patch format, written as a printer, and the proof that the parser reads back what it
  prints: one line per header, context marker, diff line and end-of-file marker, in the order
  the grammar in \<open>apply-patch/src/parser.rs\<close> gives.
\<close>

section \<open>The format\<close>

datatype diff_line = Ctx str | Del str | Ins str

fun print_diff_line :: "diff_line \<Rightarrow> str" where
  "print_diff_line (Ctx s) = 32 # s"
| "print_diff_line (Del s) = 45 # s"
| "print_diff_line (Ins s) = 43 # s"

fun diff_text :: "diff_line \<Rightarrow> str" where
  "diff_text (Ctx s) = s"
| "diff_text (Del s) = s"
| "diff_text (Ins s) = s"

fun add_diff_line :: "diff_line \<Rightarrow> update_file_chunk \<Rightarrow> update_file_chunk" where
  "add_diff_line (Ctx s) c = push_context_line s c"
| "add_diff_line (Del s) c = c\<lparr>old_lines := old_lines c @ [s]\<rparr>"
| "add_diff_line (Ins s) c = c\<lparr>new_lines := new_lines c @ [s]\<rparr>"

text \<open>A chunk is its context, its diff lines and whether it ends the file.\<close>

type_synonym chunk_text = "str option \<times> diff_line list \<times> bool"

datatype hunk_text =
    AddText str "str list"
  | DeleteText str
  | UpdateText str "str option" "chunk_text list"

fun chunk_of :: "chunk_text \<Rightarrow> update_file_chunk" where
  "chunk_of (ctx, ds, eof) =
     (fold add_diff_line ds (chunk_default\<lparr>change_context := ctx\<rparr>))\<lparr>is_end_of_file := eof\<rparr>"

fun hunk_of :: "hunk_text \<Rightarrow> hunk" where
  "hunk_of (AddText path ls) = AddFile path (concat (map (\<lambda>l. l @ [10]) ls))"
| "hunk_of (DeleteText path) = DeleteFile path"
| "hunk_of (UpdateText path mv cs) = UpdateFile path mv (map chunk_of cs)"

fun print_chunk :: "chunk_text \<Rightarrow> str list" where
  "print_chunk (ctx, ds, eof) =
     (case ctx of None \<Rightarrow> EMPTY_CHANGE_CONTEXT_MARKER | Some c \<Rightarrow> CHANGE_CONTEXT_MARKER @ c)
     # map print_diff_line ds @ (if eof then [EOF_MARKER] else [])"

fun print_hunk :: "hunk_text \<Rightarrow> str list" where
  "print_hunk (AddText path ls) = (ADD_FILE_MARKER @ path) # map (\<lambda>l. 43 # l) ls"
| "print_hunk (DeleteText path) = [DELETE_FILE_MARKER @ path]"
| "print_hunk (UpdateText path mv cs) =
     (UPDATE_FILE_MARKER @ path) # (case mv of None \<Rightarrow> [] | Some d \<Rightarrow> [MOVE_TO_MARKER @ d])
     @ concat (map print_chunk cs)"

definition print_patch_lines :: "str option \<Rightarrow> hunk_text list \<Rightarrow> str list" where
  "print_patch_lines env hs =
     BEGIN_PATCH_MARKER # (case env of None \<Rightarrow> [] | Some e \<Rightarrow> [ENVIRONMENT_ID_MARKER @ 32 # e])
     @ concat (map print_hunk hs)"

definition print_patch :: "str option \<Rightarrow> hunk_text list \<Rightarrow> str" where
  "print_patch env hs = join_with [10] (print_patch_lines env hs @ [END_PATCH_MARKER])"

text \<open>
  A line of text has no newline and does not end in a carriage return; a name is a non-empty line
  that does not end in white space.
\<close>

definition text_ok :: "str \<Rightarrow> bool" where
  "text_ok s \<longleftrightarrow> 10 \<notin> set s \<and> (s = [] \<or> last s \<noteq> 13)"

definition name_ok :: "str \<Rightarrow> bool" where
  "name_ok s \<longleftrightarrow> s \<noteq> [] \<and> 10 \<notin> set s \<and> \<not> is_whitespace (last s)"

fun chunk_text_ok :: "chunk_text \<Rightarrow> bool" where
  "chunk_text_ok (ctx, ds, eof) \<longleftrightarrow> pred_option name_ok ctx \<and> ds \<noteq> [] \<and> list_all (\<lambda>d. text_ok (diff_text d)) ds"

fun hunk_text_ok :: "hunk_text \<Rightarrow> bool" where
  "hunk_text_ok (AddText path ls) \<longleftrightarrow> name_ok path \<and> list_all text_ok ls"
| "hunk_text_ok (DeleteText path) \<longleftrightarrow> name_ok path"
| "hunk_text_ok (UpdateText path mv cs) \<longleftrightarrow>
     name_ok path \<and> pred_option name_ok mv \<and> cs \<noteq> [] \<and> list_all chunk_text_ok cs"

section \<open>Lines\<close>

text \<open>The parser between two lines, fed whole lines.\<close>

fun push_lines :: "str list \<Rightarrow> streaming_patch_parser \<Rightarrow> parse_error + streaming_patch_parser" where
  "push_lines [] p = Inr p"
| "push_lines (l # ls) p = and_then (process_line l (take_line p)) (push_lines ls)"

lemma push_lines_append: "push_lines (a @ b) p = and_then (push_lines a p) (push_lines b)"
proof (induction a arbitrary: p)
  case (Cons l a)
  then show ?case by (cases "process_line l (take_line p)") simp_all
qed simp

definition line_ok :: "str \<Rightarrow> bool" where
  "line_ok l \<longleftrightarrow> 10 \<notin> set l \<and> strip_cr l = l"

lemma strip_cr_id: "l = [] \<or> last l \<noteq> 13 \<Longrightarrow> strip_cr l = l"
  by (auto simp: strip_cr_def strip_suffix_Some_iff split: option.splits)

lemma push_chars_no_newline:
  "10 \<notin> set l \<Longrightarrow> push_chars (l @ s) p = push_chars s (p\<lparr>sp_line_buffer := sp_line_buffer p @ l\<rparr>)"
  by (induction l arbitrary: p) auto

lemma process_line_buffer:
  assumes "process_line l p = Inr q"
  shows "sp_line_buffer q = sp_line_buffer p"
  using assms
  by (auto simp: process_line_def Let_def handle_hunk_headers_and_end_patch_def handle_environment_id_def
      and_then_Inr_iff set_mode_def push_hunk_def set_last_hunk_def
      split: streaming_parser_mode.splits option.splits if_splits hunk.splits)

lemma push_chars_line:
  assumes "line_ok l" "sp_line_buffer p = []"
  shows "push_chars (l @ 10 # s) p = (case process_line l (take_line p) of
           Inl e \<Rightarrow> (take_line p, Some e) | Inr q \<Rightarrow> push_chars s q)"
proof -
  have "take_line (p\<lparr>sp_line_buffer := l\<rparr>) = take_line p" by (simp add: take_line_def)
  then show ?thesis using assms by (simp add: push_chars_no_newline line_ok_def split: sum.split)
qed

lemma push_chars_lines:
  assumes "list_all line_ok ls" "sp_line_buffer p = []" "push_lines ls p = Inr q" "10 \<notin> set e"
  shows "push_chars (join_with [10] (ls @ [e])) p = (q\<lparr>sp_line_buffer := e\<rparr>, None)"
  using assms
proof (induction ls arbitrary: p)
  case Nil
  then show ?case using push_chars_no_newline [of e "[]" p] by simp
next
  case (Cons l ls)
  obtain r where r: "process_line l (take_line p) = Inr r" "push_lines ls r = Inr q"
    using Cons.prems(3) by (auto simp: and_then_Inr_iff)
  have "sp_line_buffer r = []" using process_line_buffer [OF r(1)] by (simp add: take_line_def)
  then have "push_chars (join_with [10] (ls @ [e])) r = (q\<lparr>sp_line_buffer := e\<rparr>, None)"
    using Cons r(2) by simp
  then show ?case using Cons.prems(1,2) r(1) push_chars_line [of l p "join_with [10] (ls @ [e])"]
    by (simp add: join_with_Cons)
qed

section \<open>Headers\<close>

lemma name_ok_trim:
  assumes "name_ok s" "\<not> is_whitespace (of_char c)"
  shows "trim (lit (c # cs) @ s) = lit (c # cs) @ s" "trim_end (lit (c # cs) @ s) = lit (c # cs) @ s"
  using assms by (auto simp: name_ok_def lit_Cons intro!: trim_id trim_end_id)

text \<open>The parser is ready for a header: the hunks so far are complete.\<close>

definition ready :: "hunk list \<Rightarrow> str option \<Rightarrow> streaming_patch_parser \<Rightarrow> bool" where
  "ready hs env p \<longleftrightarrow>
     ps_hunks (sp_state p) = hs \<and> ps_environment_id (sp_state p) = env \<and> sp_line_buffer p = []
     \<and> ps_mode (sp_state p) \<noteq> NotStarted \<and> ps_mode (sp_state p) \<noteq> EndedPatch
     \<and> (\<forall>line. ensure_update_hunk_is_not_empty line p = Inr ())"

lemma ensure_take_line:
  "ensure_update_hunk_is_not_empty line p = Inr () \<Longrightarrow> ensure_update_hunk_is_not_empty line (take_line p) = Inr ()"
  by (auto simp: ensure_update_hunk_is_not_empty_def take_line_def
      split: option.splits hunk.splits list.splits streaming_parser_mode.splits if_splits)

lemma ready_take_line: "ready hs env p \<Longrightarrow> ready hs env (take_line p)"
  using ensure_take_line by (auto simp: ready_def) (simp_all add: take_line_def)

lemma process_header:
  assumes "ready hs env p" "trim line = line" "trim_end line = line"
    and "handle_hunk_headers_and_end_patch line p = Inr (True, q)"
  shows "process_line line p = Inr q"
  using assms by (cases "ps_mode (sp_state p)") (simp_all add: process_line_def ready_def Let_def)

lemma header_add:
  assumes "ready hs env p" "name_ok path"
  shows "process_line (ADD_FILE_MARKER @ path) p = Inr (set_mode AddFileMode (push_hunk (AddFile path []) p))"
proof (rule process_header [OF assms(1)])
  show "trim (ADD_FILE_MARKER @ path) = ADD_FILE_MARKER @ path"
    "trim_end (ADD_FILE_MARKER @ path) = ADD_FILE_MARKER @ path"
    using assms(2) by (simp_all add: name_ok_trim is_whitespace_def)
  show "handle_hunk_headers_and_end_patch (ADD_FILE_MARKER @ path) p
      = Inr (True, set_mode AddFileMode (push_hunk (AddFile path []) p))"
    using assms(1) by (simp add: handle_hunk_headers_and_end_patch_def ready_def lit_eval
        split: streaming_parser_mode.splits)
qed

lemma header_delete:
  assumes "ready hs env p" "name_ok path"
  shows "process_line (DELETE_FILE_MARKER @ path) p = Inr (set_mode DeleteFileMode (push_hunk (DeleteFile path) p))"
proof (rule process_header [OF assms(1)])
  show "trim (DELETE_FILE_MARKER @ path) = DELETE_FILE_MARKER @ path"
    "trim_end (DELETE_FILE_MARKER @ path) = DELETE_FILE_MARKER @ path"
    using assms(2) by (simp_all add: name_ok_trim is_whitespace_def)
  show "handle_hunk_headers_and_end_patch (DELETE_FILE_MARKER @ path) p
      = Inr (True, set_mode DeleteFileMode (push_hunk (DeleteFile path) p))"
    using assms(1) by (simp add: handle_hunk_headers_and_end_patch_def ready_def lit_eval
        split: streaming_parser_mode.splits)
qed

lemma header_update:
  assumes "ready hs env p" "name_ok path"
  shows "process_line (UPDATE_FILE_MARKER @ path) p
    = Inr (set_mode (UpdateFileMode (sp_line_number p)) (push_hunk (UpdateFile path None []) p))"
proof (rule process_header [OF assms(1)])
  show "trim (UPDATE_FILE_MARKER @ path) = UPDATE_FILE_MARKER @ path"
    "trim_end (UPDATE_FILE_MARKER @ path) = UPDATE_FILE_MARKER @ path"
    using assms(2) by (simp_all add: name_ok_trim is_whitespace_def)
  show "handle_hunk_headers_and_end_patch (UPDATE_FILE_MARKER @ path) p
      = Inr (True, set_mode (UpdateFileMode (sp_line_number p)) (push_hunk (UpdateFile path None []) p))"
    using assms(1) by (simp add: handle_hunk_headers_and_end_patch_def ready_def lit_eval
        split: streaming_parser_mode.splits)
qed

section \<open>Added files\<close>

definition adding :: "hunk list \<Rightarrow> str option \<Rightarrow> str \<Rightarrow> str \<Rightarrow> streaming_patch_parser \<Rightarrow> bool" where
  "adding hs env path contents p \<longleftrightarrow>
     ps_hunks (sp_state p) = hs @ [AddFile path contents] \<and> ps_environment_id (sp_state p) = env
     \<and> sp_line_buffer p = [] \<and> ps_mode (sp_state p) = AddFileMode"

lemma adding_ready: "adding hs env path contents p \<Longrightarrow> ready (hs @ [AddFile path contents]) env p"
  by (simp add: adding_def ready_def ensure_update_hunk_is_not_empty_def)

lemma trim_Cons: "\<not> is_whitespace c \<Longrightarrow> \<exists>t. trim (c # s) = c # t"
  using trim_end_append [of "[c]" s] trim_end_id [of "[c]"] by (auto simp: trim_def trim_start_def)

lemma trim_end_Cons: "trim_end (c # s) = [] \<or> (\<exists>t. trim_end (c # s) = c # t)"
  using trim_end_append [of "[c]" s] by (auto simp: trim_end_def split: if_splits)

lemma add_line:
  assumes "adding hs env path contents p"
  shows "\<exists>q. process_line (43 # l) (take_line p) = Inr q \<and> adding hs env path (contents @ l @ [10]) q"
proof -
  obtain t where t: "trim (43 # l) = 43 # t" using trim_Cons [of 43 l] by (auto simp: is_whitespace_def)
  show ?thesis using assms
    by (simp add: process_line_def Let_def t adding_def take_line_def handle_hunk_headers_and_end_patch_def
        lit_eval set_last_hunk_def)
qed

lemma add_lines:
  assumes "adding hs env path contents p"
  shows "\<exists>q. push_lines (map (\<lambda>l. 43 # l) ls) p = Inr q
    \<and> adding hs env path (contents @ concat (map (\<lambda>l. l @ [10]) ls)) q"
  using assms
proof (induction ls arbitrary: p contents)
  case (Cons l ls)
  obtain q where "process_line (43 # l) (take_line p) = Inr q" "adding hs env path (contents @ l @ [10]) q"
    using add_line [OF Cons.prems] by blast
  then show ?case using Cons.IH [of "contents @ l @ [10]" q] by simp
qed simp

section \<open>Updated files\<close>

definition updating ::
  "hunk list \<Rightarrow> str option \<Rightarrow> str \<Rightarrow> str option \<Rightarrow> update_file_chunk list \<Rightarrow> streaming_patch_parser \<Rightarrow> bool" where
  "updating hs env path mv chunks p \<longleftrightarrow>
     ps_hunks (sp_state p) = hs @ [UpdateFile path mv chunks] \<and> ps_environment_id (sp_state p) = env
     \<and> sp_line_buffer p = [] \<and> (\<exists>n. ps_mode (sp_state p) = UpdateFileMode n)"

lemma updating_ready:
  assumes "updating hs env path mv chunks p" "chunks \<noteq> []" "\<not> last_is chunk_is_empty chunks"
  shows "ready (hs @ [UpdateFile path mv chunks]) env p"
  using assms by (auto simp: updating_def ready_def ensure_update_hunk_is_not_empty_def split: list.splits)

definition not_header :: "str \<Rightarrow> bool" where
  "not_header t \<longleftrightarrow> t \<noteq> END_PATCH_MARKER \<and> strip_prefix ADD_FILE_MARKER t = None
     \<and> strip_prefix DELETE_FILE_MARKER t = None \<and> strip_prefix UPDATE_FILE_MARKER t = None"

lemma update_step:
  assumes "updating hs env path mv chunks p" "not_header (trim_end line)"
    and "\<And>n. update_hunk_line n line mv chunks = Inr (mv', chunks')"
  shows "\<exists>q. process_line line (take_line p) = Inr q \<and> updating hs env path mv' chunks' q"
proof -
  obtain n where n: "ps_mode (sp_state p) = UpdateFileMode n" using assms(1) by (auto simp: updating_def)
  have "handle_hunk_headers_and_end_patch (trim_end line) (take_line p) = Inr (False, take_line p)"
    using assms(2) n by (simp add: handle_hunk_headers_and_end_patch_def not_header_def take_line_def)
  then show ?thesis using assms(1,3) n
    by (simp add: process_line_def updating_def take_line_def set_mode_def set_last_hunk_def)
qed

lemma diff_line_not_header:
  "not_header (trim_end (print_diff_line d))" "trim_end (print_diff_line d) \<noteq> EOF_MARKER"
  "\<not> starts_with MOVE_TO_MARKER (trim_end (print_diff_line d))"
  "\<not> is_context_marker (trim_end (print_diff_line d))"
  "strip_prefix CHANGE_CONTEXT_MARKER (trim_end (print_diff_line d)) = None"
  using trim_end_Cons [of 32 "diff_text d"] trim_end_Cons [of 43 "diff_text d"] trim_end_Cons [of 45 "diff_text d"]
  by (cases d; auto simp: not_header_def starts_with_def is_context_marker_def lit_eval)+

lemma diff_line_step:
  assumes "updating hs env path mv (cs @ [c]) p" "\<not> is_end_of_file c"
  shows "\<exists>q. process_line (print_diff_line d) (take_line p) = Inr q
    \<and> updating hs env path mv (cs @ [add_diff_line d c]) q"
proof (rule update_step [OF assms(1) diff_line_not_header(1)])
  have "trim_end (print_diff_line d) \<noteq> EMPTY_CHANGE_CONTEXT_MARKER"
    using diff_line_not_header(4) [of d] by (auto simp: is_context_marker_def)
  moreover have "diff_line_chunks (print_diff_line d) (cs @ [c]) = Some (cs @ [add_diff_line d c])"
    by (cases d) (simp_all add: modify_last_def ensure_chunk_def)
  ultimately show "\<And>n. update_hunk_line n (print_diff_line d) mv (cs @ [c]) = Inr (mv, cs @ [add_diff_line d c])"
    using diff_line_not_header [of d] assms(2) by (simp add: update_hunk_line_def Let_def)
qed

lemma add_diff_line_eof [simp]: "is_end_of_file (add_diff_line d c) = is_end_of_file c"
  by (cases d) (simp_all add: push_context_line_def)

lemma fold_add_diff_line_eof [simp]: "is_end_of_file (fold add_diff_line ds c) = is_end_of_file c"
  by (induction ds arbitrary: c) simp_all

lemma add_diff_line_not_empty: "\<not> chunk_is_empty (add_diff_line d c)"
  by (cases d) (simp_all add: push_context_line_def chunk_is_empty_def)

lemma fold_add_diff_line_not_empty: "ds \<noteq> [] \<Longrightarrow> \<not> chunk_is_empty (fold add_diff_line ds c)"
  by (cases ds rule: rev_cases) (simp_all add: add_diff_line_not_empty)

lemma diff_lines_step:
  assumes "updating hs env path mv (cs @ [c]) p" "\<not> is_end_of_file c"
  shows "\<exists>q. push_lines (map print_diff_line ds) p = Inr q
    \<and> updating hs env path mv (cs @ [fold add_diff_line ds c]) q"
  using assms
proof (induction ds arbitrary: p c)
  case (Cons d ds)
  obtain q where "process_line (print_diff_line d) (take_line p) = Inr q"
    "updating hs env path mv (cs @ [add_diff_line d c]) q"
    using diff_line_step [OF Cons.prems] by blast
  then show ?case using Cons.IH [of "add_diff_line d c" q] Cons.prems(2) by simp
qed auto

lemma context_step:
  assumes "updating hs env path mv cs p" "\<not> last_is chunk_is_empty cs" "pred_option name_ok ctx"
  shows "\<exists>q. process_line (case ctx of None \<Rightarrow> EMPTY_CHANGE_CONTEXT_MARKER | Some c \<Rightarrow> CHANGE_CONTEXT_MARKER @ c)
      (take_line p) = Inr q \<and> updating hs env path mv (cs @ [chunk_default\<lparr>change_context := ctx\<rparr>]) q"
proof (cases ctx)
  case None
  have t: "trim_end EMPTY_CHANGE_CONTEXT_MARKER = EMPTY_CHANGE_CONTEXT_MARKER"
    by (rule trim_end_id) (simp add: lit_eval is_whitespace_def)
  have d: "chunk_default\<lparr>change_context := None\<rparr> = chunk_default" by (simp add: chunk_default_def)
  show ?thesis unfolding None option.case d
  proof (rule update_step [OF assms(1)])
    show "not_header (trim_end EMPTY_CHANGE_CONTEXT_MARKER)" unfolding t by (simp add: not_header_def lit_eval)
    show "\<And>n. update_hunk_line n EMPTY_CHANGE_CONTEXT_MARKER mv cs = Inr (mv, cs @ [chunk_default])"
      using assms(2) unfolding update_hunk_line_def t
      by (simp add: Let_def is_context_marker_def starts_with_def) (simp add: lit_eval)
  qed
next
  case (Some c)
  then have c: "name_ok c" using assms(3) by simp
  have t: "trim_end (CHANGE_CONTEXT_MARKER @ c) = CHANGE_CONTEXT_MARKER @ c"
    using c by (simp add: name_ok_trim is_whitespace_def)
  show ?thesis unfolding Some option.case
  proof (rule update_step [OF assms(1)])
    show "not_header (trim_end (CHANGE_CONTEXT_MARKER @ c))" unfolding t by (simp add: not_header_def lit_eval)
    show "\<And>n. update_hunk_line n (CHANGE_CONTEXT_MARKER @ c) mv cs
        = Inr (mv, cs @ [chunk_default\<lparr>change_context := Some c\<rparr>])"
      using assms(2) unfolding update_hunk_line_def t
      by (simp add: Let_def is_context_marker_def starts_with_def) (simp add: lit_eval)
  qed
qed

lemma eof_step:
  assumes "updating hs env path mv (cs @ [c]) p" "\<not> chunk_is_empty c" "\<not> is_end_of_file c"
  shows "\<exists>q. process_line EOF_MARKER (take_line p) = Inr q
    \<and> updating hs env path mv (cs @ [c\<lparr>is_end_of_file := True\<rparr>]) q"
proof (rule update_step [OF assms(1)])
  have t: "trim_end EOF_MARKER = EOF_MARKER" by (rule trim_end_id) (simp add: lit_eval is_whitespace_def)
  show "not_header (trim_end EOF_MARKER)" unfolding t by (simp add: not_header_def lit_eval)
  show "\<And>n. update_hunk_line n EOF_MARKER mv (cs @ [c]) = Inr (mv, cs @ [c\<lparr>is_end_of_file := True\<rparr>])"
    using assms(2,3) unfolding update_hunk_line_def t
    by (simp add: Let_def is_context_marker_def starts_with_def) (simp add: lit_eval modify_last_def)
qed

lemma chunk_step:
  assumes "updating hs env path mv cs p" "\<not> last_is chunk_is_empty cs" "chunk_text_ok ct"
  shows "\<exists>q. push_lines (print_chunk ct) p = Inr q \<and> updating hs env path mv (cs @ [chunk_of ct]) q"
proof -
  obtain ctx ds eof where ct: "ct = (ctx, ds, eof)" by (cases ct)
  let ?init = "chunk_default\<lparr>change_context := ctx\<rparr>" and ?c = "fold add_diff_line ds (chunk_default\<lparr>change_context := ctx\<rparr>)"
  have e0: "\<not> is_end_of_file ?init" by (simp add: chunk_default_def)
  obtain q1 where q1: "process_line (case ctx of None \<Rightarrow> EMPTY_CHANGE_CONTEXT_MARKER
      | Some c \<Rightarrow> CHANGE_CONTEXT_MARKER @ c) (take_line p) = Inr q1" "updating hs env path mv (cs @ [?init]) q1"
    using context_step [OF assms(1,2), of ctx] assms(3) ct by auto
  obtain q2 where q2: "push_lines (map print_diff_line ds) q1 = Inr q2" "updating hs env path mv (cs @ [?c]) q2"
    using diff_lines_step [OF q1(2) e0] by blast
  have ne: "\<not> chunk_is_empty ?c" using fold_add_diff_line_not_empty assms(3) ct by simp
  have e: "\<not> is_end_of_file ?c" using e0 by simp
  show ?thesis
  proof (cases eof)
    case True
    obtain q3 where "process_line EOF_MARKER (take_line q2) = Inr q3"
      "updating hs env path mv (cs @ [?c\<lparr>is_end_of_file := True\<rparr>]) q3"
      using eof_step [OF q2(2) ne e] by blast
    then show ?thesis using q1 q2 True by (simp add: ct push_lines_append)
  next
    case False
    have "?c\<lparr>is_end_of_file := False\<rparr> = ?c" using e by (cases ?c) simp
    then show ?thesis using q1 q2 False by (simp add: ct push_lines_append)
  qed
qed

lemma chunk_of_not_empty: "chunk_text_ok ct \<Longrightarrow> \<not> chunk_is_empty (chunk_of ct)"
  using fold_add_diff_line_not_empty by (cases ct) (auto simp: chunk_is_empty_def)

lemma chunks_step:
  assumes "updating hs env path mv cs p" "\<not> last_is chunk_is_empty cs" "list_all chunk_text_ok cts"
  shows "\<exists>q. push_lines (concat (map print_chunk cts)) p = Inr q \<and> updating hs env path mv (cs @ map chunk_of cts) q"
  using assms
proof (induction cts arbitrary: p cs)
  case (Cons ct cts)
  obtain q where q: "push_lines (print_chunk ct) p = Inr q" "updating hs env path mv (cs @ [chunk_of ct]) q"
    using chunk_step [OF Cons.prems(1,2), of ct] Cons.prems(3) by auto
  have "\<not> last_is chunk_is_empty (cs @ [chunk_of ct])" using Cons.prems(3) by (simp add: chunk_of_not_empty)
  then show ?case using Cons.IH [OF q(2)] q(1) Cons.prems(3) by (auto simp: push_lines_append)
qed auto

lemma move_step:
  assumes "updating hs env path None [] p" "name_ok d"
  shows "\<exists>q. process_line (MOVE_TO_MARKER @ d) (take_line p) = Inr q \<and> updating hs env path (Some d) [] q"
proof (rule update_step [OF assms(1)])
  have t: "trim_end (MOVE_TO_MARKER @ d) = MOVE_TO_MARKER @ d"
    using assms(2) by (simp add: name_ok_trim is_whitespace_def)
  show "not_header (trim_end (MOVE_TO_MARKER @ d))" unfolding t by (simp add: not_header_def lit_eval)
  show "\<And>n. update_hunk_line n (MOVE_TO_MARKER @ d) None [] = Inr (Some d, [])"
    unfolding update_hunk_line_def t by (simp add: Let_def last_is_def starts_with_def)
qed

section \<open>Patches\<close>

lemma hunk_step:
  assumes "ready hs env p" "hunk_text_ok h"
  shows "\<exists>q. push_lines (print_hunk h) p = Inr q \<and> ready (hs @ [hunk_of h]) env q"
proof (cases h)
  case (AddText path ls)
  let ?p = "set_mode AddFileMode (push_hunk (AddFile path []) (take_line p))"
  have h: "process_line (ADD_FILE_MARKER @ path) (take_line p) = Inr ?p"
    using header_add [OF ready_take_line [OF assms(1)]] assms(2) AddText by simp
  have "adding hs env path [] ?p"
    using ready_take_line [OF assms(1)] by (simp add: adding_def ready_def set_mode_def push_hunk_def)
  from add_lines [OF this, of ls] show ?thesis using h AddText by (auto dest: adding_ready)
next
  case (DeleteText path)
  have "process_line (DELETE_FILE_MARKER @ path) (take_line p)
      = Inr (set_mode DeleteFileMode (push_hunk (DeleteFile path) (take_line p)))"
    using header_delete [OF ready_take_line [OF assms(1)]] assms(2) DeleteText by simp
  then show ?thesis using ready_take_line [OF assms(1)] DeleteText
    by (simp add: ready_def set_mode_def push_hunk_def ensure_update_hunk_is_not_empty_def)
next
  case (UpdateText path mv cs)
  let ?p = "set_mode (UpdateFileMode (sp_line_number (take_line p))) (push_hunk (UpdateFile path None []) (take_line p))"
  have h: "process_line (UPDATE_FILE_MARKER @ path) (take_line p) = Inr ?p"
    using header_update [OF ready_take_line [OF assms(1)]] assms(2) UpdateText by simp
  have "updating hs env path None [] ?p"
    using ready_take_line [OF assms(1)] by (simp add: updating_def ready_def set_mode_def push_hunk_def)
  then obtain q1 where q1: "push_lines (case mv of None \<Rightarrow> [] | Some d \<Rightarrow> [MOVE_TO_MARKER @ d]) ?p = Inr q1"
    "updating hs env path mv [] q1"
  proof (cases mv)
    case (Some d)
    then obtain q where "process_line (MOVE_TO_MARKER @ d) (take_line ?p) = Inr q" "updating hs env path (Some d) [] q"
      using move_step [OF \<open>updating hs env path None [] ?p\<close>, of d] assms(2) UpdateText by auto
    then show thesis using that [of q] Some by simp
  qed simp
  obtain q2 where q2: "push_lines (concat (map print_chunk cs)) q1 = Inr q2"
    "updating hs env path mv (map chunk_of cs) q2"
    using chunks_step [OF q1(2), of cs] assms(2) UpdateText by (auto simp: last_is_def)
  have "map chunk_of cs \<noteq> []" "\<not> last_is chunk_is_empty (map chunk_of cs)"
    using assms(2) UpdateText by (auto simp: last_is_def last_map list_all_iff chunk_of_not_empty)
  then show ?thesis using h q1 q2 updating_ready [OF q2(2)] UpdateText by (simp add: push_lines_append)
qed

lemma hunks_step:
  assumes "ready hs env p" "list_all hunk_text_ok ts"
  shows "\<exists>q. push_lines (concat (map print_hunk ts)) p = Inr q \<and> ready (hs @ map hunk_of ts) env q"
  using assms
proof (induction ts arbitrary: p hs)
  case (Cons t ts)
  obtain q where q: "push_lines (print_hunk t) p = Inr q" "ready (hs @ [hunk_of t]) env q"
    using hunk_step [OF Cons.prems(1)] Cons.prems(2) by auto
  then show ?case using Cons.IH [OF q(2)] Cons.prems(2) by (auto simp: push_lines_append)
qed auto

definition environment_ok :: "str \<Rightarrow> bool" where
  "environment_ok e \<longleftrightarrow> name_ok e \<and> \<not> is_whitespace (hd e)"

lemma begin_step:
  assumes "pred_option environment_ok env"
  shows "\<exists>q. push_lines (BEGIN_PATCH_MARKER # (case env of None \<Rightarrow> [] | Some e \<Rightarrow> [ENVIRONMENT_ID_MARKER @ 32 # e]))
      parser_default = Inr q \<and> ready [] env q"
proof -
  let ?p = "set_mode StartedPatch (take_line parser_default)"
  have "trim BEGIN_PATCH_MARKER = BEGIN_PATCH_MARKER" by (rule trim_id) (simp add: lit_eval is_whitespace_def)
  then have b: "process_line BEGIN_PATCH_MARKER (take_line parser_default) = Inr ?p"
    by (simp add: process_line_def parser_default_def take_line_def)
  show ?thesis
  proof (cases env)
    case None
    then show ?thesis using b
      by (simp add: ready_def set_mode_def take_line_def parser_default_def ensure_update_hunk_is_not_empty_def last_opt_def)
  next
    case (Some e)
    then have e: "name_ok e" "\<not> is_whitespace (hd e)" "name_ok (32 # e)"
      using assms by (auto simp: environment_ok_def name_ok_def)
    have t: "trim (ENVIRONMENT_ID_MARKER @ 32 # e) = ENVIRONMENT_ID_MARKER @ 32 # e"
      using e(3) by (simp add: name_ok_trim is_whitespace_def)
    have "trim (32 # e) = trim e" by (simp add: trim_def trim_start_def is_whitespace_def)
    also have "\<dots> = e" using e by (intro trim_id) (simp add: name_ok_def)
    finally have te: "trim (32 # e) = e" .
    have "e \<noteq> []" using e(1) by (simp add: name_ok_def)
    then show ?thesis using b Some te
      by (simp add: process_line_def t handle_hunk_headers_and_end_patch_def handle_environment_id_def ready_def
          set_mode_def take_line_def parser_default_def ensure_update_hunk_is_not_empty_def last_opt_def)
  qed
qed

lemma finish_ready:
  assumes "ready hs env p"
  shows "\<exists>q. finish (p\<lparr>sp_line_buffer := END_PATCH_MARKER\<rparr>) = (q, Inr hs) \<and> sp_environment_id q = env"
proof -
  let ?p = "p\<lparr>sp_line_buffer := END_PATCH_MARKER\<rparr>"
  have t: "trim END_PATCH_MARKER = END_PATCH_MARKER" by (rule trim_id) (simp add: lit_eval is_whitespace_def)
  have ne: "END_PATCH_MARKER \<noteq> []" by (simp add: lit_eval)
  have tl: "take_line ?p = take_line p" by (simp add: take_line_def)
  have "finish_line ?p = (set_mode EndedPatch (take_line p), None)"
    using ready_take_line [OF assms] by (simp add: finish_line_def t ne tl Let_def ready_def)
  then show ?thesis using assms
    by (simp add: finish_def set_mode_def sp_environment_id_def take_line_def ready_def)
qed

lemma split_join_lines:
  "ls \<noteq> [] \<Longrightarrow> list_all (\<lambda>l. c \<notin> set l) ls \<Longrightarrow> split_on c (join_with [c] ls) = ls"
proof (induction ls)
  case (Cons l ls)
  then show ?case by (cases "ls = []") (simp_all add: join_with_Cons split_on_no split_on_append_sep)
qed simp

lemma line_ok_name: "name_ok s \<Longrightarrow> 10 \<notin> set m \<Longrightarrow> line_ok (m @ s)"
  by (auto simp: line_ok_def name_ok_def is_whitespace_def intro!: strip_cr_id)

lemma line_ok_text: "text_ok s \<Longrightarrow> c \<noteq> 10 \<Longrightarrow> c \<noteq> 13 \<Longrightarrow> line_ok (c # s)"
  by (auto simp: line_ok_def text_ok_def intro!: strip_cr_id split: if_splits)

lemma line_ok_markers:
  "line_ok BEGIN_PATCH_MARKER" "line_ok EOF_MARKER" "line_ok EMPTY_CHANGE_CONTEXT_MARKER"
  by (auto simp: line_ok_def lit_eval intro!: strip_cr_id)

lemma marker_no_newline:
  "10 \<notin> set ADD_FILE_MARKER" "10 \<notin> set DELETE_FILE_MARKER" "10 \<notin> set UPDATE_FILE_MARKER"
  "10 \<notin> set MOVE_TO_MARKER" "10 \<notin> set CHANGE_CONTEXT_MARKER" "10 \<notin> set ENVIRONMENT_ID_MARKER"
  "10 \<notin> set END_PATCH_MARKER"
  by (simp_all add: lit_eval)

lemma print_chunk_lines_ok: "chunk_text_ok ct \<Longrightarrow> list_all line_ok (print_chunk ct)"
proof -
  assume ok: "chunk_text_ok ct"
  have d: "text_ok (diff_text d) \<Longrightarrow> line_ok (print_diff_line d)" for d
    by (cases d) (simp_all add: line_ok_text)
  show ?thesis using ok by (cases ct)
      (auto simp: list_all_iff line_ok_markers d line_ok_name marker_no_newline split: option.split)
qed

lemma print_hunk_lines_ok: "hunk_text_ok h \<Longrightarrow> list_all line_ok (print_hunk h)"
proof (cases h)
  case (UpdateText path mv cs)
  moreover assume "hunk_text_ok h"
  ultimately show ?thesis using print_chunk_lines_ok
    by (auto simp: list_all_iff line_ok_name marker_no_newline split: option.split)
qed (auto simp: list_all_iff line_ok_text line_ok_name marker_no_newline)

lemma print_patch_lines_ok:
  assumes "pred_option environment_ok env" "list_all hunk_text_ok hs"
  shows "list_all line_ok (print_patch_lines env hs)"
proof -
  have "\<forall>h \<in> set hs. \<forall>l \<in> set (print_hunk h). line_ok l"
    using assms(2) print_hunk_lines_ok by (auto simp: list_all_iff)
  moreover have "line_ok (ENVIRONMENT_ID_MARKER @ 32 # e)" if "env = Some e" for e
    using that assms(1) by (intro line_ok_name) (auto simp: environment_ok_def name_ok_def lit_eval)
  ultimately show ?thesis
    by (auto simp: print_patch_lines_def list_all_iff line_ok_markers split: option.split)
qed

lemma str_lines_join:
  assumes "list_all line_ok ls" "10 \<notin> set e" "e \<noteq> []"
  shows "str_lines (join_with [10] (ls @ [e])) = ls @ [e]"
proof -
  have "split_on 10 (join_with [10] (ls @ [e])) = ls @ [e]"
    using assms by (intro split_join_lines) (auto simp: list_all_iff line_ok_def)
  moreover have "map strip_cr ls = ls" using assms(1) by (intro map_idI) (auto simp: list_all_iff line_ok_def)
  ultimately show ?thesis using assms(3) by (simp add: str_lines_def)
qed

lemma join_with_last: "ls \<noteq> [] \<Longrightarrow> last ls \<noteq> [] \<Longrightarrow> join_with sep ls \<noteq> [] \<and> last (join_with sep ls) = last (last ls)"
  by (induction ls) (auto simp: join_with_Cons)

lemma print_patch_trim: "trim (print_patch env hs) = print_patch env hs"
proof (rule trim_id, rule disjI2, rule conjI)
  have e: "END_PATCH_MARKER \<noteq> []" "\<not> is_whitespace (last END_PATCH_MARKER)"
    by (simp_all add: lit_eval is_whitespace_def)
  show "\<not> is_whitespace (last (print_patch env hs))"
    using join_with_last [of "print_patch_lines env hs @ [END_PATCH_MARKER]" "[10]"] e by (simp add: print_patch_def)
  have "hd (print_patch env hs) = hd BEGIN_PATCH_MARKER"
    by (simp add: print_patch_def print_patch_lines_def join_with_Cons lit_eval)
  then show "\<not> is_whitespace (hd (print_patch env hs))" by (simp add: lit_eval is_whitespace_def)
qed

lemma boundaries_ok:
  "check_patch_boundaries_lenient (print_patch_lines env hs @ [END_PATCH_MARKER])
     = Inr (print_patch_lines env hs @ [END_PATCH_MARKER])"
proof -
  have "trim BEGIN_PATCH_MARKER = BEGIN_PATCH_MARKER" "trim END_PATCH_MARKER = END_PATCH_MARKER"
    by (rule trim_id, simp add: lit_eval is_whitespace_def)+
  then show ?thesis
    by (simp add: check_patch_boundaries_lenient_def check_patch_boundaries_strict_def print_patch_lines_def
        check_start_and_end_lines_strict_def)
qed

lemma print_parse:
  assumes "pred_option environment_ok env" "list_all hunk_text_ok hs"
  shows "parse_patch (print_patch env hs) = Inr \<lparr>aa_patch = print_patch env hs, aa_hunks = map hunk_of hs,
           aa_workdir = None, aa_environment_id = env\<rparr>"
proof -
  let ?ls = "print_patch_lines env hs" and ?e = END_PATCH_MARKER
  have ne: "?e \<noteq> []" by (simp add: lit_eval)
  obtain q1 where q1: "push_lines (BEGIN_PATCH_MARKER # (case env of None \<Rightarrow> []
      | Some e \<Rightarrow> [ENVIRONMENT_ID_MARKER @ 32 # e])) parser_default = Inr q1" "ready [] env q1"
    using begin_step [OF assms(1)] by blast
  obtain q where q: "push_lines (concat (map print_hunk hs)) q1 = Inr q" "ready (map hunk_of hs) env q"
    using hunks_step [OF q1(2) assms(2)] by auto
  have "push_lines ?ls parser_default = Inr q"
    using q(1) q1(1) push_lines_append [of "BEGIN_PATCH_MARKER # (case env of None \<Rightarrow> []
      | Some e \<Rightarrow> [ENVIRONMENT_ID_MARKER @ 32 # e])" "concat (map print_hunk hs)" parser_default]
    by (simp add: print_patch_lines_def)
  moreover have "sp_line_buffer parser_default = []" by (simp add: parser_default_def)
  ultimately have push: "push_delta (print_patch env hs) parser_default
      = (q\<lparr>sp_line_buffer := ?e\<rparr>, Inr (map hunk_of hs))"
    using push_chars_lines [OF print_patch_lines_ok [OF assms], of parser_default q ?e] marker_no_newline(7) q(2)
    by (simp add: push_delta_def print_patch_def ready_def)
  obtain r where fin: "finish (q\<lparr>sp_line_buffer := ?e\<rparr>) = (r, Inr (map hunk_of hs))" "sp_environment_id r = env"
    using finish_ready [OF q(2)] by blast
  have "str_lines (trim (print_patch env hs)) = ?ls @ [?e]"
    using str_lines_join [OF print_patch_lines_ok [OF assms] marker_no_newline(7) ne]
    unfolding print_patch_trim by (simp add: print_patch_def)
  then show ?thesis using boundaries_ok [of env hs] push fin
    by (simp add: parse_patch_def parse_patch_text_def print_patch_def Let_def)
qed

section \<open>Properties\<close>


definition sample_update :: hunk_text where
  "sample_update = UpdateText [97] (Some [98]) [(None, [Ctx [], Del [100], Ins [101]], False), (Some [102], [Ins [103]], True)]"

lemma sample_update_ok: "hunk_text_ok sample_update"
  by (simp add: sample_update_def name_ok_def text_ok_def is_whitespace_def)


text \<open>
  C16. Whatever text the parser accepts, every update hunk it returns has a chunk, every chunk has
  a line, and the recorded context indices advance and point at equal lines; so updating a file
  with these chunks never panics, in either mode.
\<close>

theorem parsed_update_never_panics:
  assumes "parse_patch text = Inr args" "UpdateFile path mv chunks \<in> set (aa_hunks args)"
  shows "chunks \<noteq> [] \<and> list_all wf_chunk chunks \<and> list_all (\<lambda>c. \<not> chunk_is_empty c) chunks
    \<and> derive_new_contents_from_chunks read uri chunks mode \<noteq> Inl Panicked"
proof -
  have "hunk_ok (UpdateFile path mv chunks)"
    using parse_patch_hunks_ok [OF assms(1)] assms(2) unfolding list_all_iff by blast
  then show ?thesis using derive_no_panic by simp
qed

theorem parsed_update_never_panics_witness:
  "derive_new_contents_from_chunks (Inr [100, 10]) [97] (map chunk_of [(None, [Del [100], Ins [101]], False)]) NormalizeToLf
     \<noteq> Inl Panicked"
proof -
  let ?h = "UpdateText [97] None [(None, [Del [100], Ins [101]], False)]"
  have "list_all hunk_text_ok [?h]" by (simp add: name_ok_def text_ok_def is_whitespace_def)
  then have "parse_patch (print_patch None [?h]) = Inr \<lparr>aa_patch = print_patch None [?h], aa_hunks = [hunk_of ?h],
           aa_workdir = None, aa_environment_id = None\<rparr>"
    using print_parse [of None "[?h]"] by simp
  from parsed_update_never_panics [OF this] show ?thesis by simp
qed

end
