(* ===== verification/Patch_Files.thy ===== *)
theory Patch_Files
  imports Patch_Parser
begin

text \<open>
  Applying a parsed patch to files: \<open>apply-patch/src/lib.rs\<close>. The file system is the trait
  \<open>ExecutorFileSystem\<close>, here a record of its operations over a world; operations on \<open>PathUri\<close>
  (URL parsing) are a second record. The sandbox context is fixed. Paths are URI texts, a
  writer is a function that gives the error of writing a line, if any.
\<close>

section \<open>The file system interface\<close>

record file_metadata =
  md_is_directory :: bool
  md_is_file :: bool
  md_is_symlink :: bool

text \<open>The boolean argument of each operation is \<open>follow_symlinks\<close>.\<close>

record 'w executor_fs =
  fs_read_file_text :: "str \<Rightarrow> bool \<Rightarrow> 'w \<Rightarrow> io_error + str"
  fs_get_metadata :: "str \<Rightarrow> bool \<Rightarrow> 'w \<Rightarrow> io_error + file_metadata"
  fs_write_file :: "str \<Rightarrow> str \<Rightarrow> bool \<Rightarrow> 'w \<Rightarrow> (io_error + unit) \<times> 'w"
  fs_create_directory :: "str \<Rightarrow> bool \<Rightarrow> 'w \<Rightarrow> (io_error + unit) \<times> 'w"
  fs_remove :: "str \<Rightarrow> bool \<Rightarrow> 'w \<Rightarrow> (io_error + unit) \<times> 'w"

datatype path_convention = Posix | Windows

record path_ops =
  uri_join :: "str \<Rightarrow> str \<Rightarrow> str + str"
  uri_parent :: "str \<Rightarrow> str option"
  uri_native :: "str \<Rightarrow> str"
  uri_convention :: "str \<Rightarrow> path_convention option"

section \<open>Options, deltas and failures\<close>

record apply_patch_options =
  update_file_mode :: update_mode
  follow_symlinks :: bool

definition apply_patch_options_default :: apply_patch_options where
  "apply_patch_options_default = \<lparr>update_file_mode = default_update_mode, follow_symlinks = True\<rparr>"

definition apply_patch_file_update_mode_from_env :: "str option \<Rightarrow> update_mode" where
  "apply_patch_file_update_mode_from_env var =
     (if var = Some (lit ''1'') then PreserveLineEndings else NormalizeToLf)"

datatype applied_patch_file_change =
    AddedFile str "str option"
  | DeletedFile str
  | UpdatedFile "str option" str "str option" str

type_synonym applied_patch_change = "str \<times> applied_patch_file_change"

record applied_patch_delta =
  delta_changes :: "applied_patch_change list"
  delta_exact :: bool

definition delta_empty :: applied_patch_delta where
  "delta_empty = \<lparr>delta_changes = [], delta_exact = True\<rparr>"

definition delta_append :: "applied_patch_delta \<Rightarrow> applied_patch_delta \<Rightarrow> applied_patch_delta" where
  "delta_append d e = \<lparr>delta_changes = delta_changes d @ delta_changes e, delta_exact = (delta_exact d \<and> delta_exact e)\<rparr>"

definition push_change :: "applied_patch_change \<Rightarrow> applied_patch_delta \<Rightarrow> applied_patch_delta" where
  "push_change c d = d\<lparr>delta_changes := delta_changes d @ [c]\<rparr>"

definition and_exact :: "bool \<Rightarrow> applied_patch_delta \<Rightarrow> applied_patch_delta" where
  "and_exact b d = d\<lparr>delta_exact := (delta_exact d \<and> b)\<rparr>"

text \<open>An \<open>anyhow::Error\<close>: an I/O error with its context, or another error with its text.\<close>

datatype anyhow_error =
    AnyIo "str option" io_error
  | AnyPatch patch_error
  | AnyPath str
  | AnyMessage str

fun parse_error_text :: "parse_error \<Rightarrow> str" where
  "parse_error_text (InvalidPatchError m) = lit ''invalid patch: '' @ m"
| "parse_error_text (InvalidHunkError m n) = lit ''invalid hunk at line '' @ show_nat n @ lit '', '' @ m"

fun patch_error_text :: "patch_error \<Rightarrow> str" where
  "patch_error_text (ParseError e) = parse_error_text e"
| "patch_error_text (IoError ctx src) = ctx @ lit '': '' @ src"
| "patch_error_text (ComputeReplacements m) = m"
| "patch_error_text (PathUriError m) = m"
| "patch_error_text ImplicitInvocation =
     lit ''patch detected without explicit call to apply_patch. Rerun as ['' @ [34] @ lit ''apply_patch''
     @ [34] @ lit '', '' @ [34] @ lit ''<patch>'' @ [34] @ lit '']''"
| "patch_error_text Panicked = []"

fun anyhow_text :: "anyhow_error \<Rightarrow> str" where
  "anyhow_text (AnyIo (Some ctx) e) = ctx"
| "anyhow_text (AnyIo None e) = io_message e"
| "anyhow_text (AnyPatch e) = patch_error_text e"
| "anyhow_text (AnyPath m) = m"
| "anyhow_text (AnyMessage m) = m"

definition from_io :: "io_error \<Rightarrow> patch_error" where
  "from_io e = IoError (lit ''I/O error'') (io_message e)"

section \<open>Helpers on files\<close>

definition is_not_found :: "io_error \<Rightarrow> bool" where
  "is_not_found e \<longleftrightarrow> io_kind e = NotFound"

definition ensure_not_directory :: "'w executor_fs \<Rightarrow> bool \<Rightarrow> str \<Rightarrow> 'w \<Rightarrow> io_error + unit" where
  "ensure_not_directory fs f path w =
     and_then (fs_get_metadata fs path f w) (\<lambda>m.
       if md_is_directory m then Inl \<lparr>io_kind = InvalidInput, io_message = lit ''path is a directory''\<rparr>
       else Inr ())"

definition remove_failure_was_side_effect_free :: "'w executor_fs \<Rightarrow> bool \<Rightarrow> str \<Rightarrow> str option \<Rightarrow> 'w \<Rightarrow> bool" where
  "remove_failure_was_side_effect_free fs f path expected w =
     (case expected of
        Some c \<Rightarrow> (case fs_read_file_text fs path f w of Inr c' \<Rightarrow> c' = c | Inl _ \<Rightarrow> False)
      | None \<Rightarrow> False)"

text \<open>Both return whether the delta is still exact.\<close>

definition note_existing_path_delta_support :: "'w executor_fs \<Rightarrow> bool \<Rightarrow> str \<Rightarrow> 'w \<Rightarrow> bool" where
  "note_existing_path_delta_support fs f path w =
     (case fs_get_metadata fs path f w of
        Inr m \<Rightarrow> md_is_file m \<and> \<not> md_is_symlink m
      | Inl e \<Rightarrow> is_not_found e)"

definition read_optional_file_text_for_delta :: "'w executor_fs \<Rightarrow> bool \<Rightarrow> str \<Rightarrow> 'w \<Rightarrow> str option \<times> bool" where
  "read_optional_file_text_for_delta fs f path w =
     (let exact = note_existing_path_delta_support fs f path w in
      case fs_read_file_text fs path f w of
        Inr c \<Rightarrow> (Some c, exact)
      | Inl e \<Rightarrow> (None, exact \<and> is_not_found e))"

definition write_failed :: "path_ops \<Rightarrow> str \<Rightarrow> io_error \<Rightarrow> anyhow_error" where
  "write_failed pa path e = AnyIo (Some (lit ''Failed to write file '' @ uri_native pa path)) e"

definition write_again :: "'w executor_fs \<Rightarrow> path_ops \<Rightarrow> bool \<Rightarrow> str \<Rightarrow> str \<Rightarrow> 'w \<Rightarrow> (anyhow_error + unit) \<times> 'w" where
  "write_again fs pa f path contents w =
     (case fs_write_file fs path contents f w of
        (Inr _, w') \<Rightarrow> (Inr (), w')
      | (Inl e, w') \<Rightarrow> (Inl (write_failed pa path e), w'))"

definition write_file_with_missing_parent_retry ::
  "'w executor_fs \<Rightarrow> path_ops \<Rightarrow> bool \<Rightarrow> str \<Rightarrow> str \<Rightarrow> 'w \<Rightarrow> (anyhow_error + unit) \<times> 'w" where
  "write_file_with_missing_parent_retry fs pa f path contents w =
     (case fs_write_file fs path contents f w of
        (Inr _, w1) \<Rightarrow> (Inr (), w1)
      | (Inl e, w1) \<Rightarrow>
          if is_not_found e
          then (case uri_parent pa path of
                  None \<Rightarrow> write_again fs pa f path contents w1
                | Some parent \<Rightarrow>
                    (case fs_create_directory fs parent f w1 of
                       (Inl e2, w2) \<Rightarrow>
                         (Inl (AnyIo (Some (lit ''Failed to create parent directories for '' @ uri_native pa path)) e2), w2)
                     | (Inr _, w2) \<Rightarrow> write_again fs pa f path contents w2))
          else (Inl (write_failed pa path e), w1))"

section \<open>Hunks\<close>

record affected_paths =
  ap_added :: "str list"
  ap_modified :: "str list"
  ap_deleted :: "str list"

definition affected_empty :: affected_paths where
  "affected_empty = \<lparr>ap_added = [], ap_modified = [], ap_deleted = []\<rparr>"

fun resolve_path :: "path_ops \<Rightarrow> str \<Rightarrow> hunk \<Rightarrow> str + str" where
  "resolve_path pa cwd (UpdateFile path mv chunks) = uri_join pa cwd path"
| "resolve_path pa cwd h = uri_join pa cwd (hunk_path h)"

text \<open>
  Each hunk returns its outcome, the world and the delta; the outcome of a success is the updated
  list of affected paths. \<open>try_write\<close> marks the delta inexact when a write fails.
\<close>

type_synonym 'w hunk_result = "(anyhow_error + affected_paths) \<times> 'w \<times> applied_patch_delta"

definition apply_add ::
  "'w executor_fs \<Rightarrow> path_ops \<Rightarrow> bool \<Rightarrow> str \<Rightarrow> str \<Rightarrow> str \<Rightarrow> 'w \<Rightarrow> applied_patch_delta \<Rightarrow> affected_paths \<Rightarrow> 'w hunk_result" where
  "apply_add fs pa f affected path contents w d ap =
     (let (overwritten, exact) = read_optional_file_text_for_delta fs f path w;
          d1 = and_exact exact d in
      case write_file_with_missing_parent_retry fs pa f path contents w of
        (Inl e, w') \<Rightarrow> (Inl e, w', and_exact False d1)
      | (Inr _, w') \<Rightarrow>
          (Inr (ap\<lparr>ap_added := ap_added ap @ [affected]\<rparr>), w',
           push_change (path, AddedFile contents overwritten) d1))"

definition remove_checked ::
  "'w executor_fs \<Rightarrow> path_ops \<Rightarrow> bool \<Rightarrow> str \<Rightarrow> str \<Rightarrow> str option \<Rightarrow> 'w \<Rightarrow> applied_patch_delta
     \<Rightarrow> (anyhow_error + unit) \<times> 'w \<times> applied_patch_delta" where
  "remove_checked fs pa f ctx path expected w d =
     (case ensure_not_directory fs f path w of
        Inl e \<Rightarrow> (Inl (AnyIo (Some (ctx @ uri_native pa path)) e), w, d)
      | Inr _ \<Rightarrow>
          (case fs_remove fs path f w of
             (Inr _, w') \<Rightarrow> (Inr (), w', d)
           | (Inl e, w') \<Rightarrow>
               (Inl (AnyIo (Some (ctx @ uri_native pa path)) e), w',
                and_exact (remove_failure_was_side_effect_free fs f path expected w') d)))"

definition apply_delete ::
  "'w executor_fs \<Rightarrow> path_ops \<Rightarrow> bool \<Rightarrow> str \<Rightarrow> str \<Rightarrow> 'w \<Rightarrow> applied_patch_delta \<Rightarrow> affected_paths \<Rightarrow> 'w hunk_result" where
  "apply_delete fs pa f affected path w d ap =
     (let d1 = and_exact (note_existing_path_delta_support fs f path w) d;
          deleted = (case fs_read_file_text fs path f w of Inr c \<Rightarrow> Some c | Inl _ \<Rightarrow> None);
          d2 = (if deleted = None then and_exact False d1 else d1) in
      case remove_checked fs pa f (lit ''Failed to delete file '') path deleted w d2 of
        (Inl e, w', d3) \<Rightarrow> (Inl e, w', d3)
      | (Inr _, w', d3) \<Rightarrow>
          (Inr (ap\<lparr>ap_deleted := ap_deleted ap @ [affected]\<rparr>), w',
           (case deleted of Some c \<Rightarrow> push_change (path, DeletedFile c) d3 | None \<Rightarrow> d3)))"

definition apply_move ::
  "'w executor_fs \<Rightarrow> path_ops \<Rightarrow> bool \<Rightarrow> str \<Rightarrow> str \<Rightarrow> str \<Rightarrow> applied_patch \<Rightarrow> 'w \<Rightarrow> applied_patch_delta \<Rightarrow> affected_paths \<Rightarrow> 'w hunk_result" where
  "apply_move fs pa f affected path dest p w d ap =
     (let (overwritten, exact) = read_optional_file_text_for_delta fs f dest w;
          d1 = and_exact exact d in
      case write_file_with_missing_parent_retry fs pa f dest (new_contents p) w of
        (Inl e, w1) \<Rightarrow> (Inl e, w1, and_exact False d1)
      | (Inr _, w1) \<Rightarrow>
          (let index = length (delta_changes d1);
               d2 = push_change (dest, AddedFile (new_contents p) overwritten) d1 in
           case remove_checked fs pa f (lit ''Failed to remove original '') path (Some (original_contents p)) w1 d2 of
             (Inl e, w2, d3) \<Rightarrow> (Inl e, w2, d3)
           | (Inr _, w2, d3) \<Rightarrow>
               (Inr (ap\<lparr>ap_modified := ap_modified ap @ [affected]\<rparr>), w2,
                d3\<lparr>delta_changes := (delta_changes d3)[index :=
                  (path, UpdatedFile (Some dest) (original_contents p) overwritten (new_contents p))]\<rparr>)))"

definition apply_in_place ::
  "'w executor_fs \<Rightarrow> path_ops \<Rightarrow> bool \<Rightarrow> str \<Rightarrow> str \<Rightarrow> applied_patch \<Rightarrow> 'w \<Rightarrow> applied_patch_delta \<Rightarrow> affected_paths \<Rightarrow> 'w hunk_result" where
  "apply_in_place fs pa f affected path p w d ap =
     (case fs_write_file fs path (new_contents p) f w of
        (Inl e, w1) \<Rightarrow> (Inl (write_failed pa path e), w1, and_exact False d)
      | (Inr _, w1) \<Rightarrow>
          (Inr (ap\<lparr>ap_modified := ap_modified ap @ [affected]\<rparr>), w1,
           push_change (path, UpdatedFile None (original_contents p) None (new_contents p)) d))"

definition io_text :: "io_error + str \<Rightarrow> str + str" where
  "io_text r = (case r of Inl e \<Rightarrow> Inl (io_message e) | Inr c \<Rightarrow> Inr c)"

definition apply_update ::
  "'w executor_fs \<Rightarrow> path_ops \<Rightarrow> apply_patch_options \<Rightarrow> str \<Rightarrow> str \<Rightarrow> str \<Rightarrow> str option \<Rightarrow> update_file_chunk list
     \<Rightarrow> 'w \<Rightarrow> applied_patch_delta \<Rightarrow> affected_paths \<Rightarrow> 'w hunk_result" where
  "apply_update fs pa opts cwd affected path mv chunks w d ap =
     (let f = follow_symlinks opts;
          d1 = and_exact (note_existing_path_delta_support fs f path w) d in
      case derive_new_contents_from_chunks (io_text (fs_read_file_text fs path f w)) (uri_native pa path)
             chunks (update_file_mode opts) of
        Inl e \<Rightarrow> (Inl (AnyPatch e), w, d1)
      | Inr p \<Rightarrow>
          (case mv of
             None \<Rightarrow> apply_in_place fs pa f affected path p w d1 ap
           | Some dest \<Rightarrow>
               (case uri_join pa cwd dest of
                  Inl e \<Rightarrow> (Inl (AnyPath e), w, d1)
                | Inr dest_uri \<Rightarrow> apply_move fs pa f affected path dest_uri p w d1 ap)))"

definition apply_hunk ::
  "'w executor_fs \<Rightarrow> path_ops \<Rightarrow> apply_patch_options \<Rightarrow> str \<Rightarrow> hunk \<Rightarrow> 'w \<Rightarrow> applied_patch_delta \<Rightarrow> affected_paths \<Rightarrow> 'w hunk_result" where
  "apply_hunk fs pa opts cwd h w d ap =
     (case resolve_path pa cwd h of
        Inl e \<Rightarrow> (Inl (AnyPath e), w, d)
      | Inr path \<Rightarrow>
          (case h of
             AddFile _ contents \<Rightarrow> apply_add fs pa (follow_symlinks opts) (hunk_path h) path contents w d ap
           | DeleteFile _ \<Rightarrow> apply_delete fs pa (follow_symlinks opts) (hunk_path h) path w d ap
           | UpdateFile _ mv chunks \<Rightarrow> apply_update fs pa opts cwd (hunk_path h) path mv chunks w d ap))"

fun apply_hunk_list ::
  "'w executor_fs \<Rightarrow> path_ops \<Rightarrow> apply_patch_options \<Rightarrow> str \<Rightarrow> hunk list \<Rightarrow> 'w \<Rightarrow> applied_patch_delta \<Rightarrow> affected_paths \<Rightarrow> 'w hunk_result" where
  "apply_hunk_list fs pa opts cwd [] w d ap = (Inr ap, w, d)"
| "apply_hunk_list fs pa opts cwd (h # hs) w d ap =
     (case apply_hunk fs pa opts cwd h w d ap of
        (Inl e, w', d') \<Rightarrow> (Inl e, w', d')
      | (Inr ap', w', d') \<Rightarrow> apply_hunk_list fs pa opts cwd hs w' d' ap')"

definition apply_hunks_to_files ::
  "'w executor_fs \<Rightarrow> path_ops \<Rightarrow> apply_patch_options \<Rightarrow> str \<Rightarrow> hunk list \<Rightarrow> 'w \<Rightarrow> applied_patch_delta \<Rightarrow> 'w hunk_result" where
  "apply_hunks_to_files fs pa opts cwd hunks w d =
     (if hunks = [] then (Inl (AnyMessage (lit ''No files were modified.'')), w, d)
      else apply_hunk_list fs pa opts cwd hunks w d affected_empty)"

section \<open>Whole patches\<close>

type_synonym writer = "str \<Rightarrow> io_error option"

fun write_lines :: "writer \<Rightarrow> str list \<Rightarrow> io_error option" where
  "write_lines wr [] = None"
| "write_lines wr (l # ls) = (case wr l of Some e \<Rightarrow> Some e | None \<Rightarrow> write_lines wr ls)"

definition summary_lines :: "affected_paths \<Rightarrow> str list" where
  "summary_lines a = lit ''Success. Updated the following files:''
     # map (\<lambda>p. lit ''A '' @ p) (ap_added a) @ map (\<lambda>p. lit ''M '' @ p) (ap_modified a)
     @ map (\<lambda>p. lit ''D '' @ p) (ap_deleted a)"

definition print_summary :: "affected_paths \<Rightarrow> writer \<Rightarrow> io_error option" where
  "print_summary a wr = write_lines wr (summary_lines a)"

record apply_patch_failure =
  failure_error :: patch_error
  failure_delta :: applied_patch_delta

definition failure_of :: "anyhow_error \<Rightarrow> patch_error" where
  "failure_of e = (case e of AnyIo ctx io \<Rightarrow> from_io io | _ \<Rightarrow> IoError (anyhow_text e) (anyhow_text e))"

definition apply_hunks_with_options ::
  "'w executor_fs \<Rightarrow> path_ops \<Rightarrow> apply_patch_options \<Rightarrow> str \<Rightarrow> writer \<Rightarrow> writer \<Rightarrow> hunk list \<Rightarrow> 'w
     \<Rightarrow> (apply_patch_failure + applied_patch_delta) \<times> 'w" where
  "apply_hunks_with_options fs pa opts cwd stdout stderr hunks w =
     (case apply_hunks_to_files fs pa opts cwd hunks w delta_empty of
        (Inr affected, w', d) \<Rightarrow>
          (case print_summary affected stdout of
             Some e \<Rightarrow> (Inl \<lparr>failure_error = from_io e, failure_delta = d\<rparr>, w')
           | None \<Rightarrow> (Inr d, w'))
      | (Inl err, w', d) \<Rightarrow>
          (case stderr (anyhow_text err) of
             Some e \<Rightarrow> (Inl \<lparr>failure_error = from_io e, failure_delta = d\<rparr>, w')
           | None \<Rightarrow> (Inl \<lparr>failure_error = failure_of err, failure_delta = d\<rparr>, w')))"

definition apply_hunks ::
  "'w executor_fs \<Rightarrow> path_ops \<Rightarrow> str \<Rightarrow> writer \<Rightarrow> writer \<Rightarrow> hunk list \<Rightarrow> 'w
     \<Rightarrow> (apply_patch_failure + applied_patch_delta) \<times> 'w" where
  "apply_hunks fs pa cwd stdout stderr hunks w =
     apply_hunks_with_options fs pa apply_patch_options_default cwd stdout stderr hunks w"

fun invalid_patch_line :: "parse_error \<Rightarrow> str" where
  "invalid_patch_line (InvalidPatchError m) = lit ''Invalid patch: '' @ m"
| "invalid_patch_line (InvalidHunkError m n) = lit ''Invalid patch hunk on line '' @ show_nat n @ lit '': '' @ m"

definition without_delta :: "patch_error \<Rightarrow> apply_patch_failure" where
  "without_delta e = \<lparr>failure_error = e, failure_delta = delta_empty\<rparr>"

definition apply_patch_with_options ::
  "'w executor_fs \<Rightarrow> path_ops \<Rightarrow> str \<Rightarrow> apply_patch_options \<Rightarrow> str \<Rightarrow> writer \<Rightarrow> writer \<Rightarrow> 'w
     \<Rightarrow> (apply_patch_failure + applied_patch_delta) \<times> 'w" where
  "apply_patch_with_options fs pa patch opts cwd stdout stderr w =
     (case parse_patch patch of
        Inr source \<Rightarrow> apply_hunks_with_options fs pa opts cwd stdout stderr (aa_hunks source) w
      | Inl e \<Rightarrow>
          (case stderr (invalid_patch_line e) of
             Some io \<Rightarrow> (Inl (without_delta (from_io io)), w)
           | None \<Rightarrow> (Inl (without_delta (ParseError e)), w)))"

definition apply_patch ::
  "'w executor_fs \<Rightarrow> path_ops \<Rightarrow> str \<Rightarrow> str \<Rightarrow> writer \<Rightarrow> writer \<Rightarrow> 'w
     \<Rightarrow> (apply_patch_failure + applied_patch_delta) \<times> 'w" where
  "apply_patch fs pa patch cwd stdout stderr w =
     apply_patch_with_options fs pa patch apply_patch_options_default cwd stdout stderr w"

end
