(* ===== verification/Patch_Delta.thy ===== *)
theory Patch_Delta
  imports Patch_Files
begin

text \<open>
  What the delta of an applied patch says about the files. The texts of the files are a view of
  the world; the operations of the file system relate to the view by the contract below. An exact
  delta, replayed, gives the texts after the patch, and undone, the texts before it; this holds
  also when the patch failed half way.
\<close>

section \<open>Replaying and undoing changes\<close>

type_synonym texts = "str \<Rightarrow> str option"

fun replay_change :: "applied_patch_change \<Rightarrow> texts \<Rightarrow> texts" where
  "replay_change (p, AddedFile c ow) m = m(p := Some c)"
| "replay_change (p, DeletedFile c) m = m(p := None)"
| "replay_change (p, UpdatedFile None old ow new) m = m(p := Some new)"
| "replay_change (p, UpdatedFile (Some dest) old ow new) m = m(dest := Some new, p := None)"

fun undo_change :: "applied_patch_change \<Rightarrow> texts \<Rightarrow> texts" where
  "undo_change (p, AddedFile c ow) m = m(p := ow)"
| "undo_change (p, DeletedFile c) m = m(p := Some c)"
| "undo_change (p, UpdatedFile None old ow new) m = m(p := Some old)"
| "undo_change (p, UpdatedFile (Some dest) old ow new) m = m(dest := ow, p := Some old)"

definition replay :: "applied_patch_change list \<Rightarrow> texts \<Rightarrow> texts" where
  "replay cs m = fold replay_change cs m"

definition undo :: "applied_patch_change list \<Rightarrow> texts \<Rightarrow> texts" where
  "undo cs m = foldr undo_change cs m"

lemma replay_simps [simp]: "replay [] m = m" "replay (cs @ [c]) m = replay_change c (replay cs m)"
  "replay (cs @ ds) m = replay ds (replay cs m)"
  by (simp_all add: replay_def)

lemma undo_simps [simp]: "undo [] m = m" "undo (cs @ ds) m = undo cs (undo ds m)" "undo [c] m = undo_change c m"
  by (simp_all add: undo_def)

text \<open>The changes record what they overwrite: each one, undone where it was applied, has no effect.\<close>

fun consistent :: "applied_patch_change list \<Rightarrow> texts \<Rightarrow> bool" where
  "consistent [] m \<longleftrightarrow> True"
| "consistent (c # cs) m \<longleftrightarrow> undo_change c (replay_change c m) = m \<and> consistent cs (replay_change c m)"

lemma consistent_append: "consistent (cs @ ds) m \<longleftrightarrow> consistent cs m \<and> consistent ds (replay cs m)"
  by (induction cs arbitrary: m) (auto simp: replay_def)

lemma consistent_undo: "consistent cs m \<Longrightarrow> undo cs (replay cs m) = m"
  by (induction cs arbitrary: m) (auto simp: replay_def undo_def)

section \<open>The contract of the file system\<close>

text \<open>
  \<open>plain\<close>: the path is a regular file and no symbolic link, or absent. On such a path a
  successful write or removal changes the text of that path and of no other (distinct paths are
  distinct files); a write that finds a parent missing changes nothing; creating the parents of a
  path changes no text; a failed removal leaves its own text as it was or gone, and no other changed.
\<close>

definition plain :: "'w executor_fs \<Rightarrow> bool \<Rightarrow> str \<Rightarrow> 'w \<Rightarrow> bool" where
  "plain fs f p w = note_existing_path_delta_support fs f p w"

definition keeps_plain :: "'w executor_fs \<Rightarrow> bool \<Rightarrow> 'w \<Rightarrow> 'w \<Rightarrow> bool" where
  "keeps_plain fs f w w' \<longleftrightarrow> (\<forall>q. plain fs f q w \<longrightarrow> plain fs f q w')"

definition read_contract :: "'w executor_fs \<Rightarrow> bool \<Rightarrow> ('w \<Rightarrow> texts) \<Rightarrow> bool" where
  "read_contract fs f txt \<longleftrightarrow>
     (\<forall>p w. case fs_read_file_text fs p f w of
        Inr c \<Rightarrow> txt w p = Some c | Inl e \<Rightarrow> is_not_found e \<longrightarrow> txt w p = None)"

definition write_contract :: "'w executor_fs \<Rightarrow> bool \<Rightarrow> ('w \<Rightarrow> texts) \<Rightarrow> bool" where
  "write_contract fs f txt \<longleftrightarrow>
     (\<forall>p c w. plain fs f p w \<longrightarrow> (case fs_write_file fs p c f w of
        (Inr _, w') \<Rightarrow> txt w' = (txt w)(p := Some c) \<and> keeps_plain fs f w w'
      | (Inl e, w') \<Rightarrow> is_not_found e \<longrightarrow> txt w' = txt w \<and> keeps_plain fs f w w'))"

definition directory_contract :: "'w executor_fs \<Rightarrow> bool \<Rightarrow> ('w \<Rightarrow> texts) \<Rightarrow> bool" where
  "directory_contract fs f txt \<longleftrightarrow>
     (\<forall>p w. let w' = snd (fs_create_directory fs p f w) in txt w' = txt w \<and> keeps_plain fs f w w')"

definition remove_contract :: "'w executor_fs \<Rightarrow> bool \<Rightarrow> ('w \<Rightarrow> texts) \<Rightarrow> bool" where
  "remove_contract fs f txt \<longleftrightarrow>
     (\<forall>p w. plain fs f p w \<longrightarrow> (case fs_remove fs p f w of
        (Inr _, w') \<Rightarrow> txt w' = (txt w)(p := None)
      | (Inl e, w') \<Rightarrow> txt w' = txt w \<or> txt w' = (txt w)(p := None)))"

definition fs_contract :: "'w executor_fs \<Rightarrow> bool \<Rightarrow> ('w \<Rightarrow> texts) \<Rightarrow> bool" where
  "fs_contract fs f txt \<longleftrightarrow> read_contract fs f txt \<and> write_contract fs f txt
     \<and> directory_contract fs f txt \<and> remove_contract fs f txt"

lemma contract_read:
  assumes "fs_contract fs f txt" "fs_read_file_text fs p f w = Inr c"
  shows "txt w p = Some c"
  using assms by (auto simp: fs_contract_def read_contract_def split: sum.splits)

lemma contract_read_missing:
  assumes "fs_contract fs f txt" "fs_read_file_text fs p f w = Inl e" "is_not_found e"
  shows "txt w p = None"
  using assms by (auto simp: fs_contract_def read_contract_def split: sum.splits)

lemma contract_write:
  assumes "fs_contract fs f txt" "plain fs f p w" "fs_write_file fs p c f w = (Inr u, w')"
  shows "txt w' = (txt w)(p := Some c)" "keeps_plain fs f w w'"
  using assms by (auto simp: fs_contract_def write_contract_def split: sum.splits prod.splits)

lemma contract_write_missing:
  assumes "fs_contract fs f txt" "plain fs f p w" "fs_write_file fs p c f w = (Inl e, w')" "is_not_found e"
  shows "txt w' = txt w" "keeps_plain fs f w w'"
  using assms by (auto simp: fs_contract_def write_contract_def split: sum.splits prod.splits)

lemma contract_directory:
  assumes "fs_contract fs f txt" "fs_create_directory fs p f w = (r, w')"
  shows "txt w' = txt w" "keeps_plain fs f w w'"
  using assms unfolding fs_contract_def directory_contract_def Let_def by (metis snd_conv)+

lemma contract_remove:
  assumes "fs_contract fs f txt" "plain fs f p w" "fs_remove fs p f w = (Inr u, w')"
  shows "txt w' = (txt w)(p := None)"
  using assms by (auto simp: fs_contract_def remove_contract_def split: sum.splits prod.splits)

lemma contract_remove_failed:
  assumes "fs_contract fs f txt" "plain fs f p w" "fs_remove fs p f w = (Inl e, w')"
  shows "txt w' = txt w \<or> txt w' = (txt w)(p := None)"
  using assms(1) [unfolded fs_contract_def remove_contract_def, THEN conjunct2, THEN conjunct2, THEN conjunct2,
      rule_format, OF assms(2)] assms(3) by simp

section \<open>Each step\<close>

lemma keeps_plain_trans: "keeps_plain fs f a b \<Longrightarrow> keeps_plain fs f b c \<Longrightarrow> keeps_plain fs f a c"
  by (auto simp: keeps_plain_def)

lemma plain_kept: "plain fs f p w \<Longrightarrow> keeps_plain fs f w w' \<Longrightarrow> plain fs f p w'"
  by (auto simp: keeps_plain_def)

lemma write_again_ok:
  assumes "fs_contract fs f txt" "plain fs f p w" "write_again fs pa f p c w = (Inr u, w')"
  shows "txt w' = (txt w)(p := Some c)" "keeps_plain fs f w w'"
  using assms contract_write [OF assms(1,2)] by (auto simp: write_again_def split: prod.splits sum.splits)

lemma retry_ok:
  assumes con: "fs_contract fs f txt" and pl: "plain fs f p w"
    and r: "write_file_with_missing_parent_retry fs pa f p c w = (Inr u, w')"
  shows "txt w' = (txt w)(p := Some c) \<and> keeps_plain fs f w w'"
proof -
  obtain res w1 where 1: "fs_write_file fs p c f w = (res, w1)" by fastforce
  show ?thesis
  proof (cases res)
    case (Inr v)
    then show ?thesis using r 1 contract_write [OF con pl] by (auto simp: write_file_with_missing_parent_retry_def)
  next
    case (Inl e)
    then have nf: "is_not_found e" using r 1 by (auto simp: write_file_with_missing_parent_retry_def split: if_splits)
    note m = contract_write_missing [OF con pl 1 [unfolded Inl] nf]
    show ?thesis
    proof (cases "uri_parent pa p")
      case None
      then have "write_again fs pa f p c w1 = (Inr u, w')"
        using r 1 Inl nf by (simp add: write_file_with_missing_parent_retry_def)
      from write_again_ok [OF con plain_kept [OF pl m(2)] this] m show ?thesis by (auto intro: keeps_plain_trans)
    next
      case (Some d)
      then obtain v w2 where 2: "fs_create_directory fs d f w1 = (Inr v, w2)" "write_again fs pa f p c w2 = (Inr u, w')"
        using r 1 Inl nf by (auto simp: write_file_with_missing_parent_retry_def split: prod.splits sum.splits)
      note dir = contract_directory [OF con 2(1)]
      have k: "keeps_plain fs f w w2" using m(2) dir(2) by (rule keeps_plain_trans)
      from write_again_ok [OF con plain_kept [OF pl k] 2(2)] m(1) dir(1) k show ?thesis
        by (auto intro: keeps_plain_trans)
    qed
  qed
qed

lemma read_optional_exact:
  assumes "fs_contract fs f txt" "read_optional_file_text_for_delta fs f p w = (ow, True)"
  shows "txt w p = ow" "plain fs f p w"
  using assms contract_read [OF assms(1)] contract_read_missing [OF assms(1)]
  by (auto simp: read_optional_file_text_for_delta_def plain_def Let_def split: sum.splits)

text \<open>A step from a delta to a longer one that explains the change of the texts.\<close>

definition explains :: "applied_patch_delta \<Rightarrow> texts \<Rightarrow> applied_patch_delta \<Rightarrow> texts \<Rightarrow> bool" where
  "explains d m d' m' \<longleftrightarrow> (delta_exact d' \<longrightarrow> delta_exact d
     \<and> (\<exists>cs. delta_changes d' = delta_changes d @ cs \<and> m' = replay cs m \<and> consistent cs m))"

lemma explains_inexact: "\<not> delta_exact d' \<Longrightarrow> explains d m d' m'"
  by (simp add: explains_def)

lemma explains_same: "explains d m d m" "explains d m (and_exact b d) m"
  by (auto simp: explains_def and_exact_def)

lemma explains_one:
  assumes "b \<Longrightarrow> m' = replay_change c m \<and> undo_change c m' = m"
  shows "explains d m (push_change c (and_exact b d)) m'"
  using assms by (auto simp: explains_def push_change_def and_exact_def replay_def intro!: exI [of _ "[c]"])

lemma explains_trans: "explains d m d1 m1 \<Longrightarrow> explains d1 m1 d2 m2 \<Longrightarrow> explains d m d2 m2"
  unfolding explains_def by (metis append.assoc replay_simps(3) consistent_append)

lemma add_explains:
  assumes con: "fs_contract fs f txt" and r: "apply_add fs pa f a p c w d ap = (res, w', d')"
  shows "explains d (txt w) d' (txt w')"
proof -
  obtain ow ex where o: "read_optional_file_text_for_delta fs f p w = (ow, ex)" by fastforce
  obtain wr w1 where wr: "write_file_with_missing_parent_retry fs pa f p c w = (wr, w1)" by fastforce
  show ?thesis
  proof (cases wr)
    case (Inl e)
    then show ?thesis using r o wr by (auto simp: apply_add_def and_exact_def intro: explains_inexact)
  next
    case (Inr u)
    then have d': "w' = w1" "d' = push_change (p, AddedFile c ow) (and_exact ex d)"
      using r o wr by (auto simp: apply_add_def)
    show ?thesis unfolding d'
    proof (rule explains_one)
      assume ex
      then have "txt w p = ow" "plain fs f p w" using read_optional_exact [OF con] o by auto
      then show "txt w1 = replay_change (p, AddedFile c ow) (txt w)
          \<and> undo_change (p, AddedFile c ow) (txt w1) = txt w"
        using retry_ok [OF con _ wr [unfolded Inr]] by auto
    qed
  qed
qed

lemma side_effect_free:
  assumes con: "fs_contract fs f txt" and pl: "plain fs f p w" and r: "fs_remove fs p f w = (Inl e, w')"
    and free: "remove_failure_was_side_effect_free fs f p expected w'"
  shows "txt w' = txt w"
proof -
  have "txt w' p \<noteq> None"
    using free contract_read [OF con]
    by (auto simp: remove_failure_was_side_effect_free_def split: option.splits sum.splits)
  then show ?thesis using contract_remove_failed [OF con pl r] by auto
qed

lemma remove_checked_cases:
  assumes con: "fs_contract fs f txt" and r: "remove_checked fs pa f ctx p expected w d = (res, w', d')"
    and pl: "delta_exact d \<Longrightarrow> plain fs f p w"
  shows "delta_changes d' = delta_changes d" "delta_exact d' \<Longrightarrow> delta_exact d"
    "delta_exact d' \<Longrightarrow> txt w' = (case res of Inr _ \<Rightarrow> (txt w)(p := None) | Inl _ \<Rightarrow> txt w)"
proof -
  show "delta_changes d' = delta_changes d" "delta_exact d' \<Longrightarrow> delta_exact d"
    using r by (auto simp: remove_checked_def and_exact_def split: sum.splits prod.splits)
  assume ex: "delta_exact d'"
  then have exd: "delta_exact d" using r by (auto simp: remove_checked_def and_exact_def split: sum.splits prod.splits)
  show "txt w' = (case res of Inr _ \<Rightarrow> (txt w)(p := None) | Inl _ \<Rightarrow> txt w)"
  proof (cases "ensure_not_directory fs f p w")
    case (Inl e)
    then show ?thesis using r by (auto simp: remove_checked_def)
  next
    case (Inr u)
    obtain rr w1 where rm: "fs_remove fs p f w = (rr, w1)" by fastforce
    show ?thesis
    proof (cases rr)
      case ok: (Inr v)
      then show ?thesis using r Inr rm contract_remove [OF con pl [OF exd]] by (auto simp: remove_checked_def)
    next
      case err: (Inl e)
      then have free: "remove_failure_was_side_effect_free fs f p expected w1" "w' = w1" "\<exists>x. res = Inl x"
        using r Inr rm ex by (auto simp: remove_checked_def and_exact_def)
      then show ?thesis using side_effect_free [OF con pl [OF exd] rm [unfolded err]] by auto
    qed
  qed
qed

lemma delete_explains:
  assumes con: "fs_contract fs f txt" and r: "apply_delete fs pa f a p w d ap = (res, w', d')"
  shows "explains d (txt w) d' (txt w')"
proof -
  let ?d1 = "and_exact (note_existing_path_delta_support fs f p w) d"
  show ?thesis
  proof (cases "fs_read_file_text fs p f w")
    case (Inl e)
    obtain rr w1 d3 where rc: "remove_checked fs pa f (lit ''Failed to delete file '') p None w (and_exact False ?d1) = (rr, w1, d3)"
      by (cases "remove_checked fs pa f (lit ''Failed to delete file '') p None w (and_exact False ?d1)")
    have "\<not> delta_exact d3"
      using rc by (auto simp: remove_checked_def and_exact_def split: sum.splits prod.splits)
    then show ?thesis using r Inl rc by (auto simp: apply_delete_def Let_def split: sum.splits intro: explains_inexact)
  next
    case (Inr c)
    obtain rr w1 d3 where rc: "remove_checked fs pa f (lit ''Failed to delete file '') p (Some c) w ?d1 = (rr, w1, d3)"
      by (cases "remove_checked fs pa f (lit ''Failed to delete file '') p (Some c) w ?d1")
    have old: "txt w p = Some c" using contract_read [OF con Inr] .
    have pl: "delta_exact ?d1 \<Longrightarrow> plain fs f p w" by (simp add: and_exact_def plain_def)
    note cs = remove_checked_cases [OF con rc pl]
    have d': "w' = w1" "d' = (case rr of Inr _ \<Rightarrow> push_change (p, DeletedFile c) d3 | Inl _ \<Rightarrow> d3)"
      using r Inr rc by (auto simp: apply_delete_def Let_def split: sum.splits)
    show ?thesis
    proof (cases "delta_exact d3")
      case True
      then have "delta_exact d" "delta_changes d3 = delta_changes d"
        "txt w1 = (case rr of Inr _ \<Rightarrow> (txt w)(p := None) | Inl _ \<Rightarrow> txt w)"
        using cs old by (auto simp: and_exact_def)
      then show ?thesis using old True unfolding d'
        by (cases rr) (auto simp: explains_def push_change_def replay_def undo_def fun_upd_idem)
    qed (auto simp: d' push_change_def split: sum.split intro: explains_inexact)
  qed
qed

lemma move_explains:
  assumes con: "fs_contract fs f txt" and r: "apply_move fs pa f a p dest ap0 w d ap = (res, w', d')"
    and pl: "delta_exact d \<Longrightarrow> plain fs f p w" and old: "txt w p = Some (original_contents ap0)"
  shows "explains d (txt w) d' (txt w')"
proof -
  obtain ow ex where o: "read_optional_file_text_for_delta fs f dest w = (ow, ex)" by fastforce
  obtain wr w1 where wr: "write_file_with_missing_parent_retry fs pa f dest (new_contents ap0) w = (wr, w1)" by fastforce
  let ?d1 = "and_exact ex d"
  let ?d2 = "push_change (dest, AddedFile (new_contents ap0) ow) ?d1"
  show ?thesis
  proof (cases wr)
    case (Inl e)
    then show ?thesis using r o wr by (auto simp: apply_move_def and_exact_def intro: explains_inexact)
  next
    case (Inr u)
    obtain rr w2 d3 where rc: "remove_checked fs pa f (lit ''Failed to remove original '') p
        (Some (original_contents ap0)) w1 ?d2 = (rr, w2, d3)"
      by (cases "remove_checked fs pa f (lit ''Failed to remove original '') p (Some (original_contents ap0)) w1 ?d2")
    have d': "w' = w2" "d' = (case rr of Inl _ \<Rightarrow> d3 | Inr _ \<Rightarrow>
        d3\<lparr>delta_changes := (delta_changes d3)[length (delta_changes ?d1) :=
          (p, UpdatedFile (Some dest) (original_contents ap0) ow (new_contents ap0))]\<rparr>)"
      using r o wr Inr rc by (auto simp: apply_move_def Let_def split: sum.splits)
    show ?thesis
    proof (cases "delta_exact d3")
      case True
      have ex2: "delta_exact ?d2"
        using rc True by (auto simp: remove_checked_def and_exact_def split: sum.splits prod.splits)
      then have ex1: "delta_exact d" ex by (auto simp: push_change_def and_exact_def)
      then have dest: "txt w dest = ow" "plain fs f dest w" using read_optional_exact [OF con] o by auto
      have w1: "txt w1 = (txt w)(dest := Some (new_contents ap0))" "keeps_plain fs f w w1"
        using retry_ok [OF con dest(2) wr [unfolded Inr]] by auto
      have pl1: "plain fs f p w1" using plain_kept [OF pl [OF ex1(1)] w1(2)] .
      have cs: "delta_changes d3 = delta_changes ?d2"
        "txt w2 = (case rr of Inr _ \<Rightarrow> (txt w1)(p := None) | Inl _ \<Rightarrow> txt w1)"
        using remove_checked_cases [OF con rc pl1] True by auto
      show ?thesis
      proof (cases rr)
        case (Inl e)
        let ?c = "(dest, AddedFile (new_contents ap0) ow)"
        have "explains d (txt w) d3 (txt w2)"
          using explains_one [of True "txt w2" ?c "txt w" d] cs Inl w1(1) dest(1) ex1
          by (auto simp: explains_def push_change_def and_exact_def)
        then show ?thesis by (simp add: d' Inl)
      next
        case ok: (Inr v)
        let ?c = "(p, UpdatedFile (Some dest) (original_contents ap0) ow (new_contents ap0))"
        have "delta_changes d' = delta_changes d @ [?c]" using cs(1) by (simp add: d' ok push_change_def and_exact_def)
        moreover have "txt w2 = replay_change ?c (txt w)" "undo_change ?c (txt w2) = txt w"
          using cs(2) ok w1(1) dest(1) old by auto
        ultimately show ?thesis using ex1(1)
          by (auto simp: explains_def d'(1) replay_def intro!: exI [of _ "[?c]"])
      qed
    qed (auto simp: d' split: sum.split intro: explains_inexact)
  qed
qed

lemma in_place_explains:
  assumes con: "fs_contract fs f txt" and r: "apply_in_place fs pa f a p ap0 w d ap = (res, w', d')"
    and pl: "delta_exact d \<Longrightarrow> plain fs f p w" and old: "txt w p = Some (original_contents ap0)"
  shows "explains d (txt w) d' (txt w')"
proof -
  obtain wr w1 where wr: "fs_write_file fs p (new_contents ap0) f w = (wr, w1)" by fastforce
  show ?thesis
  proof (cases wr)
    case (Inl e)
    then show ?thesis using r wr by (auto simp: apply_in_place_def and_exact_def intro: explains_inexact)
  next
    case (Inr u)
    let ?c = "(p, UpdatedFile None (original_contents ap0) None (new_contents ap0))"
    have d': "w' = w1" "d' = push_change ?c d" using r wr Inr by (auto simp: apply_in_place_def)
    have "d = and_exact (delta_exact d) d" by (simp add: and_exact_def)
    moreover have "explains d (txt w) (push_change ?c (and_exact (delta_exact d) d)) (txt w1)"
      using contract_write [OF con pl wr [unfolded Inr]] old by (intro explains_one) (auto simp: fun_upd_idem)
    ultimately show ?thesis unfolding d' by simp
  qed
qed

lemma derive_original:
  assumes "derive_new_contents_from_chunks (io_text r) path chunks mode = Inr p"
  shows "r = Inr (original_contents p)"
  using assms by (auto simp: derive_new_contents_from_chunks_def io_text_def and_then_Inr_iff split: sum.splits)

lemma update_explains:
  assumes con: "fs_contract fs (follow_symlinks opts) txt"
    and r: "apply_update fs pa opts cwd a p mv chunks w d ap = (res, w', d')"
  shows "explains d (txt w) d' (txt w')"
proof -
  let ?f = "follow_symlinks opts"
  let ?d1 = "and_exact (note_existing_path_delta_support fs ?f p w) d"
  have pl: "delta_exact ?d1 \<Longrightarrow> plain fs ?f p w" by (simp add: and_exact_def plain_def)
  have start: "explains d (txt w) ?d1 (txt w)" by (rule explains_same)
  show ?thesis
  proof (cases "derive_new_contents_from_chunks (io_text (fs_read_file_text fs p ?f w)) (uri_native pa p)
             chunks (update_file_mode opts)")
    case (Inl e)
    then show ?thesis using r start by (auto simp: apply_update_def Let_def)
  next
    case (Inr p0)
    then have old: "txt w p = Some (original_contents p0)" using derive_original contract_read [OF con] by blast
    show ?thesis
    proof (cases mv)
      case None
      then have "apply_in_place fs pa ?f a p p0 w ?d1 ap = (res, w', d')" using r Inr by (simp add: apply_update_def Let_def)
      from in_place_explains [OF con this pl old] show ?thesis by (rule explains_trans [OF start])
    next
      case (Some dest)
      show ?thesis
      proof (cases "uri_join pa cwd dest")
        case (Inl e)
        then show ?thesis using r Inr Some start by (auto simp: apply_update_def Let_def)
      next
        case dest: (Inr dest_uri)
        then have "apply_move fs pa ?f a p dest_uri p0 w ?d1 ap = (res, w', d')"
          using r Inr Some by (simp add: apply_update_def Let_def)
        from move_explains [OF con this pl old] show ?thesis by (rule explains_trans [OF start])
      qed
    qed
  qed
qed

lemma hunk_explains:
  assumes "fs_contract fs (follow_symlinks opts) txt" "apply_hunk fs pa opts cwd h w d ap = (res, w', d')"
  shows "explains d (txt w) d' (txt w')"
proof (cases "resolve_path pa cwd h")
  case (Inl e)
  then show ?thesis using assms(2) by (auto simp: apply_hunk_def intro: explains_same)
next
  case (Inr p)
  then show ?thesis using assms(2) add_explains [OF assms(1)] delete_explains [OF assms(1)] update_explains [OF assms(1)]
    by (cases h) (auto simp: apply_hunk_def)
qed

lemma hunks_explain:
  assumes "fs_contract fs (follow_symlinks opts) txt" "apply_hunk_list fs pa opts cwd hs w d ap = (res, w', d')"
  shows "explains d (txt w) d' (txt w')"
  using assms(2)
proof (induction hs arbitrary: w d ap)
  case Nil
  then show ?case by (auto intro: explains_same)
next
  case (Cons h hs)
  obtain r1 w1 d1 where h: "apply_hunk fs pa opts cwd h w d ap = (r1, w1, d1)" by (cases "apply_hunk fs pa opts cwd h w d ap")
  note e = hunk_explains [OF assms(1) h]
  show ?case
  proof (cases r1)
    case (Inl x)
    then show ?thesis using Cons.prems h e by simp
  next
    case (Inr ap')
    then have "explains d1 (txt w1) d' (txt w')" using Cons h by simp
    with e show ?thesis by (rule explains_trans)
  qed
qed

lemma hunks_to_files_explain:
  assumes "fs_contract fs (follow_symlinks opts) txt"
    and "apply_hunks_to_files fs pa opts cwd hunks w delta_empty = (res, w', d)" "delta_exact d"
  shows "txt w' = replay (delta_changes d) (txt w)" "consistent (delta_changes d) (txt w)"
proof -
  have "explains delta_empty (txt w) d (txt w')"
    using assms(1,2) hunks_explain [OF assms(1)]
    by (auto simp: apply_hunks_to_files_def intro: explains_same split: if_splits)
  then show "txt w' = replay (delta_changes d) (txt w)" "consistent (delta_changes d) (txt w)"
    using assms(3) by (auto simp: explains_def delta_empty_def)
qed

text \<open>
  C11. The delta that applying a patch returns is exact in the following sense: whatever hunks are
  applied, on any file system that meets the contract, and whether the patch succeeds or fails
  half way, if the delta claims to be exact then replaying its changes on the texts before gives
  the texts after, and undoing them in reverse order restores the texts before.
\<close>

theorem exact_delta_describes_change:
  assumes "fs_contract fs (follow_symlinks opts) txt"
    and "apply_hunks_to_files fs pa opts cwd hunks w delta_empty = (res, w', d)"
    and "delta_exact d"
  shows "txt w' = replay (delta_changes d) (txt w) \<and> undo (delta_changes d) (txt w') = txt w"
  using hunks_to_files_explain [OF assms] consistent_undo by simp

text \<open>A file system in memory: a map from paths to texts, where every parent exists.\<close>

definition mem_missing :: "io_error" where
  "mem_missing = \<lparr>io_kind = NotFound, io_message = []\<rparr>"

definition mem_fs :: "texts executor_fs" where
  "mem_fs = \<lparr>
     fs_read_file_text = \<lambda>p f w. case w p of Some c \<Rightarrow> Inr c | None \<Rightarrow> Inl mem_missing,
     fs_get_metadata = \<lambda>p f w. case w p of
         Some c \<Rightarrow> Inr \<lparr>md_is_directory = False, md_is_file = True, md_is_symlink = False\<rparr>
       | None \<Rightarrow> Inl mem_missing,
     fs_write_file = \<lambda>p c f w. (Inr (), w(p := Some c)),
     fs_create_directory = \<lambda>p f w. (Inr (), w),
     fs_remove = \<lambda>p f w. case w p of Some c \<Rightarrow> (Inr (), w(p := None)) | None \<Rightarrow> (Inl mem_missing, w)\<rparr>"

lemma mem_fs_contract: "fs_contract mem_fs f (\<lambda>w. w)"
proof -
  have "plain mem_fs f p w" for p w
    by (simp add: plain_def note_existing_path_delta_support_def mem_fs_def mem_missing_def is_not_found_def
        split: option.split)
  then have "keeps_plain mem_fs f w w'" for w w' by (simp add: keeps_plain_def)
  then show ?thesis
    by (auto simp: fs_contract_def read_contract_def write_contract_def directory_contract_def remove_contract_def
        mem_fs_def mem_missing_def is_not_found_def split: option.split)
qed

definition mem_paths :: path_ops where
  "mem_paths = \<lparr>uri_join = \<lambda>cwd p. Inr p, uri_parent = \<lambda>p. None, uri_native = \<lambda>p. p,
     uri_convention = \<lambda>p. Some Posix\<rparr>"

lemmas mem_eval = mem_fs_def mem_paths_def apply_hunks_to_files_def apply_hunk_def apply_add_def apply_delete_def
  read_optional_file_text_for_delta_def note_existing_path_delta_support_def remove_checked_def ensure_not_directory_def
  write_file_with_missing_parent_retry_def delta_empty_def and_exact_def push_change_def affected_empty_def

theorem exact_delta_describes_change_witness:
  "\<exists>res w' d. apply_hunks_to_files mem_fs mem_paths apply_patch_options_default []
      [AddFile [97] [10], DeleteFile [98]] ((\<lambda>_. None)([98] := Some [99])) delta_empty = (res, w', d)
    \<and> delta_changes d = [([97], AddedFile [10] None), ([98], DeletedFile [99])]
    \<and> undo (delta_changes d) w' = (\<lambda>_. None)([98] := Some [99])"
proof -
  let ?w = "(\<lambda>_. None)([98] := Some [99])"
  have r: "apply_hunks_to_files mem_fs mem_paths apply_patch_options_default []
      [AddFile [97] [10], DeleteFile [98]] ?w delta_empty
    = (Inr \<lparr>ap_added = [[97]], ap_modified = [], ap_deleted = [[98]]\<rparr>, ?w([97] := Some [10], [98] := None),
       \<lparr>delta_changes = [([97], AddedFile [10] None), ([98], DeletedFile [99])], delta_exact = True\<rparr>)"
    by (simp add: mem_eval mem_missing_def is_not_found_def apply_patch_options_default_def)
  have e: "delta_exact \<lparr>delta_changes = [([97], AddedFile [10] None), ([98], DeletedFile [99])], delta_exact = True\<rparr>"
    by simp
  note undone = exact_delta_describes_change [OF mem_fs_contract r e, THEN conjunct2]
  show ?thesis by (rule exI, rule exI, rule exI, rule conjI [OF r], rule conjI [OF _ undone]) simp
qed



end
