(* ===== verification/Patch_Verify.thy ===== *)
theory Patch_Verify
  imports Patch_Delta
begin

text \<open>
  Recognising and verifying an \<open>apply_patch\<close> invocation before it runs:
  \<open>apply-patch/src/invocation.rs\<close>. The extraction of a heredoc from a shell script is done by
  the Tree-sitter grammar of Bash and is a parameter. Verification computes the changes that are
  shown for approval; the main result is that applying the patch makes exactly these changes.
\<close>

section \<open>Recognising an invocation\<close>

definition APPLY_PATCH_COMMANDS :: "str list" where
  "APPLY_PATCH_COMMANDS = [lit ''apply_patch'', lit ''applypatch'']"

datatype apply_patch_shell = Unix | PowerShell | Cmd

datatype extract_heredoc_error =
    CommandDidNotStartWithApplyPatch
  | FailedToLoadBashGrammar
  | HeredocNotUtf8
  | FailedToParsePatchIntoAst
  | FailedToFindHeredocBody

datatype maybe_apply_patch =
    PatchBody apply_patch_args
  | PatchShellParseError extract_heredoc_error
  | PatchParseError parse_error
  | NotApplyPatch

fun split_where :: "(uchar \<Rightarrow> bool) \<Rightarrow> str \<Rightarrow> str list" where
  "split_where P [] = [[]]"
| "split_where P (x # xs) =
     (if P x then [] # split_where P xs
      else (case split_where P xs of [] \<Rightarrow> [[x]] | y # ys \<Rightarrow> (x # y) # ys))"

definition path_segments :: "path_convention \<Rightarrow> str \<Rightarrow> str list" where
  "path_segments conv path =
     split_where (\<lambda>c. case conv of Posix \<Rightarrow> c = 47 | Windows \<Rightarrow> c = 47 \<or> c = 92) path"

definition classify_shell_name :: "str \<Rightarrow> path_convention \<Rightarrow> str option" where
  "classify_shell_name shell conv =
     (let basename = last (path_segments conv shell);
          parts = split_on 46 basename;
          stem = join_with [46] (butlast parts)
      in Some (ascii_lower (if length parts = 1 \<or> stem = [] then basename else stem)))"

definition classify_shell :: "str \<Rightarrow> str \<Rightarrow> path_convention \<Rightarrow> apply_patch_shell option" where
  "classify_shell shell flag conv =
     Option.bind (classify_shell_name shell conv) (\<lambda>n.
       if n \<in> {lit ''bash'', lit ''zsh'', lit ''sh''} \<and> flag \<in> {lit ''-lc'', lit ''-c''} then Some Unix
       else if n \<in> {lit ''pwsh'', lit ''powershell''} \<and> ascii_lower flag = lit ''-command'' then Some PowerShell
       else if n = lit ''cmd'' \<and> ascii_lower flag = lit ''/c'' then Some Cmd
       else None)"

definition can_skip_flag :: "str \<Rightarrow> str \<Rightarrow> path_convention \<Rightarrow> bool" where
  "can_skip_flag shell flag conv =
     (case classify_shell_name shell conv of
        None \<Rightarrow> False
      | Some n \<Rightarrow> n \<in> {lit ''pwsh'', lit ''powershell''} \<and> ascii_lower flag = lit ''-noprofile'')"

definition parse_shell_script :: "path_ops \<Rightarrow> str list \<Rightarrow> str \<Rightarrow> (apply_patch_shell \<times> str) option" where
  "parse_shell_script pa argv cwd =
     Option.bind (uri_convention pa cwd) (\<lambda>conv.
       case argv of
         [shell, flag, script] \<Rightarrow> map_option (\<lambda>k. (k, script)) (classify_shell shell flag conv)
       | [shell, skip_flag, flag, script] \<Rightarrow>
           if \<not> can_skip_flag shell skip_flag conv then None
           else map_option (\<lambda>k. (k, script)) (classify_shell shell flag conv)
       | _ \<Rightarrow> None)"

text \<open>\<open>extract\<close> stands for \<open>extract_apply_patch_from_bash\<close>: the heredoc body and the \<open>cd\<close> path.\<close>

type_synonym heredoc_extractor = "str \<Rightarrow> extract_heredoc_error + str \<times> str option"

definition maybe_parse_apply_patch :: "heredoc_extractor \<Rightarrow> path_ops \<Rightarrow> str list \<Rightarrow> str \<Rightarrow> maybe_apply_patch" where
  "maybe_parse_apply_patch extract pa argv cwd =
     (let shell = (case parse_shell_script pa argv cwd of
             None \<Rightarrow> NotApplyPatch
           | Some (sh, script) \<Rightarrow>
               (case extract script of
                  Inr (body, workdir) \<Rightarrow>
                    (case parse_patch body of
                       Inr source \<Rightarrow> PatchBody (source\<lparr>aa_workdir := workdir\<rparr>)
                     | Inl e \<Rightarrow> PatchParseError e)
                | Inl CommandDidNotStartWithApplyPatch \<Rightarrow> NotApplyPatch
                | Inl e \<Rightarrow> PatchShellParseError e))
      in case argv of
           [cmd, body] \<Rightarrow>
             if cmd \<in> set APPLY_PATCH_COMMANDS
             then (case parse_patch body of Inr source \<Rightarrow> PatchBody source | Inl e \<Rightarrow> PatchParseError e)
             else shell
         | _ \<Rightarrow> shell)"

section \<open>Verification\<close>

datatype apply_patch_file_change =
    ChangeAdd str
  | ChangeDelete str
  | ChangeUpdate str "str option" str

record apply_patch_action =
  act_changes :: "(str, apply_patch_file_change) fmap"
  act_update_file_mode :: update_mode
  act_patch :: str
  act_cwd :: str

definition act_is_empty :: "apply_patch_action \<Rightarrow> bool" where
  "act_is_empty a \<longleftrightarrow> act_changes a = fmempty"

datatype maybe_apply_patch_verified =
    VerifiedBody apply_patch_action
  | VerifiedShellParseError extract_heredoc_error
  | CorrectnessError patch_error
  | VerifiedNotApplyPatch

definition path_result :: "str + 'a \<Rightarrow> patch_error + 'a" where
  "path_result r = (case r of Inl e \<Rightarrow> Inl (PathUriError e) | Inr x \<Rightarrow> Inr x)"

text \<open>The change of one hunk; reads follow symbolic links (the default option).\<close>

definition verify_hunk ::
  "(nat \<Rightarrow> str \<Rightarrow> str \<Rightarrow> str) \<Rightarrow> 'w executor_fs \<Rightarrow> path_ops \<Rightarrow> update_mode \<Rightarrow> str \<Rightarrow> 'w \<Rightarrow> hunk \<Rightarrow> str
     \<Rightarrow> patch_error + apply_patch_file_change" where
  "verify_hunk diff fs pa m cwd w h path =
     (case h of
        AddFile _ contents \<Rightarrow> Inr (ChangeAdd contents)
      | DeleteFile _ \<Rightarrow>
          (case fs_read_file_text fs path True w of
             Inr c \<Rightarrow> Inr (ChangeDelete c)
           | Inl e \<Rightarrow> Inl (IoError (lit ''Failed to read '' @ uri_native pa path) (io_message e)))
      | UpdateFile _ mv chunks \<Rightarrow>
          and_then (unified_diff_from_chunks_with_mode diff (io_text (fs_read_file_text fs path True w))
                      (uri_native pa path) chunks m) (\<lambda>u.
          and_then (case mv of
                      None \<Rightarrow> Inr None
                    | Some d \<Rightarrow> and_then (path_result (uri_join pa cwd d)) (\<lambda>x. Inr (Some x))) (\<lambda>mv_uri.
            Inr (ChangeUpdate (unified_diff u) mv_uri (updated_content u)))))"

fun verify_hunks ::
  "(nat \<Rightarrow> str \<Rightarrow> str \<Rightarrow> str) \<Rightarrow> 'w executor_fs \<Rightarrow> path_ops \<Rightarrow> update_mode \<Rightarrow> str \<Rightarrow> 'w \<Rightarrow> hunk list
     \<Rightarrow> (str, apply_patch_file_change) fmap \<Rightarrow> patch_error + (str, apply_patch_file_change) fmap" where
  "verify_hunks diff fs pa m cwd w [] changes = Inr changes"
| "verify_hunks diff fs pa m cwd w (h # hs) changes =
     and_then (path_result (resolve_path pa cwd h)) (\<lambda>path.
       if path |\<in>| fmdom changes
       then Inl (ParseError (InvalidPatchError (lit ''multiple operations target '' @ uri_native pa path)))
       else and_then (verify_hunk diff fs pa m cwd w h path) (\<lambda>c.
              verify_hunks diff fs pa m cwd w hs (fmupd path c changes)))"

definition try_verify_apply_patch_args ::
  "(nat \<Rightarrow> str \<Rightarrow> str \<Rightarrow> str) \<Rightarrow> 'w executor_fs \<Rightarrow> path_ops \<Rightarrow> apply_patch_args \<Rightarrow> str \<Rightarrow> update_mode \<Rightarrow> 'w
     \<Rightarrow> patch_error + apply_patch_action" where
  "try_verify_apply_patch_args diff fs pa args cwd m w =
     and_then (case aa_workdir args of None \<Rightarrow> Inr cwd | Some dir \<Rightarrow> path_result (uri_join pa cwd dir))
       (\<lambda>effective_cwd.
         and_then (verify_hunks diff fs pa m effective_cwd w (aa_hunks args) fmempty) (\<lambda>changes.
           Inr \<lparr>act_changes = changes, act_update_file_mode = m, act_patch = aa_patch args,
                act_cwd = effective_cwd\<rparr>))"

definition verify_apply_patch_args_with_mode ::
  "(nat \<Rightarrow> str \<Rightarrow> str \<Rightarrow> str) \<Rightarrow> 'w executor_fs \<Rightarrow> path_ops \<Rightarrow> apply_patch_args \<Rightarrow> str \<Rightarrow> update_mode \<Rightarrow> 'w
     \<Rightarrow> maybe_apply_patch_verified" where
  "verify_apply_patch_args_with_mode diff fs pa args cwd m w =
     (case try_verify_apply_patch_args diff fs pa args cwd m w of
        Inr action \<Rightarrow> VerifiedBody action
      | Inl e \<Rightarrow> CorrectnessError e)"

definition verify_apply_patch_args ::
  "(nat \<Rightarrow> str \<Rightarrow> str \<Rightarrow> str) \<Rightarrow> 'w executor_fs \<Rightarrow> path_ops \<Rightarrow> apply_patch_args \<Rightarrow> str \<Rightarrow> 'w
     \<Rightarrow> maybe_apply_patch_verified" where
  "verify_apply_patch_args diff fs pa args cwd w =
     verify_apply_patch_args_with_mode diff fs pa args cwd default_update_mode w"

definition is_ok :: "'e + 'a \<Rightarrow> bool" where
  "is_ok r = (case r of Inr _ \<Rightarrow> True | Inl _ \<Rightarrow> False)"

definition maybe_parse_apply_patch_verified_with_mode ::
  "heredoc_extractor \<Rightarrow> (nat \<Rightarrow> str \<Rightarrow> str \<Rightarrow> str) \<Rightarrow> 'w executor_fs \<Rightarrow> path_ops \<Rightarrow> str list \<Rightarrow> str \<Rightarrow> update_mode \<Rightarrow> 'w
     \<Rightarrow> maybe_apply_patch_verified" where
  "maybe_parse_apply_patch_verified_with_mode extract diff fs pa argv cwd m w =
     (if (case argv of [body] \<Rightarrow> is_ok (parse_patch body) | _ \<Rightarrow> False)
      then CorrectnessError ImplicitInvocation
      else if (case parse_shell_script pa argv cwd of Some (_, script) \<Rightarrow> is_ok (parse_patch script) | None \<Rightarrow> False)
      then CorrectnessError ImplicitInvocation
      else case maybe_parse_apply_patch extract pa argv cwd of
             PatchBody args \<Rightarrow> verify_apply_patch_args_with_mode diff fs pa args cwd m w
           | PatchShellParseError e \<Rightarrow> VerifiedShellParseError e
           | PatchParseError e \<Rightarrow> CorrectnessError (ParseError e)
           | NotApplyPatch \<Rightarrow> VerifiedNotApplyPatch)"

definition maybe_parse_apply_patch_verified ::
  "heredoc_extractor \<Rightarrow> (nat \<Rightarrow> str \<Rightarrow> str \<Rightarrow> str) \<Rightarrow> 'w executor_fs \<Rightarrow> path_ops \<Rightarrow> str list \<Rightarrow> str \<Rightarrow> 'w
     \<Rightarrow> maybe_apply_patch_verified" where
  "maybe_parse_apply_patch_verified extract diff fs pa argv cwd w =
     maybe_parse_apply_patch_verified_with_mode extract diff fs pa argv cwd default_update_mode w"

section \<open>What is approved is what is applied\<close>

text \<open>The texts that a set of changes, each shown for its own path, amounts to.\<close>

fun change_dest :: "apply_patch_file_change \<Rightarrow> str option" where
  "change_dest (ChangeUpdate d mv new) = mv"
| "change_dest _ = None"

fun change_text :: "apply_patch_file_change \<Rightarrow> str option" where
  "change_text (ChangeAdd c) = Some c"
| "change_text (ChangeDelete c) = None"
| "change_text (ChangeUpdate d None new) = Some new"
| "change_text (ChangeUpdate d (Some dest) new) = None"

fun moved_text :: "apply_patch_file_change \<Rightarrow> str option" where
  "moved_text (ChangeUpdate d mv new) = Some new"
| "moved_text _ = None"

text \<open>
  \<open>applied changes m m'\<close>: \<open>m'\<close> is \<open>m\<close> with every change made and nothing else changed. The
  destinations of moves are distinct and are not themselves paths of a change.
\<close>

definition is_dest :: "(str, apply_patch_file_change) fmap \<Rightarrow> str \<Rightarrow> bool" where
  "is_dest changes q \<longleftrightarrow> (\<exists>p c. fmlookup changes p = Some c \<and> change_dest c = Some q)"

definition applied :: "(str, apply_patch_file_change) fmap \<Rightarrow> texts \<Rightarrow> texts \<Rightarrow> bool" where
  "applied changes m m' \<longleftrightarrow>
     (\<forall>p c. fmlookup changes p = Some c \<longrightarrow> m' p = change_text c
        \<and> (\<forall>d. change_dest c = Some d \<longrightarrow> m' d = moved_text c))
     \<and> (\<forall>q. q |\<notin>| fmdom changes \<longrightarrow> \<not> is_dest changes q \<longrightarrow> m' q = m q)"

definition dests_ok :: "(str, apply_patch_file_change) fmap \<Rightarrow> bool" where
  "dests_ok changes \<longleftrightarrow>
     (\<forall>q. is_dest changes q \<longrightarrow> q |\<notin>| fmdom changes)
     \<and> (\<forall>p c p' c' d. fmlookup changes p = Some c \<longrightarrow> fmlookup changes p' = Some c'
          \<longrightarrow> change_dest c = Some d \<longrightarrow> change_dest c' = Some d \<longrightarrow> p = p')"

definition change_effect :: "str \<Rightarrow> apply_patch_file_change \<Rightarrow> texts \<Rightarrow> texts" where
  "change_effect p c m = (case change_dest c of None \<Rightarrow> m(p := change_text c) | Some d \<Rightarrow> m(d := moved_text c, p := None))"

lemma explains_changes:
  assumes "explains d m d' m'" "delta_exact d'" "delta_changes d' = delta_changes d @ [c]"
  shows "m' = replay_change c m"
  using assms by (auto simp: explains_def replay_def)

lemma add_records:
  assumes "apply_add fs pa f a p c w d ap = (Inr ap', w', d')"
  shows "\<exists>ow. delta_changes d' = delta_changes d @ [(p, AddedFile c ow)]"
  using assms by (auto simp: apply_add_def push_change_def and_exact_def Let_def split: prod.splits sum.splits)

lemma delete_records:
  assumes "apply_delete fs pa f a p w d ap = (Inr ap', w', d')" "delta_exact d'"
  shows "\<exists>c. delta_changes d' = delta_changes d @ [(p, DeletedFile c)]"
  using assms
  by (auto simp: apply_delete_def remove_checked_def push_change_def and_exact_def Let_def
      split: prod.splits sum.splits if_splits option.splits)

lemma move_records:
  assumes "apply_move fs pa f a p dest p0 w d ap = (Inr ap', w', d')"
  shows "\<exists>ow. delta_changes d' = delta_changes d @ [(p, UpdatedFile (Some dest) (original_contents p0) ow (new_contents p0))]"
  using assms
  by (auto simp: apply_move_def remove_checked_def push_change_def and_exact_def Let_def
      split: prod.splits sum.splits)

lemma in_place_records:
  assumes "apply_in_place fs pa f a p p0 w d ap = (Inr ap', w', d')"
  shows "delta_changes d' = delta_changes d @ [(p, UpdatedFile None (original_contents p0) None (new_contents p0))]"
  using assms by (auto simp: apply_in_place_def push_change_def split: prod.splits sum.splits)

lemma update_records:
  assumes "apply_update fs pa opts cwd a p mv chunks w d ap = (Inr ap', w', d')"
  obtains p0 mv' ow where
    "derive_new_contents_from_chunks (io_text (fs_read_file_text fs p (follow_symlinks opts) w)) (uri_native pa p)
       chunks (update_file_mode opts) = Inr p0"
    "(case mv of None \<Rightarrow> mv' = None | Some dest \<Rightarrow> \<exists>u. uri_join pa cwd dest = Inr u \<and> mv' = Some u)"
    "delta_changes d' = delta_changes d @ [(p, UpdatedFile mv' (original_contents p0) ow (new_contents p0))]"
proof -
  let ?d1 = "and_exact (note_existing_path_delta_support fs (follow_symlinks opts) p w) d"
  have d1: "delta_changes ?d1 = delta_changes d" by (simp add: and_exact_def)
  obtain p0 where p0: "derive_new_contents_from_chunks (io_text (fs_read_file_text fs p (follow_symlinks opts) w))
      (uri_native pa p) chunks (update_file_mode opts) = Inr p0"
    using assms by (auto simp: apply_update_def Let_def split: sum.splits)
  show thesis
  proof (cases mv)
    case None
    then have "apply_in_place fs pa (follow_symlinks opts) a p p0 w ?d1 ap = (Inr ap', w', d')"
      using assms p0 by (simp add: apply_update_def Let_def)
    from in_place_records [OF this] show thesis using that [OF p0] None d1 by simp
  next
    case (Some dest)
    then obtain u where u: "uri_join pa cwd dest = Inr u"
      "apply_move fs pa (follow_symlinks opts) a p u p0 w ?d1 ap = (Inr ap', w', d')"
      using assms p0 by (auto simp: apply_update_def Let_def split: sum.splits)
    from move_records [OF u(2)] show thesis using that [OF p0] Some u(1) d1 by auto
  qed
qed

text \<open>Verification and application read the same text, so they derive the same contents.\<close>

lemma same_read:
  assumes "fs_contract fs f txt" "txt w1 p = txt w p"
    and "fs_read_file_text fs p f w1 = Inr a" "fs_read_file_text fs p f w = Inr b"
  shows "a = b"
  using contract_read [OF assms(1,3)] contract_read [OF assms(1,4)] assms(2) by simp

lemma unified_derives:
  assumes "unified_diff_from_chunks_with_mode diff r path chunks m = Inr u"
  shows "\<exists>p0. derive_new_contents_from_chunks r path chunks m = Inr p0 \<and> updated_content u = new_contents p0"
  using assms
  by (auto simp: unified_diff_from_chunks_with_mode_def unified_diff_from_chunks_with_context_and_mode_def and_then_Inr_iff)

lemma hunk_as_verified:
  assumes con: "fs_contract fs True txt" and opts: "follow_symlinks opts" "update_file_mode opts = m"
    and app: "apply_hunk fs pa opts cwd h w1 d ap = (Inr ap', w2, d')" and ex: "delta_exact d'"
    and res: "resolve_path pa cwd h = Inr p" and ver: "verify_hunk diff fs pa m cwd w h p = Inr c"
    and same: "txt w1 p = txt w p"
  shows "txt w2 = change_effect p c (txt w1)"
proof -
  have con': "fs_contract fs (follow_symlinks opts) txt" using con opts(1) by simp
  note e = explains_changes [OF hunk_explains [OF con' app] ex]
  show ?thesis
  proof (cases h)
    case (AddFile path contents)
    then obtain ow where "delta_changes d' = delta_changes d @ [(p, AddedFile contents ow)]"
      using app res add_records by (fastforce simp: apply_hunk_def)
    from e [OF this] show ?thesis using ver AddFile by (auto simp: verify_hunk_def change_effect_def)
  next
    case (DeleteFile path)
    then obtain old where "delta_changes d' = delta_changes d @ [(p, DeletedFile old)]"
      using app res ex delete_records by (fastforce simp: apply_hunk_def)
    from e [OF this] show ?thesis using ver DeleteFile
      by (auto simp: verify_hunk_def change_effect_def split: sum.splits)
  next
    case (UpdateFile path mv chunks)
    then have "apply_update fs pa opts cwd (hunk_path h) p mv chunks w1 d ap = (Inr ap', w2, d')"
      using app res by (simp add: apply_hunk_def)
    then obtain p0 mv' ow where a: "derive_new_contents_from_chunks (io_text (fs_read_file_text fs p True w1))
        (uri_native pa p) chunks m = Inr p0"
      "(case mv of None \<Rightarrow> mv' = None | Some dest \<Rightarrow> \<exists>u. uri_join pa cwd dest = Inr u \<and> mv' = Some u)"
      "delta_changes d' = delta_changes d @ [(p, UpdatedFile mv' (original_contents p0) ow (new_contents p0))]"
      using opts by (elim update_records) simp
    obtain u mv2 where v: "unified_diff_from_chunks_with_mode diff (io_text (fs_read_file_text fs p True w))
        (uri_native pa p) chunks m = Inr u" "c = ChangeUpdate (unified_diff u) mv2 (updated_content u)"
      "(case mv of None \<Rightarrow> mv2 = None | Some dest \<Rightarrow> \<exists>x. uri_join pa cwd dest = Inr x \<and> mv2 = Some x)"
      using ver UpdateFile
      by (auto simp: verify_hunk_def and_then_Inr_iff path_result_def split: option.splits sum.splits)
    obtain p1 where p1: "derive_new_contents_from_chunks (io_text (fs_read_file_text fs p True w)) (uri_native pa p)
        chunks m = Inr p1" "updated_content u = new_contents p1" using unified_derives [OF v(1)] by blast
    have "fs_read_file_text fs p True w1 = fs_read_file_text fs p True w"
      using derive_original [OF a(1)] derive_original [OF p1(1)] same_read [OF con same] by simp
    then have "p0 = p1" using a(1) p1(1) by simp
    moreover have "mv' = mv2" using a(2) v(3) by (auto split: option.splits)
    ultimately show ?thesis using e [OF a(3)] v(2) p1(2) by (cases mv2) (simp_all add: change_effect_def)
  qed
qed

lemma dests_ok_D:
  assumes "dests_ok final" "fmlookup final p = Some c" "change_dest c = Some d"
  shows "fmlookup final d = None" "fmlookup final p' = Some c' \<Longrightarrow> change_dest c' = Some d \<Longrightarrow> p' = p"
  using assms unfolding dests_ok_def is_dest_def by (metis fmdom_notD)+

lemma effect_other: "q \<noteq> p \<Longrightarrow> change_dest c \<noteq> Some q \<Longrightarrow> change_effect p c m q = m q"
  by (auto simp: change_effect_def split: option.split)

lemma effect_own:
  assumes "change_dest c \<noteq> Some p"
  shows "change_effect p c m p = change_text c" "change_dest c = Some d \<Longrightarrow> change_effect p c m d = moved_text c"
  using assms by (cases c rule: change_text.cases; auto simp: change_effect_def)+

lemma applied_step:
  assumes ap: "applied ch m m1" and ok: "dests_ok final" and new: "fmlookup ch p = None" and c: "fmlookup final p = Some c"
    and sub: "\<And>q x. fmlookup ch q = Some x \<Longrightarrow> fmlookup final q = Some x"
  shows "m1 p = m p" "applied (fmupd p c ch) m (change_effect p c m1)"
proof -
  have no_dest: "change_dest x \<noteq> Some p" if "fmlookup final q = Some x" for q x
    using dests_ok_D(1) [OF ok that] c by auto
  show "m1 p = m p" using ap new no_dest sub unfolding applied_def is_dest_def by (metis fmdom_notI)
  show "applied (fmupd p c ch) m (change_effect p c m1)"
    unfolding applied_def
  proof (intro conjI allI impI)
    fix q x
    assume q: "fmlookup (fmupd p c ch) q = Some x"
    show "change_effect p c m1 q = change_text x"
    proof (cases "q = p")
      case True
      then show ?thesis using q effect_own(1) [OF no_dest [OF c]] by simp
    next
      case False
      then have "fmlookup ch q = Some x" using q by auto
      moreover have "change_dest c \<noteq> Some q" using dests_ok_D(1) [OF ok c] sub [OF \<open>fmlookup ch q = Some x\<close>] by auto
      ultimately show ?thesis using ap False by (simp add: effect_other applied_def)
    qed
    fix d
    assume d: "change_dest x = Some d"
    show "change_effect p c m1 d = moved_text x"
    proof (cases "q = p")
      case True
      then show ?thesis using q d effect_own(2) [OF no_dest [OF c]] by simp
    next
      case False
      then have q': "fmlookup ch q = Some x" using q by auto
      have "change_dest c \<noteq> Some d" using dests_ok_D(2) [OF ok c _ sub [OF q'] d] False by auto
      moreover have "d \<noteq> p" using no_dest [OF sub [OF q']] d by auto
      ultimately show ?thesis using ap q' d by (simp add: effect_other applied_def)
    qed
  next
    fix q
    assume q: "q |\<notin>| fmdom (fmupd p c ch)" "\<not> is_dest (fmupd p c ch) q"
    have no: "change_dest x \<noteq> Some q" if "fmlookup (fmupd p c ch) r = Some x" for r x
      using q(2) that unfolding is_dest_def by blast
    have "change_dest c \<noteq> Some q" using no [of p] by simp
    moreover have "\<not> is_dest ch q" using no new unfolding is_dest_def by (metis fmupd_lookup option.distinct(1))
    moreover have "q \<noteq> p" "q |\<notin>| fmdom ch" using q(1) by auto
    ultimately show "change_effect p c m1 q = m q" using ap by (simp add: effect_other applied_def)
  qed
qed

lemma verify_hunks_extends:
  assumes "verify_hunks diff fs pa m cwd w hs ch = Inr final" "fmlookup ch q = Some x"
  shows "fmlookup final q = Some x"
  using assms
proof (induction hs arbitrary: ch)
  case (Cons h hs)
  obtain p c where p: "p |\<notin>| fmdom ch" "verify_hunks diff fs pa m cwd w hs (fmupd p c ch) = Inr final"
    using Cons.prems(1) by (auto simp: and_then_Inr_iff split: if_splits)
  have "q \<noteq> p" using p(1) Cons.prems(2) by (auto dest: fmdomI)
  then show ?case using Cons.IH [OF p(2)] Cons.prems(2) by simp
qed simp

lemma list_as_verified:
  assumes con: "fs_contract fs True txt" and opts: "follow_symlinks opts" "update_file_mode opts = m"
    and ok: "dests_ok final" and ex: "delta_exact d'"
    and ver: "verify_hunks diff fs pa m cwd w hs ch = Inr final"
    and app: "apply_hunk_list fs pa opts cwd hs w1 d ap = (Inr ap', w', d')"
    and ap: "applied ch (txt w) (txt w1)"
  shows "applied final (txt w) (txt w')"
  using ver app ap
proof (induction hs arbitrary: ch w1 d ap)
  case (Cons h hs)
  obtain p c where p: "resolve_path pa cwd h = Inr p" "p |\<notin>| fmdom ch" "verify_hunk diff fs pa m cwd w h p = Inr c"
    and rest: "verify_hunks diff fs pa m cwd w hs (fmupd p c ch) = Inr final"
    using Cons.prems(1) by (auto simp: and_then_Inr_iff path_result_def split: if_splits sum.splits)
  obtain ap1 w2 d2 where h: "apply_hunk fs pa opts cwd h w1 d ap = (Inr ap1, w2, d2)"
    and l: "apply_hunk_list fs pa opts cwd hs w2 d2 ap1 = (Inr ap', w', d')"
    using Cons.prems(2) by (auto split: prod.splits sum.splits)
  have con': "fs_contract fs (follow_symlinks opts) txt" using con opts(1) by simp
  have ex2: "delta_exact d2" using hunks_explain [OF con' l] ex by (simp add: explains_def)
  have "fmlookup final p = Some c" using verify_hunks_extends [OF rest] by simp
  note s = applied_step [OF Cons.prems(3) ok _ this]
  have sub: "fmlookup final q = Some x" if "fmlookup ch q = Some x" for q x
    using verify_hunks_extends [OF Cons.prems(1) that] .
  have "txt w2 = change_effect p c (txt w1)"
    using hunk_as_verified [OF con opts h ex2 p(1,3)] s(1) sub p(2) by (simp add: fmdom_notD)
  then have "applied (fmupd p c ch) (txt w) (txt w2)" using s(2) sub p(2) by (simp add: fmdom_notD)
  then show ?case using Cons.IH [OF rest l] by simp
qed simp


lemma no_dests_ok: "(\<And>p c. fmlookup ch p = Some c \<Longrightarrow> change_dest c = None) \<Longrightarrow> dests_ok ch"
  by (auto simp: dests_ok_def is_dest_def)


end
