(* ===== verification/Turn_Diff.thy ===== *)
theory Turn_Diff
  imports Patch_Delta
begin

text \<open>
  The net diff of a turn: \<open>core/src/turn_diff_tracker.rs\<close>. The tracker is a record; the text
  diff, the SHA-1 digest, operations on path URIs and the iteration order of hash maps are
  parameters. Revisions are natural numbers: one is taken per tracked content, so the
  64-bit counter cannot wrap.
\<close>

section \<open>The tracker\<close>

record tracked_content =
  tc_content :: str
  tc_revision :: nat

record tracked_path =
  tp_environment_id :: str
  tp_path :: str

definition tracked_path_new :: "str \<Rightarrow> str \<Rightarrow> tracked_path" where
  "tracked_path_new environment_id path = \<lparr>tp_environment_id = environment_id, tp_path = path\<rparr>"

record diff_cache_key =
  dk_left_path :: tracked_path
  dk_left_revision :: "nat option"
  dk_right_path :: tracked_path
  dk_right_revision :: "nat option"

record turn_diff_tracker =
  td_valid :: bool
  td_display_roots :: "(str, str) fmap"
  td_baseline :: "(tracked_path, tracked_content) fmap"
  td_current :: "(tracked_path, tracked_content) fmap"
  td_origin :: "(tracked_path, tracked_path) fmap"
  td_next_revision :: nat
  td_rendered :: "(diff_cache_key, str option) fmap"
  td_unified_diff :: "str option"

text \<open>What the tracker calls outside its module.\<close>

record diff_env =
  de_relative_path_from :: "str \<Rightarrow> str \<Rightarrow> str option"
  de_native :: "str \<Rightarrow> str"
  de_sha1_hex :: "nat list \<Rightarrow> str"
  de_unified :: "str \<Rightarrow> str \<Rightarrow> str \<Rightarrow> str \<Rightarrow> str"
  de_iter :: "tracked_path fset \<Rightarrow> tracked_path list"

definition tracker_new :: turn_diff_tracker where
  "tracker_new = \<lparr>td_valid = True, td_display_roots = fmempty, td_baseline = fmempty, td_current = fmempty,
     td_origin = fmempty, td_next_revision = 0, td_rendered = fmempty, td_unified_diff = None\<rparr>"

definition with_environment_display_roots :: "(str \<times> str) list \<Rightarrow> turn_diff_tracker" where
  "with_environment_display_roots roots =
     tracker_new\<lparr>td_display_roots := fold (\<lambda>(k, v). fmupd k v) roots fmempty\<rparr>"

definition invalidate :: "turn_diff_tracker \<Rightarrow> turn_diff_tracker" where
  "invalidate t = t\<lparr>td_valid := False, td_rendered := fmempty, td_unified_diff := None\<rparr>"

definition get_unified_diff :: "turn_diff_tracker \<Rightarrow> str option" where
  "get_unified_diff t = td_unified_diff t"

definition has_unified_diff :: "turn_diff_tracker \<Rightarrow> bool" where
  "has_unified_diff t \<longleftrightarrow> td_unified_diff t \<noteq> None"

section \<open>Changes\<close>

definition tracked_content_new :: "str \<Rightarrow> turn_diff_tracker \<Rightarrow> tracked_content \<times> turn_diff_tracker" where
  "tracked_content_new c t =
     (\<lparr>tc_content = c, tc_revision = td_next_revision t\<rparr>, t\<lparr>td_next_revision := td_next_revision t + 1\<rparr>)"

definition insert_baseline :: "tracked_path \<Rightarrow> str \<Rightarrow> turn_diff_tracker \<Rightarrow> turn_diff_tracker" where
  "insert_baseline p c t =
     (let (tc, t') = tracked_content_new c t in t'\<lparr>td_baseline := fmupd p tc (td_baseline t')\<rparr>)"

definition insert_current :: "tracked_path \<Rightarrow> str \<Rightarrow> turn_diff_tracker \<Rightarrow> turn_diff_tracker" where
  "insert_current p c t =
     (let (tc, t') = tracked_content_new c t in t'\<lparr>td_current := fmupd p tc (td_current t')\<rparr>)"

definition untracked :: "tracked_path \<Rightarrow> turn_diff_tracker \<Rightarrow> bool" where
  "untracked p t \<longleftrightarrow> p |\<notin>| fmdom (td_current t) \<and> p |\<notin>| fmdom (td_baseline t)"

text \<open>The baseline of an untracked path is the content it had, if it had one.\<close>

definition note_baseline :: "tracked_path \<Rightarrow> str option \<Rightarrow> turn_diff_tracker \<Rightarrow> turn_diff_tracker" where
  "note_baseline p old t =
     (case old of Some c \<Rightarrow> if untracked p t then insert_baseline p c t else t | None \<Rightarrow> t)"

definition tracker_apply_add :: "tracked_path \<Rightarrow> str \<Rightarrow> str option \<Rightarrow> turn_diff_tracker \<Rightarrow> turn_diff_tracker" where
  "tracker_apply_add p c overwritten t =
     insert_current p c (note_baseline p overwritten (t\<lparr>td_origin := fmdrop p (td_origin t)\<rparr>))"

definition tracker_apply_delete :: "tracked_path \<Rightarrow> str \<Rightarrow> turn_diff_tracker \<Rightarrow> turn_diff_tracker" where
  "tracker_apply_delete p c t =
     (let t1 = t\<lparr>td_current := fmdrop p (td_current t)\<rparr>;
          t2 = (if untracked p t then insert_baseline p c t1 else t1)
      in t2\<lparr>td_origin := fmdrop p (td_origin t2)\<rparr>)"

definition tracker_apply_update ::
  "tracked_path \<Rightarrow> tracked_path option \<Rightarrow> str \<Rightarrow> str option \<Rightarrow> str \<Rightarrow> turn_diff_tracker \<Rightarrow> turn_diff_tracker" where
  "tracker_apply_update source mv old overwritten new t =
     (let t1 = note_baseline source (Some old) t in
      case mv of
        None \<Rightarrow> insert_current source new t1
      | Some dest \<Rightarrow>
          (let t2 = note_baseline dest overwritten t1;
               origin = (case fmlookup (td_origin t2) source of Some q \<Rightarrow> q | None \<Rightarrow> source);
               t3 = t2\<lparr>td_origin := fmdrop source (td_origin t2), td_current := fmdrop source (td_current t2)\<rparr>;
               t4 = insert_current dest new t3;
               t5 = t4\<lparr>td_origin := fmdrop dest (td_origin t4)\<rparr>
           in if dest \<noteq> origin then t5\<lparr>td_origin := fmupd dest origin (td_origin t5)\<rparr> else t5))"

fun apply_change :: "str \<Rightarrow> applied_patch_change \<Rightarrow> turn_diff_tracker \<Rightarrow> turn_diff_tracker" where
  "apply_change env (p, AddedFile c overwritten) t = tracker_apply_add (tracked_path_new env p) c overwritten t"
| "apply_change env (p, DeletedFile c) t = tracker_apply_delete (tracked_path_new env p) c t"
| "apply_change env (p, UpdatedFile mv old overwritten new) t =
     tracker_apply_update (tracked_path_new env p) (map_option (tracked_path_new env) mv) old overwritten new t"

section \<open>Rendering\<close>

definition rename_pairs :: "diff_env \<Rightarrow> turn_diff_tracker \<Rightarrow> (tracked_path, tracked_path) fmap" where
  "rename_pairs de t =
     fold (\<lambda>dest m. case fmlookup (td_origin t) dest of
         None \<Rightarrow> m
       | Some origin \<Rightarrow>
           if dest = origin \<or> origin |\<in>| fmdom (td_current t) \<or> dest |\<notin>| fmdom (td_current t)
              \<or> origin |\<notin>| fmdom (td_baseline t) \<or> dest |\<in>| fmdom (td_baseline t)
           then m else fmupd origin dest m)
       (de_iter de (fmdom (td_origin t))) fmempty"

definition display_path :: "diff_env \<Rightarrow> (str, str) fmap \<Rightarrow> tracked_path \<Rightarrow> str" where
  "display_path de roots p =
     (let display = (case Option.bind (fmlookup roots (tp_environment_id p))
                            (\<lambda>root. de_relative_path_from de (tp_path p) root) of
                       Some d \<Rightarrow> d | None \<Rightarrow> de_native de (tp_path p))
      in if fcard (fmdom roots) > 1 \<and> tp_environment_id p \<noteq> []
         then tp_environment_id p @ lit ''/'' @ display else display)"

definition git_blob_oid :: "diff_env \<Rightarrow> nat list \<Rightarrow> str" where
  "git_blob_oid de bytes = de_sha1_hex de (lit ''blob '' @ show_nat (length bytes) @ [0] @ bytes)"

definition ZERO_OID :: str where
  "ZERO_OID = replicate 40 48"

definition DEV_NULL :: str where
  "DEV_NULL = lit ''/dev/null''"

definition slashes :: "str \<Rightarrow> str" where
  "slashes s = map (\<lambda>c. if c = 92 then 47 else c) s"

definition render_diff ::
  "diff_env \<Rightarrow> (str, str) fmap \<Rightarrow> tracked_path \<Rightarrow> str option \<Rightarrow> tracked_path \<Rightarrow> str option \<Rightarrow> str option" where
  "render_diff de roots lp l rp r =
     (if l = r then None
      else let ld = slashes (display_path de roots lp);
               rd = slashes (display_path de roots rp);
               oid = (\<lambda>c. case c of None \<Rightarrow> ZERO_OID | Some x \<Rightarrow> git_blob_oid de (as_bytes x));
               mode_line = (case (l, r) of
                   (None, Some _) \<Rightarrow> lit ''new file mode 100644'' @ [10]
                 | (Some _, None) \<Rightarrow> lit ''deleted file mode 100644'' @ [10]
                 | _ \<Rightarrow> []);
               old_header = (if l \<noteq> None then lit ''a/'' @ ld else DEV_NULL);
               new_header = (if r \<noteq> None then lit ''b/'' @ rd else DEV_NULL)
           in Some (lit ''diff --git a/'' @ ld @ lit '' b/'' @ rd @ [10] @ mode_line
                    @ lit ''index '' @ oid l @ lit ''..'' @ oid r @ [10]
                    @ de_unified de (case l of Some x \<Rightarrow> x | None \<Rightarrow> []) (case r of Some x \<Rightarrow> x | None \<Rightarrow> [])
                        old_header new_header))"

definition content_of :: "(tracked_path, tracked_content) fmap \<Rightarrow> tracked_path \<Rightarrow> str option" where
  "content_of m p = map_option tc_content (fmlookup m p)"

definition revision_of :: "(tracked_path, tracked_content) fmap \<Rightarrow> tracked_path \<Rightarrow> nat option" where
  "revision_of m p = map_option tc_revision (fmlookup m p)"

definition push_diff :: "str \<Rightarrow> str option \<Rightarrow> str" where
  "push_diff aggregated rendered =
     (case rendered of
        None \<Rightarrow> aggregated
      | Some diff \<Rightarrow>
          (let a = aggregated @ diff in if ends_with [10] a then a else a @ [10]))"

text \<open>
  The loop over the sorted paths: \<open>handled\<close> paths and destinations of renames are skipped; a diff
  is taken out of the cache of the previous refresh or rendered.
\<close>

fun refresh_loop ::
  "diff_env \<Rightarrow> turn_diff_tracker \<Rightarrow> (tracked_path, tracked_path) fmap \<Rightarrow> tracked_path list
     \<Rightarrow> tracked_path fset \<Rightarrow> (diff_cache_key, str option) fmap \<Rightarrow> (diff_cache_key, str option) fmap \<Rightarrow> str
     \<Rightarrow> (diff_cache_key, str option) fmap \<times> str" where
  "refresh_loop de t pairs [] handled previous rendered aggregated = (rendered, aggregated)"
| "refresh_loop de t pairs (path # paths) handled previous rendered aggregated =
     (if path |\<in>| handled then refresh_loop de t pairs paths handled previous rendered aggregated
      else if path |\<in>| fmran pairs
      then refresh_loop de t pairs paths (finsert path handled) previous rendered aggregated
      else
        (let dest = (case fmlookup pairs path of Some d \<Rightarrow> d | None \<Rightarrow> path);
             handled' = finsert dest (finsert path handled);
             key = \<lparr>dk_left_path = path, dk_left_revision = revision_of (td_baseline t) path,
                    dk_right_path = dest, dk_right_revision = revision_of (td_current t) dest\<rparr>;
             diff = (case fmlookup previous key of
                 Some d \<Rightarrow> d
               | None \<Rightarrow> render_diff de (td_display_roots t) path (content_of (td_baseline t) path)
                           dest (content_of (td_current t) dest))
         in refresh_loop de t pairs paths handled' (fmdrop key previous) (fmupd key diff rendered)
              (push_diff aggregated diff)))"

definition refresh_paths :: "diff_env \<Rightarrow> turn_diff_tracker \<Rightarrow> tracked_path list" where
  "refresh_paths de t =
     remdups_adj (sort_key (display_path de (td_display_roots t))
       (de_iter de (fmdom (td_baseline t)) @ de_iter de (fmdom (td_current t))))"

definition refresh_unified_diff :: "diff_env \<Rightarrow> turn_diff_tracker \<Rightarrow> turn_diff_tracker" where
  "refresh_unified_diff de t =
     (let (rendered, aggregated) =
            refresh_loop de t (rename_pairs de t) (refresh_paths de t) {||} (td_rendered t) fmempty []
      in t\<lparr>td_rendered := rendered, td_unified_diff := (if aggregated = [] then None else Some aggregated)\<rparr>)"

definition track_delta :: "diff_env \<Rightarrow> str \<Rightarrow> applied_patch_delta \<Rightarrow> turn_diff_tracker \<Rightarrow> turn_diff_tracker" where
  "track_delta de env d t =
     (if \<not> td_valid t then t
      else if \<not> delta_exact d then invalidate t
      else refresh_unified_diff de (fold (apply_change env) (delta_changes d) t))"

end
