(* ===== verification/Turn_Diff_Properties.thy ===== *)
theory Turn_Diff_Properties
  imports Turn_Diff
begin

text \<open>
  The turn diff tracker keeps, for every path it tracks, the content at the start of the turn and
  the content now; its cache of rendered diffs is transparent; and together with exact patch deltas
  it follows the files without reading them.
\<close>

section \<open>The cache of rendered diffs\<close>

text \<open>\<open>H\<close> is the content each revision was taken for.\<close>

definition rev_ok :: "(nat \<Rightarrow> str) \<Rightarrow> nat \<Rightarrow> tracked_content \<Rightarrow> bool" where
  "rev_ok H n c \<longleftrightarrow> tc_revision c < n \<and> H (tc_revision c) = tc_content c"

definition revs_ok :: "(nat \<Rightarrow> str) \<Rightarrow> turn_diff_tracker \<Rightarrow> bool" where
  "revs_ok H t \<longleftrightarrow> fmpred (\<lambda>_. rev_ok H (td_next_revision t)) (td_baseline t)
     \<and> fmpred (\<lambda>_. rev_ok H (td_next_revision t)) (td_current t)"

lemma rev_ok_next: "rev_ok H n c \<Longrightarrow> rev_ok (H(n := x)) (Suc n) c"
  by (auto simp: rev_ok_def)

lemma fmpred_rev_ok_next: "fmpred (\<lambda>_. rev_ok H n) m \<Longrightarrow> fmpred (\<lambda>_. rev_ok (H(n := x)) (Suc n)) m"
  by (rule fmpredI) (auto dest: fmpredD intro: rev_ok_next)

definition entry_ok :: "(nat \<Rightarrow> str) \<Rightarrow> diff_env \<Rightarrow> (str, str) fmap \<Rightarrow> nat \<Rightarrow> diff_cache_key \<Rightarrow> str option \<Rightarrow> bool" where
  "entry_ok H de roots n k d \<longleftrightarrow>
     pred_option (\<lambda>r. r < n) (dk_left_revision k) \<and> pred_option (\<lambda>r. r < n) (dk_right_revision k)
     \<and> d = render_diff de roots (dk_left_path k) (map_option H (dk_left_revision k))
             (dk_right_path k) (map_option H (dk_right_revision k))"

definition cache_ok :: "(nat \<Rightarrow> str) \<Rightarrow> diff_env \<Rightarrow> (str, str) fmap \<Rightarrow> nat \<Rightarrow> (diff_cache_key, str option) fmap \<Rightarrow> bool" where
  "cache_ok H de roots n m \<longleftrightarrow> (\<forall>k d. fmlookup m k = Some d \<longrightarrow> entry_ok H de roots n k d)"

lemma cache_ok_empty [simp]: "cache_ok H de roots n fmempty"
  by (simp add: cache_ok_def)

lemma cache_ok_drop: "cache_ok H de roots n m \<Longrightarrow> cache_ok H de roots n (fmdrop k m)"
  by (auto simp: cache_ok_def split: if_splits)

lemma cache_ok_upd: "cache_ok H de roots n m \<Longrightarrow> entry_ok H de roots n k d \<Longrightarrow> cache_ok H de roots n (fmupd k d m)"
  by (auto simp: cache_ok_def)

lemma content_of_revision:
  assumes "fmpred (\<lambda>_. rev_ok H n) m"
  shows "content_of m p = map_option H (revision_of m p)" "pred_option (\<lambda>r. r < n) (revision_of m p)"
proof -
  have "rev_ok H n c" if "fmlookup m p = Some c" for c using fmpredD [OF assms that] .
  then show "content_of m p = map_option H (revision_of m p)" "pred_option (\<lambda>r. r < n) (revision_of m p)"
    by (cases "fmlookup m p"; simp add: content_of_def revision_of_def rev_ok_def)+
qed

lemma rendered_entry_ok:
  assumes "revs_ok H t"
  shows "entry_ok H de roots (td_next_revision t)
    \<lparr>dk_left_path = lp, dk_left_revision = revision_of (td_baseline t) lp,
     dk_right_path = rp, dk_right_revision = revision_of (td_current t) rp\<rparr>
    (render_diff de roots lp (content_of (td_baseline t) lp) rp (content_of (td_current t) rp))"
  using content_of_revision [OF assms [unfolded revs_ok_def, THEN conjunct1], of lp]
    content_of_revision [OF assms [unfolded revs_ok_def, THEN conjunct2], of rp]
  by (simp add: entry_ok_def)

lemma entry_ok_unique: "entry_ok H de roots n k d \<Longrightarrow> entry_ok H de roots n k d' \<Longrightarrow> d = d'"
  by (simp add: entry_ok_def)

lemma refresh_loop_cached:
  assumes "revs_ok H t" "cache_ok H de (td_display_roots t) (td_next_revision t) previous"
    and "cache_ok H de (td_display_roots t) (td_next_revision t) rendered"
  shows "refresh_loop de t pairs paths handled previous rendered aggregated
      = refresh_loop de t pairs paths handled fmempty rendered aggregated
    \<and> cache_ok H de (td_display_roots t) (td_next_revision t)
        (fst (refresh_loop de t pairs paths handled previous rendered aggregated))"
  using assms(2,3)
proof (induction paths arbitrary: handled previous rendered aggregated)
  case (Cons path paths)
  show ?case
  proof (cases "path |\<in>| handled \<or> path |\<in>| fmran pairs")
    case True
    then have step: "refresh_loop de t pairs (path # paths) handled prev rendered aggregated
        = refresh_loop de t pairs paths (if path |\<in>| handled then handled else finsert path handled) prev rendered aggregated"
      for prev by auto
    show ?thesis unfolding step by (rule Cons.IH [OF Cons.prems])
  next
    case False
    define dest where "dest = (case fmlookup pairs path of Some d \<Rightarrow> d | None \<Rightarrow> path)"
    define key where "key = \<lparr>dk_left_path = path, dk_left_revision = revision_of (td_baseline t) path,
      dk_right_path = dest, dk_right_revision = revision_of (td_current t) dest\<rparr>"
    define r where "r = render_diff de (td_display_roots t) path (content_of (td_baseline t) path)
                           dest (content_of (td_current t) dest)"
    have e: "entry_ok H de (td_display_roots t) (td_next_revision t) key r"
      unfolding key_def r_def by (rule rendered_entry_ok [OF assms(1)])
    have d: "(case fmlookup previous key of Some d \<Rightarrow> d | None \<Rightarrow> r) = r"
      using Cons.prems(1) entry_ok_unique [OF _ e] by (auto simp: cache_ok_def split: option.split)
    have drop: "fmdrop key fmempty = (fmempty :: (diff_cache_key, str option) fmap)" by (simp add: fmap_ext)
    have step: "refresh_loop de t pairs (path # paths) handled prev rendered aggregated
        = (let diff = (case fmlookup prev key of Some d \<Rightarrow> d | None \<Rightarrow> r) in
           refresh_loop de t pairs paths (finsert dest (finsert path handled)) (fmdrop key prev)
             (fmupd key diff rendered) (push_diff aggregated diff))" for prev
      using False by (simp only: refresh_loop.simps Let_def dest_def key_def r_def if_False de_Morgan_disj simp_thms)
    note IH = Cons.IH [OF cache_ok_drop [OF Cons.prems(1), where k = key] cache_ok_upd [OF Cons.prems(2) e]]
    show ?thesis unfolding step d drop Let_def fmempty_lookup option.case by (rule IH)
  qed
qed simp

text \<open>The diff rendered from scratch.\<close>

definition fresh_diff :: "diff_env \<Rightarrow> turn_diff_tracker \<Rightarrow> str option" where
  "fresh_diff de t =
     (let aggregated = snd (refresh_loop de t (rename_pairs de t) (refresh_paths de t) {||} fmempty fmempty [])
      in if aggregated = [] then None else Some aggregated)"

definition same_files :: "turn_diff_tracker \<Rightarrow> turn_diff_tracker \<Rightarrow> bool" where
  "same_files t u \<longleftrightarrow> td_display_roots t = td_display_roots u \<and> td_baseline t = td_baseline u
     \<and> td_current t = td_current u \<and> td_origin t = td_origin u"

lemma refresh_loop_same_files:
  assumes "same_files t u"
  shows "refresh_loop de t pairs paths handled previous rendered aggregated
    = refresh_loop de u pairs paths handled previous rendered aggregated"
proof -
  have u: "td_display_roots t = td_display_roots u" "td_baseline t = td_baseline u" "td_current t = td_current u"
    using assms by (simp_all add: same_files_def)
  show ?thesis
    by (induction paths arbitrary: handled previous rendered aggregated) (simp_all only: refresh_loop.simps u)
qed

lemma fresh_diff_same_files: "same_files t u \<Longrightarrow> fresh_diff de t = fresh_diff de u"
proof -
  assume s: "same_files t u"
  then have u: "td_display_roots t = td_display_roots u" "td_baseline t = td_baseline u"
    "td_current t = td_current u" "td_origin t = td_origin u"
    by (simp_all add: same_files_def)
  have "rename_pairs de t = rename_pairs de u" "refresh_paths de t = refresh_paths de u"
    by (simp_all only: rename_pairs_def refresh_paths_def u)
  then show ?thesis by (simp add: fresh_diff_def refresh_loop_same_files [OF s])
qed

definition stored_ok :: "diff_env \<Rightarrow> turn_diff_tracker \<Rightarrow> bool" where
  "stored_ok de t \<longleftrightarrow> (\<exists>H. revs_ok H t \<and> cache_ok H de (td_display_roots t) (td_next_revision t) (td_rendered t))"

definition tracker_inv :: "diff_env \<Rightarrow> turn_diff_tracker \<Rightarrow> bool" where
  "tracker_inv de t \<longleftrightarrow> stored_ok de t \<and> td_unified_diff t = (if td_valid t then fresh_diff de t else None)"

lemma cache_ok_mono:
  assumes "cache_ok H de roots n m" "\<And>r. r < n \<Longrightarrow> H' r = H r" "n \<le> n'"
  shows "cache_ok H' de roots n' m"
proof -
  have "entry_ok H' de roots n' k d" if "entry_ok H de roots n k d" for k d
    using that assms(2,3) by (cases "dk_left_revision k"; cases "dk_right_revision k") (auto simp: entry_ok_def)
  then show ?thesis using assms(1) by (auto simp: cache_ok_def)
qed

lemma stored_ok_insert:
  assumes "stored_ok de t"
  shows "stored_ok de (insert_baseline p c t)" "stored_ok de (insert_current p c t)"
proof -
  obtain H where H: "revs_ok H t" "cache_ok H de (td_display_roots t) (td_next_revision t) (td_rendered t)"
    using assms by (auto simp: stored_ok_def)
  let ?H = "H(td_next_revision t := c)"
  have c: "cache_ok ?H de (td_display_roots t) (td_next_revision t + 1) (td_rendered t)"
    by (rule cache_ok_mono [OF H(2)]) auto
  have "revs_ok ?H (insert_baseline p c t)" "revs_ok ?H (insert_current p c t)"
    using H(1) by (auto simp: revs_ok_def insert_baseline_def insert_current_def tracked_content_new_def rev_ok_def
        intro!: fmpred_upd dest: fmpred_rev_ok_next [where x = c])
  then show "stored_ok de (insert_baseline p c t)" "stored_ok de (insert_current p c t)"
    using c unfolding stored_ok_def
    by (auto simp: insert_baseline_def insert_current_def tracked_content_new_def intro!: exI [of _ ?H])
qed

lemma stored_ok_origin [simp]: "stored_ok de (t\<lparr>td_origin := x\<rparr>) = stored_ok de t"
  by (simp add: stored_ok_def revs_ok_def)

lemma stored_ok_drop: "stored_ok de t \<Longrightarrow> stored_ok de (t\<lparr>td_current := fmdrop p (td_current t)\<rparr>)"
  by (auto simp: stored_ok_def revs_ok_def intro: fmpred_drop)

lemma stored_ok_note: "stored_ok de t \<Longrightarrow> stored_ok de (note_baseline p old t)"
  by (simp add: note_baseline_def stored_ok_insert split: option.split)

lemma stored_ok_change: "stored_ok de t \<Longrightarrow> stored_ok de (apply_change env c t)"
proof (induction env c t rule: apply_change.induct)
  case (1 env p c ow t)
  then show ?case by (simp add: tracker_apply_add_def stored_ok_insert stored_ok_note)
next
  case (2 env p c t)
  then show ?case by (simp add: tracker_apply_delete_def Let_def stored_ok_insert stored_ok_drop)
next
  case (3 env p mv old ow new t)
  let ?t = "note_baseline (tracked_path_new env p) (Some old) t"
  have s: "stored_ok de ?t" using 3 by (rule stored_ok_note)
  have "stored_ok de ((note_baseline dest ow ?t)
      \<lparr>td_origin := x, td_current := fmdrop (tracked_path_new env p) (td_current (note_baseline dest ow ?t))\<rparr>)" for dest x
    using stored_ok_drop [OF stored_ok_note [OF s]] by (simp add: stored_ok_def revs_ok_def)
  then show ?case using s
    by (cases mv) (simp_all add: tracker_apply_update_def Let_def stored_ok_insert)
qed

lemma stored_ok_changes: "stored_ok de t \<Longrightarrow> stored_ok de (fold (apply_change env) cs t)"
  by (induction cs arbitrary: t) (simp_all add: stored_ok_change)

lemma apply_change_valid [simp]: "td_valid (apply_change env c t) = td_valid t"
  by (induction env c t rule: apply_change.induct)
    (auto simp: tracker_apply_add_def tracker_apply_delete_def tracker_apply_update_def Let_def note_baseline_def
      insert_current_def insert_baseline_def tracked_content_new_def split: option.split)

lemma changes_valid [simp]: "td_valid (fold (apply_change env) cs t) = td_valid t"
  by (induction cs arbitrary: t) simp_all

lemma refresh_inv:
  assumes "stored_ok de t" "td_valid t"
  shows "tracker_inv de (refresh_unified_diff de t)"
proof -
  obtain H where H: "revs_ok H t" "cache_ok H de (td_display_roots t) (td_next_revision t) (td_rendered t)"
    using assms(1) by (auto simp: stored_ok_def)
  obtain rendered aggregated where r:
    "refresh_loop de t (rename_pairs de t) (refresh_paths de t) {||} (td_rendered t) fmempty [] = (rendered, aggregated)"
    by fastforce
  note c = refresh_loop_cached [OF H cache_ok_empty, of "rename_pairs de t" "refresh_paths de t" "{||}" "[]"]
  let ?t = "refresh_unified_diff de t"
  have t: "?t = t\<lparr>td_rendered := rendered, td_unified_diff := (if aggregated = [] then None else Some aggregated)\<rparr>"
    by (simp add: refresh_unified_diff_def r)
  have "fresh_diff de ?t = fresh_diff de t" by (rule fresh_diff_same_files) (simp add: t same_files_def)
  also have "\<dots> = (if aggregated = [] then None else Some aggregated)"
  proof -
    have "refresh_loop de t (rename_pairs de t) (refresh_paths de t) {||} fmempty fmempty [] = (rendered, aggregated)"
      using c r by (metis (no_types))
    then show ?thesis by (simp add: fresh_diff_def)
  qed
  finally have u: "td_unified_diff ?t = fresh_diff de ?t" by (simp add: t)
  have "revs_ok H ?t" using H(1) by (simp add: t revs_ok_def)
  moreover have "cache_ok H de (td_display_roots ?t) (td_next_revision ?t) (td_rendered ?t)" using c r by (simp add: t)
  ultimately show ?thesis using u assms(2) by (auto simp: tracker_inv_def stored_ok_def t)
qed

text \<open>The tracker as a machine: deltas are tracked, and an unknown change invalidates it.\<close>

datatype tracker_op = TrackDelta str applied_patch_delta | Invalidate

fun tracker_step :: "diff_env \<Rightarrow> tracker_op \<Rightarrow> turn_diff_tracker \<Rightarrow> turn_diff_tracker" where
  "tracker_step de (TrackDelta env d) t = track_delta de env d t"
| "tracker_step de Invalidate t = invalidate t"

lemma invalidate_inv: "stored_ok de t \<Longrightarrow> tracker_inv de (invalidate t)"
  by (auto simp: tracker_inv_def stored_ok_def invalidate_def revs_ok_def)

lemma tracker_step_inv: "tracker_inv de t \<Longrightarrow> tracker_inv de (tracker_step de x t)"
proof (cases x)
  case (TrackDelta env d)
  assume inv: "tracker_inv de t"
  then have "stored_ok de t" by (simp add: tracker_inv_def)
  then show ?thesis
    using TrackDelta inv invalidate_inv [of de t] refresh_inv [OF stored_ok_changes, of de t env "delta_changes d"]
    by (simp add: track_delta_def)
next
  case Invalidate
  assume "tracker_inv de t"
  then show ?thesis using Invalidate invalidate_inv [of de t] by (simp add: tracker_inv_def)
qed

interpretation tracker_machine: guarded_machine "tracker_step de" "tracker_inv de" "\<lambda>_ _. True" for de
  by unfold_locales (rule tracker_step_inv)

text \<open>Iterating over a hash map visits every key once, in any order.\<close>

definition iter_ok :: "diff_env \<Rightarrow> bool" where
  "iter_ok de \<longleftrightarrow> (\<forall>A. distinct (de_iter de A) \<and> set (de_iter de A) = fset A)"

lemma iter_empty: "iter_ok de \<Longrightarrow> de_iter de {||} = []"
  by (metis iter_ok_def bot_fset.rep_eq set_empty)

lemma tracker_start_inv: "iter_ok de \<Longrightarrow> tracker_inv de (with_environment_display_roots roots)"
  by (simp add: tracker_inv_def stored_ok_def revs_ok_def with_environment_display_roots_def tracker_new_def
      fresh_diff_def refresh_paths_def iter_empty)

lemma tracker_reachable_inv:
  assumes "iter_ok de"
  shows "tracker_inv de (run_ops (tracker_step de) ops (with_environment_display_roots roots))"
proof -
  have "allowed_run (\<lambda>_ _. True) (tracker_step de) ops s" for s by (induction ops arbitrary: s) simp_all
  then show ?thesis by (rule tracker_machine.run_inv [OF tracker_start_inv [OF assms]])
qed


text \<open>An iteration order: sorted by environment and path.\<close>

definition list_iter :: "tracked_path fset \<Rightarrow> tracked_path list" where
  "list_iter A = map (\<lambda>k. tracked_path_new (k ! 0) (k ! 1))
     (sorted_list_of_fset ((\<lambda>p. [tp_environment_id p, tp_path p]) |`| A))"

lemma list_iter_ok: "distinct (list_iter A) \<and> set (list_iter A) = fset A"
proof
  have s: "set (sorted_list_of_fset ((\<lambda>p. [tp_environment_id p, tp_path p]) |`| A))
      = (\<lambda>p. [tp_environment_id p, tp_path p]) ` fset A"
    by simp
  show "distinct (list_iter A)"
    unfolding list_iter_def distinct_map s by (auto simp: inj_on_def tracked_path_new_def)
  have "tracked_path_new (tp_environment_id p) (tp_path p) = p" for p by (cases p) (simp add: tracked_path_new_def)
  then show "set (list_iter A) = fset A"
    unfolding list_iter_def set_map s by (simp add: image_image)
qed

definition sample_diff_env :: diff_env where
  "sample_diff_env = \<lparr>de_relative_path_from = \<lambda>p r. None, de_native = \<lambda>p. p, de_sha1_hex = \<lambda>b. [],
     de_unified = \<lambda>l r a b. l @ r, de_iter = list_iter\<rparr>"

lemma sample_iter_ok: "iter_ok sample_diff_env"
  by (simp add: iter_ok_def sample_diff_env_def list_iter_ok)


section \<open>The tracked files\<close>

text \<open>
  \<open>tracks t m0 m\<close>: \<open>m0\<close> are the texts at the start of the turn and \<open>m\<close> the texts now, over all
  environments.
\<close>

definition before_of :: "turn_diff_tracker \<Rightarrow> tracked_path \<Rightarrow> str option" where
  "before_of t = content_of (td_baseline t)"

definition now_of :: "turn_diff_tracker \<Rightarrow> tracked_path \<Rightarrow> str option" where
  "now_of t = content_of (td_current t)"

definition path_ok :: "str option \<Rightarrow> str option \<Rightarrow> str option \<Rightarrow> str option \<Rightarrow> bool" where
  "path_ok b n x0 x \<longleftrightarrow> (if b = None \<and> n = None then x0 = x else b = x0 \<and> n = x)"

definition tracks :: "turn_diff_tracker \<Rightarrow> (tracked_path \<Rightarrow> str option) \<Rightarrow> (tracked_path \<Rightarrow> str option) \<Rightarrow> bool" where
  "tracks t m0 m \<longleftrightarrow> (\<forall>p. path_ok (before_of t p) (now_of t p) (m0 p) (m p))"

definition env_texts :: "str \<Rightarrow> (tracked_path \<Rightarrow> str option) \<Rightarrow> texts" where
  "env_texts env m = (\<lambda>p. m (tracked_path_new env p))"

definition set_env_texts :: "str \<Rightarrow> texts \<Rightarrow> (tracked_path \<Rightarrow> str option) \<Rightarrow> (tracked_path \<Rightarrow> str option)" where
  "set_env_texts env x m = (\<lambda>p. if tp_environment_id p = env then x (tp_path p) else m p)"

lemma tracked_path_new_inject [simp]: "tracked_path_new e p = tracked_path_new e q \<longleftrightarrow> p = q"
  by (simp add: tracked_path_new_def)

lemma env_set [simp]: "env_texts env (set_env_texts env x m) = x"
  by (simp add: env_texts_def set_env_texts_def tracked_path_new_def)

lemma set_set [simp]: "set_env_texts env x (set_env_texts env y m) = set_env_texts env x m"
  by (simp add: set_env_texts_def fun_eq_iff)

lemma set_env [simp]: "set_env_texts env (env_texts env m) m = m"
proof
  fix q
  show "set_env_texts env (env_texts env m) m q = m q"
    by (cases q) (simp add: set_env_texts_def env_texts_def tracked_path_new_def)
qed

lemma set_env_upd: "set_env_texts env (x(p := v)) m = (set_env_texts env x m)(tracked_path_new env p := v)"
proof
  fix q
  show "set_env_texts env (x(p := v)) m q = ((set_env_texts env x m)(tracked_path_new env p := v)) q"
    by (cases q) (auto simp: set_env_texts_def tracked_path_new_def)
qed

lemma untracked_iff: "untracked p t \<longleftrightarrow> before_of t p = None \<and> now_of t p = None"
  by (auto simp: untracked_def before_of_def now_of_def content_of_def fmdom_notI fmlookup_dom_iff)

lemma insert_views [simp]:
  "before_of (insert_baseline p c t) = (before_of t)(p := Some c)" "now_of (insert_baseline p c t) = now_of t"
  "before_of (insert_current p c t) = before_of t" "now_of (insert_current p c t) = (now_of t)(p := Some c)"
  by (auto simp: insert_baseline_def insert_current_def tracked_content_new_def before_of_def now_of_def
      content_of_def fun_eq_iff)

lemma update_views [simp]:
  "before_of (t\<lparr>td_origin := x\<rparr>) = before_of t" "now_of (t\<lparr>td_origin := x\<rparr>) = now_of t"
  "before_of (t\<lparr>td_current := y\<rparr>) = before_of t" "now_of (t\<lparr>td_current := fmdrop p (td_current t)\<rparr>) = (now_of t)(p := None)"
  "now_of (t\<lparr>td_origin := x, td_current := fmdrop p (td_current t)\<rparr>) = (now_of t)(p := None)"
  by (auto simp: before_of_def now_of_def content_of_def fun_eq_iff)

lemma note_views [simp]:
  "now_of (note_baseline p old t) = now_of t"
  "before_of (note_baseline p old t)
     = (if before_of t p = None \<and> now_of t p = None then (before_of t)(p := old) else before_of t)"
  by (auto simp: note_baseline_def untracked_iff fun_upd_idem split: option.split)

text \<open>
  A step that leaves a path alone, or records its content if it was untracked and then its new
  content, keeps the tracker in line with the files.
\<close>

definition first_seen :: "turn_diff_tracker \<Rightarrow> tracked_path \<Rightarrow> str option \<Rightarrow> str option" where
  "first_seen t p old = (if before_of t p = None \<and> now_of t p = None then old else before_of t p)"

lemma tracks_step:
  assumes "tracks t m0 m"
    and "\<And>q. m' q = m q \<and> before_of t' q = before_of t q \<and> now_of t' q = now_of t q
      \<or> before_of t' q = first_seen t q (m q) \<and> now_of t' q = m' q"
  shows "tracks t' m0 m'"
  unfolding tracks_def
proof
  fix q
  have "path_ok (before_of t q) (now_of t q) (m0 q) (m q)" using assms(1) by (simp add: tracks_def)
  then show "path_ok (before_of t' q) (now_of t' q) (m0 q) (m' q)"
    using assms(2) [of q] by (auto simp: path_ok_def first_seen_def split: if_splits)
qed

lemma note_first_seen: "before_of (note_baseline p old t) q = (if q = p then first_seen t p old else before_of t q)"
  by (simp add: first_seen_def)

lemma tracks_add:
  assumes "tracks t m0 m" "m p = ow"
  shows "tracks (tracker_apply_add p c ow t) m0 (m(p := Some c))"
  using assms(2) by (intro tracks_step [OF assms(1)]) (auto simp: tracker_apply_add_def first_seen_def)

lemma tracks_delete:
  assumes "tracks t m0 m" "m p = Some c"
  shows "tracks (tracker_apply_delete p c t) m0 (m(p := None))"
  using assms(2) by (intro tracks_step [OF assms(1)])
    (auto simp: tracker_apply_delete_def Let_def untracked_iff first_seen_def)

lemma tracks_update:
  assumes "tracks t m0 m" "m p = Some old"
  shows "tracks (tracker_apply_update p None old ow new t) m0 (m(p := Some new))"
  using assms(2) by (intro tracks_step [OF assms(1)]) (auto simp: tracker_apply_update_def first_seen_def)

lemma move_views:
  "now_of (tracker_apply_update p (Some dest) old ow new t) = (now_of t)(p := None, dest := Some new)"
  "before_of (tracker_apply_update p (Some dest) old ow new t)
     = before_of (note_baseline dest ow (note_baseline p (Some old) t))"
  by (simp_all add: tracker_apply_update_def Let_def del: note_views(2))

lemma tracks_move:
  assumes "tracks t m0 m" "m p = Some old" "m dest = ow" "p \<noteq> dest"
  shows "tracks (tracker_apply_update p (Some dest) old ow new t) m0 (m(dest := Some new, p := None))"
proof (rule tracks_step [OF assms(1)])
  fix q
  have d: "first_seen (note_baseline p (Some old) t) dest ow = first_seen t dest ow"
    using assms(4) by (auto simp: first_seen_def)
  consider "q = p" | "q = dest" | "q \<noteq> p" "q \<noteq> dest" by blast
  then show "(m(dest := Some new, p := None)) q = m q
      \<and> before_of (tracker_apply_update p (Some dest) old ow new t) q = before_of t q
      \<and> now_of (tracker_apply_update p (Some dest) old ow new t) q = now_of t q
    \<or> before_of (tracker_apply_update p (Some dest) old ow new t) q = first_seen t q (m q)
      \<and> now_of (tracker_apply_update p (Some dest) old ow new t) q = (m(dest := Some new, p := None)) q"
    using assms(2-4) d by cases (simp_all add: move_views note_first_seen del: note_views(2))
qed

text \<open>No move of a file onto itself.\<close>

fun no_self_move :: "applied_patch_change \<Rightarrow> bool" where
  "no_self_move (p, UpdatedFile (Some dest) old ow new) \<longleftrightarrow> dest \<noteq> p"
| "no_self_move _ \<longleftrightarrow> True"

lemma tracks_change:
  assumes "tracks t m0 m" "undo_change c (replay_change c (env_texts env m)) = env_texts env m" "no_self_move c"
  shows "tracks (apply_change env c t) m0 (set_env_texts env (replay_change c (env_texts env m)) m)"
  using assms
proof (induction env c t rule: apply_change.induct)
  case (1 env p c ow t)
  then have "m (tracked_path_new env p) = ow" by (metis env_texts_def fun_upd_same undo_change.simps(1))
  then show ?case using tracks_add [OF "1.prems"(1)]
    by (simp only: apply_change.simps replay_change.simps set_env_upd set_env)
next
  case (2 env p c t)
  then have "m (tracked_path_new env p) = Some c" by (metis env_texts_def fun_upd_same undo_change.simps(2))
  then show ?case using tracks_delete [OF "2.prems"(1)]
    by (simp only: apply_change.simps replay_change.simps set_env_upd set_env)
next
  case (3 env p mv old ow new t)
  show ?case
  proof (cases mv)
    case None
    then have "m (tracked_path_new env p) = Some old" using "3.prems"(2) by (metis env_texts_def fun_upd_same undo_change.simps(3))
    then show ?thesis using tracks_update [OF "3.prems"(1)] None
      by (simp only: apply_change.simps replay_change.simps set_env_upd set_env option.map)
  next
    case (Some dest)
    then have ne: "p \<noteq> dest" using "3.prems"(3) by auto
    have "m (tracked_path_new env p) = Some old" "m (tracked_path_new env dest) = ow"
      using fun_cong [OF "3.prems"(2), of p] fun_cong [OF "3.prems"(2), of dest] ne Some by (simp_all add: env_texts_def)
    then show ?thesis using tracks_move [OF "3.prems"(1)] Some ne
      by (simp only: apply_change.simps replay_change.simps set_env_upd set_env option.map tracked_path_new_inject
          not_False_eq_True)
  qed
qed

lemma tracks_changes:
  assumes "tracks t m0 m" "consistent cs (env_texts env m)" "list_all no_self_move cs"
  shows "tracks (fold (apply_change env) cs t) m0 (set_env_texts env (replay cs (env_texts env m)) m)"
  using assms
proof (induction cs arbitrary: t m)
  case (Cons c cs)
  let ?m = "set_env_texts env (replay_change c (env_texts env m)) m"
  have "tracks (apply_change env c t) m0 ?m" using tracks_change [OF Cons.prems(1)] Cons.prems(2,3) by simp
  then show ?case using Cons.IH [of "apply_change env c t" ?m] Cons.prems(2,3) by (simp add: replay_def)
qed simp

lemma tracks_refresh [simp]: "tracks (refresh_unified_diff de t) m0 m = tracks t m0 m"
  by (simp add: tracks_def refresh_unified_diff_def before_of_def now_of_def split: prod.split)



section \<open>Net changes\<close>

text \<open>The path a file has now, given the renames.\<close>

definition renamed_to :: "(tracked_path, tracked_path) fmap \<Rightarrow> tracked_path \<Rightarrow> tracked_path" where
  "renamed_to pairs p = (case fmlookup pairs p of Some d \<Rightarrow> d | None \<Rightarrow> p)"

definition diff_of :: "diff_env \<Rightarrow> turn_diff_tracker \<Rightarrow> (tracked_path, tracked_path) fmap \<Rightarrow> tracked_path \<Rightarrow> str option" where
  "diff_of de t pairs p = render_diff de (td_display_roots t) p (before_of t p)
     (renamed_to pairs p) (now_of t (renamed_to pairs p))"

lemma push_diff_empty: "push_diff a d = [] \<longleftrightarrow> a = [] \<and> d = None"
  by (auto simp: push_diff_def Let_def ends_with_def strip_suffix_def split: option.splits if_splits)

lemma render_diff_None: "render_diff de roots lp l rp r = None \<longleftrightarrow> l = r"
  by (simp add: render_diff_def Let_def)

lemma refresh_loop_empty:
  "snd (refresh_loop de t pairs paths handled fmempty rendered aggregated) = [] \<longleftrightarrow>
     aggregated = [] \<and> (\<forall>p \<in> set paths. p |\<in>| handled \<or> p |\<in>| fmran pairs \<or> diff_of de t pairs p = None)"
proof (induction paths arbitrary: handled rendered aggregated)
  case (Cons path paths)
  have drop: "fmdrop k fmempty = (fmempty :: (diff_cache_key, str option) fmap)" for k by (simp add: fmap_ext)
  consider "path |\<in>| handled" | "path |\<notin>| handled" "path |\<in>| fmran pairs" | "path |\<notin>| handled" "path |\<notin>| fmran pairs"
    by blast
  then show ?case
  proof cases
    case 1
    then show ?thesis using Cons.IH [of handled rendered aggregated] by auto
  next
    case 2
    then show ?thesis using Cons.IH [of "finsert path handled" rendered aggregated] by auto
  next
    case 3
    let ?dest = "renamed_to pairs path"
    have ran: "?dest = path \<or> ?dest |\<in>| fmran pairs" by (auto simp: renamed_to_def intro: fmranI split: option.split)
    obtain key where step: "refresh_loop de t pairs (path # paths) handled fmempty rendered aggregated
        = refresh_loop de t pairs paths (finsert ?dest (finsert path handled)) fmempty
            (fmupd key (diff_of de t pairs path) rendered) (push_diff aggregated (diff_of de t pairs path))"
      using 3 by (auto simp: Let_def drop diff_of_def renamed_to_def before_of_def now_of_def)
    show ?thesis unfolding step Cons.IH push_diff_empty using 3 ran by auto
  qed
qed simp

lemma refresh_paths_set:
  assumes "iter_ok de"
  shows "set (refresh_paths de t) = {p. before_of t p \<noteq> None \<or> now_of t p \<noteq> None}"
  using assms
  by (auto simp: refresh_paths_def iter_ok_def before_of_def now_of_def content_of_def fmlookup_dom_iff)

lemma rename_pairs_tracked:
  "fmpred (\<lambda>p q. p |\<in>| fmdom (td_baseline t) \<and> q |\<in>| fmdom (td_current t)) (rename_pairs de t)"
proof -
  let ?P = "\<lambda>p q. p |\<in>| fmdom (td_baseline t) \<and> q |\<in>| fmdom (td_current t)"
  have "fmpred ?P (fold (\<lambda>dest m. case fmlookup (td_origin t) dest of
         None \<Rightarrow> m
       | Some origin \<Rightarrow>
           if dest = origin \<or> origin |\<in>| fmdom (td_current t) \<or> dest |\<notin>| fmdom (td_current t)
              \<or> origin |\<notin>| fmdom (td_baseline t) \<or> dest |\<in>| fmdom (td_baseline t)
           then m else fmupd origin dest m) ds m)" if "fmpred ?P m" for ds m
    using that
  proof (induction ds arbitrary: m)
    case (Cons d ds)
    show ?case unfolding fold_Cons o_apply
      by (rule Cons.IH) (use Cons.prems in \<open>auto intro!: fmpred_upd split: option.split\<close>)
  qed simp
  from this [OF fmpred_empty] show ?thesis unfolding rename_pairs_def .
qed

lemma tracks_point:
  assumes "tracks t m0 m"
  shows "before_of t p \<noteq> None \<or> now_of t p \<noteq> None \<Longrightarrow> before_of t p = m0 p \<and> now_of t p = m p"
    and "before_of t p = None \<Longrightarrow> now_of t p = None \<Longrightarrow> m0 p = m p"
  using assms [unfolded tracks_def, rule_format, of p] by (auto simp: path_ok_def split: if_splits)

lemma in_views:
  "p |\<in>| fmdom (td_baseline t) \<longleftrightarrow> before_of t p \<noteq> None" "p |\<in>| fmdom (td_current t) \<longleftrightarrow> now_of t p \<noteq> None"
  by (auto simp: before_of_def now_of_def content_of_def fmlookup_dom_iff)

lemma renamed_content:
  assumes "tracks t m0 m" "before_of t p \<noteq> None \<or> now_of t p \<noteq> None"
  shows "diff_of de t (rename_pairs de t) p = None \<longleftrightarrow> m0 p = m (renamed_to (rename_pairs de t) p)"
proof -
  have "now_of t (renamed_to (rename_pairs de t) p) = m (renamed_to (rename_pairs de t) p)"
  proof (cases "fmlookup (rename_pairs de t) p")
    case None
    then show ?thesis using tracks_point(1) [OF assms] by (simp add: renamed_to_def)
  next
    case (Some q)
    then have "now_of t q \<noteq> None" using fmpredD [OF rename_pairs_tracked Some] by (simp add: in_views)
    then show ?thesis using tracks_point(1) [OF assms(1), of q] Some by (simp add: renamed_to_def)
  qed
  then show ?thesis using tracks_point(1) [OF assms] by (simp add: diff_of_def render_diff_None)
qed

lemma untracked_not_renamed:
  "before_of t p = None \<Longrightarrow> renamed_to (rename_pairs de t) p = p"
  using fmpredD [OF rename_pairs_tracked] by (fastforce simp: renamed_to_def in_views split: option.split)

lemma fresh_diff_None_iff:
  assumes "iter_ok de" "tracks t m0 m"
  shows "fresh_diff de t = None \<longleftrightarrow>
    (\<forall>p. p |\<notin>| fmran (rename_pairs de t) \<longrightarrow> m0 p = m (renamed_to (rename_pairs de t) p))"
proof -
  let ?r = "rename_pairs de t"
  have "fresh_diff de t = None \<longleftrightarrow>
      (\<forall>p \<in> set (refresh_paths de t). p |\<in>| fmran ?r \<or> diff_of de t ?r p = None)"
    by (simp add: fresh_diff_def Let_def refresh_loop_empty)
  also have "\<dots> \<longleftrightarrow> (\<forall>p. p |\<notin>| fmran ?r \<longrightarrow> m0 p = m (renamed_to ?r p))" (is "?L \<longleftrightarrow> ?R")
  proof
    assume L: ?L
    show ?R
    proof (intro allI impI)
      fix p
      assume p: "p |\<notin>| fmran ?r"
      show "m0 p = m (renamed_to ?r p)"
      proof (cases "before_of t p \<noteq> None \<or> now_of t p \<noteq> None")
        case True
        then show ?thesis using L p renamed_content [OF assms(2) True] refresh_paths_set [OF assms(1)] by blast
      next
        case False
        then show ?thesis using tracks_point(2) [OF assms(2)] untracked_not_renamed by simp
      qed
    qed
  next
    assume R: ?R
    show ?L
    proof
      fix p
      assume "p \<in> set (refresh_paths de t)"
      then have "before_of t p \<noteq> None \<or> now_of t p \<noteq> None" by (simp add: refresh_paths_set [OF assms(1)])
      from renamed_content [OF assms(2) this, of de] show "p |\<in>| fmran ?r \<or> diff_of de t ?r p = None"
        using R [rule_format, of p] by (cases "p |\<in>| fmran ?r") simp_all
    qed
  qed
  finally show ?thesis .
qed

text \<open>
  A valid tracker that is in line with the files reports no diff exactly when every file has
  the text it had at the start of the turn, under the name it has been renamed to; the destination
  of a rename is compared with its origin.
\<close>

theorem no_diff_iff_no_net_change:
  assumes "iter_ok de" "t = run_ops (tracker_step de) ops (with_environment_display_roots roots)"
    and "td_valid t" "tracks t m0 m"
  shows "get_unified_diff t = None \<longleftrightarrow>
    (\<forall>p. p |\<notin>| fmran (rename_pairs de t) \<longrightarrow> m0 p = m (renamed_to (rename_pairs de t) p))"
  using tracker_reachable_inv [OF assms(1), of ops roots] assms(2,3) fresh_diff_None_iff [OF assms(1,4)]
  by (simp add: tracker_inv_def get_unified_diff_def)

theorem no_diff_iff_no_net_change_witness:
  "get_unified_diff (run_ops (tracker_step sample_diff_env) [] (with_environment_display_roots [])) = None"
proof -
  let ?t = "run_ops (tracker_step sample_diff_env) [] (with_environment_display_roots [])"
  have "td_valid ?t" "tracks ?t (\<lambda>_. None) (\<lambda>_. None)"
    by (simp_all add: with_environment_display_roots_def tracker_new_def tracks_def path_ok_def before_of_def now_of_def
        content_of_def)
  from no_diff_iff_no_net_change [OF sample_iter_ok refl this] show ?thesis by simp
qed

end
