(* ===== verification/Absolute_Path.thy ===== *)
theory Absolute_Path
  imports Prelude
begin

text \<open>
  Paths that are absolute and normalised: \<open>utils/absolute-path/src/lib.rs\<close> and
  \<open>absolutize.rs\<close>, in the build for platforms other than Windows. A \<open>Path\<close> is the list of its
  components, which is what \<open>Path\<close>'s equality, hash and accessors see; \<open>components\<close> reads it
  from a text. The home directory and the current directory are arguments.
\<close>

section \<open>Paths of the standard library\<close>

datatype component = RootDir | CurDir | ParentDir | Normal str

type_synonym path = "component list"

text \<open>
  \<open>Path::components\<close>: empty segments vanish, and so do \<open>.\<close> segments other than a leading one.
\<close>

fun segment_component :: "str \<Rightarrow> component" where
  "segment_component seg = (if seg = [46] then CurDir else if seg = [46, 46] then ParentDir else Normal seg)"

declare segment_component.simps [simp del]

definition segments :: "str list \<Rightarrow> path" where
  "segments segs = map segment_component (filter (\<lambda>seg. seg \<noteq> [] \<and> seg \<noteq> [46]) segs)"

definition components :: "str \<Rightarrow> path" where
  "components s =
     (let segs = split_on 47 s in
      if starts_with [47] s then RootDir # segments segs
      else if hd segs = [46] then CurDir # segments segs
      else segments segs)"

definition is_absolute :: "path \<Rightarrow> bool" where
  "is_absolute p \<longleftrightarrow> (case p of RootDir # _ \<Rightarrow> True | _ \<Rightarrow> False)"

text \<open>\<open>Path::join\<close> and \<open>PathBuf::push\<close>: an absolute argument replaces the path.\<close>

definition path_join :: "path \<Rightarrow> path \<Rightarrow> path" where
  "path_join p q =
     (if is_absolute q then q
      else if p = [] then q
      else p @ (case q of CurDir # r \<Rightarrow> r | _ \<Rightarrow> q))"

definition path_parent :: "path \<Rightarrow> path option" where
  "path_parent p = (if p = [] \<or> last p = RootDir then None else Some (butlast p))"

definition path_pop :: "path \<Rightarrow> path" where
  "path_pop p = (case path_parent p of Some q \<Rightarrow> q | None \<Rightarrow> p)"

definition file_name :: "path \<Rightarrow> str option" where
  "file_name p = (if p = [] then None else case last p of Normal n \<Rightarrow> Some n | _ \<Rightarrow> None)"

text \<open>\<open>Path::ancestors\<close>: the path, its parent, the parent of that, and so on.\<close>

function path_ancestors :: "path \<Rightarrow> path list" where
  "path_ancestors p = p # (case path_parent p of Some q \<Rightarrow> path_ancestors q | None \<Rightarrow> [])"
  by auto
termination
  by (relation "measure length") (auto simp: path_parent_def split: if_splits)

declare path_ancestors.simps [simp del]

text \<open>The text of a path that starts at the root.\<close>

fun component_text :: "component \<Rightarrow> str" where
  "component_text RootDir = []"
| "component_text CurDir = [46]"
| "component_text ParentDir = [46, 46]"
| "component_text (Normal n) = n"

definition path_text :: "path \<Rightarrow> str" where
  "path_text p = (if p = [RootDir] then [47] else join_with [47] (map component_text p))"

section \<open>Absolutising\<close>

definition normalize_step :: "path \<Rightarrow> component \<Rightarrow> path" where
  "normalize_step normalized c =
     (case c of
        CurDir \<Rightarrow> normalized
      | ParentDir \<Rightarrow> path_pop normalized
      | _ \<Rightarrow> path_join normalized [c])"

definition normalize_path :: "path \<Rightarrow> path" where
  "normalize_path p =
     (let normalized = foldl normalize_step [] p in if normalized = [] then [CurDir] else normalized)"

definition path_with_base :: "path \<Rightarrow> path \<Rightarrow> path" where
  "path_with_base p base = (if is_absolute p then p else path_join base p)"

definition absolutize_from :: "path \<Rightarrow> path \<Rightarrow> path" where
  "absolutize_from p base = normalize_path (path_with_base p base)"

definition absolutize :: "'e + path \<Rightarrow> path \<Rightarrow> 'e + path" where
  "absolutize cwd p =
     (if is_absolute p then Inr (normalize_path p)
      else and_then cwd (\<lambda>dir. Inr (absolutize_from p dir)))"

section \<open>AbsolutePathBuf\<close>

definition maybe_expand_home_directory :: "path option \<Rightarrow> str \<Rightarrow> path" where
  "maybe_expand_home_directory home path_str =
     (case (strip_prefix [126] path_str, home) of
        (Some rest, Some dir) \<Rightarrow>
          if rest = [] then dir
          else (case strip_prefix [47] rest of
                  Some rest' \<Rightarrow> path_join dir (components (dropWhile (\<lambda>c. c = 47) rest'))
                | None \<Rightarrow> components path_str)
      | _ \<Rightarrow> components path_str)"

definition resolve_path_against_base :: "path option \<Rightarrow> str \<Rightarrow> path \<Rightarrow> path" where
  "resolve_path_against_base home p base = absolutize_from (maybe_expand_home_directory home p) base"

definition from_absolute_path :: "path option \<Rightarrow> 'e + path \<Rightarrow> str \<Rightarrow> 'e + path" where
  "from_absolute_path home cwd p = absolutize cwd (maybe_expand_home_directory home p)"

definition not_absolute_message :: "str \<Rightarrow> str" where
  "not_absolute_message p = lit ''path is not absolute: '' @ p"

definition from_absolute_path_checked :: "path option \<Rightarrow> str \<Rightarrow> str + path" where
  "from_absolute_path_checked home p =
     (let expanded = maybe_expand_home_directory home p in
      if is_absolute expanded then Inr (absolutize_from expanded [RootDir])
      else Inl (not_absolute_message p))"

definition relative_to_current_dir :: "path option \<Rightarrow> 'e + path \<Rightarrow> str \<Rightarrow> 'e + path" where
  "relative_to_current_dir home cwd p =
     and_then cwd (\<lambda>dir. Inr (resolve_path_against_base home p dir))"

definition abs_join :: "path option \<Rightarrow> path \<Rightarrow> str \<Rightarrow> path" where
  "abs_join home self p = resolve_path_against_base home p self"

definition abs_parent :: "path \<Rightarrow> path option" where
  "abs_parent self = path_parent self"

definition abs_ancestors :: "path \<Rightarrow> path list" where
  "abs_ancestors self = path_ancestors self"

text \<open>
  Deserialising: the base is the one of the guard held on the thread, if any; without a base
  only an absolute text is accepted.
\<close>

datatype 'e deserialize_error = FromPath 'e | NoBase

definition deserialize :: "path option \<Rightarrow> 'e + path \<Rightarrow> path option \<Rightarrow> str \<Rightarrow> 'e deserialize_error + path" where
  "deserialize home cwd guard p =
     (case guard of
        Some base \<Rightarrow> Inr (resolve_path_against_base home p base)
      | None \<Rightarrow>
          if is_absolute (components p)
          then (case from_absolute_path home cwd p of Inr q \<Rightarrow> Inr q | Inl e \<Rightarrow> Inl (FromPath e))
          else Inl NoBase)"

section \<open>Aliases of Windows paths\<close>

fun is_windows_drive_absolute_path :: "str \<Rightarrow> bool" where
  "is_windows_drive_absolute_path (b0 # b1 # b2 # bs) =
     (is_ascii_alphabetic b0 \<and> b1 = 58 \<and> (b2 = 92 \<or> b2 = 47))"
| "is_windows_drive_absolute_path _ = False"

definition windows_alias :: "uchar \<Rightarrow> str \<Rightarrow> str option" where
  "windows_alias c p =
     (case strip_prefix [92, 92, c, 92] p of
        Some rest \<Rightarrow> if is_windows_drive_absolute_path rest then Some rest else None
      | None \<Rightarrow> None)"

definition windows_unc :: "uchar \<Rightarrow> str \<Rightarrow> str option" where
  "windows_unc c p = map_option (\<lambda>unc. [92, 92] @ unc) (strip_prefix ([92, 92, c, 92] @ lit ''UNC'' @ [92]) p)"

definition normalize_windows_device_path :: "str \<Rightarrow> str option" where
  "normalize_windows_device_path p =
     (case windows_unc 63 p of Some u \<Rightarrow> Some u
      | None \<Rightarrow> (case windows_unc 46 p of Some u \<Rightarrow> Some u
      | None \<Rightarrow> (case windows_alias 63 p of Some u \<Rightarrow> Some u
      | None \<Rightarrow> windows_alias 46 p)))"

section \<open>Normal paths\<close>

definition plain_segment :: "component \<Rightarrow> bool" where
  "plain_segment c \<longleftrightarrow> (case c of Normal n \<Rightarrow> n \<noteq> [] \<and> n \<noteq> [46] \<and> n \<noteq> [46, 46] \<and> 47 \<notin> set n | _ \<Rightarrow> False)"

text \<open>What the type promises: the root, then segments that are neither empty nor dots.\<close>

definition abs_normal :: "path \<Rightarrow> bool" where
  "abs_normal p \<longleftrightarrow> (case p of RootDir # cs \<Rightarrow> list_all plain_segment cs | _ \<Rightarrow> False)"

text \<open>A component list as \<open>components\<close> produces it.\<close>

definition real_segment :: "component \<Rightarrow> bool" where
  "real_segment c \<longleftrightarrow> c = ParentDir \<or> plain_segment c"

definition real_path :: "path \<Rightarrow> bool" where
  "real_path p \<longleftrightarrow> (case p of RootDir # cs \<Rightarrow> list_all real_segment cs
     | CurDir # cs \<Rightarrow> list_all real_segment cs | _ \<Rightarrow> list_all real_segment p)"

lemma real_segments:
  assumes "\<forall>seg \<in> set segs. 47 \<notin> set seg"
  shows "list_all real_segment (segments segs)"
  using assms
  by (auto simp: segments_def list_all_iff real_segment_def plain_segment_def segment_component.simps)

lemma components_real: "real_path (components s)"
proof -
  have r: "list_all real_segment (segments (split_on 47 s))"
    using real_segments split_on_no_sep by blast
  then have "real_path (segments (split_on 47 s))"
    by (cases "segments (split_on 47 s)") (auto simp: real_path_def real_segment_def plain_segment_def split: component.splits)
  with r show ?thesis by (simp add: components_def real_path_def Let_def)
qed

lemma path_join_real:
  assumes "real_path p" "real_path q" shows "real_path (path_join p q)"
proof (cases "is_absolute q \<or> p = []")
  case True
  then show ?thesis using assms by (auto simp: path_join_def real_path_def)
next
  case False
  then have "list_all real_segment (case q of CurDir # r \<Rightarrow> r | _ \<Rightarrow> q)"
    using assms(2) by (auto simp: real_path_def is_absolute_def split: list.splits component.splits)
  with False assms(1) show ?thesis
    by (cases p) (auto simp: path_join_def real_path_def split: component.splits)
qed

lemma path_join_absolute: "is_absolute p \<Longrightarrow> is_absolute (path_join p q)"
  by (auto simp: path_join_def is_absolute_def split: list.splits component.splits)

lemma abs_normal_is_absolute: "abs_normal p \<Longrightarrow> is_absolute p \<and> real_path p"
  by (auto simp: abs_normal_def is_absolute_def real_path_def real_segment_def list_all_iff
      split: list.splits component.splits)

lemma abs_normal_snoc: "abs_normal (p @ [c]) \<longleftrightarrow> (if p = [] then c = RootDir else abs_normal p \<and> plain_segment c)"
  by (cases p) (auto simp: abs_normal_def split: component.splits)

lemma abs_normal_pop: "abs_normal p \<Longrightarrow> abs_normal (path_pop p)"
proof (cases p rule: rev_cases)
  case (snoc q c)
  moreover assume "abs_normal p"
  ultimately show ?thesis by (auto simp: path_pop_def path_parent_def abs_normal_snoc split: if_splits)
qed (simp add: path_pop_def path_parent_def)

lemma normalize_segment:
  assumes "abs_normal n" "real_segment c" shows "abs_normal (normalize_step n c)"
proof (cases "c = ParentDir")
  case True
  then show ?thesis using assms by (simp add: normalize_step_def abs_normal_pop)
next
  case False
  with assms have c: "plain_segment c" and n: "n \<noteq> []" by (auto simp: real_segment_def abs_normal_def)
  then show ?thesis using assms(1)
    by (cases c) (auto simp: normalize_step_def path_join_def is_absolute_def abs_normal_snoc plain_segment_def)
qed

lemma normalize_segments:
  "list_all real_segment cs \<Longrightarrow> abs_normal n \<Longrightarrow> abs_normal (foldl normalize_step n cs)"
  by (induction cs arbitrary: n) (auto simp: normalize_segment)

lemma normalize_path_normal:
  assumes "is_absolute p" "real_path p" shows "abs_normal (normalize_path p)"
proof -
  obtain cs where p: "p = RootDir # cs" using assms(1) by (auto simp: is_absolute_def split: list.splits component.splits)
  have "abs_normal (normalize_step [] RootDir)"
    by (simp add: normalize_step_def path_join_def is_absolute_def abs_normal_def)
  then have "abs_normal (foldl normalize_step [] p)" using assms(2) p normalize_segments by (simp add: real_path_def)
  moreover from this have "foldl normalize_step [] p \<noteq> []" by (auto simp: abs_normal_def)
  ultimately show ?thesis by (simp add: normalize_path_def)
qed

lemma normalize_plain:
  "list_all plain_segment cs \<Longrightarrow> n \<noteq> [] \<Longrightarrow> foldl normalize_step n cs = n @ cs"
proof (induction cs arbitrary: n)
  case (Cons c cs)
  then show ?case by (cases c) (auto simp: normalize_step_def path_join_def is_absolute_def plain_segment_def)
qed simp

lemma normalize_path_id: "abs_normal p \<Longrightarrow> normalize_path p = p"
  by (cases p) (auto simp: abs_normal_def normalize_path_def normalize_step_def path_join_def is_absolute_def
      normalize_plain split: component.splits)

lemma absolutize_from_normal:
  assumes "is_absolute base" "real_path base" "real_path p" shows "abs_normal (absolutize_from p base)"
  unfolding absolutize_from_def path_with_base_def
  using assms by (auto intro!: normalize_path_normal path_join_absolute path_join_real)

lemma absolutize_normal:
  assumes "\<And>dir. cwd = Inr dir \<Longrightarrow> is_absolute dir \<and> real_path dir" "real_path p" "absolutize cwd p = Inr q"
  shows "abs_normal q"
  using assms by (auto simp: absolutize_def and_then_Inr_iff absolutize_from_normal normalize_path_normal
      split: if_splits)

lemma expand_home_real:
  assumes "\<And>h. home = Some h \<Longrightarrow> real_path h" shows "real_path (maybe_expand_home_directory home s)"
  using assms
  by (auto simp: maybe_expand_home_directory_def components_real path_join_real split: option.split)

lemma ancestors_normal: "abs_normal p \<Longrightarrow> q \<in> set (path_ancestors p) \<Longrightarrow> abs_normal q"
proof (induction p rule: path_ancestors.induct)
  case (1 p)
  have "abs_normal r" if "path_parent p = Some r" for r
    using abs_normal_pop [OF "1.prems"(1)] that by (simp add: path_pop_def)
  moreover have "q = p \<or> (\<exists>r. path_parent p = Some r \<and> q \<in> set (path_ancestors r))"
    using "1.prems"(2) by (subst (asm) path_ancestors.simps) (auto split: option.splits)
  ultimately show ?case using 1 by blast
qed

text \<open>The text of a normal path is read back as that path.\<close>

lemma split_on_join:
  assumes "xs \<noteq> []" "\<forall>x \<in> set xs. c \<notin> set x" shows "split_on c (join_with [c] xs) = xs"
  using assms
proof (induction xs)
  case (Cons x xs)
  then show ?case by (cases xs) (auto simp: split_on_append_sep split_on_no)
qed simp

lemma plain_component_text: "plain_segment c \<Longrightarrow> 47 \<notin> set (component_text c)"
  by (cases c) (auto simp: plain_segment_def)

lemma segments_plain:
  "list_all plain_segment cs \<Longrightarrow> segments (map component_text cs) = cs"
proof (induction cs)
  case (Cons c cs)
  then show ?case by (cases c) (auto simp: segments_def plain_segment_def segment_component.simps)
qed (simp add: segments_def)

lemma components_path_text: "abs_normal p \<Longrightarrow> components (path_text p) = p"
proof (cases p)
  case (Cons r cs)
  assume "abs_normal p"
  with Cons have r: "r = RootDir" and cs: "list_all plain_segment cs" by (auto simp: abs_normal_def split: component.splits)
  have *: "\<forall>x \<in> set (map component_text p). 47 \<notin> set x"
    using cs Cons r plain_component_text by (auto simp: list_all_iff)
  show ?thesis
  proof (cases "cs = []")
    case True
    then show ?thesis using Cons r by (simp add: path_text_def components_def starts_with_def segments_def)
  next
    case False
    then have t: "path_text p = join_with [47] (map component_text p)" using Cons by (simp add: path_text_def)
    then have s: "split_on 47 (path_text p) = map component_text p"
      using split_on_join [OF _ *] Cons by simp
    have "starts_with [47] (path_text p)" using t Cons r False by (cases cs) (auto simp: starts_with_def)
    moreover have "segments (map component_text p) = cs" using segments_plain [OF cs] Cons r by (simp add: segments_def)
    ultimately show ?thesis using s Cons r by (simp add: components_def)
  qed
qed (simp add: abs_normal_def)

section \<open>The promise of the type\<close>

text \<open>
  Every constructor of \<open>AbsolutePathBuf\<close> gives a path that starts at the root and has no
  empty, \<open>.\<close> or \<open>..\<close> segment, provided the home directory, the current directory and the base
  handed in are absolute; \<open>join\<close>, \<open>parent\<close> and \<open>ancestors\<close> keep this. Such a path is a fixed
  point of normalisation and is read back from its own text.
\<close>

theorem absolute_path_type:
  assumes home: "\<And>h. home = Some h \<Longrightarrow> is_absolute h \<and> real_path h"
    and cwd: "\<And>d. cwd = Inr d \<Longrightarrow> is_absolute d \<and> real_path d"
    and base: "is_absolute base" "real_path base" and self: "abs_normal self"
  shows "abs_normal (resolve_path_against_base home s base)
    \<and> (\<forall>q. from_absolute_path home cwd s = Inr q \<longrightarrow> abs_normal q)
    \<and> (\<forall>q. from_absolute_path_checked home s = Inr q \<longrightarrow> abs_normal q)
    \<and> (\<forall>q. relative_to_current_dir home cwd s = Inr q \<longrightarrow> abs_normal q)
    \<and> (\<forall>q. deserialize home cwd (Some base) s = Inr q \<or> deserialize home cwd None s = Inr q \<longrightarrow> abs_normal q)
    \<and> abs_normal (abs_join home self s)
    \<and> (\<forall>q. abs_parent self = Some q \<longrightarrow> abs_normal q)
    \<and> (\<forall>q \<in> set (abs_ancestors self). abs_normal q)
    \<and> normalize_path self = self \<and> components (path_text self) = self"
proof (intro conjI allI ballI impI)
  have e: "real_path (maybe_expand_home_directory home s)" using home expand_home_real by blast
  have abs: "from_absolute_path home cwd s = Inr q \<Longrightarrow> abs_normal q" for q
    using absolutize_normal [OF cwd e] by (simp add: from_absolute_path_def)
  have res: "is_absolute b \<Longrightarrow> real_path b \<Longrightarrow> abs_normal (resolve_path_against_base home s b)" for b
    using absolutize_from_normal e by (simp add: resolve_path_against_base_def)
  fix q
  show "abs_normal (resolve_path_against_base home s base)" using base by (rule res)
  show "abs_normal (abs_join home self s)" using res abs_normal_is_absolute [OF self] by (simp add: abs_join_def)
  show "from_absolute_path home cwd s = Inr q \<Longrightarrow> abs_normal q" by (rule abs)
  show "from_absolute_path_checked home s = Inr q \<Longrightarrow> abs_normal q"
    using absolutize_from_normal [of "[RootDir]", OF _ _ e]
    by (auto simp: from_absolute_path_checked_def Let_def is_absolute_def real_path_def split: if_splits)
  show "relative_to_current_dir home cwd s = Inr q \<Longrightarrow> abs_normal q"
    using cwd res by (auto simp: relative_to_current_dir_def and_then_Inr_iff)
  show "deserialize home cwd (Some base) s = Inr q \<or> deserialize home cwd None s = Inr q \<Longrightarrow> abs_normal q"
    using abs res base by (auto simp: deserialize_def split: if_splits sum.splits)
  show "abs_parent self = Some q \<Longrightarrow> abs_normal q"
    using abs_normal_pop [OF self] by (simp add: abs_parent_def path_pop_def)
  show "q \<in> set (abs_ancestors self) \<Longrightarrow> abs_normal q"
    using ancestors_normal [OF self] by (simp add: abs_ancestors_def)
  show "normalize_path self = self" "components (path_text self) = self"
    using self by (simp_all add: normalize_path_id components_path_text)
qed

text \<open>\<open>~/a/../b\<close> with the home directory \<open>/h\<close> is \<open>/h/b\<close>.\<close>

theorem absolute_path_type_witness:
  "resolve_path_against_base (Some [RootDir, Normal [104]]) [126, 47, 97, 47, 46, 46, 47, 98] [RootDir]
     = [RootDir, Normal [104], Normal [98]]
   \<and> abs_normal (resolve_path_against_base (Some [RootDir, Normal [104]]) [126, 47, 97, 47, 46, 46, 47, 98] [RootDir])"
proof -
  have p: "is_absolute [RootDir, Normal [104]] \<and> real_path [RootDir, Normal [104]]"
    "is_absolute [RootDir]" "real_path [RootDir]" "abs_normal [RootDir]"
    by (simp_all add: is_absolute_def real_path_def real_segment_def plain_segment_def abs_normal_def)
  have "abs_normal (resolve_path_against_base (Some [RootDir, Normal [104]]) [126, 47, 97, 47, 46, 46, 47, 98] [RootDir])"
    by (rule absolute_path_type [where cwd = "Inl ()" and self = "[RootDir]", THEN conjunct1]) (use p in auto)
  moreover have "resolve_path_against_base (Some [RootDir, Normal [104]]) [126, 47, 97, 47, 46, 46, 47, 98] [RootDir]
     = [RootDir, Normal [104], Normal [98]]"
    by code_simp
  ultimately show ?thesis by blast
qed

text \<open>With a relative base the result is relative: the promise rests on the caller.\<close>

lemma relative_base_stays_relative:
  "resolve_path_against_base None [97] [Normal [98]] = [Normal [98], Normal [97]]"
  by code_simp

end
