(* ===== verification/Exec_Rules.thy ===== *)
theory Exec_Rules
  imports Absolute_Path
begin

text \<open>
  The rules of the execution policy: \<open>execpolicy/src/decision.rs\<close>, \<open>error.rs\<close>,
  \<open>executable_name.rs\<close> and the data of \<open>rule.rs\<close>, that is decisions ordered by strictness, prefix
  patterns with alternatives, rule matches, and network rules with their normalised hosts.
\<close>

section \<open>Errors\<close>

record text_position =
  tp_line :: nat
  tp_column :: nat

record error_location =
  loc_path :: str
  loc_start :: text_position
  loc_end :: text_position

text \<open>A span as the Starlark library reports it, with lines and columns counted from zero.\<close>

record file_span =
  sp_filename :: str
  sp_begin :: text_position
  sp_end :: text_position

record starlark_error =
  se_text :: str
  se_span :: "file_span option"

datatype policy_error =
    InvalidDecision str
  | InvalidPattern str
  | InvalidExample str
  | InvalidRule str
  | ExampleDidNotMatch "str list" "str list" "error_location option"
  | ExampleDidMatch str str "error_location option"
  | Starlark starlark_error

definition next_position :: "text_position \<Rightarrow> text_position" where
  "next_position p = \<lparr>tp_line = tp_line p + 1, tp_column = tp_column p + 1\<rparr>"

definition error_location_from_file_span :: "file_span \<Rightarrow> error_location" where
  "error_location_from_file_span span =
     \<lparr>loc_path = sp_filename span, loc_start = next_position (sp_begin span), loc_end = next_position (sp_end span)\<rparr>"

fun with_location :: "policy_error \<Rightarrow> error_location \<Rightarrow> policy_error" where
  "with_location (ExampleDidNotMatch rules examples None) l = ExampleDidNotMatch rules examples (Some l)"
| "with_location (ExampleDidMatch rule example None) l = ExampleDidMatch rule example (Some l)"
| "with_location e l = e"

fun location_of :: "policy_error \<Rightarrow> error_location option" where
  "location_of (ExampleDidNotMatch rules examples l) = l"
| "location_of (ExampleDidMatch rule example l) = l"
| "location_of (Starlark e) = map_option error_location_from_file_span (se_span e)"
| "location_of _ = None"

section \<open>Decisions\<close>

datatype decision = Allow | Prompt | Forbidden

text \<open>The derived order: the later a decision is declared, the stricter it is.\<close>

fun decision_rank :: "decision \<Rightarrow> nat" where
  "decision_rank Allow = 0"
| "decision_rank Prompt = 1"
| "decision_rank Forbidden = 2"

lemma decision_rank_inject: "decision_rank a = decision_rank b \<Longrightarrow> a = b"
  by (cases a; cases b) simp_all

instantiation decision :: linorder
begin

definition less_eq_decision :: "decision \<Rightarrow> decision \<Rightarrow> bool" where
  "less_eq_decision a b \<longleftrightarrow> decision_rank a \<le> decision_rank b"

definition less_decision :: "decision \<Rightarrow> decision \<Rightarrow> bool" where
  "less_decision a b \<longleftrightarrow> decision_rank a < decision_rank b"

instance
  by standard (auto simp: less_eq_decision_def less_decision_def decision_rank_inject)

end

lemma decision_top: "d \<le> Forbidden" and decision_bot: "Allow \<le> d"
  by (cases d; simp add: less_eq_decision_def)+

definition parse_decision :: "str \<Rightarrow> policy_error + decision" where
  "parse_decision raw =
     (if raw = lit ''allow'' then Inr Allow
      else if raw = lit ''prompt'' then Inr Prompt
      else if raw = lit ''forbidden'' then Inr Forbidden
      else Inl (InvalidDecision raw))"

definition parse_network_rule_decision :: "str \<Rightarrow> policy_error + decision" where
  "parse_network_rule_decision raw = (if raw = lit ''deny'' then Inr Forbidden else parse_decision raw)"

section \<open>Executable names\<close>

text \<open>On platforms other than Windows the lookup key of a name is the name.\<close>

definition executable_lookup_key :: "str \<Rightarrow> str" where
  "executable_lookup_key raw = raw"

definition executable_path_lookup_key :: "path \<Rightarrow> str option" where
  "executable_path_lookup_key p = map_option executable_lookup_key (file_name p)"

section \<open>Prefix patterns\<close>

datatype pattern_token = Single str | Alts "str list"

fun token_matches :: "pattern_token \<Rightarrow> str \<Rightarrow> bool" where
  "token_matches (Single expected) tok \<longleftrightarrow> expected = tok"
| "token_matches (Alts alternatives) tok \<longleftrightarrow> list_ex (\<lambda>alt. alt = tok) alternatives"

fun alternatives :: "pattern_token \<Rightarrow> str list" where
  "alternatives (Single expected) = [expected]"
| "alternatives (Alts alts) = alts"

fun render_pattern_token :: "pattern_token \<Rightarrow> str" where
  "render_pattern_token (Single value) = value"
| "render_pattern_token (Alts alts) = [91] @ join_with [124] alts @ [93]"

record prefix_pattern =
  pp_first :: str
  pp_rest :: "pattern_token list"

definition matches_prefix :: "prefix_pattern \<Rightarrow> str list \<Rightarrow> str list option" where
  "matches_prefix p cmd =
     (let pattern_length = length (pp_rest p) + 1 in
      if length cmd < pattern_length \<or> cmd ! 0 \<noteq> pp_first p then None
      else if list_all (\<lambda>(t, c). token_matches t c) (zip (pp_rest p) (take (pattern_length - 1) (drop 1 cmd)))
      then Some (take pattern_length cmd) else None)"

datatype rule_match =
    PrefixRuleMatch (matched_prefix: "str list") decision (resolved_program: "path option") "str option"
  | HeuristicsRuleMatch "str list" decision

fun match_decision :: "rule_match \<Rightarrow> decision" where
  "match_decision (PrefixRuleMatch mp d rp j) = d"
| "match_decision (HeuristicsRuleMatch c d) = d"

fun with_resolved_program :: "rule_match \<Rightarrow> path \<Rightarrow> rule_match" where
  "with_resolved_program (PrefixRuleMatch mp d rp j) program = PrefixRuleMatch mp d (Some program) j"
| "with_resolved_program (HeuristicsRuleMatch c d) program = HeuristicsRuleMatch c d"

fun is_heuristics :: "rule_match \<Rightarrow> bool" where
  "is_heuristics (HeuristicsRuleMatch c d) = True"
| "is_heuristics (PrefixRuleMatch mp d rp j) = False"

record prefix_rule =
  pr_pattern :: prefix_pattern
  pr_decision :: decision
  pr_justification :: "str option"

definition program :: "prefix_rule \<Rightarrow> str" where
  "program r = pp_first (pr_pattern r)"

definition rule_matches :: "prefix_rule \<Rightarrow> str list \<Rightarrow> rule_match option" where
  "rule_matches r cmd =
     map_option (\<lambda>mp. PrefixRuleMatch mp (pr_decision r) None (pr_justification r))
       (matches_prefix (pr_pattern r) cmd)"

section \<open>Network rules\<close>

datatype network_rule_protocol = Http | Https | Socks5Tcp | Socks5Udp

definition parse_protocol :: "str \<Rightarrow> policy_error + network_rule_protocol" where
  "parse_protocol raw =
     (if raw = lit ''http'' then Inr Http
      else if raw = lit ''https'' \<or> raw = lit ''https_connect'' \<or> raw = lit ''http-connect'' then Inr Https
      else if raw = lit ''socks5_tcp'' then Inr Socks5Tcp
      else if raw = lit ''socks5_udp'' then Inr Socks5Udp
      else Inl (InvalidRule (lit ''network_rule protocol must be one of http, https, socks5_tcp, socks5_udp (got ''
                  @ raw @ lit '')'')))"

fun as_policy_string :: "network_rule_protocol \<Rightarrow> str" where
  "as_policy_string Http = lit ''http''"
| "as_policy_string Https = lit ''https''"
| "as_policy_string Socks5Tcp = lit ''socks5_tcp''"
| "as_policy_string Socks5Udp = lit ''socks5_udp''"

record network_rule =
  nr_host :: str
  nr_protocol :: network_rule_protocol
  nr_decision :: decision
  nr_justification :: "str option"

definition host_empty :: policy_error where
  "host_empty = InvalidRule (lit ''network_rule host cannot be empty'')"

definition port_digits :: "str \<Rightarrow> bool" where
  "port_digits port \<longleftrightarrow> port \<noteq> [] \<and> list_all is_ascii_digit port"

text \<open>The brackets of an IPv6 literal or the port of a host are dropped.\<close>

definition strip_host_port :: "str \<Rightarrow> str \<Rightarrow> policy_error + str" where
  "strip_host_port raw host =
     (case strip_prefix [91] host of
        Some stripped \<Rightarrow>
          (case split_once 93 stripped of
             None \<Rightarrow> Inl (InvalidRule (lit ''network_rule host has an invalid bracketed IPv6 literal''))
           | Some (inside, rest) \<Rightarrow>
               if rest \<noteq> [] \<and> \<not> (case strip_prefix [58] rest of Some port \<Rightarrow> port_digits port | None \<Rightarrow> False)
               then Inl (InvalidRule (lit ''network_rule host contains an unsupported suffix: '' @ raw))
               else Inr inside)
      | None \<Rightarrow>
          if length (filter (\<lambda>c. c = 58) host) = 1
          then (case rsplit_once 58 host of
                  Some (candidate, port) \<Rightarrow> Inr (if candidate \<noteq> [] \<and> port_digits port then candidate else host)
                | None \<Rightarrow> Inr host)
          else Inr host)"

definition trim_end_dots :: "str \<Rightarrow> str" where
  "trim_end_dots s = rev (dropWhile (\<lambda>c. c = 46) (rev s))"

definition finish_host :: "str \<Rightarrow> policy_error + str" where
  "finish_host host =
     (let normalized = ascii_lower (trim (trim_end_dots host)) in
      if normalized = [] then Inl host_empty
      else if 42 \<in> set normalized
      then Inl (InvalidRule (lit ''network_rule host must be a specific host; wildcards are not allowed''))
      else if list_ex is_whitespace normalized
      then Inl (InvalidRule (lit ''network_rule host cannot contain whitespace''))
      else Inr normalized)"

definition normalize_network_rule_host :: "str \<Rightarrow> policy_error + str" where
  "normalize_network_rule_host raw =
     (let host = trim raw in
      if host = [] then Inl host_empty
      else if contains_str (lit ''://'') host \<or> 47 \<in> set host \<or> 63 \<in> set host \<or> 35 \<in> set host
      then Inl (InvalidRule (lit ''network_rule host must be a hostname or IP literal (without scheme or path)''))
      else and_then (strip_host_port raw host) finish_host)"

section \<open>Normalised hosts\<close>

text \<open>A host in lower case without blanks, wildcards or separators.\<close>

definition clean_host :: "str \<Rightarrow> bool" where
  "clean_host h \<longleftrightarrow> h \<noteq> [] \<and> list_all (\<lambda>c. \<not> is_whitespace c \<and> c \<notin> {42, 47, 63, 35} \<and> \<not> (65 \<le> c \<and> c \<le> 90)) h"

lemma set_trim: "set (trim s) \<subseteq> set s"
  by (auto simp: trim_def trim_start_def trim_end_def) (metis set_dropWhileD set_rev)

lemma strip_host_port_subset:
  assumes "strip_host_port raw host = Inr h" shows "set h \<subseteq> set host"
proof (cases "strip_prefix [91] host")
  case None
  then show ?thesis using assms
    by (auto simp: strip_host_port_def rsplit_once_Some_iff split: if_splits option.splits)
next
  case (Some r)
  then show ?thesis using assms
    by (auto simp: strip_host_port_def split_once_Some_iff strip_prefix_Some_iff split: if_splits option.splits)
qed

lemma set_ascii_lower: "c \<in> set (ascii_lower s) \<Longrightarrow> \<not> (65 \<le> c \<and> c \<le> 90) \<and> (c \<in> set s \<or> (97 \<le> c \<and> c \<le> 122))"
  by (auto simp: ascii_lower_def split: if_splits)

lemma normalized_host_clean:
  assumes "normalize_network_rule_host raw = Inr h" shows "clean_host h"
proof -
  obtain host where host: "strip_host_port raw (trim raw) = Inr host" "finish_host host = Inr h"
    and no: "47 \<notin> set (trim raw)" "63 \<notin> set (trim raw)" "35 \<notin> set (trim raw)"
    using assms by (auto simp: normalize_network_rule_host_def Let_def and_then_Inr_iff split: if_splits)
  have h: "h = ascii_lower (trim (trim_end_dots host))" "h \<noteq> []" "42 \<notin> set h" "list_all (\<lambda>c. \<not> is_whitespace c) h"
    using host(2) by (auto simp: finish_host_def Let_def list_ex_iff list_all_iff split: if_splits)
  have "set (trim_end_dots host) \<subseteq> set host" by (auto simp: trim_end_dots_def dest: set_dropWhileD)
  then have "set (trim (trim_end_dots host)) \<subseteq> set (trim raw)"
    using strip_host_port_subset [OF host(1)] set_trim [of "trim_end_dots host"] by blast
  then have "c \<notin> {47, 63, 35}" if "c \<in> set h" for c
    using that no set_ascii_lower [of c "trim (trim_end_dots host)"] unfolding h(1) by fastforce
  then show ?thesis using h set_ascii_lower [of _ "trim (trim_end_dots host)"]
    by (auto simp: clean_host_def list_all_iff)
qed

lemma clean_host_trim: "clean_host h \<Longrightarrow> trim h = h"
  by (rule trim_id) (simp add: clean_host_def list_all_iff)

lemma clean_host_lower: "clean_host h \<Longrightarrow> ascii_lower h = h"
  unfolding ascii_lower_def by (rule map_idI) (auto simp: clean_host_def list_all_iff)

lemma clean_host_finish: "clean_host h \<Longrightarrow> last h \<noteq> 46 \<Longrightarrow> finish_host h = Inr h"
proof -
  assume h: "clean_host h" "last h \<noteq> 46"
  then have "trim_end_dots h = h"
    by (cases h rule: rev_cases) (auto simp: trim_end_dots_def clean_host_def)
  then show ?thesis using h(1) clean_host_trim [OF h(1)] clean_host_lower [OF h(1)]
    by (auto simp: finish_host_def clean_host_def list_all_iff list_ex_iff)
qed

text \<open>
  A normalised host is clean, and normalising it again changes nothing unless it has a colon,
  starts with a bracket or ends in a dot: the rule saved for it is read back with the same host.
\<close>

theorem normalized_host_fixpoint:
  assumes "normalize_network_rule_host raw = Inr h"
  shows "clean_host h \<and> (58 \<notin> set h \<and> hd h \<noteq> 91 \<and> last h \<noteq> 46 \<longrightarrow> normalize_network_rule_host h = Inr h)"
proof (intro conjI impI)
  show clean: "clean_host h" using assms by (rule normalized_host_clean)
  assume h: "58 \<notin> set h \<and> hd h \<noteq> 91 \<and> last h \<noteq> 46"
  have ne: "h \<noteq> []" and no: "47 \<notin> set h" "63 \<notin> set h" "35 \<notin> set h" using clean by (auto simp: clean_host_def list_all_iff)
  have scheme: "\<not> contains_str (lit ''://'') h" using no(1) by (auto simp: contains_str_iff lit_eval)
  have count: "filter (\<lambda>c. c = 58) h = []" using h by (auto simp: filter_empty_conv)
  have "strip_prefix [91] h = None" using h ne by (cases h) auto
  then have "strip_host_port h h = Inr h" by (simp add: strip_host_port_def count)
  then show "normalize_network_rule_host h = Inr h"
    using clean h ne no scheme by (simp add: normalize_network_rule_host_def clean_host_trim clean_host_finish)
qed

lemmas host_eval = normalize_network_rule_host_def strip_host_port_def finish_host_def port_digits_def trim_end_dots_def
  rsplit_once_def ascii_lower_def trim_def trim_start_def trim_end_def is_whitespace_def is_ascii_digit_def
  contains_str.simps starts_with_def lit_eval

text \<open>\<open> Example.COM.:443\<close> is normalised to \<open>example.com\<close>; shortened here to \<open> A.:4\<close>.\<close>

theorem normalized_host_fixpoint_witness:
  "normalize_network_rule_host [32, 65, 46, 58, 52] = Inr [97] \<and> normalize_network_rule_host [97] = Inr [97]"
proof -
  have "normalize_network_rule_host [32, 65, 46, 58, 52] = Inr [97]" by (simp add: host_eval)
  from normalized_host_fixpoint [OF this] this show ?thesis by simp
qed

text \<open>
  Outside these hosts the saved rule may not be readable: the host \<open>[[a]\<close> is accepted as \<open>[a\<close>,
  which is itself rejected.
\<close>

lemma doubly_bracketed_host:
  "normalize_network_rule_host [91, 91, 97, 93] = Inr [91, 97]"
  "normalize_network_rule_host [91, 97] = Inl (InvalidRule (lit ''network_rule host has an invalid bracketed IPv6 literal''))"
  by (simp_all add: host_eval)

end
