(* ===== verification/Exec_Policy.thy ===== *)
theory Exec_Policy
  imports Exec_Rules "HOL-Library.AList"
begin

text \<open>
  Evaluating commands against the execution policy: \<open>execpolicy/src/policy.rs\<close> and the example
  validation of \<open>rule.rs\<close>. The multimap of the rules is a container of the \<open>multimap\<close> crate: a
  record of its operations, with the laws its documentation gives as the predicate
  \<open>multimap_laws\<close>. Reading a program path uses the home and current directory of a \<open>path_env\<close>;
  the texts of the \<open>shlex\<close> crate and of derived \<open>Debug\<close> instances come from a \<open>text_env\<close>.
\<close>

section \<open>Containers and environment\<close>

record 'm multimap =
  mm_new :: 'm
  mm_insert :: "'m \<Rightarrow> str \<Rightarrow> prefix_rule \<Rightarrow> 'm"
  mm_get_vec :: "'m \<Rightarrow> str \<Rightarrow> prefix_rule list option"
  mm_iter_all :: "'m \<Rightarrow> (str \<times> prefix_rule list) list"

text \<open>
  \<open>get_vec\<close> sees the values of a key in insertion order; \<open>iter_all\<close> lists every key once, in an
  order of its own.
\<close>

definition multimap_laws :: "'m multimap \<Rightarrow> bool" where
  "multimap_laws mm \<longleftrightarrow>
     (\<forall>k. mm_get_vec mm (mm_new mm) k = None)
     \<and> (\<forall>m k v k'. mm_get_vec mm (mm_insert mm m k v) k' =
          (if k' = k then Some (case mm_get_vec mm m k of Some vs \<Rightarrow> vs @ [v] | None \<Rightarrow> [v])
           else mm_get_vec mm m k'))
     \<and> (\<forall>m. distinct (map fst (mm_iter_all mm m)) \<and> (\<forall>k. map_of (mm_iter_all mm m) k = mm_get_vec mm m k))"

record path_env =
  home_dir :: "path option"
  current_dir :: "io_error + path"

record text_env =
  shlex_split :: "str \<Rightarrow> str list option"
  shlex_try_join :: "str list \<Rightarrow> str option"
  debug_rule :: "prefix_rule \<Rightarrow> str"
  debug_match :: "rule_match \<Rightarrow> str"

section \<open>The policy\<close>

record match_options =
  resolve_host_executables :: bool

definition match_options_default :: match_options where
  "match_options_default = \<lparr>resolve_host_executables = False\<rparr>"

record 'm policy =
  rules_by_program :: 'm
  network_rules :: "network_rule list"
  host_executables_by_name :: "(str, path list) fmap"

definition from_parts :: "'m \<Rightarrow> network_rule list \<Rightarrow> (str, path list) fmap \<Rightarrow> 'm policy" where
  "from_parts rules nets hosts =
     \<lparr>rules_by_program = rules, network_rules = nets, host_executables_by_name = hosts\<rparr>"

definition policy_new :: "'m \<Rightarrow> 'm policy" where
  "policy_new rules = from_parts rules [] fmempty"

definition policy_empty :: "'m multimap \<Rightarrow> 'm policy" where
  "policy_empty mm = policy_new (mm_new mm)"

definition rules_of :: "'m multimap \<Rightarrow> 'm \<Rightarrow> str \<Rightarrow> prefix_rule list" where
  "rules_of mm m k = (case mm_get_vec mm m k of Some rules \<Rightarrow> rules | None \<Rightarrow> [])"

section \<open>Changing a policy\<close>

definition add_prefix_rule :: "'m multimap \<Rightarrow> 'm policy \<Rightarrow> str list \<Rightarrow> decision \<Rightarrow> policy_error + 'm policy" where
  "add_prefix_rule mm p prefix d =
     (case prefix of
        [] \<Rightarrow> Inl (InvalidPattern (lit ''prefix cannot be empty''))
      | first_token # rest \<Rightarrow>
          Inr (p\<lparr>rules_by_program := mm_insert mm (rules_by_program p) first_token
                 \<lparr>pr_pattern = \<lparr>pp_first = first_token, pp_rest = map Single rest\<rparr>, pr_decision = d,
                  pr_justification = None\<rparr>\<rparr>))"

definition justification_empty :: policy_error where
  "justification_empty = InvalidRule (lit ''justification cannot be empty'')"

definition blank :: "str option \<Rightarrow> bool" where
  "blank justification \<longleftrightarrow> (case justification of Some raw \<Rightarrow> trim raw = [] | None \<Rightarrow> False)"

definition add_network_rule ::
  "'m policy \<Rightarrow> str \<Rightarrow> network_rule_protocol \<Rightarrow> decision \<Rightarrow> str option \<Rightarrow> policy_error + 'm policy" where
  "add_network_rule p raw protocol d justification =
     and_then (normalize_network_rule_host raw) (\<lambda>host.
       if blank justification then Inl justification_empty
       else Inr (p\<lparr>network_rules := network_rules p @
         [\<lparr>nr_host = host, nr_protocol = protocol, nr_decision = d, nr_justification = justification\<rparr>]\<rparr>))"

definition set_host_executable_paths :: "'m policy \<Rightarrow> str \<Rightarrow> path list \<Rightarrow> 'm policy" where
  "set_host_executable_paths p nm paths =
     p\<lparr>host_executables_by_name := fmupd nm paths (host_executables_by_name p)\<rparr>"

definition insert_all :: "'m multimap \<Rightarrow> 'm \<Rightarrow> str \<times> prefix_rule list \<Rightarrow> 'm" where
  "insert_all mm m entry = foldl (\<lambda>m' r. mm_insert mm m' (fst entry) r) m (snd entry)"

definition merge_overlay :: "'m multimap \<Rightarrow> 'm policy \<Rightarrow> 'm policy \<Rightarrow> 'm policy" where
  "merge_overlay mm self overlay =
     from_parts (foldl (insert_all mm) (rules_by_program self) (mm_iter_all mm (rules_by_program overlay)))
       (network_rules self @ network_rules overlay)
       (host_executables_by_name self ++\<^sub>f host_executables_by_name overlay)"

section \<open>Views of a policy\<close>

fun rule_prefix :: "prefix_rule \<Rightarrow> str list" where
  "rule_prefix r = pp_first (pr_pattern r) # map render_pattern_token (pp_rest (pr_pattern r))"

definition get_allowed_prefixes :: "'m multimap \<Rightarrow> 'm policy \<Rightarrow> str list list" where
  "get_allowed_prefixes mm p =
     remdups_adj (sort (map rule_prefix
       (filter (\<lambda>r. pr_decision r = Allow) (concat (map snd (mm_iter_all mm (rules_by_program p)))))))"

definition fingerprint :: "'m multimap \<Rightarrow> text_env \<Rightarrow> 'm policy \<Rightarrow> str list" where
  "fingerprint mm te p =
     sort (concat (map (\<lambda>(k, rules). map (\<lambda>r. k @ [58] @ debug_rule te r) rules)
       (mm_iter_all mm (rules_by_program p))))"

definition requirements_eq :: "'m multimap \<Rightarrow> text_env \<Rightarrow> 'm policy \<Rightarrow> 'm policy \<Rightarrow> bool" where
  "requirements_eq mm te p q \<longleftrightarrow> fingerprint mm te p = fingerprint mm te q"

definition upsert_domain :: "str list \<Rightarrow> str \<Rightarrow> str list" where
  "upsert_domain entries host = filter (\<lambda>entry. entry \<noteq> host) entries @ [host]"

fun compile_rule :: "str list \<times> str list \<Rightarrow> network_rule \<Rightarrow> str list \<times> str list" where
  "compile_rule (allowed, denied) r =
     (case nr_decision r of
        Allow \<Rightarrow> (upsert_domain allowed (nr_host r), filter (\<lambda>entry. entry \<noteq> nr_host r) denied)
      | Forbidden \<Rightarrow> (filter (\<lambda>entry. entry \<noteq> nr_host r) allowed, upsert_domain denied (nr_host r))
      | Prompt \<Rightarrow> (allowed, denied))"

definition compiled_network_domains :: "'m policy \<Rightarrow> str list \<times> str list" where
  "compiled_network_domains p = foldl compile_rule ([], []) (network_rules p)"

section \<open>Evaluation\<close>

definition match_exact_rules :: "'m multimap \<Rightarrow> 'm policy \<Rightarrow> str list \<Rightarrow> rule_match list option" where
  "match_exact_rules mm p cmd =
     (case cmd of
        [] \<Rightarrow> None
      | first_token # _ \<Rightarrow>
          Some (List.map_filter (\<lambda>r. rule_matches r cmd) (rules_of mm (rules_by_program p) first_token)))"

definition match_host_executable_rules ::
  "'m multimap \<Rightarrow> path_env \<Rightarrow> 'm policy \<Rightarrow> str list \<Rightarrow> rule_match list" where
  "match_host_executable_rules mm pe p cmd =
     (case cmd of [] \<Rightarrow> []
      | first_token # args \<Rightarrow>
     (case from_absolute_path (home_dir pe) (current_dir pe) first_token of Inl _ \<Rightarrow> []
      | Inr prog \<Rightarrow>
     (case executable_path_lookup_key prog of None \<Rightarrow> []
      | Some basename \<Rightarrow>
     (case mm_get_vec mm (rules_by_program p) basename of None \<Rightarrow> []
      | Some rules \<Rightarrow>
          if (case fmlookup (host_executables_by_name p) basename of Some paths \<Rightarrow> prog \<notin> set paths | None \<Rightarrow> False)
          then []
          else map (\<lambda>m. with_resolved_program m prog)
                 (List.map_filter (\<lambda>r. rule_matches r (basename # args)) rules)))))"

definition matches_for_command_with_options ::
  "'m multimap \<Rightarrow> path_env \<Rightarrow> 'm policy \<Rightarrow> str list \<Rightarrow> (str list \<Rightarrow> decision) option \<Rightarrow> match_options
    \<Rightarrow> rule_match list" where
  "matches_for_command_with_options mm pe p cmd heuristics_fallback options =
     (let exact = (case match_exact_rules mm p cmd of Some ms \<Rightarrow> ms | None \<Rightarrow> []);
          matched_rules = (if exact \<noteq> [] then exact
            else if resolve_host_executables options then match_host_executable_rules mm pe p cmd
            else [])
      in case heuristics_fallback of
           Some fallback \<Rightarrow>
             if matched_rules = [] then [HeuristicsRuleMatch cmd (fallback cmd)] else matched_rules
         | None \<Rightarrow> matched_rules)"

definition matches_for_command ::
  "'m multimap \<Rightarrow> path_env \<Rightarrow> 'm policy \<Rightarrow> str list \<Rightarrow> (str list \<Rightarrow> decision) option \<Rightarrow> rule_match list" where
  "matches_for_command mm pe p cmd heuristics_fallback =
     matches_for_command_with_options mm pe p cmd heuristics_fallback match_options_default"

record evaluation =
  ev_decision :: decision
  ev_matched_rules :: "rule_match list"

definition is_match :: "evaluation \<Rightarrow> bool" where
  "is_match ev \<longleftrightarrow> list_ex (\<lambda>m. \<not> is_heuristics m) (ev_matched_rules ev)"

text \<open>\<open>from_matches\<close> panics on an empty list of matches: \<open>None\<close>.\<close>

definition from_matches :: "rule_match list \<Rightarrow> evaluation option" where
  "from_matches ms =
     (case map match_decision ms of
        [] \<Rightarrow> None
      | d # ds \<Rightarrow> Some \<lparr>ev_decision = fold max ds d, ev_matched_rules = ms\<rparr>)"

definition check_with_options ::
  "'m multimap \<Rightarrow> path_env \<Rightarrow> 'm policy \<Rightarrow> str list \<Rightarrow> (str list \<Rightarrow> decision) \<Rightarrow> match_options \<Rightarrow> evaluation option" where
  "check_with_options mm pe p cmd fallback options =
     from_matches (matches_for_command_with_options mm pe p cmd (Some fallback) options)"

definition check ::
  "'m multimap \<Rightarrow> path_env \<Rightarrow> 'm policy \<Rightarrow> str list \<Rightarrow> (str list \<Rightarrow> decision) \<Rightarrow> evaluation option" where
  "check mm pe p cmd fallback = check_with_options mm pe p cmd fallback match_options_default"

definition check_multiple_with_options ::
  "'m multimap \<Rightarrow> path_env \<Rightarrow> 'm policy \<Rightarrow> str list list \<Rightarrow> (str list \<Rightarrow> decision) \<Rightarrow> match_options
    \<Rightarrow> evaluation option" where
  "check_multiple_with_options mm pe p commands fallback options =
     from_matches (concat (map (\<lambda>cmd.
       matches_for_command_with_options mm pe p cmd (Some fallback) options) commands))"

definition check_multiple ::
  "'m multimap \<Rightarrow> path_env \<Rightarrow> 'm policy \<Rightarrow> str list list \<Rightarrow> (str list \<Rightarrow> decision) \<Rightarrow> evaluation option" where
  "check_multiple mm pe p commands fallback =
     check_multiple_with_options mm pe p commands fallback match_options_default"

section \<open>Validating examples\<close>

definition example_options :: match_options where
  "example_options = \<lparr>resolve_host_executables = True\<rparr>"

definition render_example :: "text_env \<Rightarrow> str list \<Rightarrow> str" where
  "render_example te example =
     (case shlex_try_join te example of Some s \<Rightarrow> s | None \<Rightarrow> lit ''unable to render example'')"

definition validate_match_examples ::
  "'m multimap \<Rightarrow> path_env \<Rightarrow> text_env \<Rightarrow> 'm policy \<Rightarrow> prefix_rule list \<Rightarrow> str list list \<Rightarrow> policy_error + unit" where
  "validate_match_examples mm pe te p rules examples =
     (let unmatched = map (render_example te)
            (filter (\<lambda>ex. matches_for_command_with_options mm pe p ex None example_options = []) examples)
      in if unmatched = [] then Inr () else Inl (ExampleDidNotMatch (map (debug_rule te) rules) unmatched None))"

fun validate_not_match_examples ::
  "'m multimap \<Rightarrow> path_env \<Rightarrow> text_env \<Rightarrow> 'm policy \<Rightarrow> str list list \<Rightarrow> policy_error + unit" where
  "validate_not_match_examples mm pe te p [] = Inr ()"
| "validate_not_match_examples mm pe te p (ex # examples) =
     (case matches_for_command_with_options mm pe p ex None example_options of
        m # _ \<Rightarrow> Inl (ExampleDidMatch (debug_match te m) (render_example te ex) None)
      | [] \<Rightarrow> validate_not_match_examples mm pe te p examples)"

section \<open>The decision of an evaluation\<close>

lemma fold_max: "fold max ds d = Max (set (d # ds))" for d :: "'a::linorder"
  using Max.set_eq_fold [of d ds] by simp

lemma from_matches_Some:
  "ms \<noteq> [] \<Longrightarrow> from_matches ms = Some \<lparr>ev_decision = Max (match_decision ` set ms), ev_matched_rules = ms\<rparr>"
  by (cases ms) (simp_all add: from_matches_def fold_max)

lemma from_matches_None: "from_matches ms = None \<longleftrightarrow> ms = []"
  by (cases ms) (simp_all add: from_matches_def)

lemma fallback_nonempty: "matches_for_command_with_options mm pe p cmd (Some f) options \<noteq> []"
  by (simp add: matches_for_command_with_options_def Let_def)

lemma check_Some:
  "check_with_options mm pe p cmd f options =
     Some \<lparr>ev_decision = Max (match_decision ` set (matches_for_command_with_options mm pe p cmd (Some f) options)),
           ev_matched_rules = matches_for_command_with_options mm pe p cmd (Some f) options\<rparr>"
  unfolding check_with_options_def by (rule from_matches_Some [OF fallback_nonempty])

lemma Max_Union:
  "finite A \<Longrightarrow> A \<noteq> {} \<Longrightarrow> (\<And>a. a \<in> A \<Longrightarrow> finite (F a) \<and> F a \<noteq> {}) \<Longrightarrow>
    Max (\<Union>a \<in> A. F a) = Max ((\<lambda>a. Max (F a)) ` A)"
  for F :: "'a \<Rightarrow> 'b::linorder set"
proof (induction A rule: finite_ne_induct)
  case (insert x A)
  then have "Max (\<Union>a \<in> insert x A. F a) = max (Max (F x)) (Max (\<Union>a \<in> A. F a))"
    by (simp add: Max_Un)
  with insert show ?case by simp
qed simp


section \<open>Overlays\<close>

lemma laws_insert:
  "multimap_laws mm \<Longrightarrow> rules_of mm (mm_insert mm m k r) k' = rules_of mm m k' @ (if k' = k then [r] else [])"
  by (simp add: multimap_laws_def rules_of_def split: option.split)

lemma rules_of_insert_all:
  "multimap_laws mm \<Longrightarrow>
   rules_of mm (insert_all mm m (k, rs)) k' = rules_of mm m k' @ (if k' = k then rs else [])"
  by (induction rs arbitrary: m) (auto simp: insert_all_def laws_insert)

lemma rules_of_fold_insert:
  assumes "multimap_laws mm" "distinct (map fst es)"
  shows "rules_of mm (foldl (insert_all mm) m es) k =
    rules_of mm m k @ (case map_of es k of Some rs \<Rightarrow> rs | None \<Rightarrow> [])"
  using assms(2)
proof (induction es arbitrary: m)
  case (Cons e es)
  obtain k0 rs where e: "e = (k0, rs)" by (cases e)
  have "k = k0 \<Longrightarrow> map_of es k = None" using Cons.prems e by (auto simp: map_of_eq_None_iff)
  then show ?case using Cons e rules_of_insert_all [OF assms(1)] by (auto split: option.split)
qed simp

lemma rules_of_merge:
  assumes "multimap_laws mm"
  shows "rules_of mm (rules_by_program (merge_overlay mm self overlay)) k =
    rules_of mm (rules_by_program self) k @ rules_of mm (rules_by_program overlay) k"
proof -
  have "distinct (map fst (mm_iter_all mm (rules_by_program overlay)))"
    and "map_of (mm_iter_all mm (rules_by_program overlay)) k = mm_get_vec mm (rules_by_program overlay) k"
    using assms by (auto simp: multimap_laws_def)
  then show ?thesis
    by (simp add: merge_overlay_def from_parts_def rules_of_fold_insert [OF assms] rules_of_def [of _ "rules_by_program overlay"])
qed

definition exact_matches :: "'m multimap \<Rightarrow> 'm policy \<Rightarrow> str list \<Rightarrow> rule_match list" where
  "exact_matches mm p cmd = (case match_exact_rules mm p cmd of Some ms \<Rightarrow> ms | None \<Rightarrow> [])"

lemma map_filter_append: "List.map_filter f (xs @ ys) = List.map_filter f xs @ List.map_filter f ys"
  by (simp add: List.map_filter_def)

lemma exact_matches_merge:
  "multimap_laws mm \<Longrightarrow>
   exact_matches mm (merge_overlay mm self overlay) cmd = exact_matches mm self cmd @ exact_matches mm overlay cmd"
  by (cases cmd) (simp_all add: exact_matches_def match_exact_rules_def rules_of_merge map_filter_append)

lemma matches_exact:
  "exact_matches mm p cmd \<noteq> [] \<Longrightarrow> matches_for_command_with_options mm pe p cmd f options = exact_matches mm p cmd"
  by (cases f) (simp_all add: matches_for_command_with_options_def exact_matches_def Let_def)


text \<open>A multimap as an association list from programs to rules.\<close>

definition list_multimap :: "(str \<times> prefix_rule list) list multimap" where
  "list_multimap =
     \<lparr>mm_new = [],
      mm_insert = \<lambda>m k r. AList.update k (case map_of m k of Some rs \<Rightarrow> rs @ [r] | None \<Rightarrow> [r]) m,
      mm_get_vec = map_of,
      mm_iter_all = AList.clearjunk\<rparr>"

lemma list_multimap_laws: "multimap_laws list_multimap"
  by (simp add: multimap_laws_def list_multimap_def update_conv' distinct_clearjunk map_of_clearjunk)

definition sample_paths :: path_env where
  "sample_paths = \<lparr>home_dir = None, current_dir = Inr [RootDir]\<rparr>"

definition sample_rule :: "decision \<Rightarrow> prefix_rule" where
  "sample_rule d = \<lparr>pr_pattern = \<lparr>pp_first = [103], pp_rest = [Alts [[97], [98]]]\<rparr>, pr_decision = d, pr_justification = None\<rparr>"

lemmas policy_eval = exact_matches_def match_exact_rules_def rules_of_def list_multimap_def policy_new_def from_parts_def
  rule_matches_def matches_prefix_def sample_rule_def List.map_filter_def



section \<open>Network domains\<close>

text \<open>The last rule for a host that is not a prompt.\<close>

definition last_rule :: "network_rule list \<Rightarrow> str \<Rightarrow> decision option" where
  "last_rule rules h =
     (case rev (filter (\<lambda>r. nr_host r = h \<and> nr_decision r \<noteq> Prompt) rules) of
        [] \<Rightarrow> None | r # _ \<Rightarrow> Some (nr_decision r))"

lemma last_rule_snoc:
  "last_rule (rules @ [r]) h =
     (if nr_host r = h \<and> nr_decision r \<noteq> Prompt then Some (nr_decision r) else last_rule rules h)"
  by (simp add: last_rule_def)

lemma compile_snoc:
  assumes "distinct allowed" "distinct denied"
    "\<And>h. h \<in> set allowed \<longleftrightarrow> last_rule rules h = Some Allow" "\<And>h. h \<in> set denied \<longleftrightarrow> last_rule rules h = Some Forbidden"
    "compile_rule (allowed, denied) r = (allowed', denied')"
  shows "distinct allowed' \<and> distinct denied'
    \<and> (\<forall>h. h \<in> set allowed' \<longleftrightarrow> last_rule (rules @ [r]) h = Some Allow)
    \<and> (\<forall>h. h \<in> set denied' \<longleftrightarrow> last_rule (rules @ [r]) h = Some Forbidden)"
  using assms by (cases "nr_decision r") (auto simp: last_rule_snoc upsert_domain_def)

text \<open>
  The compiled domain lists hold each host at most once, and a host is on the allowed list
  exactly when its last rule other than a prompt allows it and on the denied list exactly when
  that rule forbids it: later rules win, and no host is on both lists.
\<close>

theorem last_network_rule_wins:
  assumes "compiled_network_domains p = (allowed, denied)"
  shows "distinct allowed \<and> distinct denied
    \<and> (\<forall>h. h \<in> set allowed \<longleftrightarrow> last_rule (network_rules p) h = Some Allow)
    \<and> (\<forall>h. h \<in> set denied \<longleftrightarrow> last_rule (network_rules p) h = Some Forbidden)"
proof -
  have "foldl compile_rule ([], []) rules = (a, d) \<Longrightarrow> distinct a \<and> distinct d
    \<and> (\<forall>h. h \<in> set a \<longleftrightarrow> last_rule rules h = Some Allow) \<and> (\<forall>h. h \<in> set d \<longleftrightarrow> last_rule rules h = Some Forbidden)"
    for rules a d
  proof (induction rules arbitrary: a d rule: rev_induct)
    case Nil
    then show ?case by (simp add: last_rule_def)
  next
    case (snoc r rules)
    obtain a0 d0 where ad: "foldl compile_rule ([], []) rules = (a0, d0)" by fastforce
    then have "compile_rule (a0, d0) r = (a, d)" using snoc.prems by simp
    with snoc.IH [OF ad] compile_snoc [of a0 d0 rules r a d] show ?case by blast
  qed
  then show ?thesis using assms by (simp add: compiled_network_domains_def)
qed

definition sample_network :: "decision \<Rightarrow> network_rule" where
  "sample_network d = \<lparr>nr_host = [97], nr_protocol = Https, nr_decision = d, nr_justification = None\<rparr>"

theorem last_network_rule_wins_witness:
  "[97] \<in> set (snd (compiled_network_domains (from_parts () [sample_network Allow, sample_network Forbidden, sample_network Prompt] fmempty)))"
proof -
  let ?p = "from_parts () [sample_network Allow, sample_network Forbidden, sample_network Prompt] fmempty"
  have "last_rule (network_rules ?p) [97] = Some Forbidden" by (simp add: from_parts_def last_rule_def sample_network_def)
  then show ?thesis using last_network_rule_wins [of ?p, OF surjective_pairing] by blast
qed

end
