(* ===== verification/Exec_Parser.thy ===== *)
theory Exec_Parser
  imports Exec_Policy
begin

text \<open>
  Building a policy from rule files: \<open>execpolicy/src/parser.rs\<close>. The Starlark interpreter is not
  part of the repository: a record gives the syntax check, the calls of the three builtins a
  module makes while they succeed (Starlark evaluation is deterministic and the builtins return
  nothing), the error the module itself ends with, and the wrapping of a builtin's error.
\<close>

section \<open>Starlark values\<close>

datatype star_value = StarString str | StarList "star_value list" | StarOther str

fun get_type :: "star_value \<Rightarrow> str" where
  "get_type (StarString s) = lit ''string''"
| "get_type (StarList vs) = lit ''list''"
| "get_type (StarOther t) = t"

fun unpack_str :: "star_value \<Rightarrow> str option" where
  "unpack_str (StarString s) = Some s"
| "unpack_str _ = None"

text \<open>\<open>collect\<close> into a \<open>Result\<close>: the first error, or all values.\<close>

fun collect :: "('a \<Rightarrow> 'e + 'b) \<Rightarrow> 'a list \<Rightarrow> 'e + 'b list" where
  "collect f [] = Inr []"
| "collect f (x # xs) = and_then (f x) (\<lambda>y. and_then (collect f xs) (\<lambda>ys. Inr (y # ys)))"

definition string_or :: "(star_value \<Rightarrow> policy_error) \<Rightarrow> star_value \<Rightarrow> policy_error + str" where
  "string_or err v = (case unpack_str v of Some s \<Rightarrow> Inr s | None \<Rightarrow> Inl (err v))"

section \<open>Patterns and examples\<close>

definition alternative_error :: "star_value \<Rightarrow> policy_error" where
  "alternative_error v = InvalidPattern (lit ''pattern alternative must be a string (got '' @ get_type v @ lit '')'')"

fun parse_pattern_token :: "star_value \<Rightarrow> policy_error + pattern_token" where
  "parse_pattern_token (StarString s) = Inr (Single s)"
| "parse_pattern_token (StarList vs) =
     and_then (collect (string_or alternative_error) vs) (\<lambda>tokens.
       case tokens of
         [] \<Rightarrow> Inl (InvalidPattern (lit ''pattern alternatives cannot be empty''))
       | [single] \<Rightarrow> Inr (Single single)
       | _ \<Rightarrow> Inr (Alts tokens))"
| "parse_pattern_token (StarOther t) =
     Inl (InvalidPattern (lit ''pattern element must be a string or list of strings (got '' @ t @ lit '')''))"

definition pattern_empty :: policy_error where
  "pattern_empty = InvalidPattern (lit ''pattern cannot be empty'')"

definition parse_pattern :: "star_value list \<Rightarrow> policy_error + pattern_token list" where
  "parse_pattern items =
     and_then (collect parse_pattern_token items) (\<lambda>tokens. if tokens = [] then Inl pattern_empty else Inr tokens)"

definition parse_string_example :: "text_env \<Rightarrow> str \<Rightarrow> policy_error + str list" where
  "parse_string_example te raw =
     (case shlex_split te raw of
        None \<Rightarrow> Inl (InvalidExample (lit ''example string has invalid shell syntax''))
      | Some tokens \<Rightarrow>
          if tokens = [] then Inl (InvalidExample (lit ''example cannot be an empty string'')) else Inr tokens)"

definition example_token_error :: "star_value \<Rightarrow> policy_error" where
  "example_token_error v = InvalidExample (lit ''example tokens must be strings (got '' @ get_type v @ lit '')'')"

definition parse_list_example :: "star_value list \<Rightarrow> policy_error + str list" where
  "parse_list_example vs =
     and_then (collect (string_or example_token_error) vs) (\<lambda>tokens.
       if tokens = [] then Inl (InvalidExample (lit ''example cannot be an empty list'')) else Inr tokens)"

fun parse_example :: "text_env \<Rightarrow> star_value \<Rightarrow> policy_error + str list" where
  "parse_example te (StarString raw) = parse_string_example te raw"
| "parse_example te (StarList vs) = parse_list_example vs"
| "parse_example te (StarOther t) =
     Inl (InvalidExample (lit ''example must be a string or list of strings (got '' @ t @ lit '')''))"

definition parse_examples :: "text_env \<Rightarrow> star_value list \<Rightarrow> policy_error + str list list" where
  "parse_examples te items = collect (parse_example te) items"

definition parse_optional_examples :: "text_env \<Rightarrow> star_value list option \<Rightarrow> policy_error + str list list" where
  "parse_optional_examples te items = (case items of Some vs \<Rightarrow> parse_examples te vs | None \<Rightarrow> Inr [])"

section \<open>Host executables\<close>

definition parse_literal_absolute_path :: "path_env \<Rightarrow> str \<Rightarrow> policy_error + path" where
  "parse_literal_absolute_path pe raw =
     (if \<not> is_absolute (components raw)
      then Inl (InvalidRule (lit ''host_executable paths must be absolute (got '' @ raw @ lit '')''))
      else (case from_absolute_path (home_dir pe) (current_dir pe) raw of
              Inr p \<Rightarrow> Inr p
            | Inl e \<Rightarrow> Inl (InvalidRule (lit ''invalid absolute path `'' @ raw @ lit ''`: '' @ io_message e))))"

definition validate_host_executable_name :: "str \<Rightarrow> policy_error + unit" where
  "validate_host_executable_name nm =
     (if nm = [] then Inl (InvalidRule (lit ''host_executable name cannot be empty''))
      else if length (components nm) \<noteq> 1 \<or> file_name (components nm) \<noteq> Some nm
      then Inl (InvalidRule (lit ''host_executable name must be a bare executable name (got '' @ nm @ lit '')''))
      else Inr ())"

definition host_path_error :: "star_value \<Rightarrow> policy_error" where
  "host_path_error v = InvalidRule (lit ''host_executable paths must be strings (got '' @ get_type v @ lit '')'')"

definition basename_error :: "str \<Rightarrow> str \<Rightarrow> policy_error" where
  "basename_error raw nm =
     InvalidRule (lit ''host_executable path `'' @ raw @ lit ''` must have basename `'' @ nm @ lit ''`'')"

fun parse_host_paths :: "path_env \<Rightarrow> str \<Rightarrow> star_value list \<Rightarrow> path list \<Rightarrow> policy_error + path list" where
  "parse_host_paths pe nm [] parsed = Inr parsed"
| "parse_host_paths pe nm (v # vs) parsed =
     and_then (string_or host_path_error v) (\<lambda>raw.
     and_then (parse_literal_absolute_path pe raw) (\<lambda>p.
       case executable_path_lookup_key p of
         None \<Rightarrow> Inl (basename_error raw nm)
       | Some path_name \<Rightarrow>
           if path_name \<noteq> executable_lookup_key nm then Inl (basename_error raw nm)
           else parse_host_paths pe nm vs (if p \<in> set parsed then parsed else parsed @ [p])))"

section \<open>The builder\<close>

record pending_example_validation =
  pv_rules :: "prefix_rule list"
  pv_matches :: "str list list"
  pv_not_matches :: "str list list"
  pv_location :: "error_location option"

record 'm policy_builder =
  pb_rules_by_program :: 'm
  pb_network_rules :: "network_rule list"
  pb_host_executables_by_name :: "(str, path list) fmap"
  pb_pending_example_validations :: "pending_example_validation list"

definition builder_new :: "'m multimap \<Rightarrow> 'm policy_builder" where
  "builder_new mm =
     \<lparr>pb_rules_by_program = mm_new mm, pb_network_rules = [], pb_host_executables_by_name = fmempty,
      pb_pending_example_validations = []\<rparr>"

definition add_rule :: "'m multimap \<Rightarrow> prefix_rule \<Rightarrow> 'm policy_builder \<Rightarrow> 'm policy_builder" where
  "add_rule mm r b = b\<lparr>pb_rules_by_program := mm_insert mm (pb_rules_by_program b) (program r) r\<rparr>"

definition builder_add_network_rule :: "network_rule \<Rightarrow> 'm policy_builder \<Rightarrow> 'm policy_builder" where
  "builder_add_network_rule r b = b\<lparr>pb_network_rules := pb_network_rules b @ [r]\<rparr>"

definition add_host_executable :: "str \<Rightarrow> path list \<Rightarrow> 'm policy_builder \<Rightarrow> 'm policy_builder" where
  "add_host_executable nm paths b =
     b\<lparr>pb_host_executables_by_name := fmupd nm paths (pb_host_executables_by_name b)\<rparr>"

definition add_pending_example_validation ::
  "pending_example_validation \<Rightarrow> 'm policy_builder \<Rightarrow> 'm policy_builder" where
  "add_pending_example_validation v b =
     b\<lparr>pb_pending_example_validations := pb_pending_example_validations b @ [v]\<rparr>"

definition build :: "'m policy_builder \<Rightarrow> 'm policy" where
  "build b = from_parts (pb_rules_by_program b) (pb_network_rules b) (pb_host_executables_by_name b)"

definition attach_validation_location :: "policy_error \<Rightarrow> error_location option \<Rightarrow> policy_error" where
  "attach_validation_location e loc = (case loc of Some l \<Rightarrow> with_location e l | None \<Rightarrow> e)"

definition map_error :: "('e \<Rightarrow> 'f) \<Rightarrow> 'e + 'a \<Rightarrow> 'f + 'a" where
  "map_error f r = (case r of Inl e \<Rightarrow> Inl (f e) | Inr x \<Rightarrow> Inr x)"

definition validation_policy :: "'m multimap \<Rightarrow> 'm policy_builder \<Rightarrow> prefix_rule list \<Rightarrow> 'm policy" where
  "validation_policy mm b rules =
     from_parts (foldl (\<lambda>m r. mm_insert mm m (program r) r) (mm_new mm) rules) [] (pb_host_executables_by_name b)"

definition validate_pending ::
  "'m multimap \<Rightarrow> path_env \<Rightarrow> text_env \<Rightarrow> 'm policy_builder \<Rightarrow> pending_example_validation \<Rightarrow> policy_error + unit" where
  "validate_pending mm pe te b v =
     (let p = validation_policy mm b (pv_rules v);
          locate = (\<lambda>e. attach_validation_location e (pv_location v))
      in and_then (map_error locate (validate_not_match_examples mm pe te p (pv_not_matches v)))
           (\<lambda>_. map_error locate (validate_match_examples mm pe te p (pv_rules v) (pv_matches v))))"

definition validate_pending_examples_from ::
  "'m multimap \<Rightarrow> path_env \<Rightarrow> text_env \<Rightarrow> 'm policy_builder \<Rightarrow> nat \<Rightarrow> policy_error + unit" where
  "validate_pending_examples_from mm pe te b start =
     and_then (collect (validate_pending mm pe te b) (drop start (pb_pending_example_validations b))) (\<lambda>_. Inr ())"

section \<open>The builtins\<close>

datatype builtin_call =
    PrefixRuleCall "star_value list" "str option" "star_value list option" "star_value list option" "str option"
      "file_span option"
  | NetworkRuleCall str str str "str option"
  | HostExecutableCall str "star_value list"

definition check_justification :: "str option \<Rightarrow> policy_error + str option" where
  "check_justification justification =
     (case justification of
        Some raw \<Rightarrow> if trim raw = [] then Inl justification_empty else Inr (Some raw)
      | None \<Rightarrow> Inr None)"

definition rules_of_pattern :: "pattern_token list \<Rightarrow> decision \<Rightarrow> str option \<Rightarrow> prefix_rule list" where
  "rules_of_pattern tokens d justification =
     map (\<lambda>head. \<lparr>pr_pattern = \<lparr>pp_first = head, pp_rest = tl tokens\<rparr>, pr_decision = d,
                  pr_justification = justification\<rparr>)
       (alternatives (hd tokens))"

definition prefix_rule_builtin ::
  "'m multimap \<Rightarrow> text_env \<Rightarrow> star_value list \<Rightarrow> str option \<Rightarrow> star_value list option \<Rightarrow> star_value list option
    \<Rightarrow> str option \<Rightarrow> file_span option \<Rightarrow> 'm policy_builder \<Rightarrow> policy_error + 'm policy_builder" where
  "prefix_rule_builtin mm te pat d match not_match justification span b =
     and_then (case d of Some raw \<Rightarrow> parse_decision raw | None \<Rightarrow> Inr Allow) (\<lambda>dec.
     and_then (check_justification justification) (\<lambda>just.
     and_then (parse_pattern pat) (\<lambda>pattern_tokens.
     and_then (parse_optional_examples te match) (\<lambda>ms.
     and_then (parse_optional_examples te not_match) (\<lambda>not_ms.
       if pattern_tokens = [] then Inl pattern_empty
       else let rules = rules_of_pattern pattern_tokens dec just;
                pending = \<lparr>pv_rules = rules, pv_matches = ms, pv_not_matches = not_ms,
                           pv_location = map_option error_location_from_file_span span\<rparr>
            in Inr (fold (add_rule mm) rules (add_pending_example_validation pending b)))))))"

definition network_rule_builtin ::
  "str \<Rightarrow> str \<Rightarrow> str \<Rightarrow> str option \<Rightarrow> 'm policy_builder \<Rightarrow> policy_error + 'm policy_builder" where
  "network_rule_builtin host protocol d justification b =
     and_then (parse_protocol protocol) (\<lambda>proto.
     and_then (parse_network_rule_decision d) (\<lambda>dec.
     and_then (check_justification justification) (\<lambda>just.
     and_then (normalize_network_rule_host host) (\<lambda>h.
       Inr (builder_add_network_rule
         \<lparr>nr_host = h, nr_protocol = proto, nr_decision = dec, nr_justification = just\<rparr> b)))))"

definition host_executable_builtin ::
  "path_env \<Rightarrow> str \<Rightarrow> star_value list \<Rightarrow> 'm policy_builder \<Rightarrow> policy_error + 'm policy_builder" where
  "host_executable_builtin pe nm paths b =
     and_then (validate_host_executable_name nm) (\<lambda>_.
     and_then (parse_host_paths pe nm paths []) (\<lambda>parsed.
       Inr (add_host_executable (executable_lookup_key nm) parsed b)))"

fun run_builtin ::
  "'m multimap \<Rightarrow> path_env \<Rightarrow> text_env \<Rightarrow> builtin_call \<Rightarrow> 'm policy_builder \<Rightarrow> policy_error + 'm policy_builder" where
  "run_builtin mm pe te (PrefixRuleCall pat d ms nms j span) b = prefix_rule_builtin mm te pat d ms nms j span b"
| "run_builtin mm pe te (NetworkRuleCall h proto d j) b = network_rule_builtin h proto d j b"
| "run_builtin mm pe te (HostExecutableCall nm paths) b = host_executable_builtin pe nm paths b"

section \<open>Parsing a file\<close>

record starlark_engine =
  star_parse :: "str \<Rightarrow> str \<Rightarrow> starlark_error option"
  star_calls :: "str \<Rightarrow> str \<Rightarrow> builtin_call list"
  star_final :: "str \<Rightarrow> str \<Rightarrow> starlark_error option"
  star_wrap :: "policy_error \<Rightarrow> starlark_error"

text \<open>The calls run in order until one fails; the builder keeps what the earlier ones added.\<close>

fun eval_calls ::
  "'m multimap \<Rightarrow> path_env \<Rightarrow> text_env \<Rightarrow> builtin_call list \<Rightarrow> 'm policy_builder
    \<Rightarrow> 'm policy_builder \<times> policy_error option" where
  "eval_calls mm pe te [] b = (b, None)"
| "eval_calls mm pe te (c # cs) b =
     (case run_builtin mm pe te c b of
        Inl e \<Rightarrow> (b, Some e)
      | Inr b' \<Rightarrow> eval_calls mm pe te cs b')"

definition parse ::
  "'m multimap \<Rightarrow> path_env \<Rightarrow> text_env \<Rightarrow> starlark_engine \<Rightarrow> str \<Rightarrow> str \<Rightarrow> 'm policy_builder
    \<Rightarrow> 'm policy_builder \<times> (policy_error + unit)" where
  "parse mm pe te se ident contents b =
     (let pending = length (pb_pending_example_validations b) in
      case star_parse se ident contents of
        Some e \<Rightarrow> (b, Inl (Starlark e))
      | None \<Rightarrow>
          (case eval_calls mm pe te (star_calls se ident contents) b of
             (b', Some e) \<Rightarrow> (b', Inl (Starlark (star_wrap se e)))
           | (b', None) \<Rightarrow>
               (case star_final se ident contents of
                  Some e \<Rightarrow> (b', Inl (Starlark e))
                | None \<Rightarrow> (b', validate_pending_examples_from mm pe te b' pending))))"

section \<open>What a rule call adds\<close>

text \<open>A command starts with a pattern when every token is among the alternatives of its position.\<close>

definition starts_with_pattern :: "pattern_token list \<Rightarrow> str list \<Rightarrow> bool" where
  "starts_with_pattern tokens cmd \<longleftrightarrow>
     length tokens \<le> length cmd \<and> (\<forall>i < length tokens. cmd ! i \<in> set (alternatives (tokens ! i)))"

lemma token_matches_iff: "token_matches t c \<longleftrightarrow> c \<in> set (alternatives t)"
  by (cases t) (auto simp: list_ex_iff)

lemma starts_with_pattern_Cons:
  "starts_with_pattern (t # ts) (c # cs) \<longleftrightarrow> c \<in> set (alternatives t) \<and> starts_with_pattern ts cs"
  by (auto simp: starts_with_pattern_def less_Suc_eq_0_disj)

lemma zip_tokens:
  "length ts \<le> length cs \<Longrightarrow>
   list_all (\<lambda>(t, c). token_matches t c) (zip ts (take (length ts) cs)) \<longleftrightarrow> starts_with_pattern ts cs"
proof (induction ts arbitrary: cs)
  case (Cons t ts)
  then show ?case by (cases cs) (auto simp: starts_with_pattern_Cons token_matches_iff)
qed (simp add: starts_with_pattern_def)

lemma matches_prefix_Cons:
  "matches_prefix p (c # cs) =
     (if c = pp_first p \<and> starts_with_pattern (pp_rest p) cs then Some (take (Suc (length (pp_rest p))) (c # cs)) else None)"
  using zip_tokens [of "pp_rest p" cs] by (auto simp: matches_prefix_def Let_def starts_with_pattern_def)

lemma rules_of_add_rules:
  assumes "multimap_laws mm"
  shows "rules_of mm (pb_rules_by_program (fold (add_rule mm) rules b)) k =
    rules_of mm (pb_rules_by_program b) k @ filter (\<lambda>r. program r = k) rules"
  by (induction rules arbitrary: b) (auto simp: add_rule_def laws_insert [OF assms])

lemma fold_add_rule_sel [simp]:
  "pb_network_rules (fold (add_rule mm) rules b) = pb_network_rules b"
  "pb_host_executables_by_name (fold (add_rule mm) rules b) = pb_host_executables_by_name b"
  "pb_pending_example_validations (fold (add_rule mm) rules b) = pb_pending_example_validations b"
  by (induction rules arbitrary: b) (auto simp: add_rule_def)

lemma map_filter_pattern:
  "List.map_filter (\<lambda>r. rule_matches r (c # cs)) (filter (\<lambda>r. program r = c)
      (map (\<lambda>head. \<lparr>pr_pattern = \<lparr>pp_first = head, pp_rest = ts\<rparr>, pr_decision = d, pr_justification = j\<rparr>) heads)) =
   (if starts_with_pattern ts cs
    then replicate (count_list heads c) (PrefixRuleMatch (take (Suc (length ts)) (c # cs)) d None j) else [])"
  by (induction heads) (auto simp: List.map_filter_def program_def rule_matches_def matches_prefix_Cons)

lemma prefix_rule_result:
  assumes "prefix_rule_builtin mm te pat d ms nms j span b = Inr b'"
  obtains dec just tokens ms' nms' where
    "(case d of Some raw \<Rightarrow> parse_decision raw | None \<Rightarrow> Inr Allow) = Inr dec" "check_justification j = Inr just"
    "parse_pattern pat = Inr tokens" "tokens \<noteq> []"
    "b' = fold (add_rule mm) (rules_of_pattern tokens dec just) (add_pending_example_validation
      \<lparr>pv_rules = rules_of_pattern tokens dec just, pv_matches = ms', pv_not_matches = nms',
       pv_location = map_option error_location_from_file_span span\<rparr> b)"
  using assms by (auto simp: prefix_rule_builtin_def and_then_Inr_iff Let_def split: if_splits)

lemma build_rules [simp]: "rules_by_program (build b) = pb_rules_by_program b"
  by (simp add: build_def from_parts_def)

text \<open>
  C21. A \<open>prefix_rule\<close> call splits its pattern into one rule per alternative of the first token.
  The split loses nothing: afterwards a command has the matches it had before and, when it starts
  with the pattern, one match of its first tokens for every mention of its program there, with
  the decision and justification of the call.
\<close>

theorem prefix_rule_call_matches_pattern:
  assumes laws: "multimap_laws mm" and call: "prefix_rule_builtin mm te pat d ms nms j span b = Inr b'"
  shows "\<exists>tokens dec. parse_pattern pat = Inr tokens
    \<and> (case d of Some raw \<Rightarrow> parse_decision raw | None \<Rightarrow> Inr Allow) = Inr dec
    \<and> exact_matches mm (build b') cmd = exact_matches mm (build b) cmd
        @ (if starts_with_pattern tokens cmd
           then replicate (count_list (alternatives (hd tokens)) (hd cmd)) (PrefixRuleMatch (take (length tokens) cmd) dec None j)
           else [])"
proof -
  obtain dec just tokens ms' nms' where c: "(case d of Some raw \<Rightarrow> parse_decision raw | None \<Rightarrow> Inr Allow) = Inr dec"
    "check_justification j = Inr just" "parse_pattern pat = Inr tokens" "tokens \<noteq> []"
    "b' = fold (add_rule mm) (rules_of_pattern tokens dec just) (add_pending_example_validation
      \<lparr>pv_rules = rules_of_pattern tokens dec just, pv_matches = ms', pv_not_matches = nms',
       pv_location = map_option error_location_from_file_span span\<rparr> b)"
    using prefix_rule_result [OF call] by metis
  have j: "just = j" using c(2) by (auto simp: check_justification_def split: option.splits if_splits)
  obtain t ts where t: "tokens = t # ts" using c(4) by (cases tokens) auto
  have count: "count_list (alternatives t) w = 0" if "w \<notin> set (alternatives t)" for w
    using that by (simp add: count_list_0_iff)
  have "exact_matches mm (build b') cmd = exact_matches mm (build b) cmd
        @ (if starts_with_pattern tokens cmd
           then replicate (count_list (alternatives t) (hd cmd)) (PrefixRuleMatch (take (length tokens) cmd) dec None j)
           else [])"
  proof (cases cmd)
    case Nil
    then show ?thesis by (simp add: exact_matches_def match_exact_rules_def starts_with_pattern_def t)
  next
    case (Cons w ws)
    then show ?thesis
      using count [of w]
      by (auto simp: exact_matches_def match_exact_rules_def c(5) rules_of_add_rules [OF laws] map_filter_append
          rules_of_pattern_def t j map_filter_pattern starts_with_pattern_Cons add_pending_example_validation_def)
  qed
  with c t show ?thesis by auto
qed

text \<open>\<open>prefix_rule(pattern = ["g", ["a", "b"]], decision = "prompt")\<close> and the command \<open>g b c\<close>.\<close>

definition sample_texts :: text_env where
  "sample_texts = \<lparr>shlex_split = \<lambda>s. Some [s], shlex_try_join = \<lambda>ts. Some (concat ts), debug_rule = \<lambda>r. program r,
     debug_match = \<lambda>m. []\<rparr>"

definition sample_pattern :: "star_value list" where
  "sample_pattern = [StarString [103], StarList [StarString [97], StarString [98]]]"

lemma sample_parse_pattern: "parse_pattern sample_pattern = Inr [Single [103], Alts [[97], [98]]]"
  by (simp add: sample_pattern_def parse_pattern_def string_or_def)

theorem prefix_rule_call_matches_pattern_witness:
  "\<exists>b'. prefix_rule_builtin list_multimap sample_texts sample_pattern (Some (lit ''prompt'')) None None None None
        (builder_new list_multimap) = Inr b'
     \<and> exact_matches list_multimap (build b') [[103], [98], [99]] = [PrefixRuleMatch [[103], [98]] Prompt None None]"
proof -
  have d: "parse_decision (lit ''prompt'') = Inr Prompt" by (simp add: parse_decision_def lit_eval)
  then obtain b' where b: "prefix_rule_builtin list_multimap sample_texts sample_pattern (Some (lit ''prompt'')) None None None None
        (builder_new list_multimap) = Inr b'"
    by (simp add: prefix_rule_builtin_def sample_parse_pattern check_justification_def parse_optional_examples_def Let_def)
  have e: "exact_matches list_multimap (build (builder_new list_multimap)) [[103], [98], [99]] = []"
    by (simp add: exact_matches_def match_exact_rules_def rules_of_def builder_new_def list_multimap_def List.map_filter_def)
  have s: "starts_with_pattern [Single [103], Alts [[97], [98]]] [[103], [98], [99]]"
    by (simp add: starts_with_pattern_Cons) (simp add: starts_with_pattern_def)
  show ?thesis
    using prefix_rule_call_matches_pattern [OF list_multimap_laws b, of "[[103], [98], [99]]"] b
    by (auto simp: sample_parse_pattern d e s)
qed

section \<open>Well-formed policies\<close>

text \<open>
  Rules stand under their own program, network rules have a lower-case host without blanks,
  wildcards or separators and no blank justification, and a host executable has absolute paths
  that end in its name.
\<close>

definition policy_ok :: "'m multimap \<Rightarrow> 'm policy \<Rightarrow> bool" where
  "policy_ok mm p \<longleftrightarrow>
     (\<forall>k. \<forall>r \<in> set (rules_of mm (rules_by_program p) k). program r = k)
     \<and> (\<forall>r \<in> set (network_rules p). clean_host (nr_host r) \<and> \<not> blank (nr_justification r))
     \<and> (\<forall>nm paths. fmlookup (host_executables_by_name p) nm = Some paths \<longrightarrow>
          (\<forall>q \<in> set paths. abs_normal q \<and> file_name q = Some nm))"

definition path_env_ok :: "path_env \<Rightarrow> bool" where
  "path_env_ok pe \<longleftrightarrow>
     (\<forall>h. home_dir pe = Some h \<longrightarrow> is_absolute h \<and> real_path h)
     \<and> (\<forall>d. current_dir pe = Inr d \<longrightarrow> is_absolute d \<and> real_path d)"

lemma absolutize_env_normal:
  assumes "path_env_ok pe" "absolutize (current_dir pe) (maybe_expand_home_directory (home_dir pe) raw) = Inr q"
  shows "abs_normal q"
proof (rule absolutize_normal [OF _ _ assms(2)])
  show "current_dir pe = Inr d \<Longrightarrow> is_absolute d \<and> real_path d" for d using assms(1) by (simp add: path_env_ok_def)
  show "real_path (maybe_expand_home_directory (home_dir pe) raw)"
    by (rule expand_home_real) (use assms(1) in \<open>simp add: path_env_ok_def\<close>)
qed

lemma parse_host_paths_ok:
  assumes "path_env_ok pe" "parse_host_paths pe nm vs parsed = Inr paths"
    "\<forall>q \<in> set parsed. abs_normal q \<and> file_name q = Some nm"
  shows "\<forall>q \<in> set paths. abs_normal q \<and> file_name q = Some nm"
  using assms(2,3)
proof (induction vs arbitrary: parsed)
  case (Cons v vs)
  obtain raw q where q: "parse_literal_absolute_path pe raw = Inr q"
    and step: "(case executable_path_lookup_key q of None \<Rightarrow> Inl (basename_error raw nm)
       | Some path_name \<Rightarrow>
           if path_name \<noteq> executable_lookup_key nm then Inl (basename_error raw nm)
           else parse_host_paths pe nm vs (if q \<in> set parsed then parsed else parsed @ [q])) = Inr paths"
    using Cons.prems(1) unfolding parse_host_paths.simps and_then_Inr_iff by blast
  then have n: "file_name q = Some nm"
    and r: "parse_host_paths pe nm vs (if q \<in> set parsed then parsed else parsed @ [q]) = Inr paths"
    by (simp_all add: executable_path_lookup_key_def executable_lookup_key_def split: option.splits if_split_asm)
  have "absolutize (current_dir pe) (maybe_expand_home_directory (home_dir pe) raw) = Inr q"
    using q by (simp add: parse_literal_absolute_path_def from_absolute_path_def split: if_split_asm sum.splits)
  then have "abs_normal q" by (rule absolutize_env_normal [OF assms(1)])
  then have "\<forall>x \<in> set (if q \<in> set parsed then parsed else parsed @ [q]). abs_normal x \<and> file_name x = Some nm"
    using Cons.prems(2) n by simp
  then show ?case by (rule Cons.IH [OF r])
qed simp

lemma run_builtin_ok:
  assumes "multimap_laws mm" "path_env_ok pe" "policy_ok mm (build b)" "run_builtin mm pe te c b = Inr b'"
  shows "policy_ok mm (build b')"
proof (cases c)
  case (PrefixRuleCall pat d ms nms j span)
  then obtain dec just tokens ms' nms' where
    "b' = fold (add_rule mm) (rules_of_pattern tokens dec just) (add_pending_example_validation
      \<lparr>pv_rules = rules_of_pattern tokens dec just, pv_matches = ms', pv_not_matches = nms',
       pv_location = map_option error_location_from_file_span span\<rparr> b)"
    using assms(4) prefix_rule_result [of mm te pat d ms nms j span b b'] by (metis run_builtin.simps(1))
  then show ?thesis using assms(3)
    by (auto simp: policy_ok_def build_def from_parts_def rules_of_add_rules [OF assms(1)] add_pending_example_validation_def)
next
  case (NetworkRuleCall h proto d j)
  then show ?thesis using assms(3,4)
    by (auto simp: policy_ok_def build_def from_parts_def network_rule_builtin_def and_then_Inr_iff builder_add_network_rule_def
        check_justification_def blank_def normalized_host_clean split: option.splits if_splits)
next
  case (HostExecutableCall nm paths)
  then obtain parsed where "parse_host_paths pe nm paths [] = Inr parsed" "b' = add_host_executable nm parsed b"
    using assms(4) by (auto simp: host_executable_builtin_def and_then_Inr_iff executable_lookup_key_def)
  then show ?thesis using assms(3) parse_host_paths_ok [OF assms(2), of nm paths "[]" parsed]
    by (auto simp: policy_ok_def build_def from_parts_def add_host_executable_def)
qed

lemma eval_calls_ok:
  assumes "multimap_laws mm" "path_env_ok pe"
  shows "policy_ok mm (build b) \<Longrightarrow> policy_ok mm (build (fst (eval_calls mm pe te cs b)))"
  by (induction cs arbitrary: b) (auto split: sum.split intro: run_builtin_ok [OF assms])

lemma parse_ok:
  assumes "multimap_laws mm" "path_env_ok pe" "policy_ok mm (build b)"
  shows "policy_ok mm (build (fst (parse mm pe te se ident contents b)))"
  using eval_calls_ok [OF assms, of te "star_calls se ident contents"] assms(3)
  by (auto simp: parse_def Let_def split: option.splits prod.splits)

definition parse_files ::
  "'m multimap \<Rightarrow> path_env \<Rightarrow> text_env \<Rightarrow> starlark_engine \<Rightarrow> (str \<times> str) list \<Rightarrow> 'm policy_builder \<Rightarrow> 'm policy_builder" where
  "parse_files mm pe te se files b = foldl (\<lambda>b' (ident, contents). fst (parse mm pe te se ident contents b')) b files"

lemma parse_files_Nil [simp]: "parse_files mm pe te se [] b = b"
  by (simp add: parse_files_def)

lemma parse_files_Cons [simp]:
  "parse_files mm pe te se ((i, c) # files) b = parse_files mm pe te se files (fst (parse mm pe te se i c b))"
  by (simp add: parse_files_def)

lemma parse_files_ok:
  assumes "multimap_laws mm" "path_env_ok pe"
  shows "policy_ok mm (build b) \<Longrightarrow> policy_ok mm (build (parse_files mm pe te se files b))"
  by (induction files arbitrary: b) (auto simp: parse_ok [OF assms])

lemma builder_new_ok: "multimap_laws mm \<Longrightarrow> policy_ok mm (build (builder_new mm))"
  by (simp add: policy_ok_def builder_new_def build_def from_parts_def rules_of_def multimap_laws_def)

datatype 'm policy_op =
    AddPrefixRule "str list" decision
  | AddNetworkRule str network_rule_protocol decision "str option"
  | MergeOverlay "'m policy"
  | SetHostExecutablePaths str "path list"

fun policy_step :: "'m multimap \<Rightarrow> 'm policy_op \<Rightarrow> 'm policy \<Rightarrow> 'm policy" where
  "policy_step mm (AddPrefixRule prefix d) p = (case add_prefix_rule mm p prefix d of Inr q \<Rightarrow> q | Inl _ \<Rightarrow> p)"
| "policy_step mm (AddNetworkRule h proto d j) p = (case add_network_rule p h proto d j of Inr q \<Rightarrow> q | Inl _ \<Rightarrow> p)"
| "policy_step mm (MergeOverlay overlay) p = merge_overlay mm p overlay"
| "policy_step mm (SetHostExecutablePaths nm paths) p = set_host_executable_paths p nm paths"

fun policy_op_ok :: "'m multimap \<Rightarrow> 'm policy \<Rightarrow> 'm policy_op \<Rightarrow> bool" where
  "policy_op_ok mm p (MergeOverlay overlay) = policy_ok mm overlay"
| "policy_op_ok mm p (SetHostExecutablePaths nm paths) = (\<forall>q \<in> set paths. abs_normal q \<and> file_name q = Some nm)"
| "policy_op_ok mm p _ = True"

lemma policy_step_ok:
  assumes "multimap_laws mm" "policy_ok mm p" "policy_op_ok mm p x"
  shows "policy_ok mm (policy_step mm x p)"
proof (cases x)
  case (AddPrefixRule prefix d)
  then show ?thesis using assms(2)
    by (auto simp: add_prefix_rule_def policy_ok_def laws_insert [OF assms(1)] program_def split: list.split)
next
  case (AddNetworkRule h proto d j)
  then show ?thesis using assms(2)
    by (auto simp: add_network_rule_def policy_ok_def and_then_Inr_iff normalized_host_clean split: sum.split if_splits)
next
  case (MergeOverlay overlay)
  then have o: "policy_ok mm overlay" using assms(3) by simp
  have sel: "network_rules (merge_overlay mm p overlay) = network_rules p @ network_rules overlay"
    "host_executables_by_name (merge_overlay mm p overlay) = host_executables_by_name p ++\<^sub>f host_executables_by_name overlay"
    by (simp_all add: merge_overlay_def from_parts_def)
  from o assms(2) MergeOverlay show ?thesis
    by (simp add: policy_ok_def sel rules_of_merge [OF assms(1)] ball_Un)
next
  case (SetHostExecutablePaths nm paths)
  then show ?thesis using assms(2,3) by (auto simp: policy_ok_def set_host_executable_paths_def)
qed

interpretation policy_machine: guarded_machine "policy_step mm" "\<lambda>p. multimap_laws mm \<longrightarrow> policy_ok mm p" "policy_op_ok mm" for mm
  by unfold_locales (auto intro: policy_step_ok)


definition sample_engine :: starlark_engine where
  "sample_engine = \<lparr>star_parse = \<lambda>_ _. None,
     star_calls = \<lambda>_ _. [PrefixRuleCall sample_pattern None (Some [StarList [StarString [103], StarString [97]]]) None None None],
     star_final = \<lambda>_ _. None, star_wrap = \<lambda>_. \<lparr>se_text = [], se_span = None\<rparr>\<rparr>"

lemma sample_paths_ok: "path_env_ok sample_paths"
  by (simp add: path_env_ok_def sample_paths_def is_absolute_def real_path_def)


section \<open>Accepted examples\<close>

definition pending_ok :: "'m multimap \<Rightarrow> 'm policy_builder \<Rightarrow> bool" where
  "pending_ok mm b \<longleftrightarrow> (\<forall>v \<in> set (pb_pending_example_validations b). \<forall>r \<in> set (pv_rules v).
     r \<in> set (rules_of mm (pb_rules_by_program b) (program r)))"

lemma run_builtin_pending:
  assumes "multimap_laws mm" "pending_ok mm b" "run_builtin mm pe te c b = Inr b'"
  shows "pending_ok mm b'"
proof (cases c)
  case (PrefixRuleCall pat d ms nms j span)
  then obtain dec just tokens ms' nms' where
    "b' = fold (add_rule mm) (rules_of_pattern tokens dec just) (add_pending_example_validation
      \<lparr>pv_rules = rules_of_pattern tokens dec just, pv_matches = ms', pv_not_matches = nms',
       pv_location = map_option error_location_from_file_span span\<rparr> b)"
    using assms(3) prefix_rule_result [of mm te pat d ms nms j span b b'] by (metis run_builtin.simps(1))
  then show ?thesis using assms(2)
    by (auto simp: pending_ok_def rules_of_add_rules [OF assms(1)] add_pending_example_validation_def)
qed (use assms(2,3) in \<open>auto simp: pending_ok_def network_rule_builtin_def host_executable_builtin_def and_then_Inr_iff
    builder_add_network_rule_def add_host_executable_def\<close>)

lemma eval_calls_pending:
  assumes "multimap_laws mm"
  shows "pending_ok mm b \<Longrightarrow> pending_ok mm (fst (eval_calls mm pe te cs b))"
  by (induction cs arbitrary: b) (auto split: sum.split intro: run_builtin_pending [OF assms])

lemma parse_pending:
  assumes "multimap_laws mm" "pending_ok mm b"
  shows "pending_ok mm (fst (parse mm pe te se ident contents b))"
  using eval_calls_pending [OF assms, of pe te "star_calls se ident contents"] assms(2)
  by (auto simp: parse_def Let_def split: option.splits prod.splits)

lemma parse_files_pending:
  assumes "multimap_laws mm"
  shows "pending_ok mm b \<Longrightarrow> pending_ok mm (parse_files mm pe te se files b)"
  by (induction files arbitrary: b) (auto simp: parse_pending [OF assms])

lemma exact_matches_ne:
  "exact_matches mm p cmd \<noteq> [] \<longleftrightarrow>
     cmd \<noteq> [] \<and> (\<exists>r \<in> set (rules_of mm (rules_by_program p) (hd cmd)). rule_matches r cmd \<noteq> None)"
  by (cases cmd) (auto simp: exact_matches_def match_exact_rules_def List.map_filter_def filter_empty_conv)

lemma host_matches_ne:
  "match_host_executable_rules mm pe p cmd \<noteq> [] \<longleftrightarrow>
     (\<exists>prog basename. cmd \<noteq> [] \<and> from_absolute_path (home_dir pe) (current_dir pe) (hd cmd) = Inr prog
        \<and> executable_path_lookup_key prog = Some basename
        \<and> (\<forall>paths. fmlookup (host_executables_by_name p) basename = Some paths \<longrightarrow> prog \<in> set paths)
        \<and> (\<exists>r \<in> set (rules_of mm (rules_by_program p) basename). rule_matches r (basename # tl cmd) \<noteq> None))"
  by (cases cmd) (auto simp: match_host_executable_rules_def rules_of_def List.map_filter_def filter_empty_conv
      split: sum.split option.split)

lemma example_matches_ne:
  "matches_for_command_with_options mm pe p cmd None example_options \<noteq> [] \<longleftrightarrow>
     exact_matches mm p cmd \<noteq> [] \<or> match_host_executable_rules mm pe p cmd \<noteq> []"
  by (auto simp: matches_for_command_with_options_def exact_matches_def example_options_def Let_def)

lemma rules_of_validation:
  "multimap_laws mm \<Longrightarrow>
   rules_of mm (rules_by_program (validation_policy mm b rules)) k = filter (\<lambda>r. program r = k) rules"
proof -
  assume laws: "multimap_laws mm"
  have "rules_of mm (foldl (\<lambda>m r. mm_insert mm m (program r) r) m rules) k = rules_of mm m k @ filter (\<lambda>r. program r = k) rules" for m
    by (induction rules arbitrary: m) (auto simp: laws_insert [OF laws])
  moreover have "rules_of mm (mm_new mm) k = []" using laws by (simp add: multimap_laws_def rules_of_def)
  ultimately show ?thesis by (simp add: validation_policy_def from_parts_def)
qed

lemma validate_not_match_ok:
  "validate_not_match_examples mm pe te p exs = Inr () \<longleftrightarrow>
     (\<forall>ex \<in> set exs. matches_for_command_with_options mm pe p ex None example_options = [])"
  by (induction exs) (auto split: list.split)

lemma validate_match_ok:
  "validate_match_examples mm pe te p rules exs = Inr () \<longleftrightarrow>
     (\<forall>ex \<in> set exs. matches_for_command_with_options mm pe p ex None example_options \<noteq> [])"
  by (auto simp: validate_match_examples_def Let_def filter_empty_conv)

lemma collect_Inr: "collect f xs = Inr ys \<Longrightarrow> x \<in> set xs \<Longrightarrow> \<exists>y. f x = Inr y"
  by (induction xs arbitrary: ys) (auto simp: and_then_Inr_iff)

lemma map_error_Inr [simp]: "map_error f r = Inr x \<longleftrightarrow> r = Inr x"
  by (cases r) (auto simp: map_error_def)

lemma validated:
  assumes "validate_pending_examples_from mm pe te b n = Inr ()" "v \<in> set (drop n (pb_pending_example_validations b))"
  shows "\<forall>ex \<in> set (pv_not_matches v).
      matches_for_command_with_options mm pe (validation_policy mm b (pv_rules v)) ex None example_options = []"
    and "\<forall>ex \<in> set (pv_matches v).
      matches_for_command_with_options mm pe (validation_policy mm b (pv_rules v)) ex None example_options \<noteq> []"
proof -
  obtain ys where "collect (validate_pending mm pe te b) (drop n (pb_pending_example_validations b)) = Inr ys"
    using assms(1) by (auto simp: validate_pending_examples_from_def and_then_Inr_iff)
  then have "validate_pending mm pe te b v = Inr ()" using collect_Inr assms(2) by fastforce
  then have "validate_not_match_examples mm pe te (validation_policy mm b (pv_rules v)) (pv_not_matches v) = Inr ()"
    "validate_match_examples mm pe te (validation_policy mm b (pv_rules v)) (pv_rules v) (pv_matches v) = Inr ()"
    by (auto simp: validate_pending_def Let_def and_then_Inr_iff)
  then show "\<forall>ex \<in> set (pv_not_matches v).
      matches_for_command_with_options mm pe (validation_policy mm b (pv_rules v)) ex None example_options = []"
    "\<forall>ex \<in> set (pv_matches v).
      matches_for_command_with_options mm pe (validation_policy mm b (pv_rules v)) ex None example_options \<noteq> []"
    unfolding validate_not_match_ok validate_match_ok by simp_all
qed

lemma example_kept:
  assumes laws: "multimap_laws mm" and pend: "\<forall>r \<in> set rules. r \<in> set (rules_of mm (pb_rules_by_program b) (program r))"
    and m: "matches_for_command_with_options mm pe (validation_policy mm b rules) ex None example_options \<noteq> []"
  shows "matches_for_command_with_options mm pe (build b) ex None example_options \<noteq> []"
proof -
  have hosts: "host_executables_by_name (validation_policy mm b rules) = host_executables_by_name (build b)"
    by (simp add: validation_policy_def build_def from_parts_def)
  have sub: "r \<in> set (rules_of mm (rules_by_program (build b)) k)"
    if "r \<in> set (rules_of mm (rules_by_program (validation_policy mm b rules)) k)" for r k
    using that pend by (auto simp: rules_of_validation [OF laws])
  from m show ?thesis unfolding example_matches_ne exact_matches_ne host_matches_ne hosts using sub by meson
qed

text \<open>
  The examples of an accepted rule file hold for the policy it builds: every positive example
  is matched by some rule, and no rule of a call matches a negative example of that call.
\<close>

theorem accepted_examples_hold:
  assumes laws: "multimap_laws mm" and b: "b = parse_files mm pe te se files (builder_new mm)"
    and parsed: "parse mm pe te se ident contents b = (b', Inr ())"
    and v: "v \<in> set (drop (length (pb_pending_example_validations b)) (pb_pending_example_validations b'))"
  shows "(\<forall>ex \<in> set (pv_matches v). matches_for_command_with_options mm pe (build b') ex None example_options \<noteq> [])
    \<and> (\<forall>ex \<in> set (pv_not_matches v). \<forall>r \<in> set (pv_rules v). rule_matches r ex = None)"
proof (intro conjI ballI)
  have "pending_ok mm b" unfolding b
    by (rule parse_files_pending [OF laws]) (simp add: pending_ok_def builder_new_def)
  then have pend: "pending_ok mm b'" using parse_pending [OF laws, of b pe te se ident contents] parsed by simp
  have ok: "validate_pending_examples_from mm pe te b' (length (pb_pending_example_validations b)) = Inr ()"
    using parsed by (auto simp: parse_def Let_def split: option.splits prod.splits)
  note val = validated [OF ok v]
  fix ex
  show "matches_for_command_with_options mm pe (build b') ex None example_options \<noteq> []" if "ex \<in> set (pv_matches v)"
    by (rule example_kept [OF laws, where rules = "pv_rules v"])
      (use val(2) that pend v in \<open>auto simp: pending_ok_def dest: in_set_dropD\<close>)
  fix r assume "ex \<in> set (pv_not_matches v)" "r \<in> set (pv_rules v)"
  then have "exact_matches mm (validation_policy mm b' (pv_rules v)) ex = []"
    using val(1) example_matches_ne by blast
  then show "rule_matches r ex = None"
    using \<open>r \<in> set (pv_rules v)\<close> exact_matches_ne [of mm "validation_policy mm b' (pv_rules v)" ex]
    by (cases ex) (auto simp: rules_of_validation [OF laws] rule_matches_def matches_prefix_Cons program_def
        matches_prefix_def)
qed

definition sample_builder :: "(str \<times> prefix_rule list) list policy_builder" where
  "sample_builder =
     (let r = sample_rule Allow in
      \<lparr>pb_rules_by_program = [([103], [r])], pb_network_rules = [], pb_host_executables_by_name = fmempty,
       pb_pending_example_validations =
         [\<lparr>pv_rules = [r], pv_matches = [[[103], [97]]], pv_not_matches = [], pv_location = None\<rparr>]\<rparr>)"

lemma sample_call:
  "prefix_rule_builtin list_multimap sample_texts sample_pattern None (Some [StarList [StarString [103], StarString [97]]])
     None None None (builder_new list_multimap) = Inr sample_builder"
  by (simp add: prefix_rule_builtin_def sample_parse_pattern check_justification_def parse_optional_examples_def
      parse_examples_def parse_list_example_def string_or_def rules_of_pattern_def add_pending_example_validation_def
      add_rule_def builder_new_def list_multimap_def program_def sample_builder_def sample_rule_def Let_def)

lemma sample_validated: "validate_pending_examples_from list_multimap sample_paths sample_texts sample_builder 0 = Inr ()"
  by (simp add: sample_builder_def Let_def validate_pending_examples_from_def validate_pending_def validation_policy_def
      validate_match_examples_def matches_for_command_with_options_def match_exact_rules_def rules_of_def
      from_parts_def program_def rule_matches_def matches_prefix_def list_multimap_def List.map_filter_def map_error_def
      sample_rule_def)

lemma sample_parse:
  "parse list_multimap sample_paths sample_texts sample_engine [] [] (builder_new list_multimap) = (sample_builder, Inr ())"
proof -
  have "length (pb_pending_example_validations (builder_new list_multimap)) = 0" by (simp add: builder_new_def)
  then show ?thesis by (simp add: parse_def sample_engine_def sample_call sample_validated)
qed

theorem accepted_examples_hold_witness:
  "\<exists>b'. parse list_multimap sample_paths sample_texts sample_engine [] [] (builder_new list_multimap) = (b', Inr ())
    \<and> matches_for_command_with_options list_multimap sample_paths (build b') [[103], [97]] None example_options \<noteq> []"
proof -
  let ?v = "\<lparr>pv_rules = [sample_rule Allow], pv_matches = [[[103], [97]]], pv_not_matches = [], pv_location = None\<rparr>"
  have "?v \<in> set (drop (length (pb_pending_example_validations (builder_new list_multimap))) (pb_pending_example_validations sample_builder))"
    by (simp add: sample_builder_def builder_new_def Let_def)
  from accepted_examples_hold [OF list_multimap_laws parse_files_Nil [symmetric] sample_parse this]
  have "matches_for_command_with_options list_multimap sample_paths (build sample_builder) [[103], [97]] None example_options \<noteq> []"
    by simp
  with sample_parse show ?thesis by blast
qed

end
