(* ===== verification/Exec_Amend.thy ===== *)
theory Exec_Amend
  imports Exec_Policy
begin

text \<open>
  Saving rules and migrating saved rules: \<open>execpolicy/src/amend.rs\<close> and
  \<open>sandbox_migration.rs\<close>. The policy file is its text, if it exists; every operation of the
  operating system may fail, which an argument decides per call, together with what a failed
  write leaves behind. JSON texts come from \<open>serde_json\<close>, error texts from derived code.
\<close>

section \<open>Environment\<close>

record json_env =
  to_json :: "str \<Rightarrow> str + str"
  json_strings :: "str \<Rightarrow> str list option"
  display_error :: "policy_error \<Rightarrow> str"

datatype amend_error =
    EmptyPrefix
  | InvalidNetworkRule str
  | MissingParent path
  | CreatePolicyDir path io_error
  | SerializePrefix str
  | SerializeNetworkRule str
  | OpenPolicyFile path io_error
  | WritePolicyFile path io_error
  | LockPolicyFile path io_error
  | SeekPolicyFile path io_error
  | ReadPolicyFile path io_error
  | PolicyMetadata path io_error

text \<open>The failures of one append; a failed write gives the text that reached the file.\<close>

record append_faults =
  af_create_dir :: "io_error option"
  af_open :: "io_error option"
  af_lock :: "io_error option"
  af_seek :: "io_error option"
  af_read :: "io_error option"
  af_write_newline :: "(str \<times> io_error) option"
  af_write_line :: "(str \<times> io_error) option"

definition no_append_faults :: append_faults where
  "no_append_faults = \<lparr>af_create_dir = None, af_open = None, af_lock = None, af_seek = None, af_read = None,
     af_write_newline = None, af_write_line = None\<rparr>"

type_synonym policy_file = "str option"

section \<open>Appending a line\<close>

definition write_line :: "append_faults \<Rightarrow> path \<Rightarrow> str \<Rightarrow> str \<Rightarrow> (amend_error + unit) \<times> policy_file" where
  "write_line af policy_path line contents =
     (case af_write_line af of
        Some (part, e) \<Rightarrow> (Inl (WritePolicyFile policy_path e), Some (contents @ part))
      | None \<Rightarrow> (Inr (), Some (contents @ line @ [10])))"

definition append_locked_line ::
  "append_faults \<Rightarrow> path \<Rightarrow> str \<Rightarrow> policy_file \<Rightarrow> (amend_error + unit) \<times> policy_file" where
  "append_locked_line af policy_path line file =
     (case af_open af of Some e \<Rightarrow> (Inl (OpenPolicyFile policy_path e), file)
      | None \<Rightarrow>
          let contents = (case file of Some c \<Rightarrow> c | None \<Rightarrow> []);
              keep = Some contents
          in case af_lock af of Some e \<Rightarrow> (Inl (LockPolicyFile policy_path e), keep)
      | None \<Rightarrow> (case af_seek af of Some e \<Rightarrow> (Inl (SeekPolicyFile policy_path e), keep)
      | None \<Rightarrow> (case af_read af of Some e \<Rightarrow> (Inl (ReadPolicyFile policy_path e), keep)
      | None \<Rightarrow>
          if line \<in> set (str_lines contents) then (Inr (), keep)
          else if contents \<noteq> [] \<and> \<not> ends_with [10] contents
          then (case af_write_newline af of
                  Some (part, e) \<Rightarrow> (Inl (WritePolicyFile policy_path e), Some (contents @ part))
                | None \<Rightarrow> write_line af policy_path line (contents @ [10]))
          else write_line af policy_path line contents)))"

definition append_rule_line ::
  "append_faults \<Rightarrow> path \<Rightarrow> str \<Rightarrow> policy_file \<Rightarrow> (amend_error + unit) \<times> policy_file" where
  "append_rule_line af policy_path rule file =
     (case path_parent policy_path of
        None \<Rightarrow> (Inl (MissingParent policy_path), file)
      | Some dir \<Rightarrow>
          (case af_create_dir af of
             Some e \<Rightarrow>
               if io_kind e = AlreadyExists then append_locked_line af policy_path rule file
               else (Inl (CreatePolicyDir dir e), file)
           | None \<Rightarrow> append_locked_line af policy_path rule file))"

section \<open>Rule texts\<close>

fun json_all :: "json_env \<Rightarrow> str list \<Rightarrow> str + str list" where
  "json_all je [] = Inr []"
| "json_all je (s # ss) = and_then (to_json je s) (\<lambda>j. and_then (json_all je ss) (\<lambda>js. Inr (j # js)))"

definition ALLOW_SUFFIX :: str where
  "ALLOW_SUFFIX = lit '', decision='' @ [34] @ lit ''allow'' @ [34] @ lit '')''"

definition RULE_PREFIX :: str where
  "RULE_PREFIX = lit ''prefix_rule(pattern=''"

definition allow_rule_text :: "str list \<Rightarrow> str" where
  "allow_rule_text tokens = RULE_PREFIX @ ([91] @ join_with (lit '', '') tokens @ [93]) @ ALLOW_SUFFIX"

definition blocking_append_allow_prefix_rule ::
  "json_env \<Rightarrow> append_faults \<Rightarrow> path \<Rightarrow> str list \<Rightarrow> policy_file \<Rightarrow> (amend_error + unit) \<times> policy_file" where
  "blocking_append_allow_prefix_rule je af policy_path prefix file =
     (if prefix = [] then (Inl EmptyPrefix, file)
      else (case json_all je prefix of
              Inl e \<Rightarrow> (Inl (SerializePrefix e), file)
            | Inr tokens \<Rightarrow> append_rule_line af policy_path (allow_rule_text tokens) file))"

fun decision_text :: "decision \<Rightarrow> str" where
  "decision_text Allow = lit ''allow''"
| "decision_text Prompt = lit ''prompt''"
| "decision_text Forbidden = lit ''deny''"

definition network_json :: "json_env \<Rightarrow> str \<Rightarrow> amend_error + str" where
  "network_json je s = (case to_json je s of Inl e \<Rightarrow> Inl (SerializeNetworkRule e) | Inr j \<Rightarrow> Inr j)"

definition network_rule_text ::
  "json_env \<Rightarrow> str \<Rightarrow> network_rule_protocol \<Rightarrow> decision \<Rightarrow> str option \<Rightarrow> amend_error + str" where
  "network_rule_text je host protocol d justification =
     and_then (network_json je host) (\<lambda>h.
     and_then (network_json je (as_policy_string protocol)) (\<lambda>pr.
     and_then (network_json je (decision_text d)) (\<lambda>de.
     and_then (case justification of
                 None \<Rightarrow> Inr []
               | Some j \<Rightarrow> and_then (network_json je j) (\<lambda>jj. Inr [lit ''justification='' @ jj])) (\<lambda>js.
       Inr (lit ''network_rule('' @ join_with (lit '', '')
              ([lit ''host='' @ h, lit ''protocol='' @ pr, lit ''decision='' @ de] @ js) @ lit '')'')))))"

definition blocking_append_network_rule ::
  "json_env \<Rightarrow> append_faults \<Rightarrow> path \<Rightarrow> str \<Rightarrow> network_rule_protocol \<Rightarrow> decision \<Rightarrow> str option \<Rightarrow> policy_file
    \<Rightarrow> (amend_error + unit) \<times> policy_file" where
  "blocking_append_network_rule je af policy_path raw protocol d justification file =
     (case normalize_network_rule_host raw of
        Inl e \<Rightarrow> (Inl (InvalidNetworkRule (display_error je e)), file)
      | Inr host \<Rightarrow>
          if blank justification then (Inl (InvalidNetworkRule (lit ''justification cannot be empty'')), file)
          else (case network_rule_text je host protocol d justification of
                  Inl e \<Rightarrow> (Inl e, file)
                | Inr rule \<Rightarrow> append_rule_line af policy_path rule file))"

section \<open>The migration\<close>

definition should_remove_rule :: "json_env \<Rightarrow> str \<Rightarrow> str list set \<Rightarrow> bool" where
  "should_remove_rule je line banned =
     (let l = strip_opt_suffix [13] (strip_opt_suffix [10] line) in
      case strip_prefix RULE_PREFIX l of None \<Rightarrow> False
      | Some rest \<Rightarrow>
     (case strip_suffix ALLOW_SUFFIX rest of None \<Rightarrow> False
      | Some pat \<Rightarrow>
     (case json_strings je pat of None \<Rightarrow> False
      | Some prefix \<Rightarrow> map ascii_lower prefix \<in> banned)))"

definition strip_banned_allow_rules :: "json_env \<Rightarrow> str \<Rightarrow> str list list \<Rightarrow> str" where
  "strip_banned_allow_rules je contents banned_prefixes =
     concat (filter (\<lambda>line. \<not> should_remove_rule je line (set (map (map ascii_lower) banned_prefixes)))
       (split_inclusive 10 contents))"

record migration_world =
  mw_marker :: bool
  mw_policy :: policy_file

text \<open>
  The failures of one migration. Between the first and the second read another process may
  change the file, to what \<open>mf_meanwhile\<close> says.
\<close>

record migration_faults =
  mf_try_exists :: "io_error option"
  mf_read :: "io_error option"
  mf_meanwhile :: "policy_file \<Rightarrow> policy_file"
  mf_open :: "io_error option"
  mf_read_again :: "io_error option"
  mf_seek :: "io_error option"
  mf_write :: "(str \<times> io_error) option"
  mf_set_len :: "(str \<times> io_error) option"
  mf_create_home :: "io_error option"
  mf_marker :: "io_error option"

definition no_migration_faults :: migration_faults where
  "no_migration_faults = \<lparr>mf_try_exists = None, mf_read = None, mf_meanwhile = \<lambda>f. f, mf_open = None, mf_read_again = None,
     mf_seek = None, mf_write = None, mf_set_len = None, mf_create_home = None, mf_marker = None\<rparr>"

definition not_found_io :: io_error where
  "not_found_io = \<lparr>io_kind = NotFound, io_message = lit ''No such file or directory (os error 2)''\<rparr>"

text \<open>Opening or reading a file that is missing fails with \<open>NotFound\<close>, unless it fails otherwise.\<close>

definition file_result :: "io_error option \<Rightarrow> policy_file \<Rightarrow> io_error + str" where
  "file_result fault file =
     (case fault of Some e \<Rightarrow> Inl e | None \<Rightarrow> (case file of None \<Rightarrow> Inl not_found_io | Some c \<Rightarrow> Inr c))"

definition rewrite_file ::
  "migration_faults \<Rightarrow> str \<Rightarrow> str \<Rightarrow> (io_error + unit) \<times> policy_file" where
  "rewrite_file mf contents retained =
     (case mf_seek mf of Some e \<Rightarrow> (Inl e, Some contents)
      | None \<Rightarrow> (case mf_write mf of Some (left, e) \<Rightarrow> (Inl e, Some left)
      | None \<Rightarrow> (case mf_set_len mf of Some (left, e) \<Rightarrow> (Inl e, Some left)
      | None \<Rightarrow> (Inr (), Some retained))))"

definition clean_opened ::
  "json_env \<Rightarrow> migration_faults \<Rightarrow> str list list \<Rightarrow> policy_file \<Rightarrow> (io_error + unit) \<times> policy_file" where
  "clean_opened je mf banned file =
     (case file_result (mf_open mf) file of
        Inl e \<Rightarrow> if io_kind e = NotFound then (Inr (), file) else (Inl e, file)
      | Inr _ \<Rightarrow>
          (case file_result (mf_read_again mf) file of
             Inl e \<Rightarrow> (Inl e, file)
           | Inr contents \<Rightarrow>
               let retained = strip_banned_allow_rules je contents banned in
               if retained = contents then (Inr (), file) else rewrite_file mf contents retained))"

definition clean_rules_file ::
  "json_env \<Rightarrow> migration_faults \<Rightarrow> str list list \<Rightarrow> policy_file \<Rightarrow> (io_error + unit) \<times> policy_file" where
  "clean_rules_file je mf banned file =
     (case file_result (mf_read mf) file of
        Inl e \<Rightarrow> if io_kind e = NotFound then (Inr (), file) else (Inl e, file)
      | Inr contents \<Rightarrow>
          if strip_banned_allow_rules je contents banned = contents then (Inr (), file)
          else clean_opened je mf banned (mf_meanwhile mf file))"

definition write_migration_marker :: "migration_faults \<Rightarrow> migration_world \<Rightarrow> (io_error + unit) \<times> migration_world" where
  "write_migration_marker mf w =
     (case mf_create_home mf of Some e \<Rightarrow> (Inl e, w)
      | None \<Rightarrow>
          (case mf_marker mf of
             Some e \<Rightarrow> if io_kind e = AlreadyExists then (Inr (), w\<lparr>mw_marker := True\<rparr>) else (Inl e, w)
           | None \<Rightarrow> (Inr (), w\<lparr>mw_marker := True\<rparr>)))"

definition prefix_rule_migration ::
  "json_env \<Rightarrow> migration_faults \<Rightarrow> str list list \<Rightarrow> migration_world \<Rightarrow> (io_error + unit) \<times> migration_world" where
  "prefix_rule_migration je mf banned w =
     (case mf_try_exists mf of Some e \<Rightarrow> (Inl e, w)
      | None \<Rightarrow>
          if mw_marker w then (Inr (), w)
          else (case clean_rules_file je mf banned (mw_policy w) of
                  (Inl e, file) \<Rightarrow> (Inl e, w\<lparr>mw_policy := file\<rparr>)
                | (Inr _, file) \<Rightarrow> write_migration_marker mf (w\<lparr>mw_policy := file\<rparr>)))"

section \<open>Appended lines\<close>

lemma str_lines_snoc:
  assumes "10 \<notin> set line" "line = [] \<or> last line \<noteq> 13"
  shows "str_lines (line @ [10]) = [line]"
  using assms split_on_append_sep [of 10 line "[]"]
  by (auto simp: str_lines_def strip_cr_def strip_suffix_Some_iff split: option.split)

lemma split_on_last_newline: "last (split_on 10 (c @ [10])) = []"
  by (simp add: split_on_append_gen)

lemma strip_cr_plain: "s = [] \<or> last s \<noteq> 13 \<Longrightarrow> strip_cr s = s"
  by (auto simp: strip_cr_def strip_suffix_Some_iff split: option.split)

lemma str_lines_append:
  assumes "10 \<notin> set line" "line = [] \<or> last line \<noteq> 13"
  shows "str_lines (c @ [10] @ line @ [10]) = str_lines (c @ [10]) @ [line]"
  using assms split_on_append_sep [of 10 line "[]"]
  by (simp add: str_lines_def split_on_append_gen butlast_append strip_cr_plain)

lemma ends_with_newline: "ends_with [10] s \<longleftrightarrow> (\<exists>c. s = c @ [10])"
  by (auto simp: ends_with_def strip_suffix_Some_iff)

lemma join_with_snoc: "join_with sep (ps @ [p]) = (if ps = [] then [] else join_with sep ps @ sep) @ p"
  by (induction ps) (auto simp: join_with_Cons)

lemma str_lines_newline:
  assumes "c \<noteq> []" "last c \<noteq> 13" "\<not> ends_with [10] c"
  shows "str_lines (c @ [10]) = str_lines c"
proof -
  have "last c \<noteq> 10" using assms(1,3) by (metis append_butlast_last_id ends_with_newline)
  obtain ps p where ps: "split_on 10 c = ps @ [p]" by (meson rev_exhaust split_on_ne)
  have c: "c = join_with [10] (ps @ [p])" using join_split_on [of 10 c] ps by simp
  then have p: "p \<noteq> []" using c \<open>last c \<noteq> 10\<close> assms(1) by (auto simp: join_with_snoc split: if_splits)
  then have "last p = last c" using c by (simp add: join_with_snoc)
  then show ?thesis using p assms(2) by (simp add: str_lines_def split_on_append_gen ps strip_cr_plain butlast_append)
qed

text \<open>What a successful append leaves, as lines.\<close>

lemma write_line_ok: "write_line af pth line c = (Inr (), f) \<Longrightarrow> f = Some (c @ line @ [10])"
  by (auto simp: write_line_def split: option.splits prod.splits)

lemma append_ok_cases:
  assumes "append_locked_line af pth line file = (Inr (), f)"
  obtains c where "c = (case file of Some c \<Rightarrow> c | None \<Rightarrow> [])" "line \<in> set (str_lines c)" "f = Some c"
  | c where "c = (case file of Some c \<Rightarrow> c | None \<Rightarrow> [])" "line \<notin> set (str_lines c)"
      "f = Some (c @ (if c \<noteq> [] \<and> \<not> ends_with [10] c then [10] else []) @ line @ [10])"
  using assms write_line_ok
  by (fastforce simp: append_locked_line_def Let_def split: option.splits prod.splits if_splits)

lemma append_lines:
  assumes "append_locked_line af pth line file = (Inr (), f)" "10 \<notin> set line" "line = [] \<or> last line \<noteq> 13"
    and c: "c = (case file of Some c \<Rightarrow> c | None \<Rightarrow> [])" "c = [] \<or> last c \<noteq> 13"
  shows "\<exists>c'. f = Some c' \<and> str_lines c' = str_lines c @ (if line \<in> set (str_lines c) then [] else [line])"
  using assms(1)
proof (cases rule: append_ok_cases)
  case (2 d)
  show ?thesis
  proof (cases "c = [] \<or> ends_with [10] c")
    case True
    then have f: "f = Some (c @ line @ [10])" using 2 c(1) by auto
    show ?thesis
    proof (cases "c = []")
      case True
      then show ?thesis using f 2 c(1) str_lines_snoc [OF assms(2,3)] by (simp add: str_lines_def)
    next
      case False
      then obtain c0 where "c = c0 @ [10]" using True by (auto simp: ends_with_newline)
      then show ?thesis using f 2 c(1) str_lines_append [OF assms(2,3), of c0] by auto
    qed
  next
    case False
    then have "f = Some (c @ [10] @ line @ [10])" using 2 c(1) by auto
    moreover have "str_lines (c @ [10]) = str_lines c" using False c(2) str_lines_newline by blast
    ultimately show ?thesis using 2 c(1) str_lines_append [OF assms(2,3), of c] by auto
  qed
qed (use c in simp)

lemma append_contains:
  assumes "append_locked_line af pth line file = (Inr (), f)" "10 \<notin> set line" "line = [] \<or> last line \<noteq> 13"
  shows "\<exists>c'. f = Some c' \<and> line \<in> set (str_lines c')"
  using assms(1)
proof (cases rule: append_ok_cases)
  case (2 c)
  show ?thesis
  proof (cases "c = []")
    case True
    then show ?thesis using 2 str_lines_snoc [OF assms(2,3)] by simp
  next
    case False
    then obtain c0 where "c @ (if \<not> ends_with [10] c then [10] else []) = c0 @ [10]"
      by (cases "ends_with [10] c") (auto simp: ends_with_newline)
    then have "f = Some (c0 @ [10] @ line @ [10])" using 2 False by (auto split: if_splits)
    then show ?thesis using str_lines_append [OF assms(2,3), of c0] by auto
  qed
qed simp

section \<open>Saved rules and the migration\<close>

text \<open>
  What the code relies on of \<open>serde_json\<close>: the text of a string has no line break, and the
  bracketed texts of strings are read back as these strings.
\<close>

definition json_laws :: "json_env \<Rightarrow> bool" where
  "json_laws je \<longleftrightarrow>
     (\<forall>s j. to_json je s = Inr j \<longrightarrow> 10 \<notin> set j)
     \<and> (\<forall>ss js. json_all je ss = Inr js \<longrightarrow> json_strings je ([91] @ join_with (lit '', '') js @ [93]) = Some ss)"

lemma json_all_no_newline:
  "json_laws je \<Longrightarrow> json_all je ss = Inr js \<Longrightarrow> j \<in> set js \<Longrightarrow> 10 \<notin> set j"
  by (induction ss arbitrary: js) (auto simp: and_then_Inr_iff json_laws_def)

lemma set_join_with: "set (join_with sep xs) \<subseteq> set sep \<union> \<Union> (set ` set xs)"
  by (induction xs) (auto simp: join_with_Cons)

lemma allow_rule_text_line:
  assumes "json_laws je" "json_all je ss = Inr js"
  shows "10 \<notin> set (allow_rule_text js)" and "last (allow_rule_text js) = 41"
proof -
  have "10 \<notin> set (join_with (lit '', '') js)"
    using set_join_with [of "lit '', ''" js] json_all_no_newline [OF assms] by (auto simp: lit_eval)
  then show "10 \<notin> set (allow_rule_text js)"
    by (simp add: allow_rule_text_def RULE_PREFIX_def ALLOW_SUFFIX_def lit_eval)
  show "last (allow_rule_text js) = 41" by (simp add: allow_rule_text_def ALLOW_SUFFIX_def lit_eval)
qed

lemma should_remove_allow_rule:
  assumes "json_laws je" "json_all je ss = Inr js"
  shows "should_remove_rule je (allow_rule_text js @ [10]) banned \<longleftrightarrow> map ascii_lower ss \<in> banned"
proof -
  let ?pat = "[91] @ join_with (lit '', '') js @ [93]"
  have nl: "strip_opt_suffix [10] (allow_rule_text js @ [10]) = allow_rule_text js"
    using strip_suffix_Some_iff [of "[10]" "allow_rule_text js @ [10]" "allow_rule_text js"]
    by (simp add: strip_opt_suffix_def)
  have "strip_suffix [13] (allow_rule_text js) = None"
    using allow_rule_text_line(2) [OF assms] by (cases "strip_suffix [13] (allow_rule_text js)") (auto simp: strip_suffix_Some_iff)
  then have cr: "strip_opt_suffix [13] (allow_rule_text js) = allow_rule_text js" by (simp add: strip_opt_suffix_def)
  have pre: "strip_prefix RULE_PREFIX (allow_rule_text js) = Some (?pat @ ALLOW_SUFFIX)"
    by (simp add: allow_rule_text_def strip_prefix_Some_iff)
  have suf: "strip_suffix ALLOW_SUFFIX (?pat @ ALLOW_SUFFIX) = Some ?pat" by (simp add: strip_suffix_Some_iff)
  have "json_strings je ?pat = Some ss" using assms by (simp add: json_laws_def)
  then show ?thesis unfolding should_remove_rule_def Let_def nl cr pre using suf by simp
qed

lemma strip_append_line:
  assumes "c = [] \<or> ends_with [10] c" "10 \<notin> set line"
  shows "strip_banned_allow_rules je (c @ line @ [10]) banned = strip_banned_allow_rules je c banned
    @ (if should_remove_rule je (line @ [10]) (set (map (map ascii_lower) banned)) then [] else line @ [10])"
proof -
  have "split_inclusive 10 (c @ line @ [10]) = split_inclusive 10 c @ [line @ [10]]"
    using assms split_inclusive_line [of line] split_inclusive_append [of _ "line @ [10]"]
    by (auto simp: ends_with_newline)
  then show ?thesis by (simp add: strip_banned_allow_rules_def)
qed

lemma append_allow_result:
  assumes "blocking_append_allow_prefix_rule je af pth prefix file = (Inr (), f)"
  obtains js where "json_all je prefix = Inr js" "append_locked_line af pth (allow_rule_text js) file = (Inr (), f)"
  using assms
  by (auto simp: blocking_append_allow_prefix_rule_def append_rule_line_def split: if_splits sum.splits option.splits)

text \<open>
  The migration recognises the rules that the program itself saves: after an allow rule for a
  prefix was appended to a rule file, stripping banned rules gives what stripping the old file
  gave, followed by the new line unless its prefix is banned, whatever the case of its letters.
\<close>

theorem migration_recognises_saved_rules:
  assumes laws: "json_laws je" and append: "blocking_append_allow_prefix_rule je af pth prefix (Some c) = (Inr (), f)"
    and c: "c = [] \<or> ends_with [10] c"
  shows "\<exists>js c'. json_all je prefix = Inr js \<and> f = Some c'
    \<and> strip_banned_allow_rules je c' banned = strip_banned_allow_rules je c banned
        @ (if c' = c \<or> map ascii_lower prefix \<in> set (map (map ascii_lower) banned) then [] else allow_rule_text js @ [10])"
proof -
  obtain js where js: "json_all je prefix = Inr js" and a: "append_locked_line af pth (allow_rule_text js) (Some c) = (Inr (), f)"
    using append_allow_result [OF append] by blast
  note line = allow_rule_text_line [OF laws js]
  from a show ?thesis
  proof (cases rule: append_ok_cases)
    case (2 d)
    then have "f = Some (c @ allow_rule_text js @ [10])" using c by auto
    moreover have "c @ allow_rule_text js @ [10] \<noteq> c" by simp
    ultimately show ?thesis
      using js strip_append_line [OF c line(1), of je banned] should_remove_allow_rule [OF laws js] by auto
  qed (use js in auto)
qed

text \<open>
  The migration runs once: after it has succeeded, a rule the user allows is in the rule file,
  and every later migration, whichever prefixes it bans, leaves the file alone.
\<close>

theorem saved_rule_survives_later_migrations:
  assumes laws: "json_laws je"
    and first: "prefix_rule_migration je mf banned w = (Inr (), w1)"
    and append: "blocking_append_allow_prefix_rule je af pth prefix (mw_policy w1) = (Inr (), f)"
    and later: "mf_try_exists mf' = None"
  shows "\<exists>js c. json_all je prefix = Inr js \<and> f = Some c \<and> allow_rule_text js \<in> set (str_lines c)
    \<and> prefix_rule_migration je mf' banned' (w1\<lparr>mw_policy := f\<rparr>) = (Inr (), w1\<lparr>mw_policy := f\<rparr>)"
proof -
  obtain js where js: "json_all je prefix = Inr js"
    and a: "append_locked_line af pth (allow_rule_text js) (mw_policy w1) = (Inr (), f)"
    using append_allow_result [OF append] by blast
  have "\<exists>c. f = Some c \<and> allow_rule_text js \<in> set (str_lines c)"
    using append_contains [OF a] allow_rule_text_line [OF laws js] by simp
  moreover have "mw_marker w1"
    using first by (auto simp: prefix_rule_migration_def write_migration_marker_def
        split: option.splits if_splits prod.splits sum.splits)
  ultimately show ?thesis using js later by (auto simp: prefix_rule_migration_def)
qed

text \<open>A JSON that knows the string \<open>b\<close>: every text of \<open>n\<close> strings has five characters per string.\<close>

definition sample_json :: json_env where
  "sample_json = \<lparr>to_json = \<lambda>s. if s = [98] then Inr [34, 98, 34] else Inl [],
     json_strings = \<lambda>t. Some (replicate (length t div 5) [98]), display_error = \<lambda>_. []\<rparr>"

lemma sample_json_all:
  "json_all sample_json ss = Inr js \<Longrightarrow> ss = replicate (length ss) [98] \<and> js = replicate (length ss) [34, 98, 34]"
  by (induction ss arbitrary: js) (auto simp: and_then_Inr_iff sample_json_def split: if_splits)

lemma sample_json_laws: "json_laws sample_json"
proof -
  have len: "length (join_with (lit '', '') (replicate n [34, 98, 34])) = 5 * n - 2" for n
    by (induction n) (auto simp: join_with_Cons lit_eval)
  have "json_strings sample_json ([91] @ join_with (lit '', '') js @ [93]) = Some ss" if "json_all sample_json ss = Inr js" for ss js
  proof -
    have "length ([91] @ join_with (lit '', '') js @ [93]) div 5 = length ss"
      using sample_json_all [OF that] len [of "length ss"] by (cases ss) simp_all
    then show ?thesis using sample_json_all [OF that] by (simp add: sample_json_def)
  qed
  then show ?thesis by (auto simp: json_laws_def sample_json_def split: if_splits)
qed

lemma sample_append:
  "blocking_append_allow_prefix_rule sample_json no_append_faults [RootDir, Normal [114]] [[98]] (Some []) =
     (Inr (), Some (allow_rule_text [[34, 98, 34]] @ [10]))"
  by (simp add: blocking_append_allow_prefix_rule_def append_rule_line_def append_locked_line_def path_parent_def
      no_append_faults_def write_line_def sample_json_def str_lines_def Let_def)

theorem migration_recognises_saved_rules_witness:
  "\<exists>c. blocking_append_allow_prefix_rule sample_json no_append_faults [RootDir, Normal [114]] [[98]] (Some []) = (Inr (), Some c)
    \<and> strip_banned_allow_rules sample_json c [[[66]]] = []"
proof -
  have "map ascii_lower [[98]] \<in> set (map (map ascii_lower) [[[66 :: nat]]])" by (simp add: ascii_lower_def)
  moreover have "strip_banned_allow_rules sample_json [] [[[66]]] = []" by (simp add: strip_banned_allow_rules_def)
  ultimately show ?thesis
    using migration_recognises_saved_rules [OF sample_json_laws sample_append, of "[[[66]]]"] sample_append by auto
qed

theorem saved_rule_survives_later_migrations_witness:
  "\<exists>w1 f. prefix_rule_migration sample_json no_migration_faults [[[98]]] \<lparr>mw_marker = False, mw_policy = Some []\<rparr> = (Inr (), w1)
    \<and> prefix_rule_migration sample_json no_migration_faults [[[98]]] (w1\<lparr>mw_policy := f\<rparr>) = (Inr (), w1\<lparr>mw_policy := f\<rparr>)
    \<and> f = Some (allow_rule_text [[34, 98, 34]] @ [10])"
proof -
  have m: "prefix_rule_migration sample_json no_migration_faults [[[98]]] \<lparr>mw_marker = False, mw_policy = Some []\<rparr>
      = (Inr (), \<lparr>mw_marker = True, mw_policy = Some []\<rparr>)"
    by (simp add: prefix_rule_migration_def no_migration_faults_def clean_rules_file_def file_result_def
        strip_banned_allow_rules_def write_migration_marker_def)
  have a: "blocking_append_allow_prefix_rule sample_json no_append_faults [RootDir, Normal [114]] [[98]]
      (mw_policy \<lparr>mw_marker = True, mw_policy = Some []\<rparr>) = (Inr (), Some (allow_rule_text [[34, 98, 34]] @ [10]))"
    using sample_append by simp
  have "mf_try_exists no_migration_faults = None" by (simp add: no_migration_faults_def)
  then show ?thesis using saved_rule_survives_later_migrations [OF sample_json_laws m a] m by blast
qed

end
