(* ===== verification/Capacity_Lease.thy ===== *)
theory Capacity_Lease
  imports Execution_Limiter
begin

text \<open>
  Join completions that find no execution capacity: \<open>core/src/agent/control/capacity_ready.rs\<close>
  and the part of \<open>dispatch_join_completion\<close> in \<open>control/owned_join.rs\<close> that subscribes to
  releases. A dispatcher reads the release channel, tries to deliver, and when the limit is
  reached keeps a lease and spawns a watcher that starts a turn of the parent once a guard was
  released. Watchers, dispatchers and the limiter's tasks interleave step by step; the thread
  table, the weak manager reference and the parent's queue change at any time. \<open>lw_sent\<close> and
  \<open>w_seen\<close> are history variables: the values sent on the channel, and how many of them had been
  sent when a watcher last read it.
\<close>

section \<open>Leases\<close>

record lease_key =
  lk_parent_thread_id :: thread_id
  lk_parent_turn_id :: turn_id
  lk_generation :: u64
  lk_parent_thread :: ptr

record capacity_ready_lease =
  cl_key :: lease_key
  cl_dispatching :: bool

text \<open>
  Where a watcher stands: \<open>Watching\<close> at the head of the inner loop, \<open>Observing\<close> after it,
  \<open>Claiming\<close> before the lock, \<open>Upgrading\<close> and \<open>Looking\<close> before the manager and the thread table
  are consulted, \<open>Starting\<close> before the turn is started, \<open>Checking\<close> before the queue is asked,
  \<open>Rearming\<close> before the lease is freed, \<open>Removing\<close> before it is dropped.
\<close>

datatype watcher_pc =
    Watching | Observing | Claiming | Upgrading | Looking | Starting | Checking | Rearming | Removing | Finished

record watcher =
  w_key :: lease_key
  w_observed :: u64
  w_seen :: nat
  w_pc :: watcher_pc

text \<open>
  A dispatcher has read the channel (\<open>Subscribed\<close>), has put its lease into the table but not yet
  spawned the watcher (\<open>Pushed\<close>), or has returned.
\<close>

datatype dispatcher_pc = Subscribed | Pushed | Returned

record dispatcher =
  d_key :: lease_key
  d_observed :: u64
  d_seen :: nat
  d_pc :: dispatcher_pc

record lease_world =
  lw_lim :: lim_system
  lw_sent :: "u64 list"
  lw_closed :: bool
  lw_leases :: "capacity_ready_lease list"
  lw_dispatchers :: "dispatcher list"
  lw_watchers :: "watcher list"
  lw_manager :: bool
  lw_threads :: "thread_id \<Rightarrow> ptr option"
  lw_pending :: "ptr \<Rightarrow> u64 \<Rightarrow> bool"
  lw_mail :: "lease_key list"
  lw_starts :: "ptr list"

definition lease_world_start :: "usize \<Rightarrow> nat \<Rightarrow> lease_world" where
  "lease_world_start m n =
     \<lparr>lw_lim = lim_start m n, lw_sent = [lim_release_tx (lim_start m n)], lw_closed = False, lw_leases = [],
      lw_dispatchers = [], lw_watchers = [], lw_manager = True, lw_threads = \<lambda>_. None, lw_pending = \<lambda>_ _. False,
      lw_mail = [], lw_starts = []\<rparr>"

definition set_dispatching :: "lease_key \<Rightarrow> bool \<Rightarrow> capacity_ready_lease list \<Rightarrow> capacity_ready_lease list" where
  "set_dispatching k d leases = update_first (\<lambda>l. cl_key l = k) (\<lambda>l. l\<lparr>cl_dispatching := d\<rparr>) leases"

definition remove_capacity_ready_lease :: "lease_key \<Rightarrow> capacity_ready_lease list \<Rightarrow> capacity_ready_lease list" where
  "remove_capacity_ready_lease k leases = filter (\<lambda>l. cl_key l \<noteq> k) leases"

section \<open>The watcher\<close>

text \<open>
  What a watcher does next: its new state, the new leases and the turns it starts, or \<open>None\<close>
  while it is blocked or has ended.
\<close>

definition watcher_next ::
  "lease_world \<Rightarrow> watcher \<Rightarrow> (watcher \<times> capacity_ready_lease list \<times> ptr list) option" where
  "watcher_next s w =
     (let k = w_key w;
          leases = lw_leases s;
          goto = (\<lambda>pc. w\<lparr>w_pc := pc\<rparr>)
      in case w_pc w of
           Watching \<Rightarrow>
             if lim_release_tx (lw_lim s) \<noteq> w_observed w then Some (goto Observing, leases, [])
             else if lw_closed s then Some (goto Removing, leases, [])
             else None
         | Observing \<Rightarrow>
             Some (w\<lparr>w_observed := lim_release_tx (lw_lim s), w_seen := length (lw_sent s), w_pc := Claiming\<rparr>, leases, [])
         | Claiming \<Rightarrow>
             (case List.find (\<lambda>l. cl_key l = k) leases of
                None \<Rightarrow> Some (goto Finished, leases, [])
              | Some l \<Rightarrow>
                  if cl_dispatching l then Some (goto Watching, leases, [])
                  else Some (goto Upgrading, set_dispatching k True leases, []))
         | Upgrading \<Rightarrow> Some (goto (if lw_manager s then Looking else Removing), leases, [])
         | Looking \<Rightarrow>
             Some (goto (if lw_threads s (lk_parent_thread_id k) = Some (lk_parent_thread k) then Starting else Removing),
                   leases, [])
         | Starting \<Rightarrow> Some (goto Checking, leases, [lk_parent_thread k])
         | Checking \<Rightarrow>
             Some (goto (if lw_pending s (lk_parent_thread k) (lk_generation k) then Rearming else Removing), leases, [])
         | Rearming \<Rightarrow> Some (goto Watching, set_dispatching k False leases, [])
         | Removing \<Rightarrow> Some (goto Finished, remove_capacity_ready_lease k leases, [])
         | Finished \<Rightarrow> None)"

definition watcher_step :: "nat \<Rightarrow> lease_world \<Rightarrow> lease_world option" where
  "watcher_step i s =
     (if i < length (lw_watchers s)
      then map_option (\<lambda>(w, leases, starts).
             s\<lparr>lw_watchers := (lw_watchers s)[i := w], lw_leases := leases, lw_starts := lw_starts s @ starts\<rparr>)
             (watcher_next s (lw_watchers s ! i))
      else None)"

text \<open>Up to \<open>n\<close> steps of one watcher alone.\<close>

fun run_watcher :: "nat \<Rightarrow> nat \<Rightarrow> lease_world \<Rightarrow> lease_world" where
  "run_watcher 0 i s = s"
| "run_watcher (Suc n) i s = (case watcher_step i s of Some s' \<Rightarrow> run_watcher n i s' | None \<Rightarrow> s)"

section \<open>The whole system\<close>

definition dispatcher_new :: "lease_key \<Rightarrow> lease_world \<Rightarrow> dispatcher" where
  "dispatcher_new k s =
     \<lparr>d_key = k, d_observed = subscribe_release (limiter.truncate (lw_lim s)), d_seen = length (lw_sent s), d_pc = Subscribed\<rparr>"

definition lease_new :: "lease_key \<Rightarrow> capacity_ready_lease" where
  "lease_new k = \<lparr>cl_key = k, cl_dispatching = False\<rparr>"

definition watcher_new :: "dispatcher \<Rightarrow> watcher" where
  "watcher_new d = \<lparr>w_key = d_key d, w_observed = d_observed d, w_seen = d_seen d, w_pc = Watching\<rparr>"

definition dispatcher_goto :: "nat \<Rightarrow> dispatcher_pc \<Rightarrow> lease_world \<Rightarrow> lease_world" where
  "dispatcher_goto i pc s = s\<lparr>lw_dispatchers := (lw_dispatchers s)[i := (lw_dispatchers s ! i)\<lparr>d_pc := pc\<rparr>]\<rparr>"

inductive lease_step :: "lease_world \<Rightarrow> lease_world \<Rightarrow> bool" where
  limiter: "lim_step (lw_lim s) l \<Longrightarrow> lim_release_tx l = lim_release_tx (lw_lim s) \<Longrightarrow> lease_step s (s\<lparr>lw_lim := l\<rparr>)"
| send: "at_pc (lw_lim s) t (Notifying g) \<Longrightarrow>
     lease_step s (s\<lparr>lw_lim := goto_pc t Idle ((lw_lim s)\<lparr>lim_release_tx := g\<rparr>), lw_sent := lw_sent s @ [g]\<rparr>)"
| close: "lease_step s (s\<lparr>lw_closed := True\<rparr>)"
| environment: "lease_step s (s\<lparr>lw_manager := mgr, lw_threads := ths, lw_pending := pend\<rparr>)"
| subscribe: "lease_step s (s\<lparr>lw_dispatchers := lw_dispatchers s @ [dispatcher_new k s]\<rparr>)"
| delivered: "i < length (lw_dispatchers s) \<Longrightarrow> d_pc (lw_dispatchers s ! i) = Subscribed \<Longrightarrow>
     lease_step s (dispatcher_goto i Returned s)"
| retain_known: "i < length (lw_dispatchers s) \<Longrightarrow> d_pc (lw_dispatchers s ! i) = Subscribed \<Longrightarrow>
     d_key (lw_dispatchers s ! i) \<in> cl_key ` set (lw_leases s) \<Longrightarrow>
     lease_step s (dispatcher_goto i Returned s)"
| retain_push: "i < length (lw_dispatchers s) \<Longrightarrow> d_pc (lw_dispatchers s ! i) = Subscribed \<Longrightarrow>
     d_key (lw_dispatchers s ! i) \<notin> cl_key ` set (lw_leases s) \<Longrightarrow>
     lease_step s (dispatcher_goto i Pushed
       (s\<lparr>lw_leases := lw_leases s @ [lease_new (d_key (lw_dispatchers s ! i))]\<rparr>))"
| retain_spawn: "i < length (lw_dispatchers s) \<Longrightarrow> d_pc (lw_dispatchers s ! i) = Pushed \<Longrightarrow>
     lease_step s (dispatcher_goto i Returned
       (s\<lparr>lw_mail := lw_mail s @ [d_key (lw_dispatchers s ! i)],
          lw_watchers := lw_watchers s @ [watcher_new (lw_dispatchers s ! i)]\<rparr>))"
| watcher: "watcher_step i s = Some s' \<Longrightarrow> lease_step s s'"

inductive_cases lease_stepE: "lease_step s s'"

text \<open>Runs in which the 64-bit release counter has not wrapped around.\<close>

definition unwrapped_step :: "lease_world \<Rightarrow> lease_world \<Rightarrow> bool" where
  "unwrapped_step s s' \<longleftrightarrow> lease_step s s' \<and> lim_generation (lw_lim s) \<le> lim_generation (lw_lim s')"

section \<open>The release channel\<close>

text \<open>Every value is sent at most once, and the channel holds the last one sent.\<close>

definition chan_inv :: "lease_world \<Rightarrow> bool" where
  "chan_inv s \<longleftrightarrow> lw_sent s \<noteq> [] \<and> last (lw_sent s) = lim_release_tx (lw_lim s) \<and> distinct (lw_sent s)
     \<and> (\<forall>g \<in> set (lw_sent s). g \<le> lim_generation (lw_lim s))
     \<and> (\<forall>t g. at_pc (lw_lim s) t (Notifying g) \<longrightarrow> g \<le> lim_generation (lw_lim s) \<and> g \<notin> set (lw_sent s))
     \<and> (\<forall>t t' g. at_pc (lw_lim s) t (Notifying g) \<longrightarrow> at_pc (lw_lim s) t' (Notifying g) \<longrightarrow> t = t')"

text \<open>What a reader has observed is the value that was last sent when it read.\<close>

definition saw :: "u64 list \<Rightarrow> u64 \<Rightarrow> nat \<Rightarrow> bool" where
  "saw sent observed seen \<longleftrightarrow> 0 < seen \<and> seen \<le> length sent \<and> observed = sent ! (seen - 1)"

definition reader_inv :: "lease_world \<Rightarrow> bool" where
  "reader_inv s \<longleftrightarrow>
     (\<forall>w \<in> set (lw_watchers s). saw (lw_sent s) (w_observed w) (w_seen w))
     \<and> (\<forall>d \<in> set (lw_dispatchers s). saw (lw_sent s) (d_observed d) (d_seen d))"

lemma saw_append [simp]: "saw sent observed seen \<Longrightarrow> saw (sent @ [g]) observed seen"
  by (auto simp: saw_def nth_append)

lemma dispatcher_goto_sel [simp]:
  "lw_lim (dispatcher_goto i pc s) = lw_lim s" "lw_sent (dispatcher_goto i pc s) = lw_sent s"
  "lw_watchers (dispatcher_goto i pc s) = lw_watchers s" "lw_leases (dispatcher_goto i pc s) = lw_leases s"
  "lw_dispatchers (dispatcher_goto i pc s) = (lw_dispatchers s)[i := (lw_dispatchers s ! i)\<lparr>d_pc := pc\<rparr>]"
  by (simp_all add: dispatcher_goto_def)

lemma dispatcher_goto_saw:
  assumes "\<forall>d \<in> set (lw_dispatchers s). saw sent (d_observed d) (d_seen d)" "i < length (lw_dispatchers s)"
  shows "\<forall>d \<in> set ((lw_dispatchers s)[i := (lw_dispatchers s ! i)\<lparr>d_pc := pc\<rparr>]). saw sent (d_observed d) (d_seen d)"
  using assms set_update_subset_insert [of "lw_dispatchers s" i "(lw_dispatchers s ! i)\<lparr>d_pc := pc\<rparr>"] by fastforce

lemma at_pc_goto: "at_pc (goto_pc t pc l) t' pc' \<longleftrightarrow> (if t' = t then t < length (tasks l) \<and> pc' = pc else at_pc l t' pc')"
  by (auto simp: at_pc_def goto_pc_def)

lemma at_pc_upd [simp]:
  "at_pc (l\<lparr>lim_active := a\<rparr>) t pc = at_pc l t pc" "at_pc (l\<lparr>lim_generation := g\<rparr>) t pc = at_pc l t pc"
  "at_pc (l\<lparr>lim_release_tx := g\<rparr>) t pc = at_pc l t pc"
  by (simp_all add: at_pc_def)

lemma goto_pc_sel [simp]:
  "lim_release_tx (goto_pc t pc l) = lim_release_tx l" "lim_generation (goto_pc t pc l) = lim_generation l"
  by (simp_all add: goto_pc_def)

lemma word_succ_greater: "(a :: 'a::len word) \<le> a + 1 \<Longrightarrow> a < a + 1"
  by (simp add: order_less_le)

lemma lim_step_notifying:
  assumes "lim_step l l'" "lim_release_tx l' = lim_release_tx l" "lim_generation l \<le> lim_generation l'"
  shows "lim_generation l' = lim_generation l \<and> (\<forall>t g. at_pc l' t (Notifying g) \<longrightarrow> at_pc l t (Notifying g))
    \<or> lim_generation l < lim_generation l' \<and>
       (\<exists>t0. \<forall>t g. at_pc l' t (Notifying g) \<longrightarrow> (if t = t0 then g = lim_generation l' else at_pc l t (Notifying g)))"
  using assms(1)
proof (cases rule: lim_step.cases)
  case (bump t)
  then have "lim_generation l < lim_generation l'" using assms(3) word_succ_greater by simp
  then show ?thesis using bump by (auto simp: at_pc_goto split: if_splits)
qed (auto simp: at_pc_goto split: if_splits)

lemma chan_inv_limiter:
  assumes inv: "chan_inv s" and step: "lim_step (lw_lim s) l" "lim_release_tx l = lim_release_tx (lw_lim s)"
    "lim_generation (lw_lim s) \<le> lim_generation l"
  shows "chan_inv (s\<lparr>lw_lim := l\<rparr>)"
  using lim_step_notifying [OF step]
proof (elim disjE conjE exE)
  assume "lim_generation l = lim_generation (lw_lim s)" "\<forall>t g. at_pc l t (Notifying g) \<longrightarrow> at_pc (lw_lim s) t (Notifying g)"
  then show ?thesis using inv step(2) by (simp add: chan_inv_def) blast
next
  fix t0
  assume g: "lim_generation (lw_lim s) < lim_generation l"
    and n: "\<forall>t g. at_pc l t (Notifying g) \<longrightarrow> (if t = t0 then g = lim_generation l else at_pc (lw_lim s) t (Notifying g))"
  have old: "x \<le> lim_generation (lw_lim s) \<Longrightarrow> x \<le> lim_generation l \<and> x \<noteq> lim_generation l" for x using g by auto
  have a: "g \<le> lim_generation l \<and> g \<notin> set (lw_sent s)" if "at_pc l t (Notifying g)" for t g
    using that n inv old unfolding chan_inv_def by (metis order_refl)
  have b: "t = t'" if "at_pc l t (Notifying g)" "at_pc l t' (Notifying g)" for t t' g
    using that n inv old unfolding chan_inv_def by metis
  have c: "\<forall>g \<in> set (lw_sent s). g \<le> lim_generation l" using inv old by (auto simp: chan_inv_def)
  show ?thesis using inv step(2) a b c unfolding chan_inv_def by simp
qed

lemma chan_inv_send:
  assumes inv: "chan_inv s" and t: "at_pc (lw_lim s) t (Notifying g)"
  shows "chan_inv (s\<lparr>lw_lim := goto_pc t Idle ((lw_lim s)\<lparr>lim_release_tx := g\<rparr>), lw_sent := lw_sent s @ [g]\<rparr>)"
  using assms by (auto simp: chan_inv_def at_pc_goto split: if_splits)

lemma watcher_step_Some:
  "watcher_step i s = Some s' \<longleftrightarrow> i < length (lw_watchers s) \<and>
     (\<exists>w leases starts. watcher_next s (lw_watchers s ! i) = Some (w, leases, starts)
       \<and> s' = s\<lparr>lw_watchers := (lw_watchers s)[i := w], lw_leases := leases, lw_starts := lw_starts s @ starts\<rparr>)"
  by (auto simp: watcher_step_def)

lemma watcher_next_frame:
  assumes "watcher_next s w = Some (w', leases, starts)"
  shows "w_key w' = w_key w"
    and "w_observed w' = w_observed w \<and> w_seen w' = w_seen w
      \<or> w_observed w' = lim_release_tx (lw_lim s) \<and> w_seen w' = length (lw_sent s)"
  using assms by (auto simp: watcher_next_def Let_def split: watcher_pc.splits if_splits option.splits)

lemma chan_inv_step: "unwrapped_step s s' \<Longrightarrow> chan_inv s \<Longrightarrow> chan_inv s'"
  unfolding unwrapped_step_def
proof (elim conjE, erule lease_stepE)
  fix i assume "watcher_step i s = Some s'" "chan_inv s"
  then show "chan_inv s'" by (auto simp: watcher_step_Some chan_inv_def)
qed (auto intro: chan_inv_limiter chan_inv_send, auto simp: chan_inv_def dispatcher_goto_def)

lemma last_conv_nth_sent: "chan_inv s \<Longrightarrow> lw_sent s ! (length (lw_sent s) - 1) = lim_release_tx (lw_lim s)"
  using last_conv_nth [of "lw_sent s"] by (simp add: chan_inv_def)

lemma saw_now: "chan_inv s \<Longrightarrow> saw (lw_sent s) (lim_release_tx (lw_lim s)) (length (lw_sent s))"
  using last_conv_nth_sent [of s] by (simp add: saw_def chan_inv_def)

lemma reader_inv_watcher:
  assumes "watcher_step i s = Some s'" "chan_inv s" "reader_inv s" shows "reader_inv s'"
proof -
  obtain w' leases starts where f: "i < length (lw_watchers s)" "watcher_next s (lw_watchers s ! i) = Some (w', leases, starts)"
      "s' = s\<lparr>lw_watchers := (lw_watchers s)[i := w'], lw_leases := leases, lw_starts := lw_starts s @ starts\<rparr>"
    using assms(1) by (auto simp: watcher_step_Some)
  have "lw_watchers s ! i \<in> set (lw_watchers s)" using f(1) by simp
  then have "saw (lw_sent s) (w_observed w') (w_seen w')"
    using watcher_next_frame(2) [OF f(2)] assms(3) saw_now [OF assms(2)] by (auto simp: reader_inv_def)
  then show ?thesis using f assms(3) set_update_subset_insert [of "lw_watchers s" i w'] by (auto simp: reader_inv_def)
qed

lemma reader_inv_step: "unwrapped_step s s' \<Longrightarrow> chan_inv s \<Longrightarrow> reader_inv s \<Longrightarrow> reader_inv s'"
  unfolding unwrapped_step_def
proof (elim conjE, erule lease_stepE)
  fix k assume "chan_inv s" "reader_inv s" "s' = s\<lparr>lw_dispatchers := lw_dispatchers s @ [dispatcher_new k s]\<rparr>"
  then show "reader_inv s'"
    using saw_now [of s] by (auto simp: reader_inv_def dispatcher_new_def subscribe_release_def limiter.truncate_def)
next
  fix i assume "reader_inv s" "i < length (lw_dispatchers s)"
    "s' = dispatcher_goto i Returned (s\<lparr>lw_mail := lw_mail s @ [d_key (lw_dispatchers s ! i)],
          lw_watchers := lw_watchers s @ [watcher_new (lw_dispatchers s ! i)]\<rparr>)"
  then show "reader_inv s'"
    using dispatcher_goto_saw [of s "lw_sent s" i Returned] by (auto simp: reader_inv_def watcher_new_def)
qed (auto simp: reader_inv_def reader_inv_watcher [unfolded reader_inv_def] dispatcher_goto_saw)

section \<open>Owners of leases\<close>

text \<open>
  A lease is owned by the dispatcher that has pushed it or by its watcher; the owners' keys, with
  \<open>None\<close> for those who own nothing.
\<close>

definition watcher_owns :: "watcher \<Rightarrow> lease_key option" where
  "watcher_owns w = (if w_pc w = Finished then None else Some (w_key w))"

definition dispatcher_owns :: "dispatcher \<Rightarrow> lease_key option" where
  "dispatcher_owns d = (if d_pc d = Pushed then Some (d_key d) else None)"

definition owners :: "lease_world \<Rightarrow> lease_key option list" where
  "owners s = map dispatcher_owns (lw_dispatchers s) @ map watcher_owns (lw_watchers s)"

definition busy :: "watcher_pc \<Rightarrow> bool" where
  "busy pc \<longleftrightarrow> pc \<in> {Upgrading, Looking, Starting, Checking, Rearming}"

definition own_inv :: "lease_world \<Rightarrow> bool" where
  "own_inv s \<longleftrightarrow> distinct (map cl_key (lw_leases s))
     \<and> (\<forall>k. count_list (owners s) (Some k) = (if k \<in> cl_key ` set (lw_leases s) then 1 else 0))
     \<and> (\<forall>w \<in> set (lw_watchers s). w_pc w \<noteq> Finished \<longrightarrow> w_pc w \<noteq> Removing \<longrightarrow>
          (\<forall>l \<in> set (lw_leases s). cl_key l = w_key w \<longrightarrow> cl_dispatching l = busy (w_pc w)))
     \<and> (\<forall>d \<in> set (lw_dispatchers s). d_pc d = Pushed \<longrightarrow>
          (\<forall>l \<in> set (lw_leases s). cl_key l = d_key d \<longrightarrow> \<not> cl_dispatching l))"

lemma count_list_update:
  "i < length xs \<Longrightarrow> count_list (xs[i := v]) y + of_bool (xs ! i = y) = count_list xs y + of_bool (v = y)"
proof (induction xs arbitrary: i)
  case (Cons x xs)
  then show ?case by (cases i) auto
qed simp

lemma map_update_watchers: "map watcher_owns (ws[i := w]) = (map watcher_owns ws)[i := watcher_owns w]"
  by (simp add: map_update)

lemma set_dispatching_map:
  "distinct (map cl_key ls) \<Longrightarrow>
   set_dispatching k d ls = map (\<lambda>l. if cl_key l = k then l\<lparr>cl_dispatching := d\<rparr> else l) ls"
proof (induction ls)
  case (Cons l ls)
  then have "map (\<lambda>l. if cl_key l = k then l\<lparr>cl_dispatching := d\<rparr> else l) ls = ls" if "cl_key l = k"
    using that by (intro map_idI) (force simp: image_iff)
  with Cons show ?case by (auto simp: set_dispatching_def)
qed (simp add: set_dispatching_def)

lemma set_dispatching_keys: "map cl_key (set_dispatching k d ls) = map cl_key ls"
  unfolding set_dispatching_def by (rule map_update_first) simp

lemma owned_once:
  assumes "own_inv s" "i < length (lw_watchers s)" "w_pc (lw_watchers s ! i) \<noteq> Finished"
  shows "w_key (lw_watchers s ! i) \<in> cl_key ` set (lw_leases s)"
    and "j < length (lw_watchers s) \<Longrightarrow> j \<noteq> i \<Longrightarrow> w_pc (lw_watchers s ! j) \<noteq> Finished \<Longrightarrow>
      w_key (lw_watchers s ! j) \<noteq> w_key (lw_watchers s ! i)"
    and "d \<in> set (lw_dispatchers s) \<Longrightarrow> d_pc d = Pushed \<Longrightarrow> d_key d \<noteq> w_key (lw_watchers s ! i)"
proof -
  let ?k = "w_key (lw_watchers s ! i)"
  let ?ws = "map watcher_owns (lw_watchers s)" and ?ds = "map dispatcher_owns (lw_dispatchers s)"
  have i: "i < length ?ws" "?ws ! i = Some ?k" using assms by (auto simp: watcher_owns_def)
  have le: "count_list (owners s) (Some ?k) \<le> 1" using assms(1) by (simp add: own_inv_def)
  have c: "count_list (?ws[i := None]) (Some ?k) + 1 = count_list ?ws (Some ?k)"
    using count_list_update [OF i(1), of None "Some ?k"] i by simp
  then have one: "count_list ?ds (Some ?k) = 0" "count_list (?ws[i := None]) (Some ?k) = 0"
    and n: "count_list (owners s) (Some ?k) = 1"
    using le by (simp_all add: owners_def)
  show "?k \<in> cl_key ` set (lw_leases s)" using n assms(1) by (auto simp: own_inv_def split: if_splits)
  show "w_key (lw_watchers s ! j) \<noteq> ?k"
    if "j < length (lw_watchers s)" "j \<noteq> i" "w_pc (lw_watchers s ! j) \<noteq> Finished"
  proof
    assume "w_key (lw_watchers s ! j) = ?k"
    then have "?ws[i := None] ! j = Some ?k" using that by (simp add: watcher_owns_def)
    then have "Some ?k \<in> set (?ws[i := None])" using that(1) by (metis length_list_update length_map nth_mem)
    then show False using one(2) by (simp add: count_list_0_iff)
  qed
  show "d_key d \<noteq> ?k" if "d \<in> set (lw_dispatchers s)" "d_pc d = Pushed"
  proof
    assume "d_key d = ?k"
    then have "dispatcher_owns d = Some ?k" using that by (simp add: dispatcher_owns_def)
    then have "Some ?k \<in> set ?ds" using that(1) by (metis imageI set_map)
    then show False using one(1) by (simp add: count_list_0_iff)
  qed
qed

text \<open>A watcher that stays alive and changes at most the flag of its own lease.\<close>

lemma own_inv_flag:
  assumes inv: "own_inv s" and i: "i < length (lw_watchers s)" "w_pc (lw_watchers s ! i) \<noteq> Finished"
    and w: "w_key w = w_key (lw_watchers s ! i)" "w_pc w \<noteq> Finished"
    and keys: "map cl_key leases = map cl_key (lw_leases s)"
    and other: "\<And>l. l \<in> set leases \<Longrightarrow> cl_key l \<noteq> w_key w \<Longrightarrow> l \<in> set (lw_leases s)"
    and flag: "\<And>l. l \<in> set leases \<Longrightarrow> cl_key l = w_key w \<Longrightarrow> w_pc w \<noteq> Removing \<Longrightarrow> cl_dispatching l = busy (w_pc w)"
  shows "own_inv (s\<lparr>lw_watchers := (lw_watchers s)[i := w], lw_leases := leases, lw_starts := st\<rparr>)"
proof -
  let ?s = "s\<lparr>lw_watchers := (lw_watchers s)[i := w], lw_leases := leases, lw_starts := st\<rparr>"
  have "map watcher_owns ((lw_watchers s)[i := w]) = map watcher_owns (lw_watchers s)"
    using i w by (simp add: map_update_watchers) (metis list_update_id nth_map watcher_owns_def)
  then have o: "owners ?s = owners s" by (simp add: owners_def)
  have ks: "cl_key ` set leases = cl_key ` set (lw_leases s)" using keys by (metis set_map)
  have "cl_dispatching l = busy (w_pc v)"
    if v: "v \<in> set ((lw_watchers s)[i := w])" "w_pc v \<noteq> Finished" "w_pc v \<noteq> Removing" and l: "l \<in> set leases" "cl_key l = w_key v" for v l
  proof -
    obtain j where j: "j < length (lw_watchers s)" "v = (lw_watchers s)[i := w] ! j"
      using v(1) by (metis in_set_conv_nth length_list_update)
    show ?thesis
    proof (cases "j = i")
      case True
      then show ?thesis using j flag l v by simp
    next
      case False
      then have vj: "v = lw_watchers s ! j" using j by simp
      then have "w_key v \<noteq> w_key w" using owned_once(2) [OF inv i j(1) False] v w by simp
      then show ?thesis using inv v l other vj j(1) unfolding own_inv_def by (metis nth_mem)
    qed
  qed
  moreover have "\<not> cl_dispatching l" if "d \<in> set (lw_dispatchers s)" "d_pc d = Pushed" "l \<in> set leases" "cl_key l = d_key d" for d l
    using that owned_once(3) [OF inv i that(1,2)] w other inv unfolding own_inv_def by metis
  ultimately show ?thesis using inv keys ks o by (auto simp: own_inv_def)
qed

lemma own_inv_goto:
  assumes inv: "own_inv s" and i: "i < length (lw_watchers s)" "w_pc (lw_watchers s ! i) \<noteq> Finished"
    and w: "w_key w = w_key (lw_watchers s ! i)" "w_pc w \<noteq> Finished"
    and b: "w_pc (lw_watchers s ! i) \<noteq> Removing" "busy (w_pc w) = busy (w_pc (lw_watchers s ! i)) \<or> w_pc w = Removing"
  shows "own_inv (s\<lparr>lw_watchers := (lw_watchers s)[i := w], lw_leases := lw_leases s, lw_starts := st\<rparr>)"
proof (rule own_inv_flag [OF inv i w])
  fix l assume l: "l \<in> set (lw_leases s)" "cl_key l = w_key w" "w_pc w \<noteq> Removing"
  then have "cl_dispatching l = busy (w_pc (lw_watchers s ! i))"
    using inv i b(1) w(1) unfolding own_inv_def by (metis nth_mem)
  then show "cl_dispatching l = busy (w_pc w)" using b l by simp
qed simp_all

lemma own_inv_set_flag:
  assumes inv: "own_inv s" and i: "i < length (lw_watchers s)" "w_pc (lw_watchers s ! i) \<noteq> Finished"
    and w: "w_key w = w_key (lw_watchers s ! i)" "w_pc w \<noteq> Finished" and d: "d = busy (w_pc w)"
  shows "own_inv (s\<lparr>lw_watchers := (lw_watchers s)[i := w], lw_leases := set_dispatching (w_key w) d (lw_leases s), lw_starts := st\<rparr>)"
proof (rule own_inv_flag [OF inv i w set_dispatching_keys])
  have "distinct (map cl_key (lw_leases s))" using inv by (simp add: own_inv_def)
  note m = set_dispatching_map [OF this, of "w_key w" d]
  fix l assume l: "l \<in> set (set_dispatching (w_key w) d (lw_leases s))"
  then obtain l0 where "l0 \<in> set (lw_leases s)" "l = (if cl_key l0 = w_key w then l0\<lparr>cl_dispatching := d\<rparr> else l0)"
    unfolding m by auto
  then show "cl_key l \<noteq> w_key w \<Longrightarrow> l \<in> set (lw_leases s)" "cl_key l = w_key w \<Longrightarrow> cl_dispatching l = busy (w_pc w)"
    using d by (simp_all split: if_splits)
qed

lemma own_inv_remove:
  assumes inv: "own_inv s" and i: "i < length (lw_watchers s)" "w_pc (lw_watchers s ! i) \<noteq> Finished"
    and w: "w_pc w = Finished" and k: "k = w_key (lw_watchers s ! i)"
  shows "own_inv (s\<lparr>lw_watchers := (lw_watchers s)[i := w], lw_leases := remove_capacity_ready_lease k (lw_leases s), lw_starts := st\<rparr>)"
proof -
  let ?ws = "map watcher_owns (lw_watchers s)"
  let ?s = "s\<lparr>lw_watchers := (lw_watchers s)[i := w], lw_leases := remove_capacity_ready_lease k (lw_leases s), lw_starts := st\<rparr>"
  have o: "owners ?s = map dispatcher_owns (lw_dispatchers s) @ ?ws[i := None]"
    using w by (simp add: owners_def map_update_watchers watcher_owns_def)
  have "?ws ! i = Some k" using i k by (simp add: watcher_owns_def)
  then have n: "count_list (owners ?s) (Some j) + of_bool (k = j) = count_list (owners s) (Some j)" for j
    using count_list_update [of i ?ws None "Some j"] i(1) by (auto simp: o) (auto simp: owners_def)
  have ks: "j \<in> cl_key ` set (lw_leases ?s) \<longleftrightarrow> j \<in> cl_key ` set (lw_leases s) \<and> j \<noteq> k" for j
    by (auto simp: remove_capacity_ready_lease_def)
  have mem: "k \<in> cl_key ` set (lw_leases s)" using owned_once(1) [OF inv i] k by simp
  have old: "count_list (owners s) (Some j) = (if j \<in> cl_key ` set (lw_leases s) then 1 else 0)" for j
    using inv by (simp add: own_inv_def)
  have c: "count_list (owners ?s) (Some j) = (if j \<in> cl_key ` set (lw_leases ?s) then 1 else 0)" for j
  proof (cases "k = j")
    case True
    then show ?thesis using n [of j] old [of j] mem ks [of j] by simp
  next
    case False
    then show ?thesis using n [of j] old [of j] ks [of j] by simp
  qed
  have d: "distinct (map cl_key (lw_leases ?s))"
    using inv by (simp add: own_inv_def remove_capacity_ready_lease_def distinct_map_filter)
  have live: "v \<in> set (lw_watchers s)" if "v \<in> set ((lw_watchers s)[i := w])" "w_pc v \<noteq> Finished" for v
    using that w set_update_subset_insert [of "lw_watchers s" i w] by auto
  have "lw_leases ?s = filter (\<lambda>l. cl_key l \<noteq> k) (lw_leases s)" by (simp add: remove_capacity_ready_lease_def)
  then show ?thesis using inv c d live unfolding own_inv_def by simp
qed

lemma own_inv_watcher:
  assumes step: "watcher_step i s = Some s'" and inv: "own_inv s" shows "own_inv s'"
proof -
  let ?w = "lw_watchers s ! i"
  obtain w leases starts where n: "i < length (lw_watchers s)" "watcher_next s ?w = Some (w, leases, starts)"
    and s': "s' = s\<lparr>lw_watchers := (lw_watchers s)[i := w], lw_leases := leases, lw_starts := lw_starts s @ starts\<rparr>"
    using step by (auto simp: watcher_step_Some)
  have key: "w_key w = w_key ?w" using watcher_next_frame(1) [OF n(2)] .
  have alive: "w_pc ?w \<noteq> Finished" using n(2) by (auto simp: watcher_next_def)
  note goto = own_inv_goto [OF inv n(1) alive key, where st = "lw_starts s @ starts"] and flag = own_inv_set_flag [OF inv n(1) alive key]
  show ?thesis
  proof (cases "w_pc ?w")
    case Claiming
    obtain l where l: "List.find (\<lambda>l. cl_key l = w_key ?w) (lw_leases s) = Some l"
      using owned_once(1) [OF inv n(1) alive] find_None_iff [of "\<lambda>l. cl_key l = w_key ?w" "lw_leases s"] by fastforce
    then have "\<not> cl_dispatching l"
      using inv Claiming n(1) find_Some_D [OF l] unfolding own_inv_def busy_def by (metis insert_iff nth_mem singletonD watcher_pc.distinct)
    then have "w = ?w\<lparr>w_pc := Upgrading\<rparr>" "leases = set_dispatching (w_key w) True (lw_leases s)"
      using n(2) Claiming l by (auto simp: watcher_next_def Let_def)
    then show ?thesis using flag [of True] s' by (simp add: busy_def)
  next
    case Rearming
    then have "w = ?w\<lparr>w_pc := Watching\<rparr>" "leases = set_dispatching (w_key w) False (lw_leases s)"
      using n(2) by (auto simp: watcher_next_def Let_def)
    then show ?thesis using flag [of False] s' by (simp add: busy_def)
  next
    case Removing
    then have "w_pc w = Finished" "leases = remove_capacity_ready_lease (w_key ?w) (lw_leases s)"
      using n(2) by (auto simp: watcher_next_def Let_def)
    then show ?thesis using own_inv_remove [OF inv n(1) alive] s' by simp
  qed (use n(2) s' goto alive in \<open>auto simp: watcher_next_def Let_def busy_def split: if_splits\<close>)
qed

lemma own_inv_cong:
  assumes "own_inv s" "lw_leases s' = lw_leases s" "lw_watchers s' = lw_watchers s" "lw_dispatchers s' = lw_dispatchers s"
  shows "own_inv s'"
  using assms by (simp add: own_inv_def owners_def)

lemma owners_goto:
  assumes "i < length (lw_dispatchers s)"
  shows "count_list (owners (dispatcher_goto i pc s)) y + of_bool (dispatcher_owns (lw_dispatchers s ! i) = y) =
    count_list (owners s) y + of_bool (dispatcher_owns ((lw_dispatchers s ! i)\<lparr>d_pc := pc\<rparr>) = y)"
  using count_list_update [of i "map dispatcher_owns (lw_dispatchers s)" "dispatcher_owns ((lw_dispatchers s ! i)\<lparr>d_pc := pc\<rparr>)" y] assms
  by (simp add: owners_def map_update)

lemma pushed_has_lease:
  assumes "own_inv s" "d \<in> set (lw_dispatchers s)" "d_pc d = Pushed" shows "d_key d \<in> cl_key ` set (lw_leases s)"
proof (rule ccontr)
  assume "d_key d \<notin> cl_key ` set (lw_leases s)"
  then have "count_list (owners s) (Some (d_key d)) = 0" using assms(1) by (simp add: own_inv_def)
  moreover have "dispatcher_owns d = Some (d_key d)" using assms(3) by (simp add: dispatcher_owns_def)
  ultimately show False using assms(2) by (auto simp: count_list_0_iff owners_def) (metis imageI)
qed

lemma own_inv_subscribe:
  "own_inv s \<Longrightarrow> own_inv (s\<lparr>lw_dispatchers := lw_dispatchers s @ [dispatcher_new k s]\<rparr>)"
  by (auto simp: own_inv_def owners_def dispatcher_new_def dispatcher_owns_def)

lemma own_inv_return:
  assumes "own_inv s" "i < length (lw_dispatchers s)" "d_pc (lw_dispatchers s ! i) = Subscribed"
  shows "own_inv (dispatcher_goto i Returned s)"
proof -
  have "count_list (owners (dispatcher_goto i Returned s)) (Some k) = count_list (owners s) (Some k)" for k
    using owners_goto [OF assms(2), of Returned "Some k"] assms(3) by (simp add: dispatcher_owns_def)
  moreover have "d \<in> set (lw_dispatchers s)"
    if "d \<in> set ((lw_dispatchers s)[i := (lw_dispatchers s ! i)\<lparr>d_pc := Returned\<rparr>])" "d_pc d = Pushed" for d
    using that set_update_subset_insert [of "lw_dispatchers s" i "(lw_dispatchers s ! i)\<lparr>d_pc := Returned\<rparr>"] by auto
  ultimately show ?thesis using assms(1) by (simp add: own_inv_def) blast
qed

lemma own_inv_push:
  assumes inv: "own_inv s" and i: "i < length (lw_dispatchers s)" "d_pc (lw_dispatchers s ! i) = Subscribed"
    and k: "k = d_key (lw_dispatchers s ! i)" "k \<notin> cl_key ` set (lw_leases s)"
  shows "own_inv (dispatcher_goto i Pushed (s\<lparr>lw_leases := lw_leases s @ [lease_new k]\<rparr>))" (is "own_inv ?s")
proof -
  let ?d = "(lw_dispatchers s ! i)\<lparr>d_pc := Pushed\<rparr>"
  have "owners ?s = owners (dispatcher_goto i Pushed s)" by (simp add: owners_def)
  then have "count_list (owners ?s) (Some j) = count_list (owners s) (Some j) + of_bool (k = j)" for j
    using owners_goto [OF i(1), of Pushed "Some j"] i(2) k(1) by (simp add: dispatcher_owns_def)
  then have c: "count_list (owners ?s) (Some j) = (if j \<in> cl_key ` set (lw_leases ?s) then 1 else 0)" for j
    using inv k(2) by (cases "k = j") (auto simp: own_inv_def lease_new_def)
  have w: "w_key w \<noteq> k" if "w \<in> set (lw_watchers s)" "w_pc w \<noteq> Finished" for w
    using that owned_once(1) [OF inv] k(2) by (metis in_set_conv_nth)
  have d: "d = ?d \<or> d \<in> set (lw_dispatchers s) \<and> (d_pc d = Pushed \<longrightarrow> d_key d \<noteq> k)" if "d \<in> set (lw_dispatchers ?s)" for d
    using that set_update_subset_insert [of "lw_dispatchers s" i ?d] pushed_has_lease [OF inv] k(2) by auto
  have "\<forall>w \<in> set (lw_watchers ?s). w_pc w \<noteq> Finished \<longrightarrow> w_pc w \<noteq> Removing \<longrightarrow>
      (\<forall>l \<in> set (lw_leases ?s). cl_key l = w_key w \<longrightarrow> cl_dispatching l = busy (w_pc w))"
    using inv w by (auto simp: own_inv_def lease_new_def)
  moreover have "\<not> cl_dispatching l" if "x \<in> set (lw_dispatchers ?s)" "d_pc x = Pushed" "l \<in> set (lw_leases ?s)" "cl_key l = d_key x" for x l
  proof (cases "l = lease_new k")
    case False
    then have "l \<in> set (lw_leases s)" using that(3) by simp
    moreover from this have "x \<noteq> ?d" using that(4) k by (auto simp: image_iff)
    ultimately show ?thesis using that d [OF that(1)] inv unfolding own_inv_def by blast
  qed (simp add: lease_new_def)
  moreover have "distinct (map cl_key (lw_leases ?s))" using inv k(2) by (simp add: own_inv_def lease_new_def)
  ultimately show ?thesis using c unfolding own_inv_def by blast
qed

lemma own_inv_spawn:
  assumes inv: "own_inv s" and i: "i < length (lw_dispatchers s)" "d_pc (lw_dispatchers s ! i) = Pushed"
  shows "own_inv (dispatcher_goto i Returned (s\<lparr>lw_mail := ml,
          lw_watchers := lw_watchers s @ [watcher_new (lw_dispatchers s ! i)]\<rparr>))" (is "own_inv ?s")
proof -
  let ?d = "lw_dispatchers s ! i"
  have "owners ?s = owners (dispatcher_goto i Returned s) @ [Some (d_key ?d)]"
    by (simp add: owners_def watcher_new_def watcher_owns_def)
  then have "count_list (owners ?s) (Some j) = count_list (owners s) (Some j)" for j
    using owners_goto [OF i(1), of Returned "Some j"] i(2) by (cases "d_key ?d = j") (auto simp: dispatcher_owns_def)
  moreover have "d \<in> set (lw_dispatchers s)" if "d \<in> set (lw_dispatchers ?s)" "d_pc d = Pushed" for d
    using that set_update_subset_insert [of "lw_dispatchers s" i "?d\<lparr>d_pc := Returned\<rparr>"] by auto
  moreover have "\<not> cl_dispatching l" if "l \<in> set (lw_leases s)" "cl_key l = d_key ?d" for l
    using that inv i unfolding own_inv_def by (metis nth_mem)
  ultimately show ?thesis using inv by (auto simp: own_inv_def watcher_new_def busy_def)
qed

lemma own_inv_step: "lease_step s s' \<Longrightarrow> own_inv s \<Longrightarrow> own_inv s'"
  by (erule lease_stepE)
    (auto intro: own_inv_watcher own_inv_subscribe own_inv_return own_inv_push own_inv_spawn own_inv_cong)

definition lease_inv :: "lease_world \<Rightarrow> bool" where
  "lease_inv s \<longleftrightarrow> chan_inv s \<and> reader_inv s \<and> own_inv s"

lemma lease_inv_start: "lease_inv (lease_world_start m n)"
proof -
  have "\<not> at_pc (lim_start m n) t (Notifying g)" for t g
    by (simp add: at_pc_def lim_start_def limiter.defs lim_system.defs)
  then show ?thesis
    by (simp add: lease_inv_def chan_inv_def reader_inv_def own_inv_def owners_def lease_world_start_def)
      (simp add: lim_start_def limiter.defs lim_system.defs limiter_initialize_def limiter_default_def)
qed

lemma lease_inv_reach: "unwrapped_step\<^sup>*\<^sup>* s s' \<Longrightarrow> lease_inv s \<Longrightarrow> lease_inv s'"
  by (induction rule: rtranclp_induct)
    (auto simp: lease_inv_def intro: chan_inv_step reader_inv_step own_inv_step [OF conjunct1 [OF iffD1 [OF unwrapped_step_def]]])

section \<open>Properties\<close>

text \<open>
  C24. A lease is never orphaned and never served twice: at every moment each lease in the table
  is owned by exactly one party, the dispatcher about to spawn its watcher or a watcher that has
  not ended, and no party without a lease is left.
\<close>

theorem lease_has_one_owner:
  assumes "unwrapped_step\<^sup>*\<^sup>* (lease_world_start m n) s"
  shows "distinct (map cl_key (lw_leases s))
    \<and> (\<forall>k. count_list (owners s) (Some k) = (if k \<in> cl_key ` set (lw_leases s) then 1 else 0))"
  using lease_inv_reach [OF assms lease_inv_start] by (simp add: lease_inv_def own_inv_def)

lemma unseen_release_enables:
  assumes "chan_inv s" "saw (lw_sent s) observed seen" "seen < length (lw_sent s)"
  shows "lim_release_tx (lw_lim s) \<noteq> observed"
proof -
  have "lw_sent s ! (length (lw_sent s) - 1) \<noteq> lw_sent s ! (seen - 1)"
    using assms by (auto simp: chan_inv_def saw_def nth_eq_iff_index_eq)
  then show ?thesis using assms(2) last_conv_nth_sent [OF assms(1)] by (simp add: saw_def)
qed

lemma watcher_step_eq:
  "i < length (lw_watchers s) \<Longrightarrow> watcher_next s (lw_watchers s ! i) = Some (w, leases, starts) \<Longrightarrow>
   watcher_step i s = Some (s\<lparr>lw_watchers := (lw_watchers s)[i := w], lw_leases := leases, lw_starts := lw_starts s @ starts\<rparr>)"
  by (simp add: watcher_step_def)

lemma removed_key: "k \<notin> cl_key ` set (remove_capacity_ready_lease k leases)"
  by (auto simp: remove_capacity_ready_lease_def)

text \<open>From the claim on, a watcher serves its lease whatever it finds.\<close>

lemma run_claimed:
  assumes i: "i < length (lw_watchers s)" and w: "lw_watchers s ! i = w" "w_pc w = Upgrading"
  shows "let s' = run_watcher 3 i s in
    w_pc (lw_watchers s' ! i) = Finished \<and> w_key w \<notin> cl_key ` set (lw_leases s')
    \<or> lw_starts s' = lw_starts s @ [lk_parent_thread (w_key w)]"
  using assms by (simp add: numeral_3_eq_3 watcher_step_def watcher_next_def removed_key Let_def)

lemma run_watcher_add: "run_watcher (m + n) i s = run_watcher n i (run_watcher m i s)"
proof (induction m arbitrary: s)
  case (Suc m)
  have "run_watcher n i s = s" if "watcher_step i s = None" using that by (cases n) simp_all
  with Suc show ?case by (simp split: option.split)
qed simp


section \<open>A sample run\<close>

text \<open>
  One task takes the only permit, a completion is dispatched and kept as a lease with a watcher,
  and the task drops its guard.
\<close>

definition sample_key :: lease_key where
  "sample_key = \<lparr>lk_parent_thread_id = [112], lk_parent_turn_id = [116], lk_generation = 7, lk_parent_thread = 3\<rparr>"

definition sample_lim_at :: "lim_pc \<Rightarrow> usize \<Rightarrow> u64 \<Rightarrow> u64 \<Rightarrow> lim_system" where
  "sample_lim_at pc active gen tx =
     \<lparr>lim_active = active, lim_max = Some 1, lim_generation = gen, lim_release_tx = tx, tasks = [pc]\<rparr>"

definition sample_lease_world :: "lim_system \<Rightarrow> u64 list \<Rightarrow> dispatcher_pc option \<Rightarrow> watcher list \<Rightarrow> lease_world" where
  "sample_lease_world l sent dpc ws =
     \<lparr>lw_lim = l, lw_sent = sent, lw_closed = False,
      lw_leases = (if dpc = None \<or> dpc = Some Subscribed then [] else [lease_new sample_key]),
      lw_dispatchers = (case dpc of None \<Rightarrow> [] | Some pc \<Rightarrow> [\<lparr>d_key = sample_key, d_observed = 0, d_seen = 1, d_pc = pc\<rparr>]),
      lw_watchers = ws, lw_manager = True, lw_threads = \<lambda>_. None, lw_pending = \<lambda>_ _. False,
      lw_mail = (if dpc = Some Returned then [sample_key] else []), lw_starts = []\<rparr>"

definition sample_watcher :: watcher where
  "sample_watcher = \<lparr>w_key = sample_key, w_observed = 0, w_seen = 1, w_pc = Watching\<rparr>"

definition sample_released :: lease_world where
  "sample_released = sample_lease_world (sample_lim_at Idle 0 1 1) [0, 1] (Some Returned) [sample_watcher]"

lemma sample_limiter_step:
  assumes "lim_step (sample_lim_at pc a g tx) (sample_lim_at pc' a' g' tx)" "g \<le> g'"
  shows "unwrapped_step (sample_lease_world (sample_lim_at pc a g tx) sent d ws) (sample_lease_world (sample_lim_at pc' a' g' tx) sent d ws)"
  using lease_step.limiter [of "sample_lease_world (sample_lim_at pc a g tx) sent d ws", OF _ _] assms
  by (simp add: unwrapped_step_def sample_lease_world_def sample_lim_at_def)

lemma sample_lim_steps:
  "lim_step (sample_lim_at Idle a g tx) (sample_lim_at (HaveMax 1) a g tx)"
  "lim_step (sample_lim_at (HaveMax 1) 0 g tx) (sample_lim_at (Trying 1 0) 0 g tx)"
  "lim_step (sample_lim_at (Trying 1 0) 0 g tx) (sample_lim_at Holding 1 g tx)"
  "lim_step (sample_lim_at Holding 1 g tx) (sample_lim_at Released 0 g tx)"
  "lim_step (sample_lim_at Released 0 0 tx) (sample_lim_at (Notifying 1) 0 1 tx)"
  using lim_step.read_max [of "sample_lim_at Idle a g tx" 0] lim_step.load [of "sample_lim_at (HaveMax 1) 0 g tx" 0 1]
    lim_step.cas_ok [of "sample_lim_at (Trying 1 0) 0 g tx" 0 1 0] lim_step.release [of "sample_lim_at Holding 1 g tx" 0]
    lim_step.bump [of "sample_lim_at Released 0 0 tx" 0]
  by (simp_all add: sample_lim_at_def lim_defs)

lemma sample_dispatch_steps:
  defines "l \<equiv> sample_lim_at Holding 1 0 0"
  shows "unwrapped_step (sample_lease_world l [0] None []) (sample_lease_world l [0] (Some Subscribed) [])"
    and "unwrapped_step (sample_lease_world l [0] (Some Subscribed) []) (sample_lease_world l [0] (Some Pushed) [])"
    and "unwrapped_step (sample_lease_world l [0] (Some Pushed) []) (sample_lease_world l [0] (Some Returned) [sample_watcher])"
  using lease_step.subscribe [of "sample_lease_world l [0] None []" sample_key]
    lease_step.retain_push [of 0 "sample_lease_world l [0] (Some Subscribed) []"]
    lease_step.retain_spawn [of 0 "sample_lease_world l [0] (Some Pushed) []"]
  by (simp_all add: unwrapped_step_def sample_lease_world_def l_def sample_lim_at_def dispatcher_new_def dispatcher_goto_def
      subscribe_release_def limiter.truncate_def watcher_new_def sample_watcher_def)

lemma sample_send:
  "unwrapped_step (sample_lease_world (sample_lim_at (Notifying 1) 0 1 0) [0] (Some Returned) [sample_watcher]) sample_released"
  using lease_step.send [of "sample_lease_world (sample_lim_at (Notifying 1) 0 1 0) [0] (Some Returned) [sample_watcher]" 0 1]
  by (simp add: unwrapped_step_def sample_released_def sample_lease_world_def sample_lim_at_def lim_defs)

lemma sample_start: "lease_world_start 1 1 = sample_lease_world (sample_lim_at Idle 0 0 0) [0] None []"
  by (simp add: lease_world_start_def sample_lease_world_def sample_lim_at_def lim_start_def limiter.defs lim_system.defs
      limiter_initialize_def limiter_default_def)

lemma sample_released_reachable: "unwrapped_step\<^sup>*\<^sup>* (lease_world_start 1 1) sample_released"
proof -
  note lim = sample_limiter_step [OF sample_lim_steps(1) order_refl] sample_limiter_step [OF sample_lim_steps(2) order_refl]
    sample_limiter_step [OF sample_lim_steps(3) order_refl] sample_limiter_step [OF sample_lim_steps(4) order_refl]
    sample_limiter_step [OF sample_lim_steps(5)]
  have last: "unwrapped_step (sample_lease_world (sample_lim_at Released 0 0 0) [0] (Some Returned) [sample_watcher])
      (sample_lease_world (sample_lim_at (Notifying 1) 0 1 0) [0] (Some Returned) [sample_watcher])"
    by (rule lim(5)) simp
  have "unwrapped_step\<^sup>*\<^sup>* (lease_world_start 1 1) (sample_lease_world (sample_lim_at Holding 1 0 0) [0] None [])"
    unfolding sample_start
    by (rule converse_rtranclp_into_rtranclp, rule lim(1), rule converse_rtranclp_into_rtranclp, rule lim(2),
        rule r_into_rtranclp, rule lim(3))
  also have "unwrapped_step\<^sup>*\<^sup>* \<dots> (sample_lease_world (sample_lim_at Holding 1 0 0) [0] (Some Returned) [sample_watcher])"
    by (rule converse_rtranclp_into_rtranclp, rule sample_dispatch_steps(1),
        rule converse_rtranclp_into_rtranclp, rule sample_dispatch_steps(2), rule r_into_rtranclp, rule sample_dispatch_steps(3))
  also have "unwrapped_step\<^sup>*\<^sup>* \<dots> sample_released"
    by (rule converse_rtranclp_into_rtranclp, rule lim(4), rule converse_rtranclp_into_rtranclp, rule last,
        rule r_into_rtranclp, rule sample_send)
  finally show ?thesis .
qed

theorem lease_has_one_owner_witness:
  "unwrapped_step\<^sup>*\<^sup>* (lease_world_start 1 1) sample_released \<and> count_list (owners sample_released) (Some sample_key) = 1"
  using lease_has_one_owner [OF sample_released_reachable] sample_released_reachable
  by (simp add: sample_released_def sample_lease_world_def lease_new_def)


end
