(* ===== verification/Output_Buffer.thy ===== *)
theory Output_Buffer
  imports Prelude
begin

text \<open>
  The capped output buffer of a running command, \<open>core/src/unified_exec/head_tail_buffer.rs\<close>, and
  the omission marker of \<open>unified_exec/mod.rs\<close>. Lengths are naturals (a Rust slice is shorter
  than \<open>isize::MAX\<close>); the omission counter is a \<open>usize\<close> that saturates. The buffer refines the
  summary of everything written to it: a prefix, a suffix and the number of bytes between them.
\<close>

section \<open>The buffer\<close>

type_synonym byte = nat

record head_tail_buffer =
  ht_head :: "byte list"
  ht_tail :: "byte list"
  ht_omitted :: nat

definition buffer_default :: head_tail_buffer where
  "buffer_default = \<lparr>ht_head = [], ht_tail = [], ht_omitted = 0\<rparr>"

definition HEAD_BUDGET :: "nat \<Rightarrow> nat" where
  "HEAD_BUDGET max_bytes = max_bytes div 2"

definition TAIL_BUDGET :: "nat \<Rightarrow> nat" where
  "TAIL_BUDGET max_bytes = max_bytes - HEAD_BUDGET max_bytes"

definition retained_bytes :: "head_tail_buffer \<Rightarrow> nat" where
  "retained_bytes b = sat_add (length (ht_head b)) (length (ht_tail b))"

definition total_bytes :: "head_tail_buffer \<Rightarrow> nat" where
  "total_bytes b = sat_add (retained_bytes b) (ht_omitted b)"

text \<open>The bytes that did not fit are returned next to the buffer.\<close>

definition fill_head :: "nat \<Rightarrow> byte list \<Rightarrow> head_tail_buffer \<Rightarrow> head_tail_buffer \<times> byte list" where
  "fill_head max_bytes chunk b =
     (let remaining_head = HEAD_BUDGET max_bytes - length (ht_head b);
          (chunk_head, chunk_tail) =
            (if remaining_head \<le> length chunk then (take remaining_head chunk, drop remaining_head chunk) else (chunk, []))
      in (b\<lparr>ht_head := ht_head b @ chunk_head\<rparr>, chunk_tail))"

definition push_tail :: "nat \<Rightarrow> byte list \<Rightarrow> head_tail_buffer \<Rightarrow> head_tail_buffer" where
  "push_tail max_bytes chunk b =
     (let tail = ht_tail b;
          remaining_tail = TAIL_BUDGET max_bytes - length tail;
          excess_tail = length chunk - remaining_tail;
          omitted = sat_add (ht_omitted b) excess_tail
      in if excess_tail < length tail
         then b\<lparr>ht_omitted := omitted, ht_tail := drop excess_tail tail @ chunk\<rparr>
         else b\<lparr>ht_omitted := omitted, ht_tail := drop (excess_tail - length tail) chunk\<rparr>)"

definition push_chunk :: "nat \<Rightarrow> byte list \<Rightarrow> head_tail_buffer \<Rightarrow> head_tail_buffer" where
  "push_chunk max_bytes chunk b = (case fill_head max_bytes chunk b of (b', rest) \<Rightarrow> push_tail max_bytes rest b')"

definition to_bytes :: "head_tail_buffer \<Rightarrow> byte list" where
  "to_bytes b = ht_head b @ ht_tail b"

definition format_output_omission_marker :: "nat \<Rightarrow> str" where
  "format_output_omission_marker omitted = lit ''... '' @ show_nat omitted @ lit '' bytes omitted ...''"

definition to_bytes_with_omission_marker :: "head_tail_buffer \<Rightarrow> byte list" where
  "to_bytes_with_omission_marker b =
     (if ht_omitted b = 0 then to_bytes b
      else ht_head b @ [10] @ format_output_omission_marker (ht_omitted b) @ [10] @ ht_tail b)"

text \<open>
  Appending a later buffer. \<open>wrap\<close> is where the ring buffer of the source tail wraps: its two
  slices are the elements before and after that place.
\<close>

definition push_buffer :: "nat \<Rightarrow> nat \<Rightarrow> head_tail_buffer \<Rightarrow> head_tail_buffer \<Rightarrow> head_tail_buffer" where
  "push_buffer max_bytes wrap src self =
     (let self1 = self\<lparr>ht_omitted := sat_add (ht_omitted self) (ht_omitted src)\<rparr>;
          (self2, overflow) =
            (if ht_head self1 = [] then (self1\<lparr>ht_head := ht_head src\<rparr>, [])
             else fill_head max_bytes (ht_head src) self1)
      in if length (ht_tail src) = TAIL_BUDGET max_bytes
         then self2\<lparr>ht_omitted := sat_add (sat_add (ht_omitted self2) (length (ht_tail self2))) (length overflow),
                     ht_tail := ht_tail src\<rparr>
         else let self3 = push_tail max_bytes overflow self2 in
              if ht_tail self3 = [] then self3\<lparr>ht_tail := ht_tail src\<rparr>
              else push_tail max_bytes (drop wrap (ht_tail src)) (push_tail max_bytes (take wrap (ht_tail src)) self3))"

section \<open>The summary of a stream\<close>

definition last_bytes :: "nat \<Rightarrow> byte list \<Rightarrow> byte list" where
  "last_bytes n xs = drop (length xs - n) xs"

definition summary :: "nat \<Rightarrow> byte list \<Rightarrow> head_tail_buffer" where
  "summary max_bytes xs =
     (let rest = drop (HEAD_BUDGET max_bytes) xs in
      \<lparr>ht_head = take (HEAD_BUDGET max_bytes) xs, ht_tail = last_bytes (TAIL_BUDGET max_bytes) rest,
       ht_omitted = min (length rest - TAIL_BUDGET max_bytes) usize_max\<rparr>)"

lemma length_last_bytes [simp]: "length (last_bytes n xs) = min n (length xs)"
  by (auto simp: last_bytes_def)

text \<open>Writing to the tail of a summary appends to what it summarises.\<close>

lemma push_tail_last:
  assumes "ht_tail b = last_bytes (TAIL_BUDGET m) xs" "ht_omitted b = min (length xs - TAIL_BUDGET m + extra) usize_max"
  shows "push_tail m chunk b = b\<lparr>ht_tail := last_bytes (TAIL_BUDGET m) (xs @ chunk),
    ht_omitted := min (length (xs @ chunk) - TAIL_BUDGET m + extra) usize_max\<rparr>"
proof -
  let ?T = "TAIL_BUDGET m"
  let ?e = "length chunk - (?T - length (ht_tail b))"
  have len: "length (ht_tail b) = min ?T (length xs)" using assms(1) by simp
  have om: "sat_add (ht_omitted b) ?e = min (length (xs @ chunk) - ?T + extra) usize_max"
  proof -
    have "length xs - ?T + extra + ?e = length (xs @ chunk) - ?T + extra" using len by (auto simp: min_def)
    then show ?thesis unfolding assms(2) sat_add_min by (rule arg_cong)
  qed
  have tl: "last_bytes ?T (xs @ chunk) = (if ?e < length (ht_tail b) then drop ?e (ht_tail b) @ chunk
      else drop (?e - length (ht_tail b)) chunk)"
    using assms(1) len by (auto simp: last_bytes_def min_def drop_append add.commute)
  show ?thesis unfolding push_tail_def Let_def om tl by simp
qed

lemma summary_simps [simp]:
  "ht_head (summary m xs) = take (HEAD_BUDGET m) xs"
  "ht_tail (summary m xs) = last_bytes (TAIL_BUDGET m) (drop (HEAD_BUDGET m) xs)"
  "ht_omitted (summary m xs) = min (length xs - HEAD_BUDGET m - TAIL_BUDGET m) usize_max"
  by (simp_all add: summary_def Let_def)

lemma summary_eqI:
  assumes "ht_head b = take (HEAD_BUDGET m) xs" "ht_tail b = last_bytes (TAIL_BUDGET m) (drop (HEAD_BUDGET m) xs)"
    "ht_omitted b = min (length xs - HEAD_BUDGET m - TAIL_BUDGET m) usize_max"
  shows "(b::head_tail_buffer) = summary m xs"
  using assms by (cases b) (simp add: summary_def Let_def)

lemma fill_head_eq:
  "fill_head m chunk b = (b\<lparr>ht_head := ht_head b @ take (HEAD_BUDGET m - length (ht_head b)) chunk\<rparr>,
     drop (HEAD_BUDGET m - length (ht_head b)) chunk)"
  by (auto simp: fill_head_def Let_def)

lemma push_chunk_summary_eq: "push_chunk m chunk (summary m xs) = summary m (xs @ chunk)"
proof -
  let ?H = "HEAD_BUDGET m"
  have room: "?H - min (length xs) ?H = ?H - length xs" by simp
  have push: "push_tail m (drop (?H - length xs) chunk) b = b\<lparr>ht_tail := last_bytes (TAIL_BUDGET m) (drop ?H (xs @ chunk)),
      ht_omitted := min (length (drop ?H (xs @ chunk)) - TAIL_BUDGET m + 0) usize_max\<rparr>"
    if "ht_tail b = last_bytes (TAIL_BUDGET m) (drop ?H xs)"
      "ht_omitted b = min (length (drop ?H xs) - TAIL_BUDGET m + 0) usize_max" for b
    using push_tail_last [OF that, of "drop (?H - length xs) chunk"] by simp
  show ?thesis unfolding push_chunk_def fill_head_eq
    by (rule summary_eqI) (simp_all add: room push)
qed

text \<open>The head of a merge, and what of the later head did not fit, in both branches of the code.\<close>

lemma merged_head:
  assumes "b = (summary m xs)\<lparr>ht_omitted := k\<rparr>"
  shows "(if ht_head b = [] then (b\<lparr>ht_head := ht_head (summary m ys)\<rparr>, [])
      else fill_head m (ht_head (summary m ys)) b) =
    (b\<lparr>ht_head := take (HEAD_BUDGET m) (xs @ ys)\<rparr>, drop (HEAD_BUDGET m - length xs) (take (HEAD_BUDGET m) ys))"
  using assms by (auto simp: fill_head_eq take_append min_def)

lemma merged_rest:
  "drop h (xs @ ys) = drop h xs @ drop (h - length xs) (take h ys) @ drop h ys"
proof -
  have "drop (h - length xs) ys = drop (h - length xs) (take h ys @ drop h ys)" by simp
  also have "\<dots> = drop (h - length xs) (take h ys) @ drop h ys"
    by (cases "length ys \<le> h") (simp_all add: drop_append del: append_take_drop_id)
  finally show ?thesis by simp
qed

lemma last_bytes_full: "n \<le> length ys \<Longrightarrow> last_bytes n (xs @ ys) = last_bytes n ys"
  by (auto simp: last_bytes_def)

lemma push_buffer_full_tail:
  assumes full: "TAIL_BUDGET m \<le> length ys - HEAD_BUDGET m"
  shows "push_buffer m wrap (summary m ys) (summary m xs) = summary m (xs @ ys)"
proof -
  let ?H = "HEAD_BUDGET m" and ?T = "TAIL_BUDGET m"
  let ?ov = "drop (?H - length xs) (take ?H ys)"
  define k where "k = sat_add (min (length xs - ?H - ?T) usize_max) (min (length ys - ?H - ?T) usize_max)"
  have len: "length xs - ?H + (length ?ov + (length ys - ?H)) = length (xs @ ys) - ?H"
    by (auto simp: min_def)
  have om: "sat_add (sat_add k (min ?T (length xs - ?H))) (length ?ov) = min (length (xs @ ys) - ?H - ?T) usize_max"
  proof -
    have "length xs - ?H - ?T + (length ys - ?H - ?T) + min ?T (length xs - ?H) + length ?ov = length (xs @ ys) - ?H - ?T"
      using full len by linarith
    then show ?thesis unfolding k_def sat_add_min2 unfolding sat_add_min by (rule arg_cong)
  qed
  have tl: "last_bytes ?T (drop ?H (xs @ ys)) = last_bytes ?T (drop ?H ys)"
    using full last_bytes_full [of ?T "drop ?H ys" "drop ?H xs @ ?ov"] by (simp only: merged_rest) simp
  have "push_buffer m wrap (summary m ys) (summary m xs) =
      (summary m xs)\<lparr>ht_head := take ?H (xs @ ys),
        ht_omitted := sat_add (sat_add k (min ?T (length xs - ?H))) (length ?ov), ht_tail := last_bytes ?T (drop ?H ys)\<rparr>"
    unfolding push_buffer_def Let_def merged_head [OF refl] using full
    by (simp add: k_def min_absorb1)
  then show ?thesis using om tl by (intro summary_eqI) simp_all
qed

text \<open>A buffer whose tail and omission count summarise the bytes \<open>zs\<close> behind the head.\<close>

definition tail_at :: "nat \<Rightarrow> head_tail_buffer \<Rightarrow> byte list \<Rightarrow> head_tail_buffer" where
  "tail_at m b zs = b\<lparr>ht_tail := last_bytes (TAIL_BUDGET m) zs,
     ht_omitted := min (length zs - TAIL_BUDGET m) usize_max\<rparr>"

lemma push_tail_at: "push_tail m c (tail_at m b zs) = tail_at m b (zs @ c)"
  using push_tail_last [of "tail_at m b zs" m zs 0 c] by (simp add: tail_at_def)

lemma ht_tail_tail_at [simp]: "ht_tail (tail_at m b zs) = last_bytes (TAIL_BUDGET m) zs"
  by (simp add: tail_at_def)

lemma tail_at_summary:
  "tail_at m ((summary m xs)\<lparr>ht_head := take (HEAD_BUDGET m) ys\<rparr>) (drop (HEAD_BUDGET m) ys) = summary m ys"
  by (rule summary_eqI) (simp_all add: tail_at_def)

lemma push_buffer_partial_tail:
  assumes part: "length ys - HEAD_BUDGET m < TAIL_BUDGET m"
  shows "push_buffer m wrap (summary m ys) (summary m xs) = summary m (xs @ ys)"
proof -
  let ?H = "HEAD_BUDGET m" and ?T = "TAIL_BUDGET m"
  let ?ov = "drop (?H - length xs) (take ?H ys)"
  define b where "b = (summary m xs)\<lparr>ht_head := take ?H (xs @ ys)\<rparr>"
  have src: "ht_tail (summary m ys) = drop ?H ys" "ht_omitted (summary m ys) = 0" "length (drop ?H ys) \<noteq> ?T"
    using part by (simp_all add: last_bytes_def)
  have self: "(summary m xs)\<lparr>ht_omitted := sat_add (ht_omitted (summary m xs)) 0\<rparr> = summary m xs"
    by (rule summary_eqI) (simp_all add: sat_add_def)
  have head: "(if ht_head (summary m xs) = [] then ((summary m xs)\<lparr>ht_head := ht_head (summary m ys)\<rparr>, [])
      else fill_head m (ht_head (summary m ys)) (summary m xs)) = (b, ?ov)"
    unfolding b_def by (rule merged_head [where k = "ht_omitted (summary m xs)"]) (rule summary_eqI [symmetric]; simp)
  have b: "b = tail_at m b (drop ?H xs)" by (simp add: b_def tail_at_def)
  have step: "push_tail m ?ov b = tail_at m b (drop ?H xs @ ?ov)"
    by (subst b) (rule push_tail_at)
  have run: "push_buffer m wrap (summary m ys) (summary m xs) =
      (if last_bytes ?T (drop ?H xs @ ?ov) = [] then (tail_at m b (drop ?H xs @ ?ov))\<lparr>ht_tail := drop ?H ys\<rparr>
       else tail_at m b (drop ?H (xs @ ys)))"
    unfolding push_buffer_def Let_def src(1,2) self head prod.case if_not_P [OF src(3)] step
    by (simp only: ht_tail_tail_at push_tail_at append_assoc append_take_drop_id merged_rest [symmetric])
  have keep: "(tail_at m b (drop ?H xs @ ?ov))\<lparr>ht_tail := drop ?H ys\<rparr> = tail_at m b (drop ?H (xs @ ys))"
    if "last_bytes ?T (drop ?H xs @ ?ov) = []"
  proof -
    have "length (last_bytes ?T (drop ?H xs @ ?ov)) = 0" using that by (simp only: list.size)
    then have "drop ?H xs @ ?ov = []" using part unfolding length_last_bytes by (simp add: min_def split: if_splits)
    moreover from this have "drop ?H (xs @ ys) = drop ?H ys" by (subst merged_rest) simp
    ultimately show ?thesis using part by (simp only:) (simp add: tail_at_def last_bytes_def)
  qed
  have "push_buffer m wrap (summary m ys) (summary m xs) = tail_at m b (drop ?H (xs @ ys))"
    unfolding run by (split if_split) (blast intro: keep)
  then show ?thesis unfolding b_def tail_at_summary .
qed

lemma push_buffer_summary_eq:
  "push_buffer m wrap (summary m ys) (summary m xs) = summary m (xs @ ys)"
  by (cases "TAIL_BUDGET m \<le> length ys - HEAD_BUDGET m") (simp_all add: push_buffer_full_tail push_buffer_partial_tail)

section \<open>Histories of a buffer\<close>

text \<open>
  A buffer in use: it starts empty, receives chunks, and may absorb another buffer with a history
  of its own, whose tail wraps anywhere in its ring.
\<close>

datatype buffer_history = Fresh | Pushed buffer_history "byte list" | Absorbed buffer_history buffer_history nat

primrec run_history :: "nat \<Rightarrow> buffer_history \<Rightarrow> head_tail_buffer" where
  "run_history m Fresh = buffer_default"
| "run_history m (Pushed h chunk) = push_chunk m chunk (run_history m h)"
| "run_history m (Absorbed h g wrap) = push_buffer m wrap (run_history m g) (run_history m h)"

primrec written :: "buffer_history \<Rightarrow> byte list" where
  "written Fresh = []"
| "written (Pushed h chunk) = written h @ chunk"
| "written (Absorbed h g wrap) = written h @ written g"

lemma buffer_default_summary: "buffer_default = summary m []"
  by (rule summary_eqI) (simp_all add: buffer_default_def last_bytes_def)

lemma run_history_summary: "run_history m h = summary m (written h)"
  by (induction h) (simp_all add: buffer_default_summary push_chunk_summary_eq push_buffer_summary_eq)

lemma summary_retained: "length (take (HEAD_BUDGET m) xs) + length (last_bytes (TAIL_BUDGET m) (drop (HEAD_BUDGET m) xs)) =
    min m (length xs)"
  by (auto simp: HEAD_BUDGET_def TAIL_BUDGET_def min_def)

lemma summary_excess: "length xs - HEAD_BUDGET m - TAIL_BUDGET m = length xs - m"
  by (simp add: HEAD_BUDGET_def TAIL_BUDGET_def)

text \<open>
  C25. Whatever mixture of chunks and merged buffers an output buffer received, it is the summary of
  the concatenation of everything written: the first half of the budget, the last bytes of the
  rest, and the number of bytes between them. Merging loses nothing against writing the bytes
  one after another, wherever the ring buffers wrap.
\<close>
theorem buffer_refines_stream:
  "run_history m h = summary m (written h) \<and>
   run_history m (Absorbed h g wrap) = push_chunk m (written g) (run_history m h)"
  by (simp add: run_history_summary push_chunk_summary_eq push_buffer_summary_eq)

text \<open>
  The buffer never holds more than its capacity and holds everything as long as it fits. The
  bytes it returns are then the bytes written, with no marker; the count it reports is the number
  of bytes written, up to the width of the counter.
\<close>
theorem buffer_within_capacity:
  "length (to_bytes (run_history m h)) = min m (length (written h)) \<and>
   total_bytes (run_history m h) = min (length (written h)) usize_max \<and>
   (length (written h) \<le> m \<longrightarrow> to_bytes_with_omission_marker (run_history m h) = written h)"
proof (intro conjI impI)
  let ?b = "run_history m h" and ?xs = "written h"
  have len: "length (ht_head ?b) + length (ht_tail ?b) = min m (length ?xs)"
    unfolding run_history_summary summary_simps by (rule summary_retained)
  show "length (to_bytes ?b) = min m (length ?xs)" using len by (simp add: to_bytes_def)
  have om: "ht_omitted ?b = min (length ?xs - m) usize_max"
    unfolding run_history_summary summary_simps summary_excess ..
  have "min m (length ?xs) + (length ?xs - m) = length ?xs" by simp
  then show "total_bytes ?b = min (length ?xs) usize_max"
    unfolding total_bytes_def retained_bytes_def sat_add_def [of "length (ht_head ?b)"] len om sat_add_min2 by simp
  assume fits: "length ?xs \<le> m"
  have "to_bytes ?b = ?xs" using fits
    unfolding to_bytes_def run_history_summary summary_simps last_bytes_def
    by (simp add: HEAD_BUDGET_def TAIL_BUDGET_def)
  then show "to_bytes_with_omission_marker ?b = ?xs" using fits om by (simp add: to_bytes_with_omission_marker_def)
qed

theorem buffer_within_capacity_witness:
  "to_bytes_with_omission_marker (run_history 6 (Absorbed (Pushed Fresh [1,2,3]) (Pushed Fresh [4,5]) 1)) = [1,2,3,4,5] \<and>
   to_bytes (run_history 4 (Absorbed (Pushed Fresh [1,2,3]) (Pushed Fresh [4,5,6]) 1)) = [1,2,5,6]"
  using buffer_within_capacity [of 6 "Absorbed (Pushed Fresh [1,2,3]) (Pushed Fresh [4,5]) 1"]
  by (simp add: run_history_summary to_bytes_def last_bytes_def HEAD_BUDGET_def TAIL_BUDGET_def)

end
