(* ===== verification/Output_Truncation.thy ===== *)
theory Output_Truncation
  imports Prelude "HOL-Library.Sublist"
begin

text \<open>
  Truncation of tool output: \<open>utils/string/src/truncate.rs\<close>, \<open>utils/output-truncation/src/lib.rs\<close>
  and the truncation policy of \<open>protocol/src/protocol.rs\<close>. A string is a list of scalar values whose
  byte length is that of its UTF-8 encoding. Slicing at a byte offset that is not a character
  boundary panics, which is \<open>None\<close>. The results keep a prefix and a suffix of the text whose bytes
  fit the budget, and the number in the marker is exact.
\<close>

section \<open>Truncating a string\<close>

definition APPROX_BYTES_PER_TOKEN :: nat where
  "APPROX_BYTES_PER_TOKEN = 4"

definition approx_token_count :: "str \<Rightarrow> nat" where
  "approx_token_count text = sat_add (byte_len text) (APPROX_BYTES_PER_TOKEN - 1) div APPROX_BYTES_PER_TOKEN"

definition approx_bytes_for_tokens :: "nat \<Rightarrow> nat" where
  "approx_bytes_for_tokens tokens = min (tokens * APPROX_BYTES_PER_TOKEN) usize_max"

definition approx_tokens_from_byte_count :: "nat \<Rightarrow> nat" where
  "approx_tokens_from_byte_count bytes = sat_add bytes (APPROX_BYTES_PER_TOKEN - 1) div APPROX_BYTES_PER_TOKEN"

text \<open>\<open>s.split_at(n)\<close>, that is the slices up to and from byte \<open>n\<close>.\<close>

fun split_at_byte :: "nat \<Rightarrow> str \<Rightarrow> (str \<times> str) option" where
  "split_at_byte n [] = (if n = 0 then Some ([], []) else None)"
| "split_at_byte n (c # s) =
     (if n = 0 then Some ([], c # s)
      else if n < length (utf8_char c) then None
      else map_option (\<lambda>(p, q). (c # p, q)) (split_at_byte (n - length (utf8_char c)) s))"

fun char_indices :: "nat \<Rightarrow> str \<Rightarrow> (nat \<times> uchar) list" where
  "char_indices idx [] = []"
| "char_indices idx (c # s) = (idx, c) # char_indices (idx + length (utf8_char c)) s"

record split_state =
  prefix_end :: nat
  suffix_start :: nat
  removed_chars :: nat
  suffix_started :: bool

definition split_step :: "nat \<Rightarrow> nat \<Rightarrow> nat \<times> uchar \<Rightarrow> split_state \<Rightarrow> split_state" where
  "split_step beginning_bytes tail_start_target x st =
     (case x of (idx, ch) \<Rightarrow>
        let char_end = idx + length (utf8_char ch) in
        if char_end \<le> beginning_bytes then st\<lparr>prefix_end := char_end\<rparr>
        else if tail_start_target \<le> idx then
          (if \<not> suffix_started st then st\<lparr>suffix_start := idx, suffix_started := True\<rparr> else st)
        else st\<lparr>removed_chars := sat_add (removed_chars st) 1\<rparr>)"

definition split_string :: "str \<Rightarrow> nat \<Rightarrow> nat \<Rightarrow> (nat \<times> str \<times> str) option" where
  "split_string s beginning_bytes end_bytes =
     (if s = [] then Some (0, [], [])
      else let len = byte_len s;
               tail_start_target = len - end_bytes;
               st = fold (split_step beginning_bytes tail_start_target) (char_indices 0 s)
                      \<lparr>prefix_end = 0, suffix_start = len, removed_chars = 0, suffix_started = False\<rparr>;
               start = (if suffix_start st < prefix_end st then prefix_end st else suffix_start st)
           in Option.bind (split_at_byte (prefix_end st) s) (\<lambda>(before, _).
              Option.bind (split_at_byte start s) (\<lambda>(_, after).
              Some (removed_chars st, before, after))))"

definition split_budget :: "nat \<Rightarrow> nat \<times> nat" where
  "split_budget budget = (let left = budget div 2 in (left, budget - left))"

definition format_truncation_marker :: "bool \<Rightarrow> nat \<Rightarrow> str" where
  "format_truncation_marker use_tokens removed_count =
     [0x2026] @ show_nat removed_count @ (if use_tokens then lit '' tokens truncated'' else lit '' chars truncated'') @ [0x2026]"

definition removed_units :: "bool \<Rightarrow> nat \<Rightarrow> nat \<Rightarrow> nat" where
  "removed_units use_tokens removed_bytes removed =
     (if use_tokens then approx_tokens_from_byte_count removed_bytes else removed)"

definition assemble_truncated_output :: "str \<Rightarrow> str \<Rightarrow> str \<Rightarrow> str" where
  "assemble_truncated_output before after marker = before @ marker @ after"

definition truncate_with_byte_estimate :: "str \<Rightarrow> nat \<Rightarrow> bool \<Rightarrow> str option" where
  "truncate_with_byte_estimate s max_bytes use_tokens =
     (if s = [] then Some []
      else if max_bytes = 0 then
        Some (format_truncation_marker use_tokens (removed_units use_tokens (byte_len s) (length s)))
      else if byte_len s \<le> max_bytes then Some s
      else case split_budget max_bytes of (left_budget, right_budget) \<Rightarrow>
        map_option (\<lambda>(removed, left, right).
            assemble_truncated_output left right
              (format_truncation_marker use_tokens (removed_units use_tokens (byte_len s - max_bytes) removed)))
          (split_string s left_budget right_budget))"

definition truncate_middle_chars :: "str \<Rightarrow> nat \<Rightarrow> str option" where
  "truncate_middle_chars s max_bytes = truncate_with_byte_estimate s max_bytes False"

definition truncate_middle_with_token_budget :: "str \<Rightarrow> nat \<Rightarrow> (str \<times> nat option) option" where
  "truncate_middle_with_token_budget s max_tokens =
     (if s = [] then Some ([], None)
      else if 0 < max_tokens \<and> byte_len s \<le> approx_bytes_for_tokens max_tokens then Some (s, None)
      else map_option (\<lambda>truncated. (truncated, if truncated = s then None else Some (approx_token_count s)))
             (truncate_with_byte_estimate s (approx_bytes_for_tokens max_tokens) True))"

section \<open>Policies and tool output\<close>

datatype truncation_policy = Bytes nat | Tokens nat

fun token_budget :: "truncation_policy \<Rightarrow> nat" where
  "token_budget (Bytes bytes) = approx_tokens_from_byte_count bytes"
| "token_budget (Tokens tokens) = tokens"

fun byte_budget :: "truncation_policy \<Rightarrow> nat" where
  "byte_budget (Bytes bytes) = bytes"
| "byte_budget (Tokens tokens) = approx_bytes_for_tokens tokens"

fun truncate_text :: "str \<Rightarrow> truncation_policy \<Rightarrow> str option" where
  "truncate_text content (Bytes bytes) = truncate_middle_chars content bytes"
| "truncate_text content (Tokens tokens) = map_option fst (truncate_middle_with_token_budget content tokens)"

definition formatted_truncate_text :: "str \<Rightarrow> truncation_policy \<Rightarrow> str option" where
  "formatted_truncate_text content policy =
     (if byte_len content \<le> byte_budget policy then Some content
      else map_option (\<lambda>result.
          lit ''Warning: truncated output (original token count: '' @ show_nat (approx_token_count content) @
          lit '')'' @ [10] @ lit ''Total output lines: '' @ show_nat (length (str_lines content)) @ [10, 10] @ result)
        (truncate_text content policy))"

datatype image_detail = Auto | Low | High | Original

datatype content_item =
    InputText str
  | InputImage str "image_detail option"
  | InputAudio str
  | EncryptedContent str

datatype output_body = Text str | ContentItems "content_item list"

record output_payload =
  body :: output_body
  success :: "bool option"

fun item_text :: "content_item \<Rightarrow> str option" where
  "item_text (InputText t) = Some t"
| "item_text _ = None"

text \<open>The texts joined with newlines, none before the first non-empty one.\<close>

definition push_text_segment :: "str \<Rightarrow> str \<Rightarrow> str" where
  "push_text_segment combined text = (if combined \<noteq> [] then combined @ [10] else combined) @ text"

definition formatted_truncate_text_content_items_with_policy ::
  "content_item list \<Rightarrow> truncation_policy \<Rightarrow> (content_item list \<times> nat option) option" where
  "formatted_truncate_text_content_items_with_policy items policy =
     (let text_segments = List.map_filter item_text items in
      if text_segments = [] then Some (items, None)
      else let combined = fold (\<lambda>text c. push_text_segment c text) text_segments [] in
        if byte_len combined \<le> byte_budget policy then Some (items, None)
        else map_option (\<lambda>t. (InputText t # filter (\<lambda>i. item_text i = None) items, Some (approx_token_count combined)))
               (formatted_truncate_text combined policy))"

record items_state =
  it_out :: "content_item list"
  it_remaining :: nat
  it_omitted_text :: nat
  it_omitted_audio :: nat

fun text_cost :: "truncation_policy \<Rightarrow> str \<Rightarrow> nat" where
  "text_cost (Bytes _) t = byte_len t"
| "text_cost (Tokens _) t = approx_token_count t"

fun audio_cost :: "truncation_policy \<Rightarrow> (str \<Rightarrow> nat) \<Rightarrow> str \<Rightarrow> nat" where
  "audio_cost (Bytes _) estimate url = approx_bytes_for_tokens (estimate url)"
| "audio_cost (Tokens _) estimate url = estimate url"

fun with_budget :: "truncation_policy \<Rightarrow> nat \<Rightarrow> truncation_policy" where
  "with_budget (Bytes _) n = Bytes n"
| "with_budget (Tokens _) n = Tokens n"

fun policy_budget :: "truncation_policy \<Rightarrow> nat" where
  "policy_budget (Bytes n) = byte_budget (Bytes n)"
| "policy_budget (Tokens n) = token_budget (Tokens n)"

fun push_item :: "truncation_policy \<Rightarrow> (str \<Rightarrow> nat) \<Rightarrow> content_item \<Rightarrow> items_state \<Rightarrow> items_state option" where
  "push_item policy estimate (InputText text) st =
     (if text = [] then Some st
      else if it_remaining st = 0 then Some (st\<lparr>it_omitted_text := it_omitted_text st + 1\<rparr>)
      else let cost = text_cost policy text in
        if cost \<le> it_remaining st
        then Some (st\<lparr>it_out := it_out st @ [InputText text], it_remaining := it_remaining st - cost\<rparr>)
        else map_option (\<lambda>snippet.
               (if snippet = [] then st\<lparr>it_omitted_text := it_omitted_text st + 1\<rparr>
                else st\<lparr>it_out := it_out st @ [InputText snippet]\<rparr>)\<lparr>it_remaining := 0\<rparr>)
             (truncate_text text (with_budget policy (it_remaining st))))"
| "push_item policy estimate (InputImage url detail) st = Some (st\<lparr>it_out := it_out st @ [InputImage url detail]\<rparr>)"
| "push_item policy estimate (InputAudio url) st =
     (let cost = audio_cost policy estimate url in
      if cost \<le> it_remaining st
      then Some (st\<lparr>it_out := it_out st @ [InputAudio url], it_remaining := it_remaining st - cost\<rparr>)
      else Some (st\<lparr>it_omitted_audio := it_omitted_audio st + 1\<rparr>))"
| "push_item policy estimate (EncryptedContent c) st = Some (st\<lparr>it_out := it_out st @ [EncryptedContent c]\<rparr>)"

fun push_items ::
  "truncation_policy \<Rightarrow> (str \<Rightarrow> nat) \<Rightarrow> content_item list \<Rightarrow> items_state \<Rightarrow> items_state option" where
  "push_items policy estimate [] st = Some st"
| "push_items policy estimate (i # is) st = Option.bind (push_item policy estimate i st) (push_items policy estimate is)"

definition omitted_note :: "nat \<Rightarrow> str \<Rightarrow> content_item list" where
  "omitted_note n what =
     (if 0 < n then [InputText (lit ''[omitted '' @ show_nat n @ what @ lit '' items ...]'')] else [])"

definition truncate_function_output_items_with_policy ::
  "content_item list \<Rightarrow> truncation_policy \<Rightarrow> (str \<Rightarrow> nat) \<Rightarrow> content_item list option" where
  "truncate_function_output_items_with_policy items policy estimate =
     map_option (\<lambda>st. it_out st @ omitted_note (it_omitted_text st) (lit '' text'') @
                       omitted_note (it_omitted_audio st) (lit '' audio''))
       (push_items policy estimate items
         \<lparr>it_out = [], it_remaining = policy_budget policy, it_omitted_text = 0, it_omitted_audio = 0\<rparr>)"

definition truncate_function_output_payload ::
  "output_payload \<Rightarrow> truncation_policy \<Rightarrow> (str \<Rightarrow> nat) \<Rightarrow> output_payload option" where
  "truncate_function_output_payload output policy estimate =
     (case body output of
        Text text \<Rightarrow> map_option (\<lambda>t. output\<lparr>body := Text t\<rparr>) (truncate_text text policy)
      | ContentItems items \<Rightarrow>
          map_option (\<lambda>is. output\<lparr>body := ContentItems is\<rparr>)
            (truncate_function_output_items_with_policy items policy estimate))"

section \<open>Splitting\<close>

lemma split_at_byte_append [simp]: "split_at_byte (byte_len p) (p @ q) = Some (p, q)"
proof (induction p)
  case Nil
  show ?case by (cases q) simp_all
next
  case (Cons c p)
  then show ?case by simp
qed

text \<open>No character of the rest fits the prefix.\<close>

definition nofit :: "nat \<Rightarrow> nat \<Rightarrow> str \<Rightarrow> bool" where
  "nofit b idx s \<longleftrightarrow> s = [] \<or> b < idx + length (utf8_char (hd s))"

lemma nofit_Cons [simp]: "nofit b idx (c # s) \<longleftrightarrow> b < idx + length (utf8_char c)"
  by (simp add: nofit_def)

lemma nofit_later: "nofit b idx (c # s) \<Longrightarrow> nofit b (idx + length (utf8_char c)) s"
  by (auto simp: nofit_def)

lemma fold_suffix:
  assumes "suffix_started st" "t \<le> idx" "nofit b idx s"
  shows "fold (split_step b t) (char_indices idx s) st = st"
  using assms
proof (induction s arbitrary: idx)
  case (Cons c s)
  have "split_step b t (idx, c) st = st" using Cons.prems by (simp add: split_step_def Let_def)
  moreover have "fold (split_step b t) (char_indices (idx + length (utf8_char c)) s) st = st"
    using Cons.prems nofit_later by (intro Cons.IH) simp_all
  ultimately show ?case by simp
qed simp

definition middle_of :: "nat \<Rightarrow> nat \<Rightarrow> str \<Rightarrow> str \<Rightarrow> bool" where
  "middle_of t idx mid q \<longleftrightarrow> (q \<noteq> [] \<longrightarrow> t \<le> idx + byte_len mid) \<and> (mid \<noteq> [] \<longrightarrow> idx + byte_len (butlast mid) < t)"

lemma fold_middle:
  assumes "nofit b idx s" "\<not> suffix_started st" "suffix_start st = idx + byte_len s" "removed_chars st \<le> usize_max"
  shows "\<exists>mid q. s = mid @ q \<and> middle_of t idx mid q \<and>
    fold (split_step b t) (char_indices idx s) st =
      st\<lparr>suffix_start := idx + byte_len mid, suffix_started := (q \<noteq> []),
         removed_chars := min (removed_chars st + length mid) usize_max\<rparr>"
  using assms
proof (induction s arbitrary: idx st)
  case Nil
  then show ?case by (intro exI [of _ "[]"]) (simp add: middle_of_def)
next
  case (Cons c s)
  let ?i = "idx + length (utf8_char c)"
  show ?case
  proof (cases "t \<le> idx")
    case True
    have "split_step b t (idx, c) st = st\<lparr>suffix_start := idx, suffix_started := True\<rparr>"
      using Cons.prems True by (simp add: split_step_def Let_def)
    then have "fold (split_step b t) (char_indices idx (c # s)) st = st\<lparr>suffix_start := idx, suffix_started := True\<rparr>"
      using True fold_suffix [of _ t ?i b s] nofit_later [OF Cons.prems(1)] by simp
    then show ?thesis using True Cons.prems(4)
      by (intro exI [of _ "[]"] exI [of _ "c # s"]) (simp add: middle_of_def)
  next
    case False
    let ?st = "st\<lparr>removed_chars := sat_add (removed_chars st) 1\<rparr>"
    have step: "split_step b t (idx, c) st = ?st"
      using Cons.prems False by (simp add: split_step_def Let_def)
    have "\<exists>mid q. s = mid @ q \<and> middle_of t ?i mid q \<and> fold (split_step b t) (char_indices ?i s) ?st =
        ?st\<lparr>suffix_start := ?i + byte_len mid, suffix_started := (q \<noteq> []),
           removed_chars := min (removed_chars ?st + length mid) usize_max\<rparr>"
      using Cons.prems nofit_later [OF Cons.prems(1)] by (intro Cons.IH) (simp_all add: sat_add_def)
    then obtain mid q where m: "s = mid @ q" "middle_of t ?i mid q" and
      f: "fold (split_step b t) (char_indices ?i s) ?st = ?st\<lparr>suffix_start := ?i + byte_len mid,
         suffix_started := (q \<noteq> []), removed_chars := min (removed_chars ?st + length mid) usize_max\<rparr>" by blast
    have r: "min (sat_add (removed_chars st) 1 + length mid) usize_max = min (removed_chars st + length (c # mid)) usize_max"
      by (auto simp: sat_add_def min_def)
    have "middle_of t idx (c # mid) q" using m(2) False by (auto simp: middle_of_def)
    then show ?thesis using m(1) f r step
      by (intro exI [of _ "c # mid"] exI [of _ q]) simp
  qed
qed

lemma fold_prefix:
  assumes "prefix_end st = idx" "idx \<le> b" "\<not> suffix_started st" "suffix_start st = idx + byte_len s" "removed_chars st = 0"
  shows "\<exists>p mid q. s = p @ mid @ q \<and> idx + byte_len p \<le> b \<and> nofit b (idx + byte_len p) (mid @ q) \<and>
    middle_of t (idx + byte_len p) mid q \<and>
    fold (split_step b t) (char_indices idx s) st =
      \<lparr>prefix_end = idx + byte_len p, suffix_start = idx + byte_len (p @ mid),
       removed_chars = min (length mid) usize_max, suffix_started = (q \<noteq> [])\<rparr>"
  using assms
proof (induction s arbitrary: idx st)
  case Nil
  then show ?case by (intro exI [of _ "[]"]) (simp add: nofit_def middle_of_def)
next
  case (Cons c s)
  let ?i = "idx + length (utf8_char c)"
  show ?case
  proof (cases "?i \<le> b")
    case True
    let ?st = "st\<lparr>prefix_end := ?i\<rparr>"
    have step: "split_step b t (idx, c) st = ?st" using True by (simp add: split_step_def Let_def)
    have "\<exists>p mid q. s = p @ mid @ q \<and> ?i + byte_len p \<le> b \<and> nofit b (?i + byte_len p) (mid @ q) \<and>
        middle_of t (?i + byte_len p) mid q \<and> fold (split_step b t) (char_indices ?i s) ?st =
          \<lparr>prefix_end = ?i + byte_len p, suffix_start = ?i + byte_len (p @ mid),
           removed_chars = min (length mid) usize_max, suffix_started = (q \<noteq> [])\<rparr>"
      using Cons.prems True by (intro Cons.IH) simp_all
    then obtain p mid q where "s = p @ mid @ q" "?i + byte_len p \<le> b" "nofit b (?i + byte_len p) (mid @ q)"
      "middle_of t (?i + byte_len p) mid q" "fold (split_step b t) (char_indices ?i s) ?st =
          \<lparr>prefix_end = ?i + byte_len p, suffix_start = ?i + byte_len (p @ mid),
           removed_chars = min (length mid) usize_max, suffix_started = (q \<noteq> [])\<rparr>" by blast
    then show ?thesis using step
      by (intro exI [of _ "c # p"] exI [of _ mid] exI [of _ q]) (simp add: add.assoc)
  next
    case False
    then have nf: "nofit b idx (c # s)" by simp
    obtain mid q where "c # s = mid @ q" "middle_of t idx mid q" "fold (split_step b t) (char_indices idx (c # s)) st =
        st\<lparr>suffix_start := idx + byte_len mid, suffix_started := (q \<noteq> []),
           removed_chars := min (removed_chars st + length mid) usize_max\<rparr>"
      using fold_middle [OF nf Cons.prems(3,4), of t] Cons.prems(5) by (metis zero_le)
    then show ?thesis using nf Cons.prems
      by (intro exI [of _ "[]"] exI [of _ mid] exI [of _ q]) (cases st, simp)
  qed
qed

text \<open>
  The two kept parts are the longest prefix and suffix that fit their budgets, and the slices are
  taken at character boundaries.
\<close>

lemma split_string_ok:
  "\<exists>p mid q. s = p @ mid @ q \<and> split_string s b e = Some (min (length mid) usize_max, p, q) \<and>
     byte_len p \<le> b \<and> byte_len q \<le> e \<and>
     (mid \<noteq> [] \<longrightarrow> b < byte_len (p @ [hd mid]) \<and> e < byte_len (last mid # q))"
proof (cases "s = []")
  case True
  then show ?thesis by (intro exI [of _ "[]"]) (simp add: split_string_def)
next
  case False
  let ?t = "byte_len s - e"
  let ?st = "\<lparr>prefix_end = 0, suffix_start = byte_len s, removed_chars = 0, suffix_started = False\<rparr>"
  obtain p mid q where s: "s = p @ mid @ q" and b: "byte_len p \<le> b" and nf: "nofit b (byte_len p) (mid @ q)"
    and m: "middle_of ?t (byte_len p) mid q"
    and f: "fold (split_step b ?t) (char_indices 0 s) ?st =
      \<lparr>prefix_end = byte_len p, suffix_start = byte_len (p @ mid), removed_chars = min (length mid) usize_max,
       suffix_started = (q \<noteq> [])\<rparr>"
    using fold_prefix [of ?st 0 b s ?t] by auto
  have "split_at_byte (byte_len p) s = Some (p, mid @ q)" "split_at_byte (byte_len (p @ mid)) s = Some (p @ mid, q)"
    using split_at_byte_append [of p "mid @ q"] split_at_byte_append [of "p @ mid" q] s by simp_all
  then have run: "split_string s b e = Some (min (length mid) usize_max, p, q)"
    using False unfolding split_string_def Let_def f by simp
  have q: "byte_len q \<le> e" using m s by (cases "q = []") (auto simp: middle_of_def)
  have "b < byte_len (p @ [hd mid]) \<and> e < byte_len (last mid # q)" if "mid \<noteq> []"
  proof -
    have "mid = butlast mid @ [last mid]" using that by simp
    then have "byte_len mid = byte_len (butlast mid) + byte_len [last mid]" by (metis byte_len_simps(3))
    then show ?thesis using that nf m s by (auto simp: nofit_def middle_of_def)
  qed
  then show ?thesis using s run b q by blast
qed

text \<open>What a truncation to \<open>n\<close> bytes may return for \<open>s\<close>.\<close>

definition truncation_of :: "bool \<Rightarrow> nat \<Rightarrow> str \<Rightarrow> str \<Rightarrow> bool" where
  "truncation_of use_tokens n s r \<longleftrightarrow>
     (if s = [] \<or> 0 < n \<and> byte_len s \<le> n then r = s
      else \<exists>p mid q. s = p @ mid @ q \<and> mid \<noteq> [] \<and> byte_len p \<le> n div 2 \<and> byte_len q \<le> n - n div 2 \<and>
        (0 < n \<longrightarrow> n div 2 < byte_len (p @ [hd mid]) \<and> n - n div 2 < byte_len (last mid # q)) \<and>
        r = p @ format_truncation_marker use_tokens
               (if use_tokens then approx_tokens_from_byte_count (byte_len s - n) else min (length mid) usize_max) @ q)"

lemma truncation_ofI:
  assumes cut: "s \<noteq> []" "0 < n" "n < byte_len s" and parts: "s = p @ mid @ q" "mid \<noteq> []"
    "byte_len p \<le> n div 2" "byte_len q \<le> n - n div 2"
    "n div 2 < byte_len (p @ [hd mid])" "n - n div 2 < byte_len (last mid # q)"
    and r: "r = p @ format_truncation_marker use_tokens
      (if use_tokens then approx_tokens_from_byte_count (byte_len s - n) else min (length mid) usize_max) @ q"
  shows "truncation_of use_tokens n s r"
proof -
  have no: "\<not> (s = [] \<or> 0 < n \<and> byte_len s \<le> n)" using cut by simp
  show ?thesis unfolding truncation_of_def if_not_P [OF no]
    by (intro exI [of _ p] exI [of _ mid] exI [of _ q] conjI impI parts r)
qed

lemma truncate_with_byte_estimate_ok:
  assumes "length s \<le> usize_max"
  shows "\<exists>r. truncate_with_byte_estimate s n use_tokens = Some r \<and> truncation_of use_tokens n s r"
proof -
  consider "s = []" | "s \<noteq> []" "n = 0" | "s \<noteq> []" "0 < n" "byte_len s \<le> n" | "s \<noteq> []" "0 < n" "n < byte_len s" by linarith
  then show ?thesis
  proof cases
    case 2
    then show ?thesis using assms
      by (auto simp: truncate_with_byte_estimate_def truncation_of_def removed_units_def
          intro!: exI [of _ "[]"] exI [of _ s])
  next
    case 4
    obtain p mid q where s: "s = p @ mid @ q"
      and run: "split_string s (n div 2) (n - n div 2) = Some (min (length mid) usize_max, p, q)"
      and le: "byte_len p \<le> n div 2" "byte_len q \<le> n - n div 2"
      and max: "mid \<noteq> [] \<longrightarrow> n div 2 < byte_len (p @ [hd mid]) \<and> n - n div 2 < byte_len (last mid # q)"
      using split_string_ok [of s "n div 2" "n - n div 2"] by blast
    have "mid \<noteq> []" using 4 s le by auto
    let ?r = "p @ format_truncation_marker use_tokens
        (if use_tokens then approx_tokens_from_byte_count (byte_len s - n) else min (length mid) usize_max) @ q"
    have "truncate_with_byte_estimate s n use_tokens = Some ?r" using 4 run
      by (simp add: truncate_with_byte_estimate_def removed_units_def split_budget_def Let_def assemble_truncated_output_def)
    moreover have "truncation_of use_tokens n s ?r" using 4 s le max \<open>mid \<noteq> []\<close>
      by (intro truncation_ofI [OF _ _ _ s]) (simp_all only: simp_thms)
    ultimately show ?thesis by blast
  qed (auto simp: truncate_with_byte_estimate_def truncation_of_def)
qed

fun uses_tokens :: "truncation_policy \<Rightarrow> bool" where
  "uses_tokens (Bytes _) = False"
| "uses_tokens (Tokens _) = True"

lemma truncate_text_ok:
  assumes "length s \<le> usize_max"
  shows "\<exists>r. truncate_text s policy = Some r \<and> truncation_of (uses_tokens policy) (byte_budget policy) s r"
proof (cases policy)
  case (Bytes n)
  then show ?thesis using truncate_with_byte_estimate_ok [OF assms, of n False] by (simp add: truncate_middle_chars_def)
next
  case (Tokens n)
  have pos: "0 < approx_bytes_for_tokens n" if "0 < n"
    using that by (simp add: approx_bytes_for_tokens_def APPROX_BYTES_PER_TOKEN_def usize_max_def)
  obtain r where "truncate_with_byte_estimate s (approx_bytes_for_tokens n) True = Some r"
    "truncation_of True (approx_bytes_for_tokens n) s r"
    using truncate_with_byte_estimate_ok [OF assms] by blast
  then show ?thesis using Tokens pos
    by (cases "s = [] \<or> 0 < n \<and> byte_len s \<le> approx_bytes_for_tokens n")
      (auto simp: truncate_middle_with_token_budget_def truncation_of_def)
qed

lemma truncation_of_not_Nil: "truncation_of use_tokens n s r \<Longrightarrow> s \<noteq> [] \<Longrightarrow> r \<noteq> []"
  by (auto simp: truncation_of_def format_truncation_marker_def split: if_splits)

section \<open>Budgets of tool output\<close>

fun item_cost :: "truncation_policy \<Rightarrow> (str \<Rightarrow> nat) \<Rightarrow> content_item \<Rightarrow> nat" where
  "item_cost policy estimate (InputText t) = text_cost policy t"
| "item_cost policy estimate (InputAudio u) = audio_cost policy estimate u"
| "item_cost policy estimate _ = 0"

definition total_cost :: "truncation_policy \<Rightarrow> (str \<Rightarrow> nat) \<Rightarrow> content_item list \<Rightarrow> nat" where
  "total_cost policy estimate is = sum_list (map (item_cost policy estimate) is)"

lemma total_cost_simps [simp]:
  "total_cost policy estimate [] = 0"
  "total_cost policy estimate (i # is) = item_cost policy estimate i + total_cost policy estimate is"
  "total_cost policy estimate (is @ is') = total_cost policy estimate is + total_cost policy estimate is'"
  by (simp_all add: total_cost_def)

definition item_ok :: "content_item \<Rightarrow> bool" where
  "item_ok i \<longleftrightarrow> (case i of InputText t \<Rightarrow> length t \<le> usize_max | _ \<Rightarrow> True)"

text \<open>
  The output is a subsequence of the items in which at most one text is replaced by its
  truncation to the budget that was left.
\<close>

definition within_budget ::
  "truncation_policy \<Rightarrow> (str \<Rightarrow> nat) \<Rightarrow> content_item list \<Rightarrow> content_item list \<Rightarrow> str list \<Rightarrow> str list \<Rightarrow>
   content_item list \<Rightarrow> bool" where
  "within_budget policy estimate items before ts rs after \<longleftrightarrow>
     subseq (before @ map InputText ts @ after) items \<and> length ts \<le> 1 \<and>
     list_all2 (truncation_of (uses_tokens policy)
       (byte_budget (with_budget policy (policy_budget policy - total_cost policy estimate before)))) ts rs \<and>
     total_cost policy estimate (before @ after) \<le> policy_budget policy"

definition items_inv :: "truncation_policy \<Rightarrow> (str \<Rightarrow> nat) \<Rightarrow> content_item list \<Rightarrow> items_state \<Rightarrow> bool" where
  "items_inv policy estimate items st \<longleftrightarrow>
     (\<exists>before ts rs after. it_out st = before @ map InputText rs @ after \<and>
        within_budget policy estimate items before ts rs after \<and>
        (if ts = [] then after = [] \<and> total_cost policy estimate before + it_remaining st = policy_budget policy
         else it_remaining st = 0))"

lemma items_inv_keep:
  assumes "items_inv policy estimate items st" "item_cost policy estimate i \<le> it_remaining st"
  shows "items_inv policy estimate (items @ [i])
    (st\<lparr>it_out := it_out st @ [i], it_remaining := it_remaining st - item_cost policy estimate i\<rparr>)"
proof -
  obtain before ts rs after where o: "it_out st = before @ map InputText rs @ after"
    and w: "within_budget policy estimate items before ts rs after"
    and r: "if ts = [] then after = [] \<and> total_cost policy estimate before + it_remaining st = policy_budget policy
      else it_remaining st = 0"
    using assms(1) unfolding items_inv_def by blast
  show ?thesis
  proof (cases "ts = []")
    case True
    then have "rs = []" using w by (simp add: within_budget_def)
    then have "within_budget policy estimate (items @ [i]) (before @ [i]) [] [] []"
      using True w r assms(2) by (auto simp: within_budget_def intro: list_emb_append_mono)
    then show ?thesis using True o r assms(2) \<open>rs = []\<close>
      unfolding items_inv_def by (intro exI [of _ "before @ [i]"] exI [of _ "[]"]) simp
  next
    case False
    have "subseq ((before @ map InputText ts @ after) @ [i]) (items @ [i])"
      using w by (intro list_emb_append_mono) (simp_all add: within_budget_def)
    then have "within_budget policy estimate (items @ [i]) before ts rs (after @ [i])"
      using w False r assms(2) by (simp add: within_budget_def)
    then show ?thesis using False o r
      unfolding items_inv_def by (intro exI [of _ before] exI [of _ ts] exI [of _ rs] exI [of _ "after @ [i]"]) simp
  qed
qed

lemma items_inv_skip:
  assumes "items_inv policy estimate items st" "it_out st' = it_out st" "it_remaining st' = it_remaining st"
  shows "items_inv policy estimate (items @ [i]) st'"
proof -
  have "within_budget policy estimate (items @ [i]) before ts rs after"
    if "within_budget policy estimate items before ts rs after" for before ts rs after
    using that unfolding within_budget_def by (blast intro: list_emb_prefix)
  then show ?thesis using assms(1) unfolding items_inv_def assms(2,3) by meson
qed

lemma items_inv_snippet:
  assumes "items_inv policy estimate items st" "0 < it_remaining st"
    "truncation_of (uses_tokens policy) (byte_budget (with_budget policy (it_remaining st))) t r"
  shows "items_inv policy estimate (items @ [InputText t]) (st\<lparr>it_out := it_out st @ [InputText r], it_remaining := 0\<rparr>)"
proof -
  obtain before where o: "it_out st = before" and w: "within_budget policy estimate items before [] [] []"
    and r: "total_cost policy estimate before + it_remaining st = policy_budget policy"
    using assms(1,2) unfolding items_inv_def by (fastforce simp: within_budget_def split: if_splits)
  have "it_remaining st = policy_budget policy - total_cost policy estimate before" using r by simp
  then have "within_budget policy estimate (items @ [InputText t]) before [t] [r] []"
    using w assms(3) by (auto simp: within_budget_def intro: list_emb_append_mono)
  then show ?thesis using o unfolding items_inv_def
    by (intro exI [of _ before] exI [of _ "[t]"] exI [of _ "[r]"] exI [of _ "[]"]) simp
qed

text \<open>What is left out is counted, and images and encrypted items are all kept.\<close>

fun is_media :: "content_item \<Rightarrow> bool" where
  "is_media (InputImage _ _) = True"
| "is_media (EncryptedContent _) = True"
| "is_media _ = False"

fun is_audio :: "content_item \<Rightarrow> bool" where
  "is_audio (InputAudio _) = True"
| "is_audio _ = False"

fun is_text :: "content_item \<Rightarrow> bool" where
  "is_text (InputText t) = (t \<noteq> [])"
| "is_text _ = False"

definition accounted :: "content_item list \<Rightarrow> content_item list \<Rightarrow> nat \<Rightarrow> nat \<Rightarrow> bool" where
  "accounted items out texts audios \<longleftrightarrow>
     filter is_media out = filter is_media items \<and>
     length (filter is_text out) + texts = length (filter is_text items) \<and>
     length (filter is_audio out) + audios = length (filter is_audio items)"

lemma push_item_text_ok:
  assumes inv: "items_inv policy estimate items st" and acc: "accounted items (it_out st) (it_omitted_text st) (it_omitted_audio st)"
    and ok: "length t \<le> usize_max"
  shows "\<exists>st'. push_item policy estimate (InputText t) st = Some st' \<and>
    items_inv policy estimate (items @ [InputText t]) st' \<and>
    accounted (items @ [InputText t]) (it_out st') (it_omitted_text st') (it_omitted_audio st')"
proof -
  consider "t = []" | "t \<noteq> []" "it_remaining st = 0" | "t \<noteq> []" "0 < it_remaining st" "text_cost policy t \<le> it_remaining st"
    | "t \<noteq> []" "0 < it_remaining st" "it_remaining st < text_cost policy t" by linarith
  then show ?thesis
  proof cases
    case 1
    then show ?thesis using items_inv_skip [OF inv refl refl] acc by (simp add: accounted_def)
  next
    case 2
    then show ?thesis using items_inv_skip [OF inv, of "st\<lparr>it_omitted_text := it_omitted_text st + 1\<rparr>"] acc
      by (simp add: accounted_def)
  next
    case 3
    then show ?thesis using items_inv_keep [OF inv, of "InputText t"] acc by (simp add: accounted_def Let_def)
  next
    case 4
    obtain r where r: "truncate_text t (with_budget policy (it_remaining st)) = Some r"
      "truncation_of (uses_tokens policy) (byte_budget (with_budget policy (it_remaining st))) t r"
      using truncate_text_ok [OF ok, of "with_budget policy (it_remaining st)"] by (cases policy) auto
    have "r \<noteq> []" using truncation_of_not_Nil [OF r(2)] 4 by simp
    then show ?thesis using 4 r(1) items_inv_snippet [OF inv 4(2) r(2)] acc by (simp add: accounted_def Let_def)
  qed
qed

lemma push_item_ok:
  assumes inv: "items_inv policy estimate items st" and acc: "accounted items (it_out st) (it_omitted_text st) (it_omitted_audio st)"
    and ok: "item_ok i"
  shows "\<exists>st'. push_item policy estimate i st = Some st' \<and> items_inv policy estimate (items @ [i]) st' \<and>
    accounted (items @ [i]) (it_out st') (it_omitted_text st') (it_omitted_audio st')"
proof (cases i)
  case (InputText t)
  then show ?thesis using push_item_text_ok [OF inv acc] ok by (simp add: item_ok_def)
next
  case (InputAudio u)
  then show ?thesis
    using items_inv_keep [OF inv, of i] items_inv_skip [OF inv, of "st\<lparr>it_omitted_audio := it_omitted_audio st + 1\<rparr>" i] acc
    by (auto simp: accounted_def Let_def)
qed (use items_inv_keep [OF inv, of i] acc in \<open>simp_all add: accounted_def\<close>)

lemma push_items_ok:
  assumes "items_inv policy estimate items st" "accounted items (it_out st) (it_omitted_text st) (it_omitted_audio st)"
    "list_all item_ok is"
  shows "\<exists>st'. push_items policy estimate is st = Some st' \<and> items_inv policy estimate (items @ is) st' \<and>
    accounted (items @ is) (it_out st') (it_omitted_text st') (it_omitted_audio st')"
  using assms
proof (induction "is" arbitrary: items st)
  case (Cons i "is")
  obtain st1 where s: "push_item policy estimate i st = Some st1" "items_inv policy estimate (items @ [i]) st1"
    "accounted (items @ [i]) (it_out st1) (it_omitted_text st1) (it_omitted_audio st1)"
    using push_item_ok [OF Cons.prems(1,2)] Cons.prems(3) by auto
  then show ?case using Cons.IH [OF s(2,3)] Cons.prems(3) by simp
qed simp

lemma items_start:
  "items_inv policy estimate [] \<lparr>it_out = [], it_remaining = policy_budget policy, it_omitted_text = 0, it_omitted_audio = 0\<rparr>"
  unfolding items_inv_def within_budget_def by (intro exI [of _ "[]"]) simp

text \<open>
  C26. Truncating a text never panics on a character boundary. A text within the budget is returned as
  it is. A longer one keeps the longest prefix that fits half the budget and the longest suffix
  that fits the other half, both at character boundaries, around a marker whose number is the
  exact number of characters left out, or of tokens over the budget.
\<close>
theorem truncate_text_correct:
  assumes "length s \<le> usize_max"
  shows "\<exists>r. truncate_text s policy = Some r \<and>
    (if s = [] \<or> 0 < byte_budget policy \<and> byte_len s \<le> byte_budget policy then r = s
     else \<exists>p mid q. s = p @ mid @ q \<and> mid \<noteq> [] \<and>
       byte_len p \<le> byte_budget policy div 2 \<and> byte_len q \<le> byte_budget policy - byte_budget policy div 2 \<and>
       (0 < byte_budget policy \<longrightarrow>
          byte_budget policy div 2 < byte_len (p @ [hd mid]) \<and>
          byte_budget policy - byte_budget policy div 2 < byte_len (last mid # q)) \<and>
       r = p @ format_truncation_marker (uses_tokens policy)
             (if uses_tokens policy then approx_tokens_from_byte_count (byte_len s - byte_budget policy)
              else min (length mid) usize_max) @ q)"
  using truncate_text_ok [OF assms] unfolding truncation_of_def .

lemma truncate_sample:
  "truncate_text [97, 98, 99, 100, 101, 102] (Bytes 4) = Some ([97, 98] @ format_truncation_marker False 2 @ [101, 102])"
proof -
  have one: "sat_add 0 (Suc 0) = Suc 0" "sat_add (Suc 0) (Suc 0) = 2" by (simp_all add: sat_add_def usize_max_def)
  have "split_string [97, 98, 99, 100, 101, 102] 2 2 = Some (2, [97, 98], [101, 102])"
    unfolding split_string_def by (simp add: split_step_def utf8_char_def one)
  then show ?thesis
    by (simp add: truncate_middle_chars_def truncate_with_byte_estimate_def split_budget_def
      utf8_char_def removed_units_def assemble_truncated_output_def)
qed

theorem truncate_text_correct_witness:
  "\<exists>r p q. truncate_text [97, 98, 99, 100, 101, 102] (Bytes 4) = Some r \<and> r = p @ format_truncation_marker False 2 @ q"
proof -
  have "length [97, 98, 99, 100, 101, 102 :: uchar] \<le> usize_max" by (simp add: usize_max_def)
  from truncate_text_correct [OF this, of "Bytes 4"] obtain r where "truncate_text [97, 98, 99, 100, 101, 102] (Bytes 4) = Some r"
    by blast
  then show ?thesis using truncate_sample by blast
qed

text \<open>
  C27. Truncating a list of output items never panics and keeps the metadata. The result is a
  subsequence of the items in which at most one text is replaced by its truncation to the budget
  that was left before it; the unchanged items cost at most the budget. Images and encrypted items
  are all kept in order, and the closing notes count exactly the texts and audio clips left out.
\<close>
theorem truncate_items_within_budget:
  assumes "list_all item_ok items"
  shows "\<exists>before ts rs after texts audios.
    truncate_function_output_payload \<lparr>body = ContentItems items, success = ok\<rparr> policy estimate =
      Some \<lparr>body = ContentItems (before @ map InputText rs @ after @
              omitted_note texts (lit '' text'') @ omitted_note audios (lit '' audio'')), success = ok\<rparr> \<and>
    within_budget policy estimate items before ts rs after \<and>
    accounted items (before @ map InputText rs @ after) texts audios"
proof -
  obtain st where st: "push_items policy estimate items
      \<lparr>it_out = [], it_remaining = policy_budget policy, it_omitted_text = 0, it_omitted_audio = 0\<rparr> = Some st"
    "items_inv policy estimate items st" "accounted items (it_out st) (it_omitted_text st) (it_omitted_audio st)"
    using push_items_ok [OF items_start _ assms] by (auto simp: accounted_def)
  obtain before ts rs after where o: "it_out st = before @ map InputText rs @ after"
    "within_budget policy estimate items before ts rs after"
    using st(2) unfolding items_inv_def by blast
  have "truncate_function_output_payload \<lparr>body = ContentItems items, success = ok\<rparr> policy estimate =
      Some \<lparr>body = ContentItems (before @ map InputText rs @ after @
              omitted_note (it_omitted_text st) (lit '' text'') @ omitted_note (it_omitted_audio st) (lit '' audio'')), success = ok\<rparr>"
    unfolding truncate_function_output_payload_def truncate_function_output_items_with_policy_def st(1)
    by (simp add: truncate_function_output_items_with_policy_def st(1) o(1))
  then show ?thesis using o st(3) by metis
qed

theorem truncate_items_within_budget_witness:
  "\<exists>is. truncate_function_output_payload
      \<lparr>body = ContentItems [InputText (lit ''abcdef''), InputImage (lit ''i'') None, InputText (lit ''xy'')], success = Some True\<rparr>
      (Bytes 4) (\<lambda>_. 1) = Some \<lparr>body = ContentItems is, success = Some True\<rparr>"
proof -
  have "list_all item_ok [InputText (lit ''abcdef''), InputImage (lit ''i'') None, InputText (lit ''xy'')]"
    by (simp add: item_ok_def lit_eval usize_max_def)
  from truncate_items_within_budget [OF this, of "Some True" "Bytes 4" "\<lambda>_. 1"] show ?thesis by blast
qed

end
