(* ===== verification/Stream_Text.thy ===== *)
theory Stream_Text
  imports Prelude
begin

text \<open>
  The contract of the streaming text parsers of \<open>utils/stream-parser\<close>: the chunks they produce
  (\<open>stream_text.rs\<close>) and the trait \<open>StreamTextParser\<close> as a locale. \<open>None\<close> stands for a push that does
  not return. A parser in a state with the invariant \<open>inv\<close> returns, and pushing two texts one
  after the other is pushing their concatenation, up to how the extracted payloads are cut
  into pieces, which \<open>events\<close> forgets.
\<close>

record 'x stream_text_chunk =
  visible_text :: str
  extracted :: "'x list"

definition text_chunk_default :: "'x stream_text_chunk" where
  "text_chunk_default = \<lparr>visible_text = [], extracted = []\<rparr>"

text \<open>A later chunk appended to an earlier one, as every caller of a parser does.\<close>

definition append_chunk :: "'x stream_text_chunk \<Rightarrow> 'x stream_text_chunk \<Rightarrow> 'x stream_text_chunk" where
  "append_chunk a b = \<lparr>visible_text = visible_text a @ visible_text b, extracted = extracted a @ extracted b\<rparr>"

lemma append_chunk_simps [simp]:
  "visible_text (append_chunk a b) = visible_text a @ visible_text b"
  "extracted (append_chunk a b) = extracted a @ extracted b"
  "append_chunk text_chunk_default a = a" "append_chunk a text_chunk_default = a"
  "append_chunk (append_chunk a b) c = append_chunk a (append_chunk b c)"
  "visible_text text_chunk_default = []" "extracted text_chunk_default = []"
  by (simp_all add: append_chunk_def text_chunk_default_def)

definition chunk_events :: "('x \<Rightarrow> 'e list) \<Rightarrow> 'x stream_text_chunk \<Rightarrow> str \<times> 'e list" where
  "chunk_events events c = (visible_text c, concat (map events (extracted c)))"

fun push_all ::
  "('p \<Rightarrow> str \<Rightarrow> ('p \<times> 'x stream_text_chunk) option) \<Rightarrow> 'p \<Rightarrow> str list \<Rightarrow> ('p \<times> 'x stream_text_chunk) option" where
  "push_all push p [] = Some (p, text_chunk_default)"
| "push_all push p (c # cs) =
     Option.bind (push p c) (\<lambda>(p1, out).
     map_option (\<lambda>(p2, out'). (p2, append_chunk out out')) (push_all push p1 cs))"

text \<open>All chunks pushed and the parser finished.\<close>

definition collect_chunks ::
  "('p \<Rightarrow> str \<Rightarrow> ('p \<times> 'x stream_text_chunk) option) \<Rightarrow> ('p \<Rightarrow> 'p \<times> 'x stream_text_chunk) \<Rightarrow> 'p \<Rightarrow> str list \<Rightarrow>
   'x stream_text_chunk option" where
  "collect_chunks push finish p cs = map_option (\<lambda>(p1, out). append_chunk out (snd (finish p1))) (push_all push p cs)"

locale stream_text_parser =
  fixes push :: "'p \<Rightarrow> str \<Rightarrow> ('p \<times> 'x stream_text_chunk) option"
    and finish :: "'p \<Rightarrow> 'p \<times> 'x stream_text_chunk"
    and inv :: "'p \<Rightarrow> bool"
    and events :: "'x \<Rightarrow> 'e list"
  assumes returns: "inv p \<Longrightarrow> \<exists>p' out. push p s = Some (p', out) \<and> inv p'"
    and push_Nil: "inv p \<Longrightarrow> push p [] = Some (p, text_chunk_default)"
    and push_append: "inv p \<Longrightarrow> push p a = Some (p1, out1) \<Longrightarrow> push p1 b = Some (p2, out2) \<Longrightarrow>
      \<exists>out. push p (a @ b) = Some (p2, out) \<and>
        chunk_events events out = chunk_events events (append_chunk out1 out2)"
    and finish_inv: "inv p \<Longrightarrow> inv (fst (finish p))"
begin

lemma chunk_events_append:
  "chunk_events events a = chunk_events events a' \<Longrightarrow> chunk_events events b = chunk_events events b' \<Longrightarrow>
   chunk_events events (append_chunk a b) = chunk_events events (append_chunk a' b')"
  by (simp add: chunk_events_def)

lemma push_all_concat:
  assumes "inv p"
  shows "\<exists>p' out out'. push_all push p cs = Some (p', out) \<and> push p (concat cs) = Some (p', out') \<and> inv p' \<and>
    chunk_events events out = chunk_events events out'"
  using assms
proof (induction cs arbitrary: p)
  case Nil
  then show ?case using push_Nil by simp
next
  case (Cons c cs)
  obtain p1 out1 where p1: "push p c = Some (p1, out1)" "inv p1" using returns [OF Cons.prems] by blast
  obtain p2 out2 out2' where p2: "push_all push p1 cs = Some (p2, out2)" "push p1 (concat cs) = Some (p2, out2')"
    "inv p2" "chunk_events events out2 = chunk_events events out2'" using Cons.IH [OF p1(2)] by blast
  obtain out where "push p (c @ concat cs) = Some (p2, out)"
    "chunk_events events out = chunk_events events (append_chunk out1 out2')"
    using push_append [OF Cons.prems p1(1) p2(2)] by blast
  moreover have "chunk_events events (append_chunk out1 out2) = chunk_events events (append_chunk out1 out2')"
    using p2(4) by (rule chunk_events_append [OF refl])
  ultimately show ?case using p1 p2(1,3) by simp
qed

text \<open>How a stream is cut into chunks does not matter.\<close>

lemma collect_concat:
  assumes "inv p" "concat cs = concat ds"
  shows "\<exists>a b. collect_chunks push finish p cs = Some a \<and> collect_chunks push finish p ds = Some b \<and>
    chunk_events events a = chunk_events events b"
proof -
  obtain p' out out' where c: "push_all push p cs = Some (p', out)" "push p (concat cs) = Some (p', out')"
    "chunk_events events out = chunk_events events out'" using push_all_concat [OF assms(1)] by blast
  obtain q' oud oud' where d: "push_all push p ds = Some (q', oud)" "push p (concat ds) = Some (q', oud')"
    "chunk_events events oud = chunk_events events oud'" using push_all_concat [OF assms(1)] by blast
  have "q' = p'" "oud' = out'" using c(2) d(2) assms(2) by simp_all
  then have "chunk_events events out = chunk_events events oud" using c(3) d(3) by simp
  then have "chunk_events events (append_chunk out (snd (finish p'))) = chunk_events events (append_chunk oud (snd (finish p')))"
    by (rule chunk_events_append [OF _ refl])
  then show ?thesis using c(1) d(1) \<open>q' = p'\<close> by (simp add: collect_chunks_def)
qed

end

end
