(* ===== verification/Inline_Tags.thy ===== *)
theory Inline_Tags
  imports Stream_Text "HOL-Library.Product_Lexorder"
begin

text \<open>
  Hidden inline tags in streamed text: \<open>InlineHiddenTagParser\<close> (\<open>inline_hidden_tag.rs\<close>) and the
  citation parser built on it (\<open>citation.rs\<close>). Offsets count characters; a search for a string
  finds the same places in characters as in bytes. The loop of \<open>push_str\<close> is a partial function:
  \<open>None\<close> is a loop that does not end, and it ends when no delimiter is empty. Where no opening
  delimiter is part of another one, the parser does not depend on how the text is cut, so the
  citation parser is a \<open>stream_text_parser\<close>.
\<close>

section \<open>Searching\<close>

fun find_str :: "str \<Rightarrow> str \<Rightarrow> nat option" where
  "find_str needle [] = (if needle = [] then Some 0 else None)"
| "find_str needle (c # s) = (if starts_with needle (c # s) then Some 0 else map_option Suc (find_str needle s))"

definition occurs_at :: "str \<Rightarrow> str \<Rightarrow> nat \<Rightarrow> bool" where
  "occurs_at n s i \<longleftrightarrow> i + length n \<le> length s \<and> take (length n) (drop i s) = n"

lemma starts_with_occurs: "starts_with n s \<longleftrightarrow> occurs_at n s 0"
  by (auto simp: starts_with_iff occurs_at_def) (metis append_take_drop_id)

lemma occurs_Suc [simp]: "occurs_at n (c # s) (Suc i) \<longleftrightarrow> occurs_at n s i"
  by (simp add: occurs_at_def)

lemma find_str_Some: "find_str n s = Some i \<Longrightarrow> occurs_at n s i \<and> (\<forall>j<i. \<not> occurs_at n s j)"
proof (induction s arbitrary: i)
  case (Cons c s)
  show ?case
  proof (cases "starts_with n (c # s)")
    case True
    then show ?thesis using Cons.prems by (simp add: starts_with_occurs)
  next
    case False
    then obtain k where k: "i = Suc k" "find_str n s = Some k" using Cons.prems by auto
    then show ?thesis using Cons.IH [OF k(2)] False by (auto simp: starts_with_occurs less_Suc_eq_0_disj)
  qed
qed (auto simp: occurs_at_def split: if_splits)

lemma find_str_None: "find_str n s = None \<Longrightarrow> \<not> occurs_at n s i"
proof (induction s arbitrary: i)
  case (Cons c s)
  then show ?case by (cases i) (auto simp: starts_with_occurs split: if_splits)
qed (auto simp: occurs_at_def split: if_splits)

lemma find_str_eqI: "occurs_at n s i \<Longrightarrow> (\<And>j. j < i \<Longrightarrow> \<not> occurs_at n s j) \<Longrightarrow> find_str n s = Some i"
  using find_str_Some [of n s] find_str_None [of n s i] by (metis linorder_less_linear not_Some_eq)

lemma find_str_NoneI: "(\<And>i. \<not> occurs_at n s i) \<Longrightarrow> find_str n s = None"
  by (cases "find_str n s") (auto dest: find_str_Some)

lemma occurs_append: "i + length n \<le> length p \<Longrightarrow> occurs_at n (p @ b) i \<longleftrightarrow> occurs_at n p i"
  by (auto simp: occurs_at_def)

lemma occurs_drop: "t \<le> length s \<Longrightarrow> occurs_at n (drop t s) i \<longleftrightarrow> occurs_at n s (t + i)"
  by (auto simp: occurs_at_def add.commute add.left_commute)

lemma find_str_append: "find_str n p = Some i \<Longrightarrow> find_str n (p @ b) = Some i"
proof -
  assume f: "find_str n p = Some i"
  have o: "occurs_at n p i" "\<And>j. j < i \<Longrightarrow> \<not> occurs_at n p j" using find_str_Some [OF f] by auto
  have "i + length n \<le> length p" using o(1) by (simp add: occurs_at_def)
  then show ?thesis using o by (intro find_str_eqI) (simp_all add: occurs_append)
qed

text \<open>When nothing occurs before \<open>t\<close>, the search may start there.\<close>

lemma find_str_shift:
  assumes "t \<le> length s" "\<And>j. occurs_at n s j \<Longrightarrow> t \<le> j"
  shows "find_str n s = map_option ((+) t) (find_str n (drop t s))"
proof (cases "find_str n (drop t s)")
  case None
  have "\<not> occurs_at n s j" for j
    using find_str_None [OF None, of "j - t"] occurs_drop [OF assms(1)] assms(2) [of j] by auto
  then show ?thesis using None by (simp add: find_str_NoneI)
next
  case (Some k)
  have k: "occurs_at n s (t + k)" "\<And>j. j < k \<Longrightarrow> \<not> occurs_at n s (t + j)"
    using find_str_Some [OF Some] occurs_drop [OF assms(1)] by auto
  have "\<not> occurs_at n s j" if "j < t + k" for j
    using that assms(2) [of j] k(2) [of "j - t"] by (cases "t \<le> j") auto
  then show ?thesis using Some k(1) by (simp add: find_str_eqI)
qed

fun suffix_prefix_from :: "nat \<Rightarrow> str \<Rightarrow> str \<Rightarrow> nat" where
  "suffix_prefix_from 0 s needle = 0"
| "suffix_prefix_from (Suc k) s needle =
     (if ends_with (take (Suc k) needle) s then Suc k else suffix_prefix_from k s needle)"

definition longest_suffix_prefix_len :: "str \<Rightarrow> str \<Rightarrow> nat" where
  "longest_suffix_prefix_len s needle = suffix_prefix_from (min (length s) (length needle - 1)) s needle"

text \<open>The last \<open>k\<close> characters of \<open>s\<close> are the beginning of \<open>needle\<close>.\<close>

definition partial_at_end :: "str \<Rightarrow> str \<Rightarrow> nat \<Rightarrow> bool" where
  "partial_at_end s needle k \<longleftrightarrow> k \<le> length s \<and> k < length needle \<and> drop (length s - k) s = take k needle"

lemma ends_with_drop: "length p \<le> length s \<Longrightarrow> ends_with p s \<longleftrightarrow> drop (length s - length p) s = p"
proof -
  assume l: "length p \<le> length s"
  have "ends_with p s \<longleftrightarrow> (\<exists>r. s = r @ p)" by (auto simp: ends_with_def strip_suffix_Some_iff)
  also have "\<dots> \<longleftrightarrow> drop (length s - length p) s = p" by auto (metis append_take_drop_id)
  finally show ?thesis .
qed

lemma suffix_prefix_from_ok:
  assumes "m \<le> length s" "m < length n"
  shows "partial_at_end s n (suffix_prefix_from m s n) \<and> (\<forall>k\<le>m. partial_at_end s n k \<longrightarrow> k \<le> suffix_prefix_from m s n)"
  using assms
proof (induction m)
  case (Suc m)
  have e: "ends_with (take (Suc m) n) s \<longleftrightarrow> partial_at_end s n (Suc m)"
    using Suc.prems by (simp add: ends_with_drop partial_at_end_def min_def)
  show ?case using Suc.IH Suc.prems e by (auto simp: le_Suc_eq)
qed (auto simp: partial_at_end_def)

lemma longest_ok:
  assumes "n \<noteq> []"
  shows "partial_at_end s n (longest_suffix_prefix_len s n)"
    and "partial_at_end s n k \<Longrightarrow> k \<le> longest_suffix_prefix_len s n"
proof -
  have m: "min (length s) (length n - 1) \<le> length s" "min (length s) (length n - 1) < length n"
    using assms by (simp, cases n) (simp_all add: min.strict_coboundedI2)
  note ok = suffix_prefix_from_ok [OF m, folded longest_suffix_prefix_len_def]
  show "partial_at_end s n (longest_suffix_prefix_len s n)" using ok by blast
  show "k \<le> longest_suffix_prefix_len s n" if "partial_at_end s n k"
    using ok that by (auto simp: partial_at_end_def)
qed

text \<open>An occurrence that is not complete in \<open>p\<close> starts inside the part of \<open>p\<close> that is kept.\<close>

lemma occurs_crossing:
  assumes n: "n \<noteq> []" and none: "\<And>j. \<not> occurs_at n p j" and o: "occurs_at n (p @ b) i"
  shows "length p - longest_suffix_prefix_len p n \<le> i"
proof (cases "i < length p")
  case True
  have "length p < i + length n" using none [of i] o by (metis occurs_append not_le_imp_less)
  moreover have "take (length p - i) (take (length n) (drop i (p @ b))) = take (length p - i) n"
    using o by (simp add: occurs_at_def)
  ultimately have "partial_at_end p n (length p - i)" using True by (auto simp: partial_at_end_def min_def)
  then show ?thesis using longest_ok(2) [OF n] True by fastforce
qed simp

lemma longest_drop:
  assumes n: "n \<noteq> []" and t: "t + longest_suffix_prefix_len p n \<le> length p"
  shows "longest_suffix_prefix_len (p @ b) n = longest_suffix_prefix_len (drop t p @ b) n"
proof -
  have eq: "partial_at_end (p @ b) n k \<longleftrightarrow> partial_at_end (drop t p @ b) n k" for k
  proof (cases "k \<le> length (drop t p @ b)")
    case True
    have "drop (length (p @ b) - k) (p @ b) = drop (length (drop t p @ b) - k) (drop t (p @ b))"
      using True t by simp
    moreover have "k \<le> length p + length b" using True t by simp
    ultimately show ?thesis using True t by (simp add: partial_at_end_def)
  next
    case False
    have False if "partial_at_end (p @ b) n k"
    proof -
      let ?j = "length (p @ b) - k"
      have j: "?j < t" "?j < length p" "length p - ?j \<le> k" using False t that by (auto simp: partial_at_end_def)
      have "take (length p - ?j) (drop ?j (p @ b)) = take (length p - ?j) (take k n)"
        using that by (simp only: partial_at_end_def)
      then have "partial_at_end p n (length p - ?j)"
        using j that by (auto simp: partial_at_end_def min_def)
      then show False using longest_ok(2) [OF n] t j by fastforce
    qed
    then show ?thesis using False by (auto simp: partial_at_end_def)
  qed
  show ?thesis using longest_ok [OF n] eq by (meson le_antisym)
qed

section \<open>The inline tag parser\<close>

record 't inline_tag_spec =
  its_tag :: 't
  its_open :: str
  its_close :: str

record 't active_tag =
  at_tag :: 't
  at_close :: str
  at_content :: str

record 't extracted_inline_tag =
  et_tag :: 't
  et_content :: str

record 't inline_hidden_tag_parser =
  ip_specs :: "'t inline_tag_spec list"
  ip_pending :: str
  ip_active :: "'t active_tag option"

text \<open>The constructor panics on an empty list of tags and on empty delimiters.\<close>

definition specs_ok :: "'t inline_tag_spec list \<Rightarrow> bool" where
  "specs_ok specs \<longleftrightarrow> specs \<noteq> [] \<and> list_all (\<lambda>spec. its_open spec \<noteq> [] \<and> its_close spec \<noteq> []) specs"

definition inline_parser_new :: "'t inline_tag_spec list \<Rightarrow> 't inline_hidden_tag_parser option" where
  "inline_parser_new specs =
     (if specs_ok specs then Some \<lparr>ip_specs = specs, ip_pending = [], ip_active = None\<rparr> else None)"

text \<open>
  The candidates of \<open>find_next_open\<close>; the comparator prefers the smaller position, then the longer
  delimiter, then the smaller index, which is the order of the triples.
\<close>

definition open_candidates :: "'t inline_tag_spec list \<Rightarrow> str \<Rightarrow> (nat \<times> int \<times> nat) list" where
  "open_candidates specs pending =
     List.map_filter (\<lambda>(idx, spec).
         map_option (\<lambda>pos. (pos, - int (byte_len (its_open spec)), idx)) (find_str (its_open spec) pending))
       (enumerate 0 specs)"

definition least_of :: "'a::linorder list \<Rightarrow> 'a option" where
  "least_of xs = (case xs of [] \<Rightarrow> None | y # ys \<Rightarrow> Some (fold min ys y))"

definition find_next_open :: "'t inline_tag_spec list \<Rightarrow> str \<Rightarrow> (nat \<times> nat) option" where
  "find_next_open specs pending = map_option (\<lambda>(pos, _, idx). (pos, idx)) (least_of (open_candidates specs pending))"

definition max_open_prefix_suffix_len :: "'t inline_tag_spec list \<Rightarrow> str \<Rightarrow> nat" where
  "max_open_prefix_suffix_len specs pending =
     fold max (map (\<lambda>spec. longest_suffix_prefix_len pending (its_open spec)) specs) 0"

type_synonym 't inline_out = "'t extracted_inline_tag stream_text_chunk"

definition push_visible_prefix :: "'t inline_out \<Rightarrow> str \<Rightarrow> 't inline_out" where
  "push_visible_prefix out pending = out\<lparr>visible_text := visible_text out @ pending\<rparr>"

text \<open>The loop of \<open>push_str\<close> on the pending text, the active tag and the output so far.\<close>

partial_function (option) inline_loop ::
  "'t inline_tag_spec list \<Rightarrow> str \<Rightarrow> 't active_tag option \<Rightarrow> 't inline_out \<Rightarrow>
   (str \<times> 't active_tag option \<times> 't inline_out) option" where
  "inline_loop specs pending active out =
     (case active of
        Some a \<Rightarrow>
          (case find_str (at_close a) pending of
             Some close_idx \<Rightarrow>
               inline_loop specs (drop (close_idx + length (at_close a)) pending) None
                 (out\<lparr>extracted := extracted out @ [\<lparr>et_tag = at_tag a, et_content = at_content a @ take close_idx pending\<rparr>]\<rparr>)
           | None \<Rightarrow>
               let taken = length pending - longest_suffix_prefix_len pending (at_close a)
               in Some (drop taken pending, Some (a\<lparr>at_content := at_content a @ take taken pending\<rparr>), out))
      | None \<Rightarrow>
          (case find_next_open specs pending of
             Some open_at \<Rightarrow>
               let spec = specs ! snd open_at
               in inline_loop specs (drop (fst open_at + length (its_open spec)) pending)
                    (Some \<lparr>at_tag = its_tag spec, at_close = its_close spec, at_content = []\<rparr>)
                    (push_visible_prefix out (take (fst open_at) pending))
           | None \<Rightarrow>
               let taken = length pending - max_open_prefix_suffix_len specs pending
               in Some (drop taken pending, None, push_visible_prefix out (take taken pending))))"

definition inline_push_str ::
  "'t inline_hidden_tag_parser \<Rightarrow> str \<Rightarrow> ('t inline_hidden_tag_parser \<times> 't inline_out) option" where
  "inline_push_str p chunk =
     map_option (\<lambda>(pending, active, out). (p\<lparr>ip_pending := pending, ip_active := active\<rparr>, out))
       (inline_loop (ip_specs p) (ip_pending p @ chunk) (ip_active p) text_chunk_default)"

definition inline_finish :: "'t inline_hidden_tag_parser \<Rightarrow> 't inline_hidden_tag_parser \<times> 't inline_out" where
  "inline_finish p =
     (case ip_active p of
        Some a \<Rightarrow>
          (p\<lparr>ip_pending := [], ip_active := None\<rparr>,
           \<lparr>visible_text = [], extracted = [\<lparr>et_tag = at_tag a, et_content = at_content a @ ip_pending p\<rparr>]\<rparr>)
      | None \<Rightarrow> (p\<lparr>ip_pending := []\<rparr>, \<lparr>visible_text = ip_pending p, extracted = []\<rparr>))"

section \<open>Choosing the next tag\<close>

lemma least_of_Min: "xs \<noteq> [] \<Longrightarrow> least_of xs = Some (Min (set xs))"
  by (cases xs) (auto simp: least_of_def Min.set_eq_fold simp del: set_simps)

lemma least_of_None [simp]: "least_of xs = None \<longleftrightarrow> xs = []"
  by (cases xs) (simp_all add: least_of_def)

lemma fold_min_map:
  assumes "\<And>x y. f (min x y) = min (f x) (f y)"
  shows "fold min (map f xs) (f x) = f (fold min xs x)"
  by (induction xs arbitrary: x) (simp_all add: assms [symmetric])

lemma least_of_map:
  assumes "\<And>x y. f (min x y) = min (f x) (f y)"
  shows "least_of (map f xs) = map_option f (least_of xs)"
  by (cases xs) (simp_all add: least_of_def fold_min_map [OF assms])

lemma in_set_map_filter: "y \<in> set (List.map_filter f xs) \<longleftrightarrow> (\<exists>x \<in> set xs. f x = Some y)"
  by (induction xs) (auto simp: map_filter_simps split: option.split)

lemma set_open_candidates:
  "(pos, l, idx) \<in> set (open_candidates specs s) \<longleftrightarrow>
     idx < length specs \<and> find_str (its_open (specs ! idx)) s = Some pos \<and> l = - int (byte_len (its_open (specs ! idx)))"
  unfolding open_candidates_def in_set_map_filter by (auto simp: in_set_enumerate_eq intro!: bexI [of _ "(idx, specs ! idx)"])

text \<open>No opening delimiter occurs in a different one.\<close>

definition unambiguous :: "'t inline_tag_spec list \<Rightarrow> bool" where
  "unambiguous specs \<longleftrightarrow>
     list_all (\<lambda>s. list_all (\<lambda>t. find_str (its_open t) (its_open s) \<noteq> None \<longrightarrow> its_open s = its_open t) specs) specs"

lemma unambiguousD:
  assumes "unambiguous specs" "i < length specs" "j < length specs" "occurs_at (its_open (specs ! j)) (its_open (specs ! i)) k"
  shows "its_open (specs ! i) = its_open (specs ! j)"
proof -
  have "find_str (its_open (specs ! j)) (its_open (specs ! i)) \<noteq> None" using find_str_None assms(4) by blast
  then show ?thesis using assms(1-3) unfolding unambiguous_def list_all_length by blast
qed

lemma occurs_inside:
  assumes "occurs_at n s q" "occurs_at m s i" "q \<le> i" "i + length m \<le> q + length n"
  shows "occurs_at m n (i - q)"
proof -
  have "take (length m) (drop (i - q) (take (length n) (drop q s))) = take (length m) (drop i s)"
    using assms(3,4) by (simp add: drop_take min_def)
  then show ?thesis using assms by (auto simp: occurs_at_def)
qed

lemma open_candidates_append:
  assumes u: "unambiguous specs" and p: "open_candidates specs p \<noteq> []"
  shows "least_of (open_candidates specs (p @ b)) = least_of (open_candidates specs p)"
proof -
  let ?m = "Min (set (open_candidates specs p))"
  obtain pos l j where m: "?m = (pos, l, j)" by (cases ?m)
  have "(pos, l, j) \<in> set (open_candidates specs p)" using p Min_in [of "set (open_candidates specs p)"] m by simp
  then have j: "j < length specs" "find_str (its_open (specs ! j)) p = Some pos"
    and in': "(pos, l, j) \<in> set (open_candidates specs (p @ b))"
    by (auto simp: set_open_candidates find_str_append)
  have oj: "occurs_at (its_open (specs ! j)) p pos" using find_str_Some [OF j(2)] by blast
  have "(pos, l, j) \<le> (q, k, i)" if y: "(q, k, i) \<in> set (open_candidates specs (p @ b))" for q k i
  proof (cases "find_str (its_open (specs ! i)) p")
    case (Some q')
    then have "(q, k, i) \<in> set (open_candidates specs p)" using y find_str_append [OF Some]
      by (auto simp: set_open_candidates)
    then show ?thesis using Min_le [of "set (open_candidates specs p)"] m by fastforce
  next
    case None
    have i: "i < length specs" "occurs_at (its_open (specs ! i)) (p @ b) q"
      using y find_str_Some by (auto simp: set_open_candidates)
    have cross: "length p < q + length (its_open (specs ! i))"
      using find_str_None [OF None] i(2) by (metis occurs_append not_le_imp_less)
    have lenj: "pos + length (its_open (specs ! j)) \<le> length p" using oj by (simp add: occurs_at_def)
    have "pos < q"
    proof (rule ccontr)
      assume "\<not> pos < q"
      then have "occurs_at (its_open (specs ! j)) (its_open (specs ! i)) (pos - q)"
        using i(2) oj lenj cross by (intro occurs_inside [of _ "p @ b"]) (simp_all add: occurs_append)
      then have "its_open (specs ! i) = its_open (specs ! j)" using unambiguousD [OF u i(1) j(1)] by blast
      then show False using \<open>\<not> pos < q\<close> cross lenj by simp
    qed
    then show ?thesis by simp
  qed
  then have "Min (set (open_candidates specs (p @ b))) = ?m" using in' m by (intro Min_eqI) auto
  then show ?thesis using p in' least_of_Min by (metis empty_iff empty_set)
qed

lemma map_filter_map: "map f (List.map_filter g xs) = List.map_filter (\<lambda>x. map_option f (g x)) xs"
  by (induction xs) (simp_all add: map_filter_simps split: option.split)

lemma map_filter_cong: "(\<And>x. x \<in> set xs \<Longrightarrow> g x = h x) \<Longrightarrow> List.map_filter g xs = List.map_filter h xs"
  by (induction xs) (simp_all add: map_filter_simps split: option.split)

lemma fold_max_Max: "fold max xs (m::nat) = Max (insert m (set xs))"
  using Max.set_eq_fold [of m xs] by simp

lemma fold_max_ge: "x \<in> set xs \<Longrightarrow> x \<le> fold max xs (m::nat)"
  unfolding fold_max_Max by (rule Max_ge) auto

lemma fold_max_in: "fold max xs (m::nat) \<in> insert m (set xs)"
  unfolding fold_max_Max by (rule Max_in) auto

lemma max_open_ge: "spec \<in> set specs \<Longrightarrow> longest_suffix_prefix_len p (its_open spec) \<le> max_open_prefix_suffix_len specs p"
  unfolding max_open_prefix_suffix_len_def by (rule fold_max_ge) simp

lemma max_open_le:
  assumes "specs_ok specs"
  shows "max_open_prefix_suffix_len specs p \<le> length p"
proof -
  have "longest_suffix_prefix_len p (its_open spec) \<le> length p" if "spec \<in> set specs" for spec
    using longest_ok(1) [of "its_open spec" p] assms that by (auto simp: partial_at_end_def specs_ok_def list_all_iff)
  then show ?thesis
    using fold_max_in [of "map (\<lambda>spec. longest_suffix_prefix_len p (its_open spec)) specs" 0]
    unfolding max_open_prefix_suffix_len_def by auto
qed

lemma open_candidates_shift:
  assumes ok: "specs_ok specs" and none: "open_candidates specs p = []"
    and t: "t = length p - max_open_prefix_suffix_len specs p"
  shows "open_candidates specs (p @ b) = map (\<lambda>(pos, l, i). (t + pos, l, i)) (open_candidates specs (drop t p @ b))"
proof -
  have "find_str (its_open spec) (p @ b) = map_option ((+) t) (find_str (its_open spec) (drop t p @ b))"
    if "(i, spec) \<in> set (enumerate 0 specs)" for i spec
  proof -
    have spec: "spec \<in> set specs" "i < length specs" "spec = specs ! i" using that by (auto simp: in_set_enumerate_eq)
    have ne: "its_open spec \<noteq> []" using ok spec(1) by (auto simp: specs_ok_def list_all_iff)
    have "find_str (its_open spec) p = None"
      using none set_open_candidates [of _ _ i specs p] spec by (cases "find_str (its_open spec) p") auto
    then have "t \<le> j" if "occurs_at (its_open spec) (p @ b) j" for j
      using occurs_crossing [OF ne find_str_None that] max_open_ge [OF spec(1), of p] t by fastforce
    moreover have "drop t (p @ b) = drop t p @ b" using t by simp
    ultimately show ?thesis using find_str_shift [of t "p @ b" "its_open spec"] t by simp
  qed
  then show ?thesis unfolding open_candidates_def map_filter_map
    by (intro map_filter_cong) (auto simp: option.map_comp comp_def)
qed

lemma find_next_open_shift:
  assumes "specs_ok specs" "find_next_open specs p = None" "t = length p - max_open_prefix_suffix_len specs p"
  shows "find_next_open specs (p @ b) = map_option (\<lambda>(pos, i). (t + pos, i)) (find_next_open specs (drop t p @ b))"
proof -
  have none: "open_candidates specs p = []" using assms(2) by (simp add: find_next_open_def)
  have "least_of (open_candidates specs (p @ b)) =
      map_option (\<lambda>(pos, l, i). (t + pos, l, i)) (least_of (open_candidates specs (drop t p @ b)))"
    unfolding open_candidates_shift [OF assms(1) none assms(3)]
    by (rule least_of_map) (auto simp: min_def)
  then show ?thesis by (simp add: find_next_open_def option.map_comp comp_def case_prod_beta)
qed

lemma find_next_open_append:
  assumes "unambiguous specs" "find_next_open specs p = Some r"
  shows "find_next_open specs (p @ b) = Some r"
proof -
  have "open_candidates specs p \<noteq> []" using assms(2) by (auto simp: find_next_open_def least_of_def)
  then show ?thesis using open_candidates_append [OF assms(1)] assms(2) by (simp add: find_next_open_def)
qed

lemma find_next_open_Some:
  assumes "find_next_open specs p = Some (pos, i)"
  shows "i < length specs" "find_str (its_open (specs ! i)) p = Some pos"
proof -
  obtain l where "least_of (open_candidates specs p) = Some (pos, l, i)"
    using assms by (auto simp: find_next_open_def)
  then have "(pos, l, i) \<in> set (open_candidates specs p)"
    using least_of_Min [of "open_candidates specs p"] Min_in [of "set (open_candidates specs p)"]
    by (cases "open_candidates specs p = []") (auto simp: least_of_def)
  then show "i < length specs" "find_str (its_open (specs ! i)) p = Some pos" by (auto simp: set_open_candidates)
qed

lemma find_str_le: "find_str n s = Some i \<Longrightarrow> i + length n \<le> length s"
  using find_str_Some [of n s i] by (simp add: occurs_at_def)

section \<open>The loop\<close>

definition active_ok :: "'t active_tag option \<Rightarrow> bool" where
  "active_ok active \<longleftrightarrow> (case active of Some a \<Rightarrow> at_close a \<noteq> [] | None \<Rightarrow> True)"

text \<open>
  Every iteration removes a delimiter, which is not empty, from the pending text: induction over
  its length covers the loop.
\<close>

lemma inline_loop_induct [consumes 2, case_names stop_close stop_open closes opens]:
  assumes ok: "specs_ok specs" "active_ok active"
    and stop_close: "\<And>p a out. at_close a \<noteq> [] \<Longrightarrow> find_str (at_close a) p = None \<Longrightarrow> P p (Some a) out"
    and stop_open: "\<And>p out. find_next_open specs p = None \<Longrightarrow> P p None out"
    and closes: "\<And>p a out i. at_close a \<noteq> [] \<Longrightarrow> find_str (at_close a) p = Some i \<Longrightarrow>
      P (drop (i + length (at_close a)) p) None
        (out\<lparr>extracted := extracted out @ [\<lparr>et_tag = at_tag a, et_content = at_content a @ take i p\<rparr>]\<rparr>) \<Longrightarrow>
      P p (Some a) out"
    and opens: "\<And>p out pos i. find_next_open specs p = Some (pos, i) \<Longrightarrow>
      P (drop (pos + length (its_open (specs ! i))) p)
        (Some \<lparr>at_tag = its_tag (specs ! i), at_close = its_close (specs ! i), at_content = []\<rparr>)
        (push_visible_prefix out (take pos p)) \<Longrightarrow>
      P p None out"
  shows "P p active out"
  using ok(2)
proof (induction "length p" arbitrary: p active out rule: less_induct)
  case less
  show ?case
  proof (cases active)
    case (Some a)
    then have a: "at_close a \<noteq> []" using less.prems by (simp add: active_ok_def)
    show ?thesis
    proof (cases "find_str (at_close a) p")
      case None
      then show ?thesis using stop_close a Some by simp
    next
      case (Some i)
      then have "length (drop (i + length (at_close a)) p) < length p" using a find_str_le [OF Some] by (cases p) auto
      then show ?thesis using closes [OF a Some] less.hyps \<open>active = Some a\<close> by (simp add: active_ok_def)
    qed
  next
    case None
    show ?thesis
    proof (cases "find_next_open specs p")
      case (Some r)
      obtain pos i where r: "r = (pos, i)" by (cases r)
      note f = find_next_open_Some [OF Some [unfolded r]]
      have ne: "its_open (specs ! i) \<noteq> []" "its_close (specs ! i) \<noteq> []"
        using ok(1) f(1) by (auto simp: specs_ok_def list_all_length)
      have "length (drop (pos + length (its_open (specs ! i))) p) < length p" using ne find_str_le [OF f(2)] by (cases p) auto
      then show ?thesis using opens [OF Some [unfolded r]] less.hyps None ne by (simp add: active_ok_def)
    qed (use stop_open None in simp)
  qed
qed

lemma inline_loop_steps:
  "find_str (at_close a) p = Some i \<Longrightarrow> inline_loop specs p (Some a) out =
     inline_loop specs (drop (i + length (at_close a)) p) None
       (out\<lparr>extracted := extracted out @ [\<lparr>et_tag = at_tag a, et_content = at_content a @ take i p\<rparr>]\<rparr>)"
  "find_next_open specs p = Some (pos, k) \<Longrightarrow> inline_loop specs p None out =
     inline_loop specs (drop (pos + length (its_open (specs ! k))) p)
       (Some \<lparr>at_tag = its_tag (specs ! k), at_close = its_close (specs ! k), at_content = []\<rparr>)
       (push_visible_prefix out (take pos p))"
  by (simp_all add: inline_loop.simps [of specs p "Some a"] inline_loop.simps [of specs p None] Let_def)

lemma inline_loop_stops:
  "find_str (at_close a) p = None \<Longrightarrow> t = length p - longest_suffix_prefix_len p (at_close a) \<Longrightarrow>
     inline_loop specs p (Some a) out = Some (drop t p, Some (a\<lparr>at_content := at_content a @ take t p\<rparr>), out)"
  "find_next_open specs p = None \<Longrightarrow> t = length p - max_open_prefix_suffix_len specs p \<Longrightarrow>
     inline_loop specs p None out = Some (drop t p, None, push_visible_prefix out (take t p))"
  by (simp_all add: inline_loop.simps [of specs p "Some a"] inline_loop.simps [of specs p None] Let_def)

lemma inline_loop_returns:
  assumes "specs_ok specs" "active_ok active"
  shows "\<exists>p' active' out'. inline_loop specs p active out = Some (p', active', out') \<and> active_ok active'"
  using assms
  by (induction p active out rule: inline_loop_induct) (auto simp: inline_loop_steps inline_loop_stops active_ok_def)

text \<open>The output only grows.\<close>

lemma inline_loop_out:
  assumes "specs_ok specs" "active_ok active"
  shows "inline_loop specs p active (append_chunk out0 out) =
    map_option (\<lambda>(p', active', out'). (p', active', append_chunk out0 out')) (inline_loop specs p active out)"
  using assms
proof (induction p active out rule: inline_loop_induct)
  case (closes p a out i)
  have "(append_chunk out0 out)\<lparr>extracted := extracted (append_chunk out0 out) @ xs\<rparr> =
      append_chunk out0 (out\<lparr>extracted := extracted out @ xs\<rparr>)" for xs
    by (simp add: append_chunk_def)
  then show ?case using closes by (simp only: inline_loop_steps)
next
  case (opens p out pos i)
  have "push_visible_prefix (append_chunk out0 out) xs = append_chunk out0 (push_visible_prefix out xs)" for xs
    by (simp add: append_chunk_def push_visible_prefix_def)
  then show ?case using opens by (simp only: inline_loop_steps)
qed (simp_all add: inline_loop_stops append_chunk_def push_visible_prefix_def)

lemma push_visible_twice [simp]: "push_visible_prefix (push_visible_prefix out a) b = push_visible_prefix out (a @ b)"
  by (simp add: push_visible_prefix_def)

lemma cut_later:
  assumes "t \<le> length p"
  shows "drop (t + k) (p @ b) = drop k (drop t p @ b)" "take (t + k) (p @ b) = take t p @ take k (drop t p @ b)"
proof -
  have "drop t (p @ b) = drop t p @ b" "take t (p @ b) = take t p" using assms by simp_all
  then show "drop (t + k) (p @ b) = drop k (drop t p @ b)" "take (t + k) (p @ b) = take t p @ take k (drop t p @ b)"
    by (metis add.commute drop_drop, metis take_add)
qed

lemma max_open_drop:
  assumes "specs_ok specs" "t = length p - max_open_prefix_suffix_len specs p"
  shows "max_open_prefix_suffix_len specs (p @ b) = max_open_prefix_suffix_len specs (drop t p @ b)"
proof -
  have "longest_suffix_prefix_len (p @ b) (its_open spec) = longest_suffix_prefix_len (drop t p @ b) (its_open spec)"
    if "spec \<in> set specs" for spec
    using assms that max_open_ge [OF that, of p] max_open_le [OF assms(1), of p]
    by (intro longest_drop) (auto simp: specs_ok_def list_all_iff)
  then show ?thesis unfolding max_open_prefix_suffix_len_def by (metis (mono_tags, lifting) map_cong)
qed

text \<open>
  Stopping at the end of \<open>p\<close> and going on with \<open>b\<close> is the same as having had \<open>b\<close> from the start:
  first without, then with a tag open.
\<close>

lemma resume_open:
  assumes ok: "specs_ok specs" and none: "find_next_open specs p = None"
    and t: "t = length p - max_open_prefix_suffix_len specs p"
  shows "inline_loop specs (p @ b) None out =
    inline_loop specs (drop t p @ b) None (push_visible_prefix out (take t p))"
proof (cases "find_next_open specs (drop t p @ b)")
  case None
  have l: "max_open_prefix_suffix_len specs (drop t p @ b) \<le> length (drop t p @ b)" by (rule max_open_le [OF ok])
  have le: "t \<le> length p" using t by simp
  have k: "length (p @ b) - max_open_prefix_suffix_len specs (p @ b) =
      t + (length (drop t p @ b) - max_open_prefix_suffix_len specs (drop t p @ b))"
    using max_open_drop [OF ok t] l le by simp
  have n: "find_next_open specs (p @ b) = None" using find_next_open_shift [OF ok none t] None by simp
  show ?thesis unfolding inline_loop_stops(2) [OF n refl] inline_loop_stops(2) [OF None refl] k
    by (simp only: cut_later [OF le] push_visible_twice)
next
  case (Some r)
  obtain pos i where r: "r = (pos, i)" by (cases r)
  have "find_next_open specs (p @ b) = Some (t + pos, i)" using find_next_open_shift [OF ok none t] Some r by simp
  note f = this Some [unfolded r]
  have le: "t \<le> length p" using t by simp
  show ?thesis unfolding inline_loop_steps(2) [OF f(1)] inline_loop_steps(2) [OF f(2)]
    by (simp only: cut_later [OF le] add.assoc push_visible_twice)
qed

lemma resume_close:
  assumes a: "at_close a \<noteq> []" and none: "find_str (at_close a) p = None"
    and t: "t = length p - longest_suffix_prefix_len p (at_close a)"
  shows "inline_loop specs (p @ b) (Some a) out =
    inline_loop specs (drop t p @ b) (Some (a\<lparr>at_content := at_content a @ take t p\<rparr>)) out"
proof -
  let ?a = "a\<lparr>at_content := at_content a @ take t p\<rparr>"
  have le: "t \<le> length p" and keep: "t + longest_suffix_prefix_len p (at_close a) \<le> length p"
    using t longest_ok(1) [OF a, of p] by (simp_all add: partial_at_end_def)
  have "t \<le> j" if "occurs_at (at_close a) (p @ b) j" for j
    using occurs_crossing [OF a find_str_None [OF none] that] t by simp
  then have shift: "find_str (at_close a) (p @ b) = map_option ((+) t) (find_str (at_close a) (drop t p @ b))"
    using find_str_shift [of t "p @ b" "at_close a"] le by simp
  show ?thesis
  proof (cases "find_str (at_close a) (drop t p @ b)")
    case None
    have l: "longest_suffix_prefix_len (drop t p @ b) (at_close a) \<le> length (drop t p @ b)"
      using longest_ok(1) [OF a, of "drop t p @ b"] unfolding partial_at_end_def by blast
    have k: "length (p @ b) - longest_suffix_prefix_len (p @ b) (at_close a) =
        t + (length (drop t p @ b) - longest_suffix_prefix_len (drop t p @ b) (at_close a))"
      using l le by (simp add: longest_drop [OF a keep])
    have n: "find_str (at_close a) (p @ b) = None" "find_str (at_close ?a) (drop t p @ b) = None" using shift None by simp_all
    show ?thesis unfolding inline_loop_stops(1) [OF n(1) refl] inline_loop_stops(1) [OF n(2) refl] k
      by (simp add: k cut_later [OF le] del: drop_append take_append)
  next
    case (Some i)
    have f: "find_str (at_close a) (p @ b) = Some (t + i)" "find_str (at_close ?a) (drop t p @ b) = Some i"
      using shift Some by simp_all
    show ?thesis unfolding inline_loop_steps(1) [OF f(1)] inline_loop_steps(1) [OF f(2)]
      by (simp add: cut_later [OF le] add.assoc del: drop_append take_append)
  qed
qed

lemma inline_loop_append:
  assumes "specs_ok specs" "active_ok active" "unambiguous specs" "inline_loop specs p active out = Some (p1, active1, out1)"
  shows "inline_loop specs (p @ b) active out = inline_loop specs (p1 @ b) active1 out1"
  using assms
proof (induction p active out rule: inline_loop_induct)
  case (stop_close p a out)
  then show ?case using resume_close [OF stop_close(1,2) refl] inline_loop_stops(1) [OF stop_close(2) refl] by simp
next
  case (stop_open p out)
  then show ?case using resume_open [OF assms(1) stop_open(1) refl] inline_loop_stops(2) [OF stop_open(1) refl] by simp
next
  case (closes p a out i)
  have le: "i + length (at_close a) \<le> length p" by (rule find_str_le [OF closes(2)])
  show ?case using closes inline_loop_steps(1) [OF closes(2)] inline_loop_steps(1) [OF find_str_append [OF closes(2)]] le by simp
next
  case (opens p out pos i)
  have le: "pos + length (its_open (specs ! i)) \<le> length p" by (rule find_str_le [OF find_next_open_Some(2) [OF opens(1)]])
  show ?case using opens inline_loop_steps(2) [OF opens(1)]
      inline_loop_steps(2) [OF find_next_open_append [OF assms(3) opens(1)]] le by simp
qed

section \<open>The parser meets the contract\<close>

definition inline_inv :: "'t inline_hidden_tag_parser \<Rightarrow> bool" where
  "inline_inv p \<longleftrightarrow> specs_ok (ip_specs p) \<and> unambiguous (ip_specs p) \<and> active_ok (ip_active p) \<and>
     inline_loop (ip_specs p) (ip_pending p) (ip_active p) text_chunk_default = Some (ip_pending p, ip_active p, text_chunk_default)"

lemma append_chunk_cancel: "append_chunk a b = a \<Longrightarrow> b = (text_chunk_default :: 'x stream_text_chunk)"
  by (cases a, cases b) (simp add: append_chunk_def text_chunk_default_def)

lemma inline_loop_settled:
  assumes ok: "specs_ok specs" "active_ok active" "unambiguous specs" and ok1: "active_ok active1"
    and run: "inline_loop specs p active out = Some (p1, active1, out1)"
  shows "inline_loop specs p1 active1 text_chunk_default = Some (p1, active1, text_chunk_default)"
proof -
  have "inline_loop specs p1 active1 out1 = Some (p1, active1, out1)"
    using inline_loop_append [OF ok run, of "[]"] run by simp
  then have "map_option (\<lambda>(p', active', out'). (p', active', append_chunk out1 out'))
      (inline_loop specs p1 active1 text_chunk_default) = Some (p1, active1, out1)"
    using inline_loop_out [OF ok(1) ok1, of p1 out1 text_chunk_default] by simp
  then show ?thesis by (auto dest: append_chunk_cancel)
qed

lemma find_next_open_Nil: "specs_ok specs \<Longrightarrow> find_next_open specs [] = None"
  using find_next_open_Some [of specs "[]"] find_str_le
  by (cases "find_next_open specs []") (fastforce simp: specs_ok_def list_all_length)+

lemma inline_loop_Nil: "specs_ok specs \<Longrightarrow> inline_loop specs [] None text_chunk_default = Some ([], None, text_chunk_default)"
  by (simp add: inline_loop_stops(2) find_next_open_Nil push_visible_prefix_def)

lemma inline_push_ok:
  assumes "inline_inv p"
  shows "\<exists>p' out. inline_push_str p s = Some (p', out) \<and> inline_inv p'"
proof -
  have ok: "specs_ok (ip_specs p)" "active_ok (ip_active p)" "unambiguous (ip_specs p)"
    using assms by (simp_all add: inline_inv_def)
  obtain p1 a1 out1 where run: "inline_loop (ip_specs p) (ip_pending p @ s) (ip_active p) text_chunk_default = Some (p1, a1, out1)"
    "active_ok a1" using inline_loop_returns [OF ok(1,2)] by blast
  then show ?thesis using ok inline_loop_settled [OF ok run(2) run(1)]
    by (simp add: inline_push_str_def inline_inv_def)
qed

lemma inline_push_append:
  assumes "inline_inv p" "inline_push_str p a = Some (p1, out1)" "inline_push_str p1 b = Some (p2, out2)"
  shows "inline_push_str p (a @ b) = Some (p2, append_chunk out1 out2)"
proof -
  have ok: "specs_ok (ip_specs p)" "active_ok (ip_active p)" "unambiguous (ip_specs p)"
    using assms by (simp_all add: inline_inv_def)
  have inv1: "inline_inv p1" using inline_push_ok [OF assms(1), of a] assms(2) by auto
  obtain q act where run: "inline_loop (ip_specs p) (ip_pending p @ a) (ip_active p) text_chunk_default = Some (q, act, out1)"
    and p1: "p1 = p\<lparr>ip_pending := q, ip_active := act\<rparr>" using assms(2) by (auto simp: inline_push_str_def)
  have ok1: "active_ok act" using inv1 p1 by (simp add: inline_inv_def)
  have "inline_loop (ip_specs p) (ip_pending p @ a @ b) (ip_active p) text_chunk_default =
      inline_loop (ip_specs p) (q @ b) act (append_chunk out1 text_chunk_default)"
    using inline_loop_append [OF ok run, of b] by simp
  also have "\<dots> = map_option (\<lambda>(p', active', out'). (p', active', append_chunk out1 out'))
      (inline_loop (ip_specs p) (q @ b) act text_chunk_default)" by (rule inline_loop_out [OF ok(1) ok1])
  finally show ?thesis using assms(3) p1 by (auto simp: inline_push_str_def)
qed

interpretation inline: stream_text_parser inline_push_str inline_finish inline_inv "\<lambda>x. [x]"
proof
  fix p :: "'t inline_hidden_tag_parser" and s
  assume p: "inline_inv p"
  show "\<exists>p' out. inline_push_str p s = Some (p', out) \<and> inline_inv p'" by (rule inline_push_ok [OF p])
  show "inline_push_str p [] = Some (p, text_chunk_default)" using p by (simp add: inline_push_str_def inline_inv_def)
  show "inline_inv (fst (inline_finish p))" using p
    by (simp add: inline_inv_def inline_finish_def active_ok_def inline_loop_Nil split: option.split)
qed (auto dest: inline_push_append)

section \<open>Citations\<close>

datatype citation_tag = Citation

definition CITATION_OPEN :: str where
  "CITATION_OPEN = lit ''<oai-mem-citation>''"

definition CITATION_CLOSE :: str where
  "CITATION_CLOSE = lit ''</oai-mem-citation>''"

type_synonym citation_parser = "citation_tag inline_hidden_tag_parser"

definition citation_specs :: "citation_tag inline_tag_spec list" where
  "citation_specs = [\<lparr>its_tag = Citation, its_open = CITATION_OPEN, its_close = CITATION_CLOSE\<rparr>]"

definition citation_parser_new :: "citation_parser option" where
  "citation_parser_new = inline_parser_new citation_specs"

definition citation_chunk :: "citation_tag inline_out \<Rightarrow> str stream_text_chunk" where
  "citation_chunk inner = \<lparr>visible_text = visible_text inner, extracted = map et_content (extracted inner)\<rparr>"

definition citation_push_str :: "citation_parser \<Rightarrow> str \<Rightarrow> (citation_parser \<times> str stream_text_chunk) option" where
  "citation_push_str p chunk = map_option (\<lambda>(p', inner). (p', citation_chunk inner)) (inline_push_str p chunk)"

definition citation_finish :: "citation_parser \<Rightarrow> citation_parser \<times> str stream_text_chunk" where
  "citation_finish p = (case inline_finish p of (p', inner) \<Rightarrow> (p', citation_chunk inner))"

definition strip_citations :: "str \<Rightarrow> (str \<times> str list) option" where
  "strip_citations text =
     Option.bind citation_parser_new (\<lambda>p.
     Option.bind (citation_push_str p text) (\<lambda>(p1, out).
     let tail = snd (citation_finish p1)
     in Some (visible_text out @ visible_text tail, extracted out @ extracted tail)))"

lemma citation_chunk_simps [simp]:
  "citation_chunk text_chunk_default = text_chunk_default"
  "citation_chunk (append_chunk a b) = append_chunk (citation_chunk a) (citation_chunk b)"
  by (simp_all add: citation_chunk_def text_chunk_default_def append_chunk_def)

interpretation citations: stream_text_parser citation_push_str citation_finish inline_inv "\<lambda>x. [x]"
proof
  fix p s
  assume p: "inline_inv (p :: citation_parser)"
  show "\<exists>p' out. citation_push_str p s = Some (p', out) \<and> inline_inv p'"
    using inline_push_ok [OF p, of s] by (auto simp: citation_push_str_def)
  show "citation_push_str p [] = Some (p, text_chunk_default)" using inline.push_Nil [OF p] by (simp add: citation_push_str_def)
  show "inline_inv (fst (citation_finish p))" using inline.finish_inv [OF p]
    by (simp add: citation_finish_def case_prod_beta)
next
  fix p a p1 out1 b p2 out2
  assume p: "inline_inv (p :: citation_parser)" "citation_push_str p a = Some (p1, out1)" "citation_push_str p1 b = Some (p2, out2)"
  then show "\<exists>out. citation_push_str p (a @ b) = Some (p2, out) \<and>
      chunk_events (\<lambda>x. [x]) out = chunk_events (\<lambda>x. [x]) (append_chunk out1 out2)"
    using inline_push_append [OF p(1)] by (fastforce simp: citation_push_str_def)
qed

lemma citation_specs_ok: "specs_ok citation_specs" "unambiguous citation_specs"
  by (simp_all add: specs_ok_def unambiguous_def citation_specs_def CITATION_OPEN_def CITATION_CLOSE_def lit_eval)

lemma citation_parser_new_eq: "citation_parser_new = Some \<lparr>ip_specs = citation_specs, ip_pending = [], ip_active = None\<rparr>"
  by (simp add: citation_parser_new_def inline_parser_new_def citation_specs_ok)

lemma citation_new_inv: "citation_parser_new = Some p \<Longrightarrow> inline_inv p"
  by (auto simp: citation_parser_new_eq inline_inv_def citation_specs_ok active_ok_def inline_loop_Nil)

lemma find_next_open_citation:
  "find_next_open citation_specs text = map_option (\<lambda>pos. (pos, 0)) (find_str CITATION_OPEN text)"
  by (cases "find_str CITATION_OPEN text")
    (simp_all add: find_next_open_def open_candidates_def citation_specs_def map_filter_simps least_of_def)

definition strip_result :: "str \<times> 't active_tag option \<times> 't inline_out \<Rightarrow> str \<times> str list" where
  "strip_result r = (case r of (pending, active, out) \<Rightarrow>
     (case active of
        Some a \<Rightarrow> (visible_text out, map et_content (extracted out) @ [at_content a @ pending])
      | None \<Rightarrow> (visible_text out @ pending, map et_content (extracted out))))"

lemma strip_citations_loop:
  "strip_citations text = map_option strip_result (inline_loop citation_specs text None text_chunk_default)"
  unfolding strip_citations_def citation_parser_new_eq citation_push_str_def inline_push_str_def
  by (cases "inline_loop citation_specs text None text_chunk_default")
    (auto simp: strip_result_def citation_finish_def inline_finish_def citation_chunk_def split: option.split)

lemma strip_result_append:
  "strip_result (p, a, append_chunk out out') =
     (visible_text out @ fst (strip_result (p, a, out')), map et_content (extracted out) @ snd (strip_result (p, a, out')))"
  by (simp add: strip_result_def split: option.split)

lemma strip_loop_after:
  "map_option strip_result (inline_loop citation_specs text None out) =
     map_option (\<lambda>(v, cs). (visible_text out @ v, map et_content (extracted out) @ cs)) (strip_citations text)"
proof -
  have "inline_loop citation_specs text None (append_chunk out text_chunk_default) =
      map_option (\<lambda>(p', active', out'). (p', active', append_chunk out out')) (inline_loop citation_specs text None text_chunk_default)"
    by (rule inline_loop_out) (simp_all add: citation_specs_ok active_ok_def)
  then show ?thesis
    by (cases "inline_loop citation_specs text None text_chunk_default")
      (auto simp: strip_citations_loop strip_result_append case_prod_beta)
qed

lemma longest_le: "n \<noteq> [] \<Longrightarrow> longest_suffix_prefix_len s n \<le> length s"
  using longest_ok(1) [of n s] by (simp add: partial_at_end_def)

text \<open>
  Removing citations from a text follows its delimiters from left to right: without an opening tag
  the text is kept; an opening tag without a closing one hides the whole rest, which is a
  citation; otherwise the text up to the first closing tag is a citation and the rest is
  treated in the same way.
\<close>
theorem strip_citations_equation:
  "strip_citations text =
     (case find_str CITATION_OPEN text of
        None \<Rightarrow> Some (text, [])
      | Some i \<Rightarrow>
          let rest = drop (i + length CITATION_OPEN) text in
          (case find_str CITATION_CLOSE rest of
             None \<Rightarrow> Some (take i text, [rest])
           | Some j \<Rightarrow>
               map_option (\<lambda>(visible, citations). (take i text @ visible, take j rest # citations))
                 (strip_citations (drop (j + length CITATION_CLOSE) rest))))"
proof (cases "find_str CITATION_OPEN text")
  case None
  then have "find_next_open citation_specs text = None" by (simp add: find_next_open_citation)
  from inline_loop_stops(2) [OF this refl] show ?thesis using None
    by (simp add: strip_citations_loop strip_result_def push_visible_prefix_def)
next
  case (Some i)
  define rest where "rest = drop (i + length CITATION_OPEN) text"
  let ?a = "\<lparr>at_tag = Citation, at_close = CITATION_CLOSE, at_content = []\<rparr>"
  have "find_next_open citation_specs text = Some (i, 0)" using Some by (simp add: find_next_open_citation)
  from inline_loop_steps(2) [OF this, of text_chunk_default]
  have "inline_loop citation_specs text None text_chunk_default =
      inline_loop citation_specs rest (Some ?a) (push_visible_prefix text_chunk_default (take i text))"
    by (simp add: citation_specs_def rest_def)
  then have run: "strip_citations text = map_option strip_result
      (inline_loop citation_specs rest (Some ?a) (push_visible_prefix text_chunk_default (take i text)))"
    by (simp add: strip_citations_loop)
  show ?thesis
  proof (cases "find_str CITATION_CLOSE rest")
    case None
    then have "find_str (at_close ?a) rest = None" by simp
    from run [unfolded inline_loop_stops(1) [OF this refl]] show ?thesis using \<open>find_str CITATION_OPEN text = Some i\<close> None
      by (simp add: strip_result_def push_visible_prefix_def rest_def [symmetric] Let_def)
  next
    case (Some j)
    then have "find_str (at_close ?a) rest = Some j" by simp
    from run [unfolded inline_loop_steps(1) [OF this] strip_loop_after] show ?thesis
      using \<open>find_str CITATION_OPEN text = Some i\<close> Some
      by (simp add: push_visible_prefix_def rest_def [symmetric] Let_def)
  qed
qed

lemma push_all_inline_returns:
  assumes "specs_ok (ip_specs p)" "active_ok (ip_active p)"
  shows "\<exists>p' out. push_all inline_push_str p chunks = Some (p', out)"
  using assms
proof (induction chunks arbitrary: p)
  case (Cons c cs)
  obtain q a out where run: "inline_loop (ip_specs p) (ip_pending p @ c) (ip_active p) text_chunk_default = Some (q, a, out)"
    "active_ok a" using inline_loop_returns [OF Cons.prems] by blast
  let ?p = "p\<lparr>ip_pending := q, ip_active := a\<rparr>"
  have "\<exists>p' out. push_all inline_push_str ?p cs = Some (p', out)" using Cons.prems run(2) by (intro Cons.IH) simp_all
  moreover have "inline_push_str p c = Some (?p, out)" using run(1) by (simp add: inline_push_str_def)
  ultimately show ?case by auto
qed simp

text \<open>
  C30. A parser that its constructor accepts never loops: whatever the tags are, also when one
  delimiter is part of another, every push of every chunk returns.
\<close>
theorem inline_parser_terminates:
  assumes "inline_parser_new specs = Some p"
  shows "\<exists>p' out. push_all inline_push_str p chunks = Some (p', out)"
  using assms by (intro push_all_inline_returns) (auto simp: inline_parser_new_def active_ok_def split: if_splits)

theorem inline_parser_terminates_witness:
  "\<exists>p p' out. inline_parser_new [\<lparr>its_tag = Citation, its_open = [60], its_close = [62]\<rparr>] = Some p \<and>
     push_all inline_push_str p [[60, 65], [62]] = Some (p', out)"
proof -
  have "inline_parser_new [\<lparr>its_tag = Citation, its_open = [60], its_close = [62]\<rparr>] =
      Some \<lparr>ip_specs = [\<lparr>its_tag = Citation, its_open = [60], its_close = [62]\<rparr>], ip_pending = [], ip_active = None\<rparr>"
    by (simp add: inline_parser_new_def specs_ok_def)
  from inline_parser_terminates [OF this] this show ?thesis by blast
qed

text \<open>
  With delimiters that are part of one another the cut does matter: an opening delimiter that is
  complete at the end of a chunk is taken, although the longer one would have won in one piece.
\<close>

definition nested_specs :: "nat inline_tag_spec list" where
  "nested_specs = [\<lparr>its_tag = 1, its_open = [60, 97], its_close = [62]\<rparr>, \<lparr>its_tag = 2, its_open = [60, 97, 98], its_close = [62]\<rparr>]"

declare inline_loop.simps [code]

lemma longest_opener_depends_on_cut:
  "Option.bind (inline_parser_new nested_specs) (\<lambda>p. collect_chunks inline_push_str inline_finish p [[60, 97, 98, 62]]) =
     Some \<lparr>visible_text = [], extracted = [\<lparr>et_tag = 2, et_content = []\<rparr>]\<rparr>"
  "Option.bind (inline_parser_new nested_specs) (\<lambda>p. collect_chunks inline_push_str inline_finish p [[60, 97], [98, 62]]) =
     Some \<lparr>visible_text = [], extracted = [\<lparr>et_tag = 1, et_content = [98]\<rparr>]\<rparr>"
  by code_simp+

end
