(* ===== verification/Tagged_Lines.thy ===== *)
theory Tagged_Lines
  imports Stream_Text
begin

text \<open>
  Tag blocks whose tags stand alone on a line: \<open>TaggedLineParser\<close> (\<open>tagged_line_parser.rs\<close>) and the
  proposed-plan parser built on it (\<open>proposed_plan.rs\<close>). The parser works character by character
  and holds a line back only while it may still be a tag. It agrees with a reference that looks
  at whole lines, and it is a \<open>stream_text_parser\<close> whose events are single characters and tags.
\<close>

section \<open>The tagged line parser\<close>

record 't tag_spec =
  ts_open :: str
  ts_close :: str
  ts_tag :: 't

datatype 't tagged_line_segment = Normal str | TagStart 't | TagDelta 't str | TagEnd 't

record 't tagged_line_parser =
  tl_specs :: "'t tag_spec list"
  tl_active_tag :: "'t option"
  tl_detect_tag :: bool
  tl_line_buffer :: str

definition tagged_line_parser_new :: "'t tag_spec list \<Rightarrow> 't tagged_line_parser" where
  "tagged_line_parser_new specs =
     \<lparr>tl_specs = specs, tl_active_tag = None, tl_detect_tag = True, tl_line_buffer = []\<rparr>"

fun push_segment :: "'t tagged_line_segment list \<Rightarrow> 't tagged_line_segment \<Rightarrow> 't tagged_line_segment list" where
  "push_segment segments (Normal delta) =
     (if delta = [] then segments
      else case last_opt segments of
             Some (Normal existing) \<Rightarrow> butlast segments @ [Normal (existing @ delta)]
           | _ \<Rightarrow> segments @ [Normal delta])"
| "push_segment segments (TagDelta tag delta) =
     (if delta = [] then segments
      else case last_opt segments of
             Some (TagDelta existing_tag existing) \<Rightarrow>
               if existing_tag = tag then butlast segments @ [TagDelta existing_tag (existing @ delta)]
               else segments @ [TagDelta tag delta]
           | _ \<Rightarrow> segments @ [TagDelta tag delta])"
| "push_segment segments (TagStart tag) = segments @ [TagStart tag]"
| "push_segment segments (TagEnd tag) = segments @ [TagEnd tag]"

definition push_text ::
  "'t tagged_line_parser \<Rightarrow> str \<Rightarrow> 't tagged_line_segment list \<Rightarrow> 't tagged_line_segment list" where
  "push_text p text segments =
     (case tl_active_tag p of
        Some tag \<Rightarrow> push_segment segments (TagDelta tag text)
      | None \<Rightarrow> push_segment segments (Normal text))"

definition is_tag_prefix :: "'t tagged_line_parser \<Rightarrow> str \<Rightarrow> bool" where
  "is_tag_prefix p slug =
     (let s = trim_end slug in list_ex (\<lambda>spec. starts_with s (ts_open spec) \<or> starts_with s (ts_close spec)) (tl_specs p))"

definition match_open :: "'t tagged_line_parser \<Rightarrow> str \<Rightarrow> 't option" where
  "match_open p slug = map_option ts_tag (List.find (\<lambda>spec. ts_open spec = slug) (tl_specs p))"

definition match_close :: "'t tagged_line_parser \<Rightarrow> str \<Rightarrow> 't option" where
  "match_close p slug = map_option ts_tag (List.find (\<lambda>spec. ts_close spec = slug) (tl_specs p))"

definition line_slug :: "str \<Rightarrow> str" where
  "line_slug line = trim_end (trim_start (strip_opt_suffix [10] line))"

definition tagged_finish_line ::
  "'t tagged_line_parser \<Rightarrow> 't tagged_line_segment list \<Rightarrow> 't tagged_line_parser \<times> 't tagged_line_segment list" where
  "tagged_finish_line p segments =
     (let line = tl_line_buffer p;
          p0 = p\<lparr>tl_line_buffer := []\<rparr>;
          slug = line_slug line
      in case (match_open p0 slug, tl_active_tag p0) of
           (Some tag, None) \<Rightarrow>
             (p0\<lparr>tl_active_tag := Some tag, tl_detect_tag := True\<rparr>, push_segment segments (TagStart tag))
         | _ \<Rightarrow>
             (case match_close p0 slug of
                Some tag \<Rightarrow>
                  if tl_active_tag p0 = Some tag
                  then (p0\<lparr>tl_active_tag := None, tl_detect_tag := True\<rparr>, push_segment segments (TagEnd tag))
                  else (p0\<lparr>tl_detect_tag := True\<rparr>, push_text p0 line segments)
              | None \<Rightarrow> (p0\<lparr>tl_detect_tag := True\<rparr>, push_text p0 line segments)))"

type_synonym 't parse_state = "'t tagged_line_parser \<times> str \<times> 't tagged_line_segment list"

definition flush_run :: "'t tagged_line_parser \<Rightarrow> str \<Rightarrow> 't tagged_line_segment list \<Rightarrow> 't tagged_line_segment list" where
  "flush_run p run segments = (if run \<noteq> [] then push_text p run segments else segments)"

fun parse_char :: "uchar \<Rightarrow> 't parse_state \<Rightarrow> 't parse_state" where
  "parse_char ch (p, run, segments) =
     (if tl_detect_tag p then
        let segments = flush_run p run segments;
            p = p\<lparr>tl_line_buffer := tl_line_buffer p @ [ch]\<rparr>
        in if ch = 10 then (case tagged_finish_line p segments of (p', segments') \<Rightarrow> (p', [], segments'))
           else let slug = trim_start (tl_line_buffer p) in
             if slug = [] \<or> is_tag_prefix p slug then (p, [], segments)
             else let buffered = tl_line_buffer p;
                      p' = p\<lparr>tl_line_buffer := [], tl_detect_tag := False\<rparr>
                  in (p', [], push_text p' buffered segments)
      else if ch = 10 then (p\<lparr>tl_detect_tag := True\<rparr>, [], push_text p (run @ [ch]) segments)
      else (p, run @ [ch], segments))"

definition tagged_parse ::
  "'t tagged_line_parser \<Rightarrow> str \<Rightarrow> 't tagged_line_parser \<times> 't tagged_line_segment list" where
  "tagged_parse p delta =
     (case fold parse_char delta (p, [], []) of (p', run, segments) \<Rightarrow> (p', flush_run p' run segments))"

definition tagged_finish :: "'t tagged_line_parser \<Rightarrow> 't tagged_line_parser \<times> 't tagged_line_segment list" where
  "tagged_finish p =
     (let (p1, segments) =
            (if tl_line_buffer p \<noteq> [] then
               let buffered = tl_line_buffer p;
                   p0 = p\<lparr>tl_line_buffer := []\<rparr>;
                   slug = line_slug buffered
               in case (match_open p0 slug, tl_active_tag p0) of
                    (Some tag, None) \<Rightarrow> (p0\<lparr>tl_active_tag := Some tag\<rparr>, push_segment [] (TagStart tag))
                  | _ \<Rightarrow>
                      (case match_close p0 slug of
                         Some tag \<Rightarrow>
                           if tl_active_tag p0 = Some tag
                           then (p0\<lparr>tl_active_tag := None\<rparr>, push_segment [] (TagEnd tag))
                           else (p0, push_text p0 buffered [])
                       | None \<Rightarrow> (p0, push_text p0 buffered []))
             else (p, []))
      in case tl_active_tag p1 of
           Some tag \<Rightarrow> (p1\<lparr>tl_active_tag := None, tl_detect_tag := True\<rparr>, push_segment segments (TagEnd tag))
         | None \<Rightarrow> (p1\<lparr>tl_detect_tag := True\<rparr>, segments))"

section \<open>Events\<close>

datatype 't line_event = TextChar "'t option" uchar | Start 't | End 't

fun segment_events :: "'t tagged_line_segment \<Rightarrow> 't line_event list" where
  "segment_events (Normal text) = map (TextChar None) text"
| "segment_events (TagDelta tag text) = map (TextChar (Some tag)) text"
| "segment_events (TagStart tag) = [Start tag]"
| "segment_events (TagEnd tag) = [End tag]"

abbreviation all_events :: "'t tagged_line_segment list \<Rightarrow> 't line_event list" where
  "all_events segments \<equiv> concat (map segment_events segments)"

lemma last_opt_Some: "last_opt xs = Some x \<Longrightarrow> xs = butlast xs @ [x]"
  by (cases xs rule: rev_cases) (simp_all add: last_opt_def)

lemma push_segment_events [simp]: "all_events (push_segment segments s) = all_events segments @ segment_events s"
proof (cases s)
  case (Normal delta)
  show ?thesis
  proof (cases "\<exists>existing. last_opt segments = Some (Normal existing)")
    case True
    then obtain e where l: "last_opt segments = Some (Normal e)" by blast
    have "all_events segments = all_events (butlast segments) @ map (TextChar None) e"
      by (subst last_opt_Some [OF l]) simp
    then show ?thesis using Normal l by simp
  next
    case False
    then show ?thesis using Normal by (auto split: option.split tagged_line_segment.split)
  qed
next
  case (TagDelta tag delta)
  show ?thesis
  proof (cases "\<exists>existing. last_opt segments = Some (TagDelta tag existing)")
    case True
    then obtain e where l: "last_opt segments = Some (TagDelta tag e)" by blast
    have "all_events segments = all_events (butlast segments) @ map (TextChar (Some tag)) e"
      by (subst last_opt_Some [OF l]) simp
    then show ?thesis using TagDelta l by simp
  next
    case False
    then show ?thesis using TagDelta by (auto split: option.split tagged_line_segment.split)
  qed
qed simp_all

declare push_segment.simps [simp del]

lemma push_text_events [simp]: "all_events (push_text p text segments) = all_events segments @ map (TextChar (tl_active_tag p)) text"
  by (simp add: push_text_def split: option.split)

lemma flush_run_events [simp]: "all_events (flush_run p run segments) = all_events segments @ map (TextChar (tl_active_tag p)) run"
  by (simp add: flush_run_def)

lemma tagged_finish_line_state:
  "fst (tagged_finish_line p segments) = fst (tagged_finish_line p [])"
  "all_events (snd (tagged_finish_line p segments)) = all_events segments @ all_events (snd (tagged_finish_line p []))"
  by (simp_all add: tagged_finish_line_def Let_def split: option.split)

text \<open>
  Everything a parse state has produced so far: the segments and the run that will be flushed
  under the active tag.
\<close>

fun produced :: "'t parse_state \<Rightarrow> 't line_event list" where
  "produced (p, run, segments) = all_events segments @ map (TextChar (tl_active_tag p)) run"

text \<open>One character advances the parser and produces events independently of what was produced before.\<close>

lemma parse_char_mealy:
  "fst (parse_char ch (p, run, segments)) = fst (parse_char ch (p, [], []))"
  "produced (parse_char ch (p, run, segments)) = produced (p, run, segments) @ produced (parse_char ch (p, [], []))"
proof -
  note fl = tagged_finish_line_state [of "p\<lparr>tl_line_buffer := tl_line_buffer p @ [ch]\<rparr>" "flush_run p run segments"]
    tagged_finish_line_state [of "p\<lparr>tl_line_buffer := tl_line_buffer p @ [ch]\<rparr>" "flush_run p [] []"]
  show "fst (parse_char ch (p, run, segments)) = fst (parse_char ch (p, [], []))"
    using fl(1,3) by (auto simp: Let_def case_prod_beta)
  show "produced (parse_char ch (p, run, segments)) = produced (p, run, segments) @ produced (parse_char ch (p, [], []))"
    using fl by (auto simp: Let_def case_prod_beta)
qed

lemma parse_chars_mealy:
  "fst (fold parse_char s (p, run, segments)) = fst (fold parse_char s (p, [], [])) \<and>
   produced (fold parse_char s (p, run, segments)) = produced (p, run, segments) @ produced (fold parse_char s (p, [], []))"
proof (induction s arbitrary: p run segments)
  case (Cons ch s)
  obtain p1 r1 g1 where a: "parse_char ch (p, run, segments) = (p1, r1, g1)" by (metis prod_cases3)
  obtain p2 r2 g2 where b: "parse_char ch (p, [], []) = (p2, r2, g2)" by (metis prod_cases3)
  have p: "p2 = p1" using parse_char_mealy(1) [of ch p run segments] a b by simp
  have e: "produced (p1, r1, g1) = produced (p, run, segments) @ produced (p2, r2, g2)"
    using parse_char_mealy(2) [of ch p run segments] a b by simp
  show ?case using Cons.IH [of p1 r1 g1] Cons.IH [of p2 r2 g2] a b p e by (simp del: produced.simps parse_char.simps)
qed simp

lemma tagged_parse_events:
  "fst (tagged_parse p s) = fst (fold parse_char s (p, [], []))"
  "all_events (snd (tagged_parse p s)) = produced (fold parse_char s (p, [], []))"
  by (cases "fold parse_char s (p, [], [])"; simp add: tagged_parse_def)+

lemma tagged_parse_append:
  "fst (tagged_parse p (a @ b)) = fst (tagged_parse (fst (tagged_parse p a)) b)"
  "all_events (snd (tagged_parse p (a @ b))) =
     all_events (snd (tagged_parse p a)) @ all_events (snd (tagged_parse (fst (tagged_parse p a)) b))"
proof -
  obtain p1 r1 g1 where a: "fold parse_char a (p, [], []) = (p1, r1, g1)" by (metis prod_cases3)
  note m = parse_chars_mealy [of b p1 r1 g1]
  show "fst (tagged_parse p (a @ b)) = fst (tagged_parse (fst (tagged_parse p a)) b)"
    using m a by (simp add: tagged_parse_events del: produced.simps)
  show "all_events (snd (tagged_parse p (a @ b))) =
     all_events (snd (tagged_parse p a)) @ all_events (snd (tagged_parse (fst (tagged_parse p a)) b))"
    using m a by (simp add: tagged_parse_events del: produced.simps)
qed

section \<open>Proposed plans\<close>

datatype plan_tag = ProposedPlan

definition OPEN_TAG :: str where
  "OPEN_TAG = lit ''<proposed_plan>''"

definition CLOSE_TAG :: str where
  "CLOSE_TAG = lit ''</proposed_plan>''"

datatype proposed_plan_segment = PlanNormal str | ProposedPlanStart | ProposedPlanDelta str | ProposedPlanEnd

type_synonym proposed_plan_parser = "plan_tag tagged_line_parser"

definition proposed_plan_parser_new :: proposed_plan_parser where
  "proposed_plan_parser_new = tagged_line_parser_new [\<lparr>ts_open = OPEN_TAG, ts_close = CLOSE_TAG, ts_tag = ProposedPlan\<rparr>]"

fun map_segment :: "plan_tag tagged_line_segment \<Rightarrow> proposed_plan_segment" where
  "map_segment (Normal text) = PlanNormal text"
| "map_segment (TagStart ProposedPlan) = ProposedPlanStart"
| "map_segment (TagDelta ProposedPlan text) = ProposedPlanDelta text"
| "map_segment (TagEnd ProposedPlan) = ProposedPlanEnd"

fun normal_text :: "proposed_plan_segment \<Rightarrow> str" where
  "normal_text (PlanNormal text) = text"
| "normal_text _ = []"

definition map_segments :: "plan_tag tagged_line_segment list \<Rightarrow> proposed_plan_segment stream_text_chunk" where
  "map_segments segments =
     fold (\<lambda>segment out. let mapped = map_segment segment in
         \<lparr>visible_text = visible_text out @ normal_text mapped, extracted = extracted out @ [mapped]\<rparr>)
       segments text_chunk_default"

definition plan_push_str ::
  "proposed_plan_parser \<Rightarrow> str \<Rightarrow> (proposed_plan_parser \<times> proposed_plan_segment stream_text_chunk) option" where
  "plan_push_str p chunk = (case tagged_parse p chunk of (p', segments) \<Rightarrow> Some (p', map_segments segments))"

definition plan_finish :: "proposed_plan_parser \<Rightarrow> proposed_plan_parser \<times> proposed_plan_segment stream_text_chunk" where
  "plan_finish p = (case tagged_finish p of (p', segments) \<Rightarrow> (p', map_segments segments))"

definition strip_proposed_plan_blocks :: "str \<Rightarrow> str" where
  "strip_proposed_plan_blocks text =
     (let (p, segments) = tagged_parse proposed_plan_parser_new text
      in visible_text (map_segments segments) @ visible_text (snd (plan_finish p)))"

fun plan_text_step :: "proposed_plan_segment \<Rightarrow> str \<times> bool \<Rightarrow> str \<times> bool" where
  "plan_text_step ProposedPlanStart (plan_text, saw) = ([], True)"
| "plan_text_step (ProposedPlanDelta delta) (plan_text, saw) = (plan_text @ delta, saw)"
| "plan_text_step ProposedPlanEnd st = st"
| "plan_text_step (PlanNormal _) st = st"

definition extract_proposed_plan_text :: "str \<Rightarrow> str option" where
  "extract_proposed_plan_text text =
     (let (p, segments) = tagged_parse proposed_plan_parser_new text;
          (plan_text, saw) = fold plan_text_step (extracted (map_segments segments) @ extracted (snd (plan_finish p))) ([], False)
      in if saw then Some plan_text else None)"

fun plan_events :: "proposed_plan_segment \<Rightarrow> plan_tag line_event list" where
  "plan_events (PlanNormal text) = map (TextChar None) text"
| "plan_events ProposedPlanStart = [Start ProposedPlan]"
| "plan_events (ProposedPlanDelta text) = map (TextChar (Some ProposedPlan)) text"
| "plan_events ProposedPlanEnd = [End ProposedPlan]"

fun visible_event :: "'t line_event \<Rightarrow> str" where
  "visible_event (TextChar None c) = [c]"
| "visible_event _ = []"

lemma visible_events_text [simp]:
  "concat (map (visible_event \<circ> TextChar None) s) = s"
  "concat (map (visible_event \<circ> TextChar (Some t)) s) = []"
  by (induction s) simp_all

lemma map_segments_eq:
  "extracted (map_segments segments) = map map_segment segments"
  "visible_text (map_segments segments) = concat (map visible_event (all_events segments))"
proof -
  have "fold (\<lambda>segment out. let mapped = map_segment segment in
      \<lparr>visible_text = visible_text out @ normal_text mapped, extracted = extracted out @ [mapped]\<rparr>) segments out =
    \<lparr>visible_text = visible_text out @ concat (map (\<lambda>s. normal_text (map_segment s)) segments),
     extracted = extracted out @ map map_segment segments\<rparr>" for out
    by (induction segments arbitrary: out) (simp_all add: Let_def)
  then have m: "map_segments segments = \<lparr>visible_text = concat (map (\<lambda>s. normal_text (map_segment s)) segments),
      extracted = map map_segment segments\<rparr>" by (simp add: map_segments_def)
  have n: "normal_text (map_segment s) = concat (map visible_event (segment_events s))" for s
    by (cases s rule: map_segment.cases) simp_all
  show "extracted (map_segments segments) = map map_segment segments" using m by simp
  show "visible_text (map_segments segments) = concat (map visible_event (all_events segments))"
  proof -
    have "concat (map (\<lambda>s. normal_text (map_segment s)) segments) = concat (map visible_event (all_events segments))"
      unfolding n by (induction segments) simp_all
    then show ?thesis using m by simp
  qed
qed

lemma plan_events_map [simp]: "plan_events (map_segment s) = segment_events s"
  by (cases s rule: map_segment.cases) simp_all

lemma map_segments_events:
  "chunk_events plan_events (map_segments segments) = (concat (map visible_event (all_events segments)), all_events segments)"
  by (simp add: chunk_events_def map_segments_eq comp_def)

lemma tagged_parse_Nil [simp]: "tagged_parse p [] = (p, [])"
  by (simp add: tagged_parse_def flush_run_def)

lemma plan_push_append:
  assumes "plan_push_str p a = Some (p1, out1)" "plan_push_str p1 b = Some (p2, out2)"
  shows "\<exists>out. plan_push_str p (a @ b) = Some (p2, out) \<and>
    chunk_events plan_events out = chunk_events plan_events (append_chunk out1 out2)"
proof -
  have e: "chunk_events plan_events (append_chunk c d) =
      (fst (chunk_events plan_events c) @ fst (chunk_events plan_events d),
       snd (chunk_events plan_events c) @ snd (chunk_events plan_events d))" for c d
    by (simp add: chunk_events_def)
  show ?thesis using assms tagged_parse_append [of p a b]
    by (auto simp: plan_push_str_def e map_segments_events case_prod_beta)
qed

interpretation plans: stream_text_parser plan_push_str plan_finish "\<lambda>_. True" plan_events
proof
  show "plan_push_str p [] = Some (p, text_chunk_default)" for p
    by (simp add: plan_push_str_def map_segments_def)
  show "\<exists>p' out. plan_push_str p s = Some (p', out) \<and> True" for p s
    by (simp add: plan_push_str_def case_prod_beta)
qed (use plan_push_append in blast)+

section \<open>Line by line\<close>

text \<open>The reference: a line is a tag, or it is text under the active tag.\<close>

definition line_step ::
  "'t tag_spec list \<Rightarrow> str \<Rightarrow> 't option \<times> 't line_event list \<Rightarrow> 't option \<times> 't line_event list" where
  "line_step specs line st =
     (case st of (active, evs) \<Rightarrow>
       (case (List.find (\<lambda>spec. ts_open spec = line_slug line) specs, active) of
          (Some spec, None) \<Rightarrow> (Some (ts_tag spec), evs @ [Start (ts_tag spec)])
        | _ \<Rightarrow>
            (case List.find (\<lambda>spec. ts_close spec = line_slug line) specs of
               Some spec \<Rightarrow>
                 if active = Some (ts_tag spec) then (None, evs @ [End (ts_tag spec)])
                 else (active, evs @ map (TextChar active) line)
             | None \<Rightarrow> (active, evs @ map (TextChar active) line))))"

definition close_events :: "'t option \<Rightarrow> 't line_event list" where
  "close_events active = (case active of Some tag \<Rightarrow> [End tag] | None \<Rightarrow> [])"

definition events_by_line :: "'t tag_spec list \<Rightarrow> str \<Rightarrow> 't line_event list" where
  "events_by_line specs text =
     (case fold (line_step specs) (split_inclusive 10 text) (None, []) of (active, evs) \<Rightarrow> evs @ close_events active)"

text \<open>Delimiters without white space, which makes every beginning of a tag line look like a tag.\<close>

definition plain_specs :: "'t tag_spec list \<Rightarrow> bool" where
  "plain_specs specs \<longleftrightarrow>
     list_all (\<lambda>spec. list_all (\<lambda>c. \<not> is_whitespace c) (ts_open spec) \<and> list_all (\<lambda>c. \<not> is_whitespace c) (ts_close spec)) specs"

lemma trim_end_plain: "\<forall>c \<in> set s. \<not> is_whitespace c \<Longrightarrow> trim_end s = s"
proof -
  assume "\<forall>c \<in> set s. \<not> is_whitespace c"
  then have "dropWhile is_whitespace (rev s) = rev s" by (cases "rev s") (auto simp: dropWhile_eq_self_iff)
  then show ?thesis by (simp add: trim_end_def)
qed

lemma trim_end_split: "\<exists>w. s = trim_end s @ w \<and> (\<forall>c \<in> set w. is_whitespace c)"
proof -
  have "rev s = takeWhile is_whitespace (rev s) @ dropWhile is_whitespace (rev s)" by simp
  then have "s = rev (dropWhile is_whitespace (rev s)) @ rev (takeWhile is_whitespace (rev s))"
    by (metis rev_append rev_rev_ident)
  moreover have "\<forall>c \<in> set (rev (takeWhile is_whitespace (rev s))). is_whitespace c" by (auto dest: set_takeWhileD)
  ultimately show ?thesis unfolding trim_end_def by blast
qed

text \<open>The beginning of a line that trims to a plain delimiter trims to a beginning of it.\<close>

lemma prefix_of_tag_line:
  assumes l: "trim_end (trim_start (q @ r)) = d" and plain: "\<forall>c \<in> set d. \<not> is_whitespace c" and q: "trim_start q \<noteq> []"
  shows "starts_with (trim_end (trim_start q)) d"
proof -
  have s: "trim_start (q @ r) = trim_start q @ r"
    using q by (auto simp: trim_start_def dropWhile_append)
  obtain w where w: "trim_start q @ r = d @ w" "\<forall>c \<in> set w. is_whitespace c" using trim_end_split [of "trim_start q @ r"] l s by auto
  show ?thesis
  proof (cases "length (trim_start q) \<le> length d")
    case True
    then obtain e where e: "d = trim_start q @ e" using w(1) by (auto simp: append_eq_append_conv_if) (metis append_take_drop_id)
    then have "trim_end (trim_start q) = trim_start q" using plain by (intro trim_end_plain) auto
    then show ?thesis using e by (auto simp: starts_with_iff)
  next
    case False
    then obtain e where e: "trim_start q = d @ e" "w = e @ r" using w(1) by (auto simp: append_eq_append_conv2)
    then have "trim_end (trim_start q) = trim_end d" using w(2) by (simp add: trim_end_append)
    then show ?thesis using trim_end_plain [OF plain] by (auto simp: starts_with_iff)
  qed
qed

lemma line_slug_newline: "line_slug (l @ [10]) = trim_end (trim_start l)"
proof -
  have "strip_suffix [10] (l @ [10]) = Some l" by (simp add: strip_suffix_Some_iff)
  then show ?thesis by (simp add: line_slug_def strip_opt_suffix_def)
qed

lemma line_slug_plain: "10 \<notin> set l \<Longrightarrow> line_slug l = trim_end (trim_start l)"
proof -
  assume "10 \<notin> set l"
  then have "strip_suffix [10] l = None"
    by (cases "strip_suffix [10] l") (auto simp: strip_suffix_Some_iff)
  then show ?thesis by (simp add: line_slug_def strip_opt_suffix_def)
qed

definition rejected :: "'t tagged_line_parser \<Rightarrow> str \<Rightarrow> bool" where
  "rejected p q \<longleftrightarrow> trim_start q \<noteq> [] \<and> \<not> is_tag_prefix p (trim_start q)"

lemma rejected_no_match:
  assumes plain: "plain_specs (tl_specs p)" and r: "rejected p q"
  shows "List.find (\<lambda>spec. ts_open spec = trim_end (trim_start (q @ r))) (tl_specs p) = None"
    "List.find (\<lambda>spec. ts_close spec = trim_end (trim_start (q @ r))) (tl_specs p) = None"
proof -
  let ?s = "trim_end (trim_start (q @ r))"
  have no: "\<not> starts_with (trim_end (trim_start q)) (ts_open spec)" "\<not> starts_with (trim_end (trim_start q)) (ts_close spec)"
    if "spec \<in> set (tl_specs p)" for spec
    using r that by (auto simp: rejected_def is_tag_prefix_def Let_def list_ex_iff)
  have "ts_open spec \<noteq> ?s" "ts_close spec \<noteq> ?s" if spec: "spec \<in> set (tl_specs p)" for spec
    using no [OF spec] prefix_of_tag_line [OF refl, of q r] plain spec r
    by (auto simp: plain_specs_def list_all_iff rejected_def)
  then show "List.find (\<lambda>spec. ts_open spec = ?s) (tl_specs p) = None" "List.find (\<lambda>spec. ts_close spec = ?s) (tl_specs p) = None"
    by (auto simp: find_None_iff)
qed

lemma tagged_parse_snoc:
  "fst (tagged_parse p (s @ [c])) = fst (parse_char c (fst (tagged_parse p s), [], []))"
  "all_events (snd (tagged_parse p (s @ [c]))) =
     all_events (snd (tagged_parse p s)) @ produced (parse_char c (fst (tagged_parse p s), [], []))"
  using tagged_parse_append [of p s "[c]"] by (simp_all add: tagged_parse_events del: parse_char.simps)

definition fresh :: "'t tagged_line_parser \<Rightarrow> bool" where
  "fresh p \<longleftrightarrow> tl_detect_tag p \<and> tl_line_buffer p = []"

text \<open>Inside a line: held back as a whole, or passed on because its beginning is no tag.\<close>

lemma parse_line_prefix:
  assumes "fresh p" "10 \<notin> set q"
  shows "fst (tagged_parse p q) = p\<lparr>tl_line_buffer := q\<rparr> \<and> all_events (snd (tagged_parse p q)) = [] \<or>
    fst (tagged_parse p q) = p\<lparr>tl_detect_tag := False\<rparr> \<and>
      all_events (snd (tagged_parse p q)) = map (TextChar (tl_active_tag p)) q \<and> (\<exists>a b. q = a @ b \<and> rejected p a)"
  using assms(2)
proof (induction q rule: rev_induct)
  case Nil
  then show ?case using assms(1) by (simp add: fresh_def)
next
  case (snoc c q)
  have c: "c \<noteq> 10" "10 \<notin> set q" using snoc.prems by auto
  have tag: "is_tag_prefix (p\<lparr>tl_line_buffer := b\<rparr>) = is_tag_prefix p" for b
    by (simp add: is_tag_prefix_def fun_eq_iff)
  consider (held) "fst (tagged_parse p q) = p\<lparr>tl_line_buffer := q\<rparr>" "all_events (snd (tagged_parse p q)) = []"
    | (passed) a b where "fst (tagged_parse p q) = p\<lparr>tl_detect_tag := False\<rparr>"
      "all_events (snd (tagged_parse p q)) = map (TextChar (tl_active_tag p)) q" "q = a @ b" "rejected p a"
    using snoc.IH [OF c(2)] by blast
  then show ?case
  proof cases
    case held
    have d: "tl_detect_tag p" "tl_line_buffer p = []" using assms(1) by (simp_all add: fresh_def)
    have empty: "p\<lparr>tl_detect_tag := False, tl_line_buffer := []\<rparr> = p\<lparr>tl_detect_tag := False\<rparr>" using d by (cases p) simp
    have st: "fst (tagged_parse p (q @ [c])) = fst (parse_char c (p\<lparr>tl_line_buffer := q\<rparr>, [], []))"
      "all_events (snd (tagged_parse p (q @ [c]))) = produced (parse_char c (p\<lparr>tl_line_buffer := q\<rparr>, [], []))"
      using tagged_parse_snoc [of p q c] held by simp_all
    show ?thesis
    proof (cases "trim_start (q @ [c]) = [] \<or> is_tag_prefix p (trim_start (q @ [c]))")
      case True
      then show ?thesis using st c d by (simp add: flush_run_def tag Let_def)
    next
      case False
      then have "rejected p (q @ [c])" by (simp add: rejected_def)
      moreover have "fst (tagged_parse p (q @ [c])) = p\<lparr>tl_detect_tag := False\<rparr>"
        using st(1) c d False by (simp add: tag Let_def empty)
      moreover have "all_events (snd (tagged_parse p (q @ [c]))) = map (TextChar (tl_active_tag p)) (q @ [c])"
        using st(2) c d False by (simp add: flush_run_def tag Let_def)
      ultimately show ?thesis by blast
    qed
  next
    case passed
    then have "fst (tagged_parse p (q @ [c])) = p\<lparr>tl_detect_tag := False\<rparr>"
      "all_events (snd (tagged_parse p (q @ [c]))) = map (TextChar (tl_active_tag p)) (q @ [c])"
      using tagged_parse_snoc [of p q c] c by simp_all
    moreover have "q @ [c] = a @ (b @ [c])" using passed by simp
    ultimately show ?thesis using passed(4) by blast
  qed
qed

lemma line_step_evs: "line_step specs line (a, evs) = (fst (line_step specs line (a, [])), evs @ snd (line_step specs line (a, [])))"
  by (simp add: line_step_def split: option.split)

lemma fold_line_step_evs:
  "fold (line_step specs) ls (a, evs) =
     (fst (fold (line_step specs) ls (a, [])), evs @ snd (fold (line_step specs) ls (a, [])))"
proof (induction ls arbitrary: a evs)
  case (Cons l ls)
  obtain a' e where l: "line_step specs l (a, []) = (a', e)" by (cases "line_step specs l (a, [])")
  then have "line_step specs l (a, evs) = (a', evs @ e)" using line_step_evs [of specs l a evs] by simp
  then show ?case using l Cons.IH [of a' "evs @ e"] Cons.IH [of a' e] by simp
qed simp

lemma tagged_finish_line_is_step:
  assumes "fresh p"
  shows "fst (tagged_finish_line (p\<lparr>tl_line_buffer := line\<rparr>) []) = p\<lparr>tl_active_tag := fst (line_step (tl_specs p) line (tl_active_tag p, []))\<rparr> \<and>
    all_events (snd (tagged_finish_line (p\<lparr>tl_line_buffer := line\<rparr>) [])) = snd (line_step (tl_specs p) line (tl_active_tag p, []))"
  using assms
  by (cases p) (auto simp: tagged_finish_line_def line_step_def Let_def match_open_def match_close_def fresh_def split: option.split)

lemma rejected_line_is_text:
  assumes "plain_specs (tl_specs p)" "rejected p a" "10 \<notin> set (a @ b)" "line = a @ b \<or> line = a @ b @ [10]"
  shows "line_step (tl_specs p) line (active, []) = (active, map (TextChar active) line)"
proof -
  have "line_slug line = trim_end (trim_start (a @ b))"
    using assms(3,4) line_slug_newline [of "a @ b"] line_slug_plain [of "a @ b"] by auto
  then show ?thesis using rejected_no_match [OF assms(1,2), of b] by (simp add: line_step_def)
qed

lemma parse_full_line:
  assumes p: "fresh p" and plain: "plain_specs (tl_specs p)" and l: "10 \<notin> set l"
  shows "fst (tagged_parse p (l @ [10])) = p\<lparr>tl_active_tag := fst (line_step (tl_specs p) (l @ [10]) (tl_active_tag p, []))\<rparr> \<and>
    all_events (snd (tagged_parse p (l @ [10]))) = snd (line_step (tl_specs p) (l @ [10]) (tl_active_tag p, []))"
proof -
  have d: "tl_detect_tag p" using p by (simp add: fresh_def)
  consider (held) "fst (tagged_parse p l) = p\<lparr>tl_line_buffer := l\<rparr>" "all_events (snd (tagged_parse p l)) = []"
    | (passed) a b where "fst (tagged_parse p l) = p\<lparr>tl_detect_tag := False\<rparr>"
      "all_events (snd (tagged_parse p l)) = map (TextChar (tl_active_tag p)) l" "l = a @ b" "rejected p a"
    using parse_line_prefix [OF p l] by blast
  then show ?thesis
  proof cases
    case held
    have "fst (tagged_parse p (l @ [10])) = fst (tagged_finish_line (p\<lparr>tl_line_buffer := l @ [10]\<rparr>) [])"
      "all_events (snd (tagged_parse p (l @ [10]))) = all_events (snd (tagged_finish_line (p\<lparr>tl_line_buffer := l @ [10]\<rparr>) []))"
      unfolding tagged_parse_snoc held using d by (simp_all add: flush_run_def case_prod_beta Let_def)
    then show ?thesis using tagged_finish_line_is_step [OF p, of "l @ [10]"] by simp
  next
    case passed
    have "line_step (tl_specs p) (l @ [10]) (tl_active_tag p, []) = (tl_active_tag p, map (TextChar (tl_active_tag p)) (l @ [10]))"
      using rejected_line_is_text [OF plain passed(4), of b] passed(3) l by simp
    moreover have "p\<lparr>tl_detect_tag := True\<rparr> = p" "p\<lparr>tl_active_tag := tl_active_tag p\<rparr> = p" using d by (cases p, simp)+
    ultimately show ?thesis using tagged_parse_snoc [of p l 10] passed by simp
  qed
qed

lemma finish_fresh: "tl_line_buffer p = [] \<Longrightarrow> all_events (snd (tagged_finish p)) = close_events (tl_active_tag p)"
  by (simp add: tagged_finish_def close_events_def split: option.split)

lemma finish_held:
  assumes "fresh p" "l \<noteq> []"
  shows "all_events (snd (tagged_finish (p\<lparr>tl_line_buffer := l\<rparr>))) =
    (case line_step (tl_specs p) l (tl_active_tag p, []) of (a, evs) \<Rightarrow> evs @ close_events a)"
  using assms
  by (auto simp: tagged_finish_def line_step_def Let_def match_open_def match_close_def close_events_def
      split: option.split)

lemma parse_last_line:
  assumes p: "fresh p" and plain: "plain_specs (tl_specs p)" and l: "10 \<notin> set l" "l \<noteq> []"
  shows "all_events (snd (tagged_parse p l)) @ all_events (snd (tagged_finish (fst (tagged_parse p l)))) =
    (case line_step (tl_specs p) l (tl_active_tag p, []) of (a, evs) \<Rightarrow> evs @ close_events a)"
proof -
  consider (held) "fst (tagged_parse p l) = p\<lparr>tl_line_buffer := l\<rparr>" "all_events (snd (tagged_parse p l)) = []"
    | (passed) a b where "fst (tagged_parse p l) = p\<lparr>tl_detect_tag := False\<rparr>"
      "all_events (snd (tagged_parse p l)) = map (TextChar (tl_active_tag p)) l" "l = a @ b" "rejected p a"
    using parse_line_prefix [OF p l(1)] by blast
  then show ?thesis
  proof cases
    case held
    then show ?thesis using finish_held [OF p l(2)] by simp
  next
    case passed
    have "line_step (tl_specs p) l (tl_active_tag p, []) = (tl_active_tag p, map (TextChar (tl_active_tag p)) l)"
      using rejected_line_is_text [OF plain passed(4), of b] passed(3) l by simp
    moreover have "tl_line_buffer (fst (tagged_parse p l)) = []" using passed(1) p by (simp add: fresh_def)
    ultimately show ?thesis using finish_fresh [of "fst (tagged_parse p l)"] passed by simp
  qed
qed

lemma split_inclusive_no_newline: "10 \<notin> set l \<Longrightarrow> l \<noteq> [] \<Longrightarrow> split_inclusive 10 l = [l]"
proof (induction l)
  case (Cons c l)
  then show ?case by (cases "l = []") simp_all
qed simp

lemma tagged_events_from:
  assumes "fresh p" "plain_specs (tl_specs p)"
  shows "all_events (snd (tagged_parse p s)) @ all_events (snd (tagged_finish (fst (tagged_parse p s)))) =
    (case fold (line_step (tl_specs p)) (split_inclusive 10 s) (tl_active_tag p, []) of (a, evs) \<Rightarrow> evs @ close_events a)"
  using assms
proof (induction "length s" arbitrary: s p rule: less_induct)
  case less
  show ?case
  proof (cases "10 \<in> set s")
    case True
    then obtain l r where s: "s = l @ [10] @ r" "10 \<notin> set l" using split_list_first [of 10 s] by auto
    obtain a evs where step: "line_step (tl_specs p) (l @ [10]) (tl_active_tag p, []) = (a, evs)" by force
    let ?p = "p\<lparr>tl_active_tag := a\<rparr>"
    have line: "fst (tagged_parse p (l @ [10])) = ?p" "all_events (snd (tagged_parse p (l @ [10]))) = evs"
      using parse_full_line [OF less.prems s(2)] step by simp_all
    have rest: "all_events (snd (tagged_parse ?p r)) @ all_events (snd (tagged_finish (fst (tagged_parse ?p r)))) =
        (case fold (line_step (tl_specs p)) (split_inclusive 10 r) (a, []) of (a, evs) \<Rightarrow> evs @ close_events a)"
      using less.hyps [of r ?p] less.prems s(1) by (simp add: fresh_def)
    have "split_inclusive 10 s = (l @ [10]) # split_inclusive 10 r"
      using s split_inclusive_append [of l r] split_inclusive_line [of l] by simp
    then show ?thesis
      using line rest step tagged_parse_append [of p "l @ [10]" r] s(1) fold_line_step_evs [of "tl_specs p" _ a evs]
      by (simp add: case_prod_beta)
  next
    case False
    then show ?thesis using parse_last_line [OF less.prems] finish_fresh [of p] less.prems
      by (cases "s = []") (simp_all add: fresh_def split_inclusive_no_newline)
  qed
qed

definition plan_specs :: "plan_tag tag_spec list" where
  "plan_specs = [\<lparr>ts_open = OPEN_TAG, ts_close = CLOSE_TAG, ts_tag = ProposedPlan\<rparr>]"

lemma plan_new_fresh: "fresh proposed_plan_parser_new" "tl_specs proposed_plan_parser_new = plan_specs"
  "tl_active_tag proposed_plan_parser_new = None"
  by (simp_all add: proposed_plan_parser_new_def tagged_line_parser_new_def fresh_def plan_specs_def)

lemma plan_specs_plain: "plain_specs plan_specs"
  by (simp add: plain_specs_def plan_specs_def OPEN_TAG_def CLOSE_TAG_def lit_eval is_whitespace_def)

definition plan_reference :: "str \<Rightarrow> str \<times> plan_tag line_event list" where
  "plan_reference s = (concat (map visible_event (events_by_line plan_specs s)), events_by_line plan_specs s)"

lemma plan_parse_events:
  "all_events (snd (tagged_parse proposed_plan_parser_new s)) @
     all_events (snd (tagged_finish (fst (tagged_parse proposed_plan_parser_new s)))) = events_by_line plan_specs s"
  using tagged_events_from [OF plan_new_fresh(1), of s] by (simp add: plan_new_fresh plan_specs_plain events_by_line_def)

lemma plan_collect_single:
  "\<exists>out. collect_chunks plan_push_str plan_finish proposed_plan_parser_new [s] = Some out \<and>
     chunk_events plan_events out = plan_reference s"
proof -
  let ?p = "fst (tagged_parse proposed_plan_parser_new s)" and ?g = "snd (tagged_parse proposed_plan_parser_new s)"
  have "collect_chunks plan_push_str plan_finish proposed_plan_parser_new [s] =
      Some (append_chunk (map_segments ?g) (map_segments (snd (tagged_finish ?p))))"
    by (simp add: collect_chunks_def plan_push_str_def plan_finish_def case_prod_beta)
  moreover have "chunk_events plan_events (append_chunk (map_segments ?g) (map_segments (snd (tagged_finish ?p)))) = plan_reference s"
    using map_segments_events [of ?g] map_segments_events [of "snd (tagged_finish ?p)"] plan_parse_events [of s, symmetric]
    by (simp add: plan_reference_def chunk_events_def)
  ultimately show ?thesis by blast
qed

lemma plan_collect:
  "\<exists>out. collect_chunks plan_push_str plan_finish proposed_plan_parser_new chunks = Some out \<and>
     chunk_events plan_events out = plan_reference (concat chunks)"
  using plans.collect_concat [OF TrueI, of chunks "[concat chunks]" proposed_plan_parser_new]
    plan_collect_single [of "concat chunks"] by auto

lemma strip_plan_reference: "strip_proposed_plan_blocks s = fst (plan_reference s)"
proof -
  let ?p = "fst (tagged_parse proposed_plan_parser_new s)" and ?g = "snd (tagged_parse proposed_plan_parser_new s)"
  have "strip_proposed_plan_blocks s = concat (map visible_event (all_events ?g)) @
      concat (map visible_event (all_events (snd (tagged_finish ?p))))"
    by (simp add: strip_proposed_plan_blocks_def plan_finish_def map_segments_eq case_prod_beta)
  then show ?thesis unfolding plan_reference_def plan_parse_events [symmetric] by simp
qed

text \<open>
  C29. However the text arrives, the plan parser produces what reading it line by line gives: a line
  that is the opening or closing tag up to surrounding white space starts or ends a plan, any
  other line is text of the plan or visible text with its ending, and a plan still open at the
  end is closed. The one-shot function on the whole text shows the same visible text.
\<close>
theorem plan_blocks_by_line:
  "\<exists>out. collect_chunks plan_push_str plan_finish proposed_plan_parser_new chunks = Some out \<and>
     concat (map plan_events (extracted out)) = events_by_line plan_specs (concat chunks) \<and>
     visible_text out = concat (map visible_event (events_by_line plan_specs (concat chunks))) \<and>
     strip_proposed_plan_blocks (concat chunks) = visible_text out"
  using plan_collect [of chunks] strip_plan_reference [of "concat chunks"]
  by (auto simp: plan_reference_def chunk_events_def)

end
