(* ===== verification/Assistant_Text.thy ===== *)
theory Assistant_Text
  imports Inline_Tags Tagged_Lines
begin

text \<open>
  The assistant text parser (\<open>assistant_text.rs\<close>): citations are taken out first, and in plan mode
  the remaining text goes through the plan parser. What it shows while the text streams in is
  what the one-shot functions make of the finished text.
\<close>

section \<open>The parser\<close>

record assistant_text_chunk =
  ac_visible_text :: str
  ac_citations :: "str list"
  ac_plan_segments :: "proposed_plan_segment list"

record assistant_text_stream_parser =
  as_plan_mode :: bool
  as_citations :: citation_parser
  as_plan :: proposed_plan_parser

definition assistant_new :: "bool \<Rightarrow> assistant_text_stream_parser option" where
  "assistant_new plan_mode =
     map_option (\<lambda>c. \<lparr>as_plan_mode = plan_mode, as_citations = c, as_plan = proposed_plan_parser_new\<rparr>) citation_parser_new"

definition parse_visible_text ::
  "assistant_text_stream_parser \<Rightarrow> str \<Rightarrow> (assistant_text_stream_parser \<times> assistant_text_chunk) option" where
  "parse_visible_text p visible =
     (if \<not> as_plan_mode p then Some (p, \<lparr>ac_visible_text = visible, ac_citations = [], ac_plan_segments = []\<rparr>)
      else map_option (\<lambda>(plan, plan_chunk).
          (p\<lparr>as_plan := plan\<rparr>,
           \<lparr>ac_visible_text = visible_text plan_chunk, ac_citations = [], ac_plan_segments = extracted plan_chunk\<rparr>))
        (plan_push_str (as_plan p) visible))"

definition assistant_push_str ::
  "assistant_text_stream_parser \<Rightarrow> str \<Rightarrow> (assistant_text_stream_parser \<times> assistant_text_chunk) option" where
  "assistant_push_str p chunk =
     Option.bind (citation_push_str (as_citations p) chunk) (\<lambda>(c, cited).
     map_option (\<lambda>(p', out). (p', out\<lparr>ac_citations := extracted cited\<rparr>))
       (parse_visible_text (p\<lparr>as_citations := c\<rparr>) (visible_text cited)))"

definition assistant_finish ::
  "assistant_text_stream_parser \<Rightarrow> (assistant_text_stream_parser \<times> assistant_text_chunk) option" where
  "assistant_finish p =
     (case citation_finish (as_citations p) of (c, cited) \<Rightarrow>
      map_option (\<lambda>(p1, out).
          let (p2, out1) =
                (if as_plan_mode p1 then
                   (case plan_finish (as_plan p1) of (plan, tail) \<Rightarrow>
                     (p1\<lparr>as_plan := plan\<rparr>,
                      if visible_text tail = [] \<and> extracted tail = [] then out
                      else out\<lparr>ac_visible_text := ac_visible_text out @ visible_text tail,
                               ac_plan_segments := ac_plan_segments out @ extracted tail\<rparr>))
                 else (p1, out))
          in (p2, out1\<lparr>ac_citations := extracted cited\<rparr>))
        (parse_visible_text (p\<lparr>as_citations := c\<rparr>) (visible_text cited)))"

definition append_assistant_chunk :: "assistant_text_chunk \<Rightarrow> assistant_text_chunk \<Rightarrow> assistant_text_chunk" where
  "append_assistant_chunk a b =
     \<lparr>ac_visible_text = ac_visible_text a @ ac_visible_text b, ac_citations = ac_citations a @ ac_citations b,
      ac_plan_segments = ac_plan_segments a @ ac_plan_segments b\<rparr>"

text \<open>What a caller has shown after all chunks and the end of the message.\<close>

fun assistant_collect :: "assistant_text_stream_parser \<Rightarrow> str list \<Rightarrow> assistant_text_chunk option" where
  "assistant_collect p [] = map_option snd (assistant_finish p)"
| "assistant_collect p (c # cs) =
     Option.bind (assistant_push_str p c) (\<lambda>(p1, out). map_option (append_assistant_chunk out) (assistant_collect p1 cs))"

section \<open>Streaming shows what the finished text shows\<close>

lemma citation_collect:
  assumes "citation_parser_new = Some p"
  shows "\<exists>out. collect_chunks citation_push_str citation_finish p chunks = Some out \<and>
    strip_citations (concat chunks) = Some (visible_text out, extracted out)"
proof -
  obtain a b where a: "collect_chunks citation_push_str citation_finish p chunks = Some a"
    and b: "collect_chunks citation_push_str citation_finish p [concat chunks] = Some b"
    and e: "chunk_events (\<lambda>x. [x]) a = chunk_events (\<lambda>x. [x]) b"
    using citations.collect_concat [OF citation_new_inv [OF assms], of chunks "[concat chunks]"] by auto
  have "visible_text a = visible_text b" "extracted a = extracted b" using e by (simp_all add: chunk_events_def)
  moreover have "strip_citations (concat chunks) = Some (visible_text b, extracted b)"
    using b unfolding strip_citations_def assms by (auto simp: collect_chunks_def Let_def)
  ultimately show ?thesis using a by simp
qed

text \<open>With plans off the parser is the citation parser.\<close>

lemma assistant_collect_plain:
  assumes "\<not> as_plan_mode p" "collect_chunks citation_push_str citation_finish (as_citations p) chunks = Some out"
  shows "assistant_collect p chunks =
    Some \<lparr>ac_visible_text = visible_text out, ac_citations = extracted out, ac_plan_segments = []\<rparr>"
  using assms
proof (induction chunks arbitrary: p out)
  case Nil
  then show ?case
    by (simp add: collect_chunks_def assistant_finish_def parse_visible_text_def case_prod_beta)
next
  case (Cons c cs)
  obtain q o1 where q: "citation_push_str (as_citations p) c = Some (q, o1)"
    using Cons.prems(2) by (auto simp: collect_chunks_def split: option.splits bind_splits)
  obtain o2 where o2: "collect_chunks citation_push_str citation_finish q cs = Some o2" "out = append_chunk o1 o2"
    using Cons.prems(2) q by (auto simp: collect_chunks_def)
  let ?p = "p\<lparr>as_citations := q\<rparr>"
  have "assistant_collect ?p cs = Some \<lparr>ac_visible_text = visible_text o2, ac_citations = extracted o2, ac_plan_segments = []\<rparr>"
    using Cons.prems(1) o2(1) by (intro Cons.IH) simp_all
  moreover have "assistant_push_str p c =
      Some (?p, \<lparr>ac_visible_text = visible_text o1, ac_citations = extracted o1, ac_plan_segments = []\<rparr>)"
    using Cons.prems(1) q by (simp add: assistant_push_str_def parse_visible_text_def)
  ultimately show ?case using o2(2) by (simp add: append_assistant_chunk_def)
qed

text \<open>In plan mode the visible text of the citation parser is what the plan parser is fed.\<close>

lemma assistant_collect_plan:
  assumes "as_plan_mode p" "collect_chunks citation_push_str citation_finish (as_citations p) chunks = Some out"
  shows "\<exists>vs plan_out. concat vs = visible_text out \<and>
    collect_chunks plan_push_str plan_finish (as_plan p) vs = Some plan_out \<and>
    assistant_collect p chunks =
      Some \<lparr>ac_visible_text = visible_text plan_out, ac_citations = extracted out, ac_plan_segments = extracted plan_out\<rparr>"
  using assms
proof (induction chunks arbitrary: p out)
  case Nil
  let ?c = "citation_finish (as_citations p)"
  obtain plan pc where plan: "plan_push_str (as_plan p) (visible_text (snd ?c)) = Some (plan, pc)"
    using plans.returns [OF TrueI] by blast
  have out: "out = snd ?c" using Nil.prems(2) by (simp add: collect_chunks_def case_prod_beta)
  have c: "collect_chunks plan_push_str plan_finish (as_plan p) [visible_text out] =
      Some (append_chunk pc (snd (plan_finish plan)))"
    using plan out by (simp add: collect_chunks_def)
  have f: "assistant_collect p [] = Some \<lparr>ac_visible_text = visible_text pc @ visible_text (snd (plan_finish plan)),
      ac_citations = extracted out, ac_plan_segments = extracted pc @ extracted (snd (plan_finish plan))\<rparr>"
    using Nil.prems(1) plan out
    by (auto simp: assistant_finish_def parse_visible_text_def case_prod_beta Let_def)
  show ?case using c f by (intro exI [of _ "[visible_text out]"]) simp
next
  case (Cons c cs)
  obtain q o1 where q: "citation_push_str (as_citations p) c = Some (q, o1)"
    using Cons.prems(2) by (auto simp: collect_chunks_def split: option.splits bind_splits)
  obtain o2 where o2: "collect_chunks citation_push_str citation_finish q cs = Some o2" "out = append_chunk o1 o2"
    using Cons.prems(2) q by (auto simp: collect_chunks_def)
  obtain plan pc where plan: "plan_push_str (as_plan p) (visible_text o1) = Some (plan, pc)"
    using plans.returns [OF TrueI] by blast
  let ?p = "p\<lparr>as_citations := q, as_plan := plan\<rparr>"
  have push: "assistant_push_str p c =
      Some (?p, \<lparr>ac_visible_text = visible_text pc, ac_citations = extracted o1, ac_plan_segments = extracted pc\<rparr>)"
    using Cons.prems(1) q plan by (simp add: assistant_push_str_def parse_visible_text_def)
  obtain vs po where vs: "concat vs = visible_text o2" "collect_chunks plan_push_str plan_finish plan vs = Some po"
    "assistant_collect ?p cs = Some \<lparr>ac_visible_text = visible_text po, ac_citations = extracted o2, ac_plan_segments = extracted po\<rparr>"
    using Cons.IH [of ?p o2] Cons.prems(1) o2(1) by auto
  have "collect_chunks plan_push_str plan_finish (as_plan p) (visible_text o1 # vs) = Some (append_chunk pc po)"
    using plan vs(2) by (auto simp: collect_chunks_def)
  then show ?case using push vs o2(2)
    by (intro exI [of _ "visible_text o1 # vs"] exI [of _ "append_chunk pc po"]) (simp add: append_assistant_chunk_def)
qed

text \<open>
  C28. However a message is cut into chunks, the assistant text parser returns, and what it has
  shown at the end is what the one-shot functions make of the whole message: the citations and
  the text without them, and in plan mode the text without plan blocks and the plan read
  line by line.
\<close>
theorem streamed_text_is_final_text:
  "\<exists>p out visible citations.
     assistant_new plan_mode = Some p \<and> assistant_collect p chunks = Some out \<and>
     strip_citations (concat chunks) = Some (visible, citations) \<and> ac_citations out = citations \<and>
     ac_visible_text out = (if plan_mode then strip_proposed_plan_blocks visible else visible) \<and>
     concat (map plan_events (ac_plan_segments out)) = (if plan_mode then events_by_line plan_specs visible else [])"
proof -
  obtain c where c: "citation_parser_new = Some c" using citation_parser_new_eq by blast
  let ?p = "\<lparr>as_plan_mode = plan_mode, as_citations = c, as_plan = proposed_plan_parser_new\<rparr>"
  have p: "assistant_new plan_mode = Some ?p" using c by (simp add: assistant_new_def)
  obtain out where out: "collect_chunks citation_push_str citation_finish c chunks = Some out"
    "strip_citations (concat chunks) = Some (visible_text out, extracted out)" using citation_collect [OF c] by blast
  show ?thesis
  proof (cases plan_mode)
    case True
    obtain vs po where vs: "concat vs = visible_text out" "collect_chunks plan_push_str plan_finish proposed_plan_parser_new vs = Some po"
      "assistant_collect ?p chunks =
        Some \<lparr>ac_visible_text = visible_text po, ac_citations = extracted out, ac_plan_segments = extracted po\<rparr>"
      using assistant_collect_plan [of ?p chunks out] True out(1) by auto
    have "chunk_events plan_events po = plan_reference (visible_text out)" using plan_collect [of vs] vs(1,2) by simp
    then show ?thesis using True p out(2) vs(3) strip_plan_reference [of "visible_text out"]
      by (simp add: chunk_events_def plan_reference_def)
  next
    case False
    then show ?thesis using p out assistant_collect_plain [of ?p chunks out] by simp
  qed
qed

end
