(* ===== verification/Utf8_Stream.thy ===== *)
theory Utf8_Stream
  imports Inline_Tags
begin

text \<open>
  Streaming parsers fed with raw bytes: \<open>Utf8StreamParser\<close> (\<open>utf8_stream.rs\<close>) around any parser with
  the contract of \<open>Stream_Text\<close>, and \<open>std::str::from_utf8\<close> with the positions and error lengths it
  reports. Bytes of a text may be cut anywhere, inside a character too; a chunk that is not UTF-8
  leaves the parser as it was.
\<close>

section \<open>Decoding\<close>

text \<open>
  The next character and the rest, an ill-formed sequence with its length, or a sequence that
  ends too early.
\<close>

datatype decoded = Char uchar "nat list" | Bad nat | Short

definition utf8_width :: "nat \<Rightarrow> nat" where
  "utf8_width b =
     (if b < 0x80 then 1 else if 0xC2 \<le> b \<and> b \<le> 0xDF then 2 else if 0xE0 \<le> b \<and> b \<le> 0xEF then 3
      else if 0xF0 \<le> b \<and> b \<le> 0xF4 then 4 else 0)"

definition is_cont :: "nat \<Rightarrow> bool" where
  "is_cont b \<longleftrightarrow> 0x80 \<le> b \<and> b \<le> 0xBF"

definition second_ok :: "nat \<Rightarrow> nat \<Rightarrow> bool" where
  "second_ok b b1 \<longleftrightarrow> is_cont b1 \<and> (b = 0xE0 \<longrightarrow> 0xA0 \<le> b1) \<and> (b = 0xED \<longrightarrow> b1 \<le> 0x9F) \<and>
     (b = 0xF0 \<longrightarrow> 0x90 \<le> b1) \<and> (b = 0xF4 \<longrightarrow> b1 \<le> 0x8F)"

fun decode_first :: "nat list \<Rightarrow> decoded" where
  "decode_first [] = Short"
| "decode_first (b # bs) =
     (if utf8_width b = 0 then Bad 1
      else if utf8_width b = 1 then Char b bs
      else case bs of
        [] \<Rightarrow> Short
      | b1 # bs1 \<Rightarrow>
          if \<not> second_ok b b1 then Bad 1
          else if utf8_width b = 2 then Char ((b - 0xC0) * 64 + (b1 - 0x80)) bs1
          else case bs1 of
            [] \<Rightarrow> Short
          | b2 # bs2 \<Rightarrow>
              if \<not> is_cont b2 then Bad 2
              else if utf8_width b = 3 then Char ((b - 0xE0) * 4096 + (b1 - 0x80) * 64 + (b2 - 0x80)) bs2
              else case bs2 of
                [] \<Rightarrow> Short
              | b3 # bs3 \<Rightarrow>
                  if \<not> is_cont b3 then Bad 3
                  else Char ((b - 0xF0) * 262144 + (b1 - 0x80) * 4096 + (b2 - 0x80) * 64 + (b3 - 0x80)) bs3)"

lemma decode_first_shorter: "decode_first bs = Char c rest \<Longrightarrow> length rest < length bs"
  by (cases bs) (auto split: if_splits list.splits)

text \<open>The decoded characters and how decoding ended: an error has its length or none.\<close>

function decode :: "nat list \<Rightarrow> str \<times> nat option option" where
  "decode bs =
     (if bs = [] then ([], None)
      else case decode_first bs of
             Char c rest \<Rightarrow> (case decode rest of (s, e) \<Rightarrow> (c # s, e))
           | Bad n \<Rightarrow> ([], Some (Some n))
           | Short \<Rightarrow> ([], Some None))"
  by pat_completeness auto
termination
  by (relation "measure length") (auto dest: decode_first_shorter)

declare decode.simps [simp del]

definition from_utf8 :: "nat list \<Rightarrow> (nat \<times> nat option) + str" where
  "from_utf8 bs = (case decode bs of (s, None) \<Rightarrow> Inr s | (s, Some error_len) \<Rightarrow> Inl (byte_len s, error_len))"

section \<open>The parser\<close>

datatype utf8_stream_parser_error = InvalidUtf8 nat nat | IncompleteUtf8AtEof

record 'p utf8_stream_parser =
  us_inner :: 'p
  us_pending_utf8 :: "nat list"

definition utf8_new :: "'p \<Rightarrow> 'p utf8_stream_parser" where
  "utf8_new inner = \<lparr>us_inner = inner, us_pending_utf8 = []\<rparr>"

definition push_bytes ::
  "('p \<Rightarrow> str \<Rightarrow> ('p \<times> 'x stream_text_chunk) option) \<Rightarrow> 'p utf8_stream_parser \<Rightarrow> nat list \<Rightarrow>
   ('p utf8_stream_parser \<times> (utf8_stream_parser_error + 'x stream_text_chunk)) option" where
  "push_bytes push st chunk =
     (let old_len = length (us_pending_utf8 st);
          pending = us_pending_utf8 st @ chunk;
          rolled_back = st\<lparr>us_pending_utf8 := take old_len pending\<rparr>
      in case from_utf8 pending of
           Inr s \<Rightarrow>
             map_option (\<lambda>(inner, out). (\<lparr>us_inner = inner, us_pending_utf8 = []\<rparr>, Inr out)) (push (us_inner st) s)
         | Inl (valid_up_to, Some error_len) \<Rightarrow> Some (rolled_back, Inl (InvalidUtf8 valid_up_to error_len))
         | Inl (valid_up_to, None) \<Rightarrow>
             if valid_up_to = 0 then Some (st\<lparr>us_pending_utf8 := pending\<rparr>, Inr text_chunk_default)
             else (case from_utf8 (take valid_up_to pending) of
                     Inl (v, e) \<Rightarrow> Some (rolled_back, Inl (InvalidUtf8 v (case e of Some n \<Rightarrow> n | None \<Rightarrow> 0)))
                   | Inr s \<Rightarrow>
                       map_option (\<lambda>(inner, out). (\<lparr>us_inner = inner, us_pending_utf8 = drop valid_up_to pending\<rparr>, Inr out))
                         (push (us_inner st) s)))"

definition utf8_finish ::
  "('p \<Rightarrow> str \<Rightarrow> ('p \<times> 'x stream_text_chunk) option) \<Rightarrow> ('p \<Rightarrow> 'p \<times> 'x stream_text_chunk) \<Rightarrow> 'p utf8_stream_parser \<Rightarrow>
   ('p utf8_stream_parser \<times> (utf8_stream_parser_error + 'x stream_text_chunk)) option" where
  "utf8_finish push finish st =
     (let close = (\<lambda>inner out. case finish inner of (inner', tail) \<Rightarrow>
            Some (\<lparr>us_inner = inner', us_pending_utf8 = []\<rparr>, Inr (append_chunk out tail)))
      in if us_pending_utf8 st = [] then close (us_inner st) text_chunk_default
         else case from_utf8 (us_pending_utf8 st) of
                Inl (v, Some error_len) \<Rightarrow> Some (st, Inl (InvalidUtf8 v error_len))
              | Inl (v, None) \<Rightarrow> Some (st, Inl IncompleteUtf8AtEof)
              | Inr s \<Rightarrow> Option.bind (push (us_inner st) s) (\<lambda>(inner, out). close inner out))"

definition into_inner :: "'p utf8_stream_parser \<Rightarrow> utf8_stream_parser_error + 'p" where
  "into_inner st =
     (if us_pending_utf8 st = [] then Inr (us_inner st)
      else case from_utf8 (us_pending_utf8 st) of
             Inr _ \<Rightarrow> Inr (us_inner st)
           | Inl (v, Some error_len) \<Rightarrow> Inl (InvalidUtf8 v error_len)
           | Inl (v, None) \<Rightarrow> Inl IncompleteUtf8AtEof)"

text \<open>All byte chunks pushed and the parser finished; the first error stops.\<close>

fun collect_bytes ::
  "('p \<Rightarrow> str \<Rightarrow> ('p \<times> 'x stream_text_chunk) option) \<Rightarrow> ('p \<Rightarrow> 'p \<times> 'x stream_text_chunk) \<Rightarrow> 'p utf8_stream_parser \<Rightarrow>
   nat list list \<Rightarrow> (utf8_stream_parser_error + 'x stream_text_chunk) option" where
  "collect_bytes push finish st [] = map_option snd (utf8_finish push finish st)"
| "collect_bytes push finish st (c # cs) =
     Option.bind (push_bytes push st c) (\<lambda>(st1, r).
       case r of
         Inl e \<Rightarrow> Some (Inl e)
       | Inr out \<Rightarrow> map_option (map_sum id (append_chunk out)) (collect_bytes push finish st1 cs))"

section \<open>Decoding what was encoded\<close>

definition is_scalar :: "uchar \<Rightarrow> bool" where
  "is_scalar c \<longleftrightarrow> c < 0x110000 \<and> \<not> (0xD800 \<le> c \<and> c \<le> 0xDFFF)"

lemma scalar_less: "is_scalar c \<Longrightarrow> c < 0x110000"
  by (simp add: is_scalar_def)

lemma split_64: "c = 64 * (c div 64) + c mod 64" "c mod 64 < 64" "c div 4096 = c div 64 div 64" "c div 262144 = c div 4096 div 64"
  for c :: nat
  using div_mult2_eq [of c 64 64] div_mult2_eq [of c 4096 64] by simp_all

lemma utf8_three:
  assumes "0x800 \<le> c" "c < 0x10000" "is_scalar c"
  shows "utf8_width (0xE0 + c div 4096) = 3" "second_ok (0xE0 + c div 4096) (0x80 + c div 64 mod 64)"
    "c div 4096 * 4096 + c div 64 mod 64 * 64 + c mod 64 = c"
proof -
  define x r where "x = c div 64" and "r = c mod 64"
  define y u where "y = x div 64" and "u = x mod 64"
  have c: "c = 64 * x + r" "r < 64" "x = 64 * y + u" "u < 64" and d: "c div 4096 = y" "c div 64 mod 64 = u" "c mod 64 = r"
    using split_64 [of c] split_64 [of x] by (simp_all add: x_def y_def r_def u_def)
  have q: "y \<le> 15" using assms(2) c by linarith
  have lo: "32 \<le> u" if "y = 0" using that assms(1) c by linarith
  have "\<not> (0xD800 \<le> c \<and> c \<le> 0xDFFF)" using assms(3) by (simp add: is_scalar_def)
  then have hi: "u \<le> 31" if "y = 13" using that c by linarith
  show "utf8_width (0xE0 + c div 4096) = 3" unfolding d using q by (simp add: utf8_width_def)
  show "c div 4096 * 4096 + c div 64 mod 64 * 64 + c mod 64 = c" unfolding d using c by linarith
  show "second_ok (0xE0 + c div 4096) (0x80 + c div 64 mod 64)"
    unfolding d using q lo hi c(4) by (auto simp: second_ok_def is_cont_def)
qed

lemma utf8_four:
  assumes "0x10000 \<le> c" "c < 0x110000"
  shows "utf8_width (0xF0 + c div 262144) = 4" "second_ok (0xF0 + c div 262144) (0x80 + c div 4096 mod 64)"
    "c div 262144 * 262144 + c div 4096 mod 64 * 4096 + c div 64 mod 64 * 64 + c mod 64 = c"
proof -
  define x r where "x = c div 64" and "r = c mod 64"
  define y u where "y = x div 64" and "u = x mod 64"
  define z v where "z = y div 64" and "v = y mod 64"
  have c: "c = 64 * x + r" "r < 64" "x = 64 * y + u" "u < 64" "y = 64 * z + v" "v < 64"
    unfolding x_def y_def r_def u_def z_def v_def by (rule split_64)+
  have d: "c div 262144 = z" "c div 4096 mod 64 = v" "c div 64 mod 64 = u" "c mod 64 = r"
    by (simp_all only: split_64(3,4) x_def y_def r_def u_def z_def v_def)
  have q: "z \<le> 4" using assms(2) c by linarith
  have lo: "16 \<le> v" if "z = 0" using that assms(1) c by linarith
  have hi: "v \<le> 15" if "z = 4" using that assms(2) c by linarith
  show "utf8_width (0xF0 + c div 262144) = 4" unfolding d using q by (simp add: utf8_width_def)
  show "c div 262144 * 262144 + c div 4096 mod 64 * 4096 + c div 64 mod 64 * 64 + c mod 64 = c"
    unfolding d using c by linarith
  show "second_ok (0xF0 + c div 262144) (0x80 + c div 4096 mod 64)"
    unfolding d using q lo hi c(6) by (auto simp: second_ok_def is_cont_def)
qed

lemma cont_ok [simp]: "is_cont (0x80 + n mod 64)"
  using mod_less_divisor [of 64 n] by (simp add: is_cont_def)

text \<open>A whole character is decoded; a part of one ends too early.\<close>

lemma decode_first_char:
  assumes "is_scalar c"
  shows "decode_first (utf8_char c @ rest) = Char c rest"
proof -
  consider "c < 0x80" | "0x80 \<le> c" "c < 0x800" | "0x800 \<le> c" "c < 0x10000" | "0x10000 \<le> c" "c < 0x110000"
    using scalar_less [OF assms] by linarith
  then show ?thesis
  proof cases
    case 1
    then show ?thesis by (simp add: utf8_char_def utf8_width_def)
  next
    case 2
    have q: "2 \<le> c div 64" "c div 64 \<le> 31" using 2 by linarith+
    then have "utf8_width (0xC0 + c div 64) = 2" "second_ok (0xC0 + c div 64) (0x80 + c mod 64)"
      by (simp_all add: utf8_width_def second_ok_def)
    then show ?thesis using 2 by (simp add: utf8_char_def)
  next
    case 3
    then show ?thesis using utf8_three [OF 3 assms] by (simp add: utf8_char_def)
  next
    case 4
    then show ?thesis using utf8_four [OF 4] by (simp add: utf8_char_def)
  qed
qed

lemma decode_first_part:
  assumes "is_scalar c" "utf8_char c = part @ left" "left \<noteq> []"
  shows "decode_first part = Short"
proof -
  consider "c < 0x80" | "0x80 \<le> c" "c < 0x800" | "0x800 \<le> c" "c < 0x10000" | "0x10000 \<le> c" "c < 0x110000"
    using scalar_less [OF assms(1)] by linarith
  then show ?thesis
  proof cases
    case 1
    then show ?thesis using assms(2,3) by (auto simp: utf8_char_def append_eq_Cons_conv Cons_eq_append_conv)
  next
    case 2
    have q: "2 \<le> c div 64" "c div 64 \<le> 31" using 2 by linarith+
    then have "utf8_width (0xC0 + c div 64) = 2" by (simp add: utf8_width_def)
    then show ?thesis using 2 assms(2,3) by (auto simp: utf8_char_def Cons_eq_append_conv)
  next
    case 3
    then show ?thesis using utf8_three [OF 3 assms(1)] assms(2,3) by (auto simp: utf8_char_def Cons_eq_append_conv)
  next
    case 4
    then show ?thesis using utf8_four [OF 4] assms(2,3) by (auto simp: utf8_char_def Cons_eq_append_conv)
  qed
qed

text \<open>The beginning of an encoded text: whole characters and a proper part of the next one.\<close>

definition partial_char :: "nat list \<Rightarrow> bool" where
  "partial_char r \<longleftrightarrow> (\<exists>c left. is_scalar c \<and> utf8_char c = r @ left \<and> left \<noteq> [])"

lemma partial_char_Nil [simp]: "partial_char []"
  unfolding partial_char_def by (intro exI [of _ 0] exI [of _ "utf8_char 0"]) (simp add: is_scalar_def)

lemma decode_text:
  assumes "list_all is_scalar s" "partial_char r"
  shows "decode (as_bytes s @ r) = (s, if r = [] then None else Some None)"
  using assms(1)
proof (induction s)
  case Nil
  then show ?case using assms(2) decode_first_part
    by (auto simp: decode.simps [of r] as_bytes_def partial_char_def)
next
  case (Cons c s)
  have "decode_first (as_bytes (c # s) @ r) = Char c (as_bytes s @ r)"
    using decode_first_char [of c "as_bytes s @ r"] Cons.prems by (simp add: as_bytes_def)
  moreover have "as_bytes (c # s) @ r \<noteq> []" by (simp add: as_bytes_def)
  ultimately show ?case using Cons by (subst decode.simps) simp
qed

lemma from_utf8_text:
  assumes "list_all is_scalar s" "partial_char r"
  shows "from_utf8 (as_bytes s @ r) = (if r = [] then Inr s else Inl (byte_len s, None))"
  using decode_text [OF assms] by (simp add: from_utf8_def)

lemma as_bytes_append [simp]: "as_bytes (s @ t) = as_bytes s @ as_bytes t"
  by (simp add: as_bytes_def)

text \<open>A beginning of an encoded text always has that form.\<close>

lemma prefix_of_bytes:
  assumes "list_all is_scalar s" "as_bytes s = bs @ rest"
  shows "\<exists>t u r. s = t @ u \<and> bs = as_bytes t @ r \<and> partial_char r"
  using assms
proof (induction s arbitrary: bs)
  case Nil
  then show ?case by (auto simp: as_bytes_def)
next
  case (Cons c s)
  have split: "utf8_char c @ as_bytes s = bs @ rest" using Cons.prems(2) by (simp add: as_bytes_def)
  show ?case
  proof (cases "length bs < length (utf8_char c)")
    case True
    then obtain left where "utf8_char c = bs @ left" "left \<noteq> []"
      using split by (auto simp: append_eq_append_conv2)
    then have "partial_char bs" using Cons.prems(1) unfolding partial_char_def by auto
    then show ?thesis by (intro exI [of _ "[]"] exI [of _ "c # s"] exI [of _ bs]) (simp add: as_bytes_def)
  next
    case False
    then obtain bs' where bs: "bs = utf8_char c @ bs'" "as_bytes s = bs' @ rest"
      using split by (auto simp: append_eq_append_conv2)
    obtain t u r where "s = t @ u" "bs' = as_bytes t @ r" "partial_char r"
      using Cons.IH [OF _ bs(2)] Cons.prems(1) by auto
    then show ?thesis using bs(1)
      by (intro exI [of _ "c # t"] exI [of _ u] exI [of _ r]) (simp add: as_bytes_def)
  qed
qed

text \<open>A chunk that is refused as ill-formed leaves the parser as it was, whatever the inner parser is.\<close>

lemma push_bytes_rolls_back:
  assumes "push_bytes push st chunk = Some (st', Inl e)"
  shows "st' = st"
  using assms
  by (cases st) (auto simp: push_bytes_def Let_def split: sum.splits prod.splits option.splits if_splits)

section \<open>Bytes may be cut anywhere\<close>

text \<open>One push: the pending part and the chunk are a text and a new part; the text goes to the inner parser.\<close>

lemma push_bytes_text:
  assumes b: "us_pending_utf8 st @ chunk = as_bytes t @ r" "list_all is_scalar t" "partial_char r"
    and p: "push (us_inner st) t = Some (p, out)" and nil: "push (us_inner st) [] = Some (us_inner st, text_chunk_default)"
  shows "push_bytes push st chunk = Some (\<lparr>us_inner = p, us_pending_utf8 = r\<rparr>, Inr out)"
proof -
  have u: "from_utf8 (us_pending_utf8 st @ chunk) = (if r = [] then Inr t else Inl (byte_len t, None))"
    unfolding b(1) by (rule from_utf8_text [OF b(2,3)])
  have v: "from_utf8 (as_bytes t) = Inr t" using from_utf8_text [OF b(2), of "[]"] by simp
  have l: "byte_len t = length (as_bytes t)" by (simp add: byte_len_def)
  show ?thesis
  proof (cases "t = []")
    case True
    then have "p = us_inner st" "out = text_chunk_default" "us_pending_utf8 st @ chunk = r" using p nil b(1) by (simp_all add: as_bytes_def)
    then show ?thesis using u True nil by (simp add: push_bytes_def)
  next
    case False
    then have "as_bytes t \<noteq> []" using byte_len_0 [of t] l by simp
    then show ?thesis using u v p b(1) l by (simp add: push_bytes_def Let_def)
  qed
qed

context stream_text_parser
begin

lemma collect_bytes_from:
  assumes p: "inv (us_inner st)" "partial_char (us_pending_utf8 st)"
    and b: "us_pending_utf8 st @ concat cs = as_bytes s" "list_all is_scalar s"
  shows "\<exists>ts out. concat ts = s \<and> collect_chunks push finish (us_inner st) ts = Some out \<and>
    collect_bytes push finish st cs = Some (Inr out)"
  using assms
proof (induction cs arbitrary: st s)
  case Nil
  have "decode (as_bytes s @ []) = (s, None)" using decode_text [OF Nil.prems(4) partial_char_Nil] by simp
  moreover have "decode (as_bytes [] @ us_pending_utf8 st) = ([], if us_pending_utf8 st = [] then None else Some None)"
    using Nil.prems(2) by (intro decode_text) simp_all
  ultimately have "us_pending_utf8 st = []" "s = []" using Nil.prems(3) by (auto simp: as_bytes_def split: if_splits)
  then show ?case by (intro exI [of _ "[]"]) (simp add: collect_chunks_def utf8_finish_def case_prod_beta)
next
  case (Cons c cs)
  have "as_bytes s = (us_pending_utf8 st @ c) @ concat cs" using Cons.prems(3) by simp
  then obtain t u r where t: "s = t @ u" "us_pending_utf8 st @ c = as_bytes t @ r" "partial_char r"
    using prefix_of_bytes [OF Cons.prems(4)] by blast
  obtain p1 out1 where p1: "push (us_inner st) t = Some (p1, out1)" "inv p1" using returns [OF Cons.prems(1)] by blast
  let ?st = "\<lparr>us_inner = p1, us_pending_utf8 = r\<rparr>"
  have push1: "push_bytes push st c = Some (?st, Inr out1)"
    using push_bytes_text [where push = push, OF t(2) _ t(3) p1(1) push_Nil [OF Cons.prems(1)]] Cons.prems(4) t(1) by simp
  have "(as_bytes t @ r) @ concat cs = as_bytes t @ as_bytes u"
    unfolding t(2) [symmetric] using Cons.prems(3) t(1) by simp
  then have "us_pending_utf8 ?st @ concat cs = as_bytes u" by simp
  then obtain ts out where ts: "concat ts = u" "collect_chunks push finish p1 ts = Some out"
    "collect_bytes push finish ?st cs = Some (Inr out)"
    using Cons.IH [of ?st u] p1(2) t Cons.prems(4) by auto
  have "collect_chunks push finish (us_inner st) (t # ts) = Some (append_chunk out1 out)"
    using p1(1) ts(2) by (auto simp: collect_chunks_def)
  then show ?case using push1 ts t(1) by (intro exI [of _ "t # ts"] exI [of _ "append_chunk out1 out"]) simp
qed

lemma collect_bytes_text:
  assumes "inv p" "list_all is_scalar s" "concat cs = as_bytes s"
  shows "\<exists>a b. collect_bytes push finish (utf8_new p) cs = Some (Inr a) \<and>
    collect_chunks push finish p [s] = Some b \<and> chunk_events events a = chunk_events events b"
proof -
  obtain ts out where "concat ts = s" "collect_chunks push finish p ts = Some out"
    "collect_bytes push finish (utf8_new p) cs = Some (Inr out)"
    using collect_bytes_from [of "utf8_new p" cs s] assms by (auto simp: utf8_new_def)
  then show ?thesis using collect_concat [OF assms(1), of ts "[s]"] by auto
qed

end

section \<open>Properties\<close>

text \<open>
  However the bytes of a text are cut, inside a character too, the citation parser behind the
  byte parser accepts them all and ends with what the whole text gives.
\<close>
theorem bytes_cut_anywhere:
  assumes "list_all is_scalar s" "concat cs = as_bytes s" "citation_parser_new = Some p"
  shows "\<exists>out. collect_bytes citation_push_str citation_finish (utf8_new p) cs = Some (Inr out) \<and>
    strip_citations s = Some (visible_text out, extracted out)"
proof -
  obtain a b where a: "collect_bytes citation_push_str citation_finish (utf8_new p) cs = Some (Inr a)"
    and b: "collect_chunks citation_push_str citation_finish p [s] = Some b"
    and e: "chunk_events (\<lambda>x. [x]) a = chunk_events (\<lambda>x. [x]) b"
    using citations.collect_bytes_text [OF citation_new_inv [OF assms(3)] assms(1,2)] by blast
  have "visible_text a = visible_text b" "extracted a = extracted b" using e by (simp_all add: chunk_events_def)
  moreover have "strip_citations s = Some (visible_text b, extracted b)"
    using b unfolding strip_citations_def assms(3) by (auto simp: collect_chunks_def Let_def)
  ultimately show ?thesis using a by simp
qed

theorem bytes_cut_anywhere_witness:
  "\<exists>p out. citation_parser_new = Some p \<and>
     collect_bytes citation_push_str citation_finish (utf8_new p) [[65, 195], [], [169, 66]] = Some (Inr out) \<and>
     strip_citations [65, 233, 66] = Some (visible_text out, extracted out)"
proof -
  have "list_all is_scalar [65, 233, 66]" by (simp add: is_scalar_def)
  moreover have "concat [[65, 195], [], [169, 66]] = as_bytes [65, 233, 66]" by (simp add: as_bytes_def utf8_char_def)
  ultimately show ?thesis using bytes_cut_anywhere citation_parser_new_eq by blast
qed

end
