(* ===== verification/Response_Items.thy ===== *)
theory Response_Items
  imports Output_Truncation
begin

text \<open>
  The items of a conversation: \<open>ResponseItem\<close> and its content types (\<open>protocol/src/models.rs\<close>),
  history envelopes (\<open>history/src/lib.rs\<close>), messages with classified content
  (\<open>context-fragments/src/annotated_content.rs\<close>), and the predicates by which the history manager
  tells real instructions from context that Codex itself put into the conversation
  (\<open>core/src/event_mapping.rs\<close>, \<open>core/src/context\<close>). Values the history code only carries around
  (JSON values, shell and search actions, reasoning parts) have the type \<open>'v\<close>.
\<close>

section \<open>Items\<close>

datatype message_content =
    InputText str
  | InputImage str "image_detail option"
  | InputAudio str
  | OutputText str

datatype agent_message_content =
    AgentInputText str
  | AgentEncryptedContent str

datatype message_phase = Commentary | FinalAnswer

datatype local_shell_status = Completed | InProgress | Incomplete

record 'v passthrough =
  pt_turn_id :: "str option"
  pt_create_time :: "'v option"
  pt_content_item_kinds :: "str list option"
  pt_cell_id :: "str option"
  pt_executed_tool_calls :: "'v list option"
  pt_tool_calls_complete :: "bool option"

definition passthrough_default :: "'v passthrough" where
  "passthrough_default =
     \<lparr>pt_turn_id = None, pt_create_time = None, pt_content_item_kinds = None, pt_cell_id = None,
      pt_executed_tool_calls = None, pt_tool_calls_complete = None\<rparr>"

text \<open>
  The fields of each variant are in the order of the source. An item id is a string; the last field
  is the passthrough metadata wherever the variant has it.
\<close>

datatype 'v response_item =
    AdditionalTools "str option" str "'v list"
  | Message "str option" str "message_content list" "message_phase option" "'v passthrough option"
  | AgentMessage "str option" str str "agent_message_content list" "'v passthrough option"
  | Reasoning "str option" "'v list" "'v list option" "str option" "'v passthrough option"
  | LocalShellCall "str option" "str option" local_shell_status 'v "'v passthrough option"
  | FunctionCall "str option" str "str option" str "str list option" str "'v passthrough option"
  | ToolSearchCall "str option" "str option" "str option" str 'v "'v passthrough option"
  | FunctionCallOutput "str option" "str option" "str option" "str option" output_payload
      "'v passthrough option"
  | CustomToolCall "str option" "str option" str str "str option" str "'v passthrough option"
  | CustomToolCallOutput "str option" str "str option" output_payload "'v passthrough option"
  | ToolSearchOutput "str option" "str option" str str "'v list" "'v passthrough option"
  | WebSearchCall "str option" "str option" "'v option" "'v passthrough option"
  | ImageGenerationCall "str option" str "str option" str "'v passthrough option"
  | Compaction "str option" str "'v passthrough option"
  | CompactionTrigger
  | ContextCompaction "str option" "str option" "'v passthrough option"
  | Other

definition with_suffix :: "str \<Rightarrow> str \<Rightarrow> str" where
  "with_suffix id_prefix id_suffix = id_prefix @ lit ''_'' @ id_suffix"

fun is_user_message :: "'v response_item \<Rightarrow> bool" where
  "is_user_message (Message _ role _ _ _) = (role = lit ''user'')"
| "is_user_message _ = False"

fun item_id :: "'v response_item \<Rightarrow> str option" where
  "item_id (AdditionalTools i _ _) = i"
| "item_id (Message i _ _ _ _) = i"
| "item_id (AgentMessage i _ _ _ _) = i"
| "item_id (LocalShellCall i _ _ _ _) = i"
| "item_id (FunctionCall i _ _ _ _ _ _) = i"
| "item_id (ToolSearchCall i _ _ _ _ _) = i"
| "item_id (FunctionCallOutput i _ _ _ _ _) = i"
| "item_id (CustomToolCall i _ _ _ _ _ _) = i"
| "item_id (CustomToolCallOutput i _ _ _ _) = i"
| "item_id (ToolSearchOutput i _ _ _ _ _) = i"
| "item_id (WebSearchCall i _ _ _) = i"
| "item_id (Reasoning i _ _ _ _) = i"
| "item_id (ImageGenerationCall i _ _ _ _) = i"
| "item_id (Compaction i _ _) = i"
| "item_id (ContextCompaction i _ _) = i"
| "item_id CompactionTrigger = None"
| "item_id Other = None"

fun metadata_passthrough :: "'v response_item \<Rightarrow> 'v passthrough option" where
  "metadata_passthrough (Message _ _ _ _ m) = m"
| "metadata_passthrough (AgentMessage _ _ _ _ m) = m"
| "metadata_passthrough (Reasoning _ _ _ _ m) = m"
| "metadata_passthrough (LocalShellCall _ _ _ _ m) = m"
| "metadata_passthrough (FunctionCall _ _ _ _ _ _ m) = m"
| "metadata_passthrough (ToolSearchCall _ _ _ _ _ m) = m"
| "metadata_passthrough (FunctionCallOutput _ _ _ _ _ m) = m"
| "metadata_passthrough (CustomToolCall _ _ _ _ _ _ m) = m"
| "metadata_passthrough (CustomToolCallOutput _ _ _ _ m) = m"
| "metadata_passthrough (ToolSearchOutput _ _ _ _ _ m) = m"
| "metadata_passthrough (WebSearchCall _ _ _ m) = m"
| "metadata_passthrough (ImageGenerationCall _ _ _ _ m) = m"
| "metadata_passthrough (Compaction _ _ m) = m"
| "metadata_passthrough (ContextCompaction _ _ m) = m"
| "metadata_passthrough CompactionTrigger = None"
| "metadata_passthrough (AdditionalTools _ _ _) = None"
| "metadata_passthrough Other = None"

definition item_turn_id :: "'v response_item \<Rightarrow> str option" where
  "item_turn_id item =
     (case Option.bind (metadata_passthrough item) pt_turn_id of
        Some t \<Rightarrow> if t = [] then None else Some t
      | None \<Rightarrow> None)"

definition payload_from_text :: "str \<Rightarrow> output_payload" where
  "payload_from_text content = \<lparr>body = Text content, success = None\<rparr>"

record harness_metadata =
  client_authored :: bool
  fallback_token_limit_override :: "nat option"

record 'v envelope =
  env_item :: "'v response_item"
  env_metadata :: "harness_metadata option"

definition envelope_new :: "'v response_item \<Rightarrow> 'v envelope" where
  "envelope_new item = \<lparr>env_item = item, env_metadata = None\<rparr>"

section \<open>Classified content\<close>

type_synonym annotated_content = "message_content \<times> str"

text \<open>
  \<open>to_annotated_content\<close> takes the content and the classifications out of the message it is called
  on, so it returns the emptied message as well.
\<close>

fun to_annotated_content :: "'v response_item \<Rightarrow> (annotated_content list \<times> 'v response_item) option" where
  "to_annotated_content (Message i role content phase m) =
     (let kinds = (case Option.bind m pt_content_item_kinds of None \<Rightarrow> [] | Some ks \<Rightarrow> ks)
      in Some (zip content (kinds @ replicate (length content) (lit ''unknown'')),
               Message i role [] phase (map_option (pt_content_item_kinds_update (\<lambda>_. None)) m)))"
| "to_annotated_content _ = None"

fun set_annotated_content :: "annotated_content list \<Rightarrow> 'v response_item \<Rightarrow> 'v response_item option" where
  "set_annotated_content annotated (Message i role _ phase m) =
     (let m' = (case m of None \<Rightarrow> passthrough_default | Some m \<Rightarrow> m)
      in Some (Message i role (map fst annotated) phase
                 (Some (m'\<lparr>pt_content_item_kinds := Some (map snd annotated)\<rparr>))))"
| "set_annotated_content _ _ = None"

lemma to_annotated_content_contents:
  "to_annotated_content (Message i role content phase m) = Some (annotated, item) \<Longrightarrow> map fst annotated = content"
  by (auto simp: Let_def map_fst_zip_take)

lemma set_annotated_content_id [simp]:
  "set_annotated_content a item = Some item' \<Longrightarrow> item_id item' = item_id item"
  by (cases item) (auto simp: Let_def)

end
