(* ===== verification/Context_Fragments.thy ===== *)
theory Context_Fragments
  imports Response_Items
begin

text \<open>
  Fragments of context that Codex writes into the conversation and later recognises by their
  markers: \<open>context-fragments/src/fragment.rs\<close>, the matchers of \<open>core/src/context\<close>,
  \<open>core/src/event_mapping.rs\<close> and the turn boundaries of \<open>core/src/context_manager/history.rs\<close>.
  The XML parser of hook prompts and the JSON parser of inter-agent messages are third-party code
  and stand as the parameters of \<open>content_parsers\<close>.
\<close>

section \<open>String slices\<close>

text \<open>\<open>s.get(..n)\<close> and \<open>s.get(n..)\<close>: no slice when \<open>n\<close> is past the end or inside a character.\<close>

definition get_to :: "nat \<Rightarrow> str \<Rightarrow> str option" where
  "get_to n s = map_option fst (split_at_byte n s)"

definition get_from :: "nat \<Rightarrow> str \<Rightarrow> str option" where
  "get_from n s = map_option snd (split_at_byte n s)"

definition eq_ignore_ascii_case :: "str \<Rightarrow> str \<Rightarrow> bool" where
  "eq_ignore_ascii_case a b \<longleftrightarrow> ascii_lower a = ascii_lower b"

fun split_once_str :: "str \<Rightarrow> str \<Rightarrow> (str \<times> str) option" where
  "split_once_str pat [] = map_option (Pair []) (strip_prefix pat [])"
| "split_once_str pat (c # s) =
     (case strip_prefix pat (c # s) of
        Some rest \<Rightarrow> Some ([], rest)
      | None \<Rightarrow> map_option (\<lambda>(a, b). (c # a, b)) (split_once_str pat s))"

section \<open>Matching rendered fragments\<close>

definition matches_marked_text :: "str \<Rightarrow> str \<Rightarrow> str \<Rightarrow> bool" where
  "matches_marked_text start_marker end_marker text =
     (if start_marker = [] \<or> end_marker = [] then False
      else let trimmed = trim_start text;
               starts = (case get_to (byte_len start_marker) trimmed of
                           None \<Rightarrow> False | Some candidate \<Rightarrow> eq_ignore_ascii_case candidate start_marker);
               trimmed2 = trim_end trimmed;
               ends = (case get_from (byte_len trimmed2 - byte_len end_marker) trimmed2 of
                         None \<Rightarrow> False | Some candidate \<Rightarrow> eq_ignore_ascii_case candidate end_marker)
           in starts \<and> ends)"

definition render_marked :: "str \<Rightarrow> str \<Rightarrow> str \<Rightarrow> str" where
  "render_marked start_marker end_marker content =
     (if start_marker = [] \<and> end_marker = [] then content else start_marker @ content @ end_marker)"

definition matches_additional_context :: "str \<Rightarrow> bool" where
  "matches_additional_context text =
     (case strip_prefix (lit ''<external_'') (trim text) of
        None \<Rightarrow> False
      | Some rest \<Rightarrow>
          (case split_once_str (lit ''>'') rest of
             None \<Rightarrow> False
           | Some (key, value_and_close) \<Rightarrow>
               ends_with (lit ''</external_'' @ key @ lit ''>'') value_and_close))"

definition is_valid_source :: "str \<Rightarrow> bool" where
  "is_valid_source source =
     (case source of
        [] \<Rightarrow> False
      | first # chars \<Rightarrow>
          is_ascii_lowercase first \<and>
          list_all (\<lambda>ch. is_ascii_lowercase ch \<or> is_ascii_digit ch \<or> ch = 95) chars)"

definition matches_legacy_goal_context :: "str \<Rightarrow> bool" where
  "matches_legacy_goal_context text \<longleftrightarrow>
     starts_with (lit ''<goal_context>'') text \<and> ends_with (lit ''</goal_context>'') text"

definition matches_internal_model_context :: "str \<Rightarrow> bool" where
  "matches_internal_model_context text =
     (let trimmed = trim text in
      if matches_legacy_goal_context trimmed then True
      else case strip_prefix (lit ''<codex_internal_context'') trimmed of
        None \<Rightarrow> False
      | Some rest \<Rightarrow>
          (case strip_prefix (lit '' source='' @ [34]) rest of
             None \<Rightarrow> False
           | Some rest2 \<Rightarrow>
               (case split_once_str ([34] @ lit ''>'') rest2 of
                  None \<Rightarrow> False
                | Some (source, body_and_close) \<Rightarrow>
                    is_valid_source source \<and>
                    ends_with (lit ''</codex_internal_context>'') body_and_close)))"

definition matches_process_limit_warning :: "str \<Rightarrow> bool" where
  "matches_process_limit_warning text =
     starts_with (lit ''Warning: The maximum number of unified exec processes you can keep open is'')
       (trim text)"

definition matches_apply_patch_warning :: "str \<Rightarrow> bool" where
  "matches_apply_patch_warning text =
     (let trimmed = trim text in
      starts_with (lit ''Warning: apply_patch was requested via '') trimmed \<and>
      ends_with (lit ''Use the apply_patch tool instead of exec_command.'') trimmed)"

definition matches_model_mismatch_warning :: "str \<Rightarrow> bool" where
  "matches_model_mismatch_warning text =
     starts_with (lit ''Warning: Your account was flagged for potentially high-risk cyber activity'')
       (trim text)"

text \<open>
  The marker pairs of the fragments matched by the default method: AGENTS.md instructions, the
  environment, skills, user shell commands, aborted turns, sub-agent notifications, plugins.
\<close>

definition marked_user_fragments :: "(str \<times> str) list" where
  "marked_user_fragments =
     [(lit ''# AGENTS.md instructions'', lit ''</INSTRUCTIONS>''),
      (lit ''<environment_context>'', lit ''</environment_context>''),
      (lit ''<skill>'', lit ''</skill>''),
      (lit ''<user_shell_command>'', lit ''</user_shell_command>''),
      (lit ''<turn_aborted>'', lit ''</turn_aborted>''),
      (lit ''<subagent_notification>'', lit ''</subagent_notification>''),
      (lit ''<recommended_plugins>'', lit ''</recommended_plugins>'')]"

definition is_standard_contextual_user_text :: "str \<Rightarrow> bool" where
  "is_standard_contextual_user_text text \<longleftrightarrow>
     list_ex (\<lambda>(s, e). matches_marked_text s e text) marked_user_fragments \<or>
     matches_additional_context text \<or> matches_internal_model_context text \<or>
     matches_process_limit_warning text \<or> matches_apply_patch_warning text \<or>
     matches_model_mismatch_warning text"

record content_parsers =
  cp_hook_xml :: "str \<Rightarrow> (str \<times> str) option"
  cp_inter_agent_json :: "str \<Rightarrow> bool"

definition parse_hook_prompt_fragment :: "content_parsers \<Rightarrow> str \<Rightarrow> (str \<times> str) option" where
  "parse_hook_prompt_fragment cp text =
     (case cp_hook_xml cp (trim text) of
        None \<Rightarrow> None
      | Some (t, hook_run_id) \<Rightarrow> if trim hook_run_id = [] then None else Some (t, hook_run_id))"

fun is_contextual_user_fragment :: "content_parsers \<Rightarrow> message_content \<Rightarrow> bool" where
  "is_contextual_user_fragment cp (InputText text) =
     (parse_hook_prompt_fragment cp text \<noteq> None \<or> is_standard_contextual_user_text text)"
| "is_contextual_user_fragment cp _ = False"

definition is_contextual_user_message_content :: "content_parsers \<Rightarrow> message_content list \<Rightarrow> bool" where
  "is_contextual_user_message_content cp message = list_ex (is_contextual_user_fragment cp) message"

definition CONTEXTUAL_DEVELOPER_PREFIXES :: "str list" where
  "CONTEXTUAL_DEVELOPER_PREFIXES =
     [lit ''<permissions instructions>'', lit ''Approved command prefix saved:'', lit ''<model_switch>'',
      lit ''<managed_developer_instructions>'', lit ''<persistent_mode>'', lit ''<apps_instructions>'',
      lit ''<collaboration_mode>'', lit ''<multi_agent_role>'', lit ''<multi_agent_mode>'',
      lit ''<environments_instructions>'', lit ''<git_attribution>'', lit ''<plugins_instructions>'',
      lit ''<realtime_conversation>'', lit ''<skills_instructions>'', lit ''<tools>'',
      lit ''<personality_spec>'', lit ''<token_budget>'', lit ''<context_window>'',
      lit ''<context_window_guidance>'', lit ''<rollout_budget>'']"

fun is_contextual_dev_fragment :: "message_content \<Rightarrow> bool" where
  "is_contextual_dev_fragment (InputText text) =
     (let trimmed = trim_start text in
      list_ex (\<lambda>p. case get_to (byte_len p) trimmed of
                     None \<Rightarrow> False | Some candidate \<Rightarrow> eq_ignore_ascii_case candidate p)
        CONTEXTUAL_DEVELOPER_PREFIXES)"
| "is_contextual_dev_fragment _ = False"

definition is_contextual_dev_message_content :: "message_content list \<Rightarrow> bool" where
  "is_contextual_dev_message_content message = list_ex is_contextual_dev_fragment message"

definition has_non_contextual_dev_message_content :: "message_content list \<Rightarrow> bool" where
  "has_non_contextual_dev_message_content message = list_ex (\<lambda>c. \<not> is_contextual_dev_fragment c) message"

section \<open>Kinds of items\<close>

fun is_inter_agent_instruction_content :: "content_parsers \<Rightarrow> message_content list \<Rightarrow> bool" where
  "is_inter_agent_instruction_content cp [InputText text] = cp_inter_agent_json cp text"
| "is_inter_agent_instruction_content cp [OutputText text] = cp_inter_agent_json cp text"
| "is_inter_agent_instruction_content cp _ = False"

fun is_user_turn_boundary :: "content_parsers \<Rightarrow> 'v response_item \<Rightarrow> bool" where
  "is_user_turn_boundary cp (AgentMessage _ _ _ _ _) = True"
| "is_user_turn_boundary cp (Message _ role content _ _) =
     ((role = lit ''user'' \<and> \<not> is_contextual_user_message_content cp content) \<or>
      (role = lit ''assistant'' \<and> is_inter_agent_instruction_content cp content))"
| "is_user_turn_boundary cp _ = False"

text \<open>The test by which snapshots and review evidence leave out contextual user messages.\<close>

fun is_contextual_user_item :: "content_parsers \<Rightarrow> 'v response_item \<Rightarrow> bool" where
  "is_contextual_user_item cp (Message _ role content _ _) =
     (role = lit ''user'' \<and> is_contextual_user_message_content cp content)"
| "is_contextual_user_item cp _ = False"

fun is_api_message :: "'v response_item \<Rightarrow> bool" where
  "is_api_message (Message _ role _ _ _) = (role \<noteq> lit ''system'')"
| "is_api_message CompactionTrigger = False"
| "is_api_message Other = False"
| "is_api_message _ = True"

fun is_model_generated_item :: "'v response_item \<Rightarrow> bool" where
  "is_model_generated_item (Message _ role _ _ _) = (role = lit ''assistant'')"
| "is_model_generated_item (Reasoning _ _ _ _ _) = True"
| "is_model_generated_item (FunctionCall _ _ _ _ _ _ _) = True"
| "is_model_generated_item (ToolSearchCall _ _ _ _ _ _) = True"
| "is_model_generated_item (WebSearchCall _ _ _ _) = True"
| "is_model_generated_item (ImageGenerationCall _ _ _ _ _) = True"
| "is_model_generated_item (CustomToolCall _ _ _ _ _ _ _) = True"
| "is_model_generated_item (LocalShellCall _ _ _ _ _) = True"
| "is_model_generated_item (Compaction _ _ _) = True"
| "is_model_generated_item (ContextCompaction _ _ _) = True"
| "is_model_generated_item _ = False"

fun is_user_authorization_message :: "'v response_item \<Rightarrow> bool" where
  "is_user_authorization_message (Message _ role content _ m) =
     (role = lit ''user'' \<and>
      (case Option.bind m pt_content_item_kinds of
         None \<Rightarrow> True
       | Some kinds \<Rightarrow>
           kinds = [] \<or> length kinds \<noteq> length content \<or>
           list_ex (\<lambda>kind. starts_with (lit ''user.'') kind \<or>
                      kind \<in> {[], lit ''unknown'', lit ''images.preparation_error'',
                               lit ''images.unsupported'', lit ''audio.unsupported''}) kinds))"
| "is_user_authorization_message _ = False"

section \<open>Rendered fragments are recognised\<close>

lemma trim_start_solid: "s \<noteq> [] \<Longrightarrow> \<not> is_whitespace (hd s) \<Longrightarrow> trim_start (s @ t) = s @ t"
  by (cases s) (simp_all add: trim_start_def)

lemma trim_end_solid: "e \<noteq> [] \<Longrightarrow> \<not> is_whitespace (last e) \<Longrightarrow> trim_end (t @ e) = t @ e"
  by (cases e rule: rev_cases) (simp_all add: trim_end_def)

lemma get_to_append [simp]: "get_to (byte_len p) (p @ q) = Some p"
  by (simp add: get_to_def)

lemma get_from_append [simp]: "get_from (byte_len p) (p @ q) = Some q"
  by (simp add: get_from_def)

lemma matches_rendered:
  assumes "s \<noteq> []" "e \<noteq> []" "\<not> is_whitespace (hd s)" "\<not> is_whitespace (last e)"
  shows "matches_marked_text s e (render_marked s e b)"
proof -
  have "get_from (byte_len (s @ b @ e) - byte_len e) ((s @ b) @ e) = Some e"
    using get_from_append [of "s @ b" e] by simp
  then show ?thesis
    using assms trim_end_solid [of e "s @ b"]
    by (simp add: matches_marked_text_def render_marked_def trim_start_solid eq_ignore_ascii_case_def Let_def)
qed

lemma marked_fragment_solid:
  "(s, e) \<in> set marked_user_fragments \<Longrightarrow>
     s \<noteq> [] \<and> e \<noteq> [] \<and> \<not> is_whitespace (hd s) \<and> \<not> is_whitespace (last e)"
  by (auto simp: marked_user_fragments_def lit_eval is_whitespace_def)

lemma rendered_is_contextual:
  assumes "(s, e) \<in> set marked_user_fragments"
  shows "is_contextual_user_fragment cp (InputText (render_marked s e b))"
  using assms matches_rendered [of s e b] marked_fragment_solid [OF assms]
  by (auto simp: is_standard_contextual_user_text_def list_ex_iff intro: bexI [of _ "(s, e)"])

lemma developer_not_boundary:
  "is_user_turn_boundary cp (Message i (lit ''developer'') c ph m) = False"
  by (simp add: lit_eval)

lemma contextual_not_boundary: "is_contextual_user_item cp item \<Longrightarrow> \<not> is_user_turn_boundary cp item"
  by (cases item) (auto simp: lit_eval)

end
