(* ===== verification/History_Normalize.thy ===== *)
theory History_Normalize
  imports Context_Fragments
begin

text \<open>
  Normalisation of the history before a request: \<open>core/src/context_manager/normalize.rs\<close>. Calls get
  an output, outputs without a call go, media the model does not take become text. The UUID
  function that names synthetic outputs is third-party code and a parameter. \<open>error_or_panic\<close>
  panics in a build with debug assertions, which is \<open>None\<close>, and logs in a release build; the flag
  \<open>strict\<close> says which.
\<close>

section \<open>Missing outputs\<close>

definition error_or_panic :: "bool \<Rightarrow> unit option" where
  "error_or_panic strict = (if strict then None else Some ())"

definition synthetic_output_id :: "(str \<Rightarrow> str) \<Rightarrow> str \<Rightarrow> str option \<Rightarrow> str option" where
  "synthetic_output_id new_v5 id_prefix source =
     (case source of
        None \<Rightarrow> None
      | Some source_id \<Rightarrow>
          if source_id = [] then None
          else Some (with_suffix id_prefix (new_v5 (id_prefix @ lit '':'' @ source_id))))"

definition function_output_ids :: "'v envelope list \<Rightarrow> str set" where
  "function_output_ids items =
     set (List.map_filter (\<lambda>e. case env_item e of FunctionCallOutput _ (Some c) _ _ _ _ \<Rightarrow> Some c | _ \<Rightarrow> None) items)"

definition tool_search_output_ids :: "'v envelope list \<Rightarrow> str set" where
  "tool_search_output_ids items =
     set (List.map_filter (\<lambda>e. case env_item e of ToolSearchOutput _ (Some c) _ _ _ _ \<Rightarrow> Some c | _ \<Rightarrow> None) items)"

definition custom_tool_output_ids :: "'v envelope list \<Rightarrow> str set" where
  "custom_tool_output_ids items =
     set (List.map_filter (\<lambda>e. case env_item e of CustomToolCallOutput _ c _ _ _ \<Rightarrow> Some c | _ \<Rightarrow> None) items)"

definition aborted_function_output :: "(str \<Rightarrow> str) \<Rightarrow> str option \<Rightarrow> str \<Rightarrow> 'v response_item" where
  "aborted_function_output new_v5 source call_id =
     FunctionCallOutput (synthetic_output_id new_v5 (lit ''fco'') source) (Some call_id) None None
       (payload_from_text (lit ''aborted'')) None"

text \<open>One turn of the loop: \<open>Some (Some out)\<close> is an output to insert after this item.\<close>

fun missing_output ::
    "bool \<Rightarrow> (str \<Rightarrow> str) \<Rightarrow> str set \<Rightarrow> str set \<Rightarrow> str set \<Rightarrow> 'v response_item \<Rightarrow> 'v response_item option option"
where
  "missing_output strict new_v5 fids tids cids (FunctionCall source _ _ _ _ call_id _) =
     Some (if call_id \<notin> fids then Some (aborted_function_output new_v5 source call_id) else None)"
| "missing_output strict new_v5 fids tids cids (ToolSearchCall source (Some call_id) _ _ _ _) =
     Some (if call_id \<notin> tids
           then Some (ToolSearchOutput (synthetic_output_id new_v5 (lit ''tso'') source) (Some call_id)
                        (lit ''completed'') (lit ''client'') [] None)
           else None)"
| "missing_output strict new_v5 fids tids cids (CustomToolCall source _ call_id _ _ _ _) =
     (if call_id \<notin> cids
      then map_option (\<lambda>_. Some (CustomToolCallOutput (synthetic_output_id new_v5 (lit ''ctco'') source)
                                   call_id None (payload_from_text (lit ''aborted'')) None))
             (error_or_panic strict)
      else Some None)"
| "missing_output strict new_v5 fids tids cids (LocalShellCall source (Some call_id) _ _ _) =
     (if call_id \<notin> fids
      then map_option (\<lambda>_. Some (aborted_function_output new_v5 source call_id)) (error_or_panic strict)
      else Some None)"
| "missing_output strict new_v5 fids tids cids _ = Some None"

fun collect_missing ::
    "('v response_item \<Rightarrow> 'v response_item option option) \<Rightarrow> nat \<Rightarrow> 'v envelope list \<Rightarrow> (nat \<times> 'v envelope) list option"
where
  "collect_missing missing idx [] = Some []"
| "collect_missing missing idx (e # es) =
     Option.bind (missing (env_item e)) (\<lambda>out.
     Option.bind (collect_missing missing (Suc idx) es) (\<lambda>rest.
     Some ((case out of None \<Rightarrow> rest | Some item \<Rightarrow> (idx, envelope_new item) # rest))))"

definition insert_at :: "nat \<Rightarrow> 'a \<Rightarrow> 'a list \<Rightarrow> 'a list" where
  "insert_at n x xs = take n xs @ x # drop n xs"

definition ensure_call_outputs_present ::
    "bool \<Rightarrow> (str \<Rightarrow> str) \<Rightarrow> 'v envelope list \<Rightarrow> 'v envelope list option"
where
  "ensure_call_outputs_present strict new_v5 items =
     map_option (\<lambda>missing_outputs_to_insert.
         fold (\<lambda>(idx, output_item). insert_at (idx + 1) output_item) (rev missing_outputs_to_insert) items)
       (collect_missing
          (missing_output strict new_v5 (function_output_ids items) (tool_search_output_ids items)
             (custom_tool_output_ids items)) 0 items)"

section \<open>Orphan outputs\<close>

definition function_call_ids :: "'v envelope list \<Rightarrow> str set" where
  "function_call_ids items =
     set (List.map_filter (\<lambda>e. case env_item e of
            FunctionCall _ _ _ _ _ c _ \<Rightarrow> Some c | LocalShellCall _ (Some c) _ _ _ \<Rightarrow> Some c | _ \<Rightarrow> None) items)"

definition tool_search_call_ids :: "'v envelope list \<Rightarrow> str set" where
  "tool_search_call_ids items =
     set (List.map_filter (\<lambda>e. case env_item e of ToolSearchCall _ (Some c) _ _ _ _ \<Rightarrow> Some c | _ \<Rightarrow> None) items)"

definition custom_tool_call_ids :: "'v envelope list \<Rightarrow> str set" where
  "custom_tool_call_ids items =
     set (List.map_filter (\<lambda>e. case env_item e of CustomToolCall _ _ c _ _ _ _ \<Rightarrow> Some c | _ \<Rightarrow> None) items)"

fun is_orphan_output :: "str set \<Rightarrow> str set \<Rightarrow> str set \<Rightarrow> 'v response_item \<Rightarrow> bool" where
  "is_orphan_output fids tids cids (FunctionCallOutput _ (Some call_id) _ _ _ _) = (call_id \<notin> fids)"
| "is_orphan_output fids tids cids (CustomToolCallOutput _ call_id _ _ _) = (call_id \<notin> cids)"
| "is_orphan_output fids tids cids (ToolSearchOutput _ (Some call_id) _ execution _ _) =
     (execution \<noteq> lit ''server'' \<and> call_id \<notin> tids)"
| "is_orphan_output fids tids cids _ = False"

fun orphan_positions :: "bool \<Rightarrow> ('v response_item \<Rightarrow> bool) \<Rightarrow> nat \<Rightarrow> 'v envelope list \<Rightarrow> nat list option" where
  "orphan_positions strict orphan pos [] = Some []"
| "orphan_positions strict orphan pos (e # es) =
     (if orphan (env_item e)
      then Option.bind (error_or_panic strict) (\<lambda>_. map_option ((#) pos) (orphan_positions strict orphan (Suc pos) es))
      else orphan_positions strict orphan (Suc pos) es)"

text \<open>\<open>Vec::retain\<close> with the peekable iterator over the positions to leave out.\<close>

fun retain_except :: "nat list \<Rightarrow> nat \<Rightarrow> 'a list \<Rightarrow> 'a list" where
  "retain_except positions pos [] = []"
| "retain_except positions pos (x # xs) =
     (case positions of
        p # ps \<Rightarrow> if p = pos then retain_except ps (Suc pos) xs else x # retain_except positions (Suc pos) xs
      | [] \<Rightarrow> x # retain_except positions (Suc pos) xs)"

definition remove_orphan_outputs :: "bool \<Rightarrow> 'v envelope list \<Rightarrow> 'v envelope list option" where
  "remove_orphan_outputs strict items =
     map_option (\<lambda>positions. if positions \<noteq> [] then retain_except positions 0 items else items)
       (orphan_positions strict
          (is_orphan_output (function_call_ids items) (tool_search_call_ids items) (custom_tool_call_ids items))
          0 items)"

definition remove_first_matching :: "('v response_item \<Rightarrow> bool) \<Rightarrow> 'v envelope list \<Rightarrow> 'v envelope list" where
  "remove_first_matching pred items =
     (case position (\<lambda>e. pred (env_item e)) items of Some pos \<Rightarrow> remove_nth pos items | None \<Rightarrow> items)"

fun function_output_for :: "str \<Rightarrow> 'v response_item \<Rightarrow> bool" where
  "function_output_for call_id (FunctionCallOutput _ (Some existing) _ _ _ _) = (existing = call_id)"
| "function_output_for call_id _ = False"

fun function_call_for :: "str \<Rightarrow> 'v response_item \<Rightarrow> bool" where
  "function_call_for call_id (FunctionCall _ _ _ _ _ existing _) = (existing = call_id)"
| "function_call_for call_id _ = False"

fun local_shell_call_for :: "str \<Rightarrow> 'v response_item \<Rightarrow> bool" where
  "local_shell_call_for call_id (LocalShellCall _ (Some existing) _ _ _) = (existing = call_id)"
| "local_shell_call_for call_id _ = False"

fun tool_search_output_for :: "str \<Rightarrow> 'v response_item \<Rightarrow> bool" where
  "tool_search_output_for call_id (ToolSearchOutput _ (Some existing) _ _ _ _) = (existing = call_id)"
| "tool_search_output_for call_id _ = False"

fun tool_search_call_for :: "str \<Rightarrow> 'v response_item \<Rightarrow> bool" where
  "tool_search_call_for call_id (ToolSearchCall _ (Some existing) _ _ _ _) = (existing = call_id)"
| "tool_search_call_for call_id _ = False"

fun custom_output_for :: "str \<Rightarrow> 'v response_item \<Rightarrow> bool" where
  "custom_output_for call_id (CustomToolCallOutput _ existing _ _ _) = (existing = call_id)"
| "custom_output_for call_id _ = False"

fun custom_call_for :: "str \<Rightarrow> 'v response_item \<Rightarrow> bool" where
  "custom_call_for call_id (CustomToolCall _ _ existing _ _ _ _) = (existing = call_id)"
| "custom_call_for call_id _ = False"

fun remove_corresponding_for :: "'v envelope list \<Rightarrow> 'v response_item \<Rightarrow> 'v envelope list" where
  "remove_corresponding_for items (FunctionCall _ _ _ _ _ call_id _) =
     remove_first_matching (function_output_for call_id) items"
| "remove_corresponding_for items (FunctionCallOutput _ (Some call_id) _ _ _ _) =
     (case position (\<lambda>e. function_call_for call_id (env_item e)) items of
        Some pos \<Rightarrow> remove_nth pos items
      | None \<Rightarrow> (case position (\<lambda>e. local_shell_call_for call_id (env_item e)) items of
                   Some pos \<Rightarrow> remove_nth pos items
                 | None \<Rightarrow> items))"
| "remove_corresponding_for items (ToolSearchCall _ (Some call_id) _ _ _ _) =
     remove_first_matching (tool_search_output_for call_id) items"
| "remove_corresponding_for items (ToolSearchOutput _ (Some call_id) _ _ _ _) =
     remove_first_matching (tool_search_call_for call_id) items"
| "remove_corresponding_for items (CustomToolCall _ _ call_id _ _ _ _) =
     remove_first_matching (custom_output_for call_id) items"
| "remove_corresponding_for items (CustomToolCallOutput _ call_id _ _ _) =
     remove_first_matching (custom_call_for call_id) items"
| "remove_corresponding_for items (LocalShellCall _ (Some call_id) _ _ _) =
     remove_first_matching (function_output_for call_id) items"
| "remove_corresponding_for items _ = items"

section \<open>Unsupported media\<close>

datatype input_modality = TextInput | ImageInput | AudioInput

definition UNSUPPORTED_IMAGE :: annotated_content where
  "UNSUPPORTED_IMAGE =
     (InputText (lit ''image content omitted because you do not support image input''), lit ''images.unsupported'')"

definition UNSUPPORTED_AUDIO :: annotated_content where
  "UNSUPPORTED_AUDIO =
     (InputText (lit ''audio content omitted because you do not support audio input''), lit ''audio.unsupported'')"

fun is_image_content :: "message_content \<Rightarrow> bool" where
  "is_image_content (InputImage _ _) = True"
| "is_image_content _ = False"

fun is_audio_content :: "message_content \<Rightarrow> bool" where
  "is_audio_content (InputAudio _) = True"
| "is_audio_content _ = False"

text \<open>Replacing content of a message together with its classification; other items are left.\<close>

definition replace_content ::
    "(message_content \<Rightarrow> bool) \<Rightarrow> annotated_content \<Rightarrow> 'v response_item \<Rightarrow> 'v response_item"
where
  "replace_content unsupported replacement item =
     (case to_annotated_content item of
        None \<Rightarrow> item
      | Some (content, emptied) \<Rightarrow>
          (case set_annotated_content (map (\<lambda>c. if unsupported (fst c) then replacement else c) content) emptied of
             Some item' \<Rightarrow> item' | None \<Rightarrow> emptied))"

fun strip_output_image :: "content_item \<Rightarrow> content_item" where
  "strip_output_image (content_item.InputImage _ _) =
     content_item.InputText (lit ''image content omitted because you do not support image input'')"
| "strip_output_image c = c"

fun strip_output_audio :: "content_item \<Rightarrow> content_item" where
  "strip_output_audio (content_item.InputAudio _) =
     content_item.InputText (lit ''audio content omitted because you do not support audio input'')"
| "strip_output_audio c = c"

definition map_output_items :: "(content_item \<Rightarrow> content_item) \<Rightarrow> output_payload \<Rightarrow> output_payload" where
  "map_output_items f payload =
     (case body payload of Text _ \<Rightarrow> payload | ContentItems items \<Rightarrow> payload\<lparr>body := ContentItems (map f items)\<rparr>)"

fun strip_item_images :: "'v response_item \<Rightarrow> 'v response_item" where
  "strip_item_images (Message i role content phase m) =
     replace_content is_image_content UNSUPPORTED_IMAGE (Message i role content phase m)"
| "strip_item_images (FunctionCallOutput i c n ns output m) =
     FunctionCallOutput i c n ns (map_output_items strip_output_image output) m"
| "strip_item_images (CustomToolCallOutput i c n output m) =
     CustomToolCallOutput i c n (map_output_items strip_output_image output) m"
| "strip_item_images (ImageGenerationCall i status revised _ m) = ImageGenerationCall i status revised [] m"
| "strip_item_images item = item"

fun strip_item_audio :: "'v response_item \<Rightarrow> 'v response_item" where
  "strip_item_audio (Message i role content phase m) =
     replace_content is_audio_content UNSUPPORTED_AUDIO (Message i role content phase m)"
| "strip_item_audio (FunctionCallOutput i c n ns output m) =
     FunctionCallOutput i c n ns (map_output_items strip_output_audio output) m"
| "strip_item_audio (CustomToolCallOutput i c n output m) =
     CustomToolCallOutput i c n (map_output_items strip_output_audio output) m"
| "strip_item_audio item = item"

definition strip_images_when_unsupported :: "input_modality list \<Rightarrow> 'v envelope list \<Rightarrow> 'v envelope list" where
  "strip_images_when_unsupported modalities items =
     (if ImageInput \<in> set modalities then items else map (env_item_update strip_item_images) items)"

definition strip_audio_when_unsupported :: "input_modality list \<Rightarrow> 'v envelope list \<Rightarrow> 'v envelope list" where
  "strip_audio_when_unsupported modalities items =
     (if AudioInput \<in> set modalities then items else map (env_item_update strip_item_audio) items)"

definition normalize_items ::
    "bool \<Rightarrow> (str \<Rightarrow> str) \<Rightarrow> input_modality list \<Rightarrow> 'v envelope list \<Rightarrow> 'v envelope list option"
where
  "normalize_items strict new_v5 modalities items =
     Option.bind (ensure_call_outputs_present strict new_v5 items) (\<lambda>items1.
     Option.bind (remove_orphan_outputs strict items1) (\<lambda>items2.
     Some (strip_audio_when_unsupported modalities (strip_images_when_unsupported modalities items2))))"

end
