(* ===== verification/Review_History.thy ===== *)
theory Review_History
  imports History_Normalize
begin

text \<open>
  Bounded evidence for approval review: \<open>TranscriptHistory\<close> of \<open>guardian-context/src/history.rs\<close>.
  Serialisation is third-party code; \<open>item_sizes\<close> gives for each value the sizes of the writes the
  serialiser makes (\<open>None\<close> when it fails) and the fixed size of an item. User messages and other
  items have separate limits, and a changed generation tells readers that a retained prefix changed.
\<close>

section \<open>Measuring an item\<close>

definition MAX_ITEMS_PER_KIND :: nat where
  "MAX_ITEMS_PER_KIND = 128"

definition MAX_BYTES_PER_KIND :: nat where
  "MAX_BYTES_PER_KIND = 4 * 1024 * 1024"

record 'v item_sizes =
  sz_fixed :: nat
  sz_item_json :: "'v response_item \<Rightarrow> nat list option"
  sz_reasoning_json :: "'v list option \<Rightarrow> nat list option"
  sz_header_json :: "str option \<times> str \<times> message_phase option \<times> 'v passthrough option \<Rightarrow> nat list option"
  sz_content_json :: "message_content \<Rightarrow> nat list option"

definition bounded_write :: "nat \<Rightarrow> nat \<Rightarrow> nat option" where
  "bounded_write used len = (if len > MAX_BYTES_PER_KIND - used then None else Some (used + len))"

fun bounded_writes :: "nat list \<Rightarrow> nat \<Rightarrow> nat option" where
  "bounded_writes [] used = Some used"
| "bounded_writes (len # lens) used = Option.bind (bounded_write used len) (bounded_writes lens)"

definition to_writer :: "nat list option \<Rightarrow> nat \<Rightarrow> nat option" where
  "to_writer json used = Option.bind json (\<lambda>lens. bounded_writes lens used)"

definition measured_size :: "'v item_sizes \<Rightarrow> 'v response_item \<Rightarrow> nat option" where
  "measured_size sz item =
     Option.bind (to_writer (sz_item_json sz item) (sz_fixed sz)) (\<lambda>used.
     case item of
       Reasoning _ _ content _ _ \<Rightarrow> to_writer (sz_reasoning_json sz content) used
     | _ \<Rightarrow> Some used)"

text \<open>The text parts of an oversized message, measured one by one.\<close>

fun is_text_content :: "message_content \<Rightarrow> bool" where
  "is_text_content (InputText _) = True"
| "is_text_content (OutputText _) = True"
| "is_text_content _ = False"

fun measured_text :: "'v item_sizes \<Rightarrow> nat \<Rightarrow> message_content list \<Rightarrow> message_content list option" where
  "measured_text sz used [] = Some []"
| "measured_text sz used (c # cs) =
     (if is_text_content c
      then Option.bind (to_writer (sz_content_json sz c) used) (\<lambda>used1. map_option ((#) c) (measured_text sz used1 cs))
      else measured_text sz used cs)"

section \<open>Retention\<close>

record 'v transcript_history =
  th_items :: "('v response_item \<times> nat) list"
  th_generation :: u64

definition transcript_new :: "u64 \<Rightarrow> 'v transcript_history" where
  "transcript_new generation = \<lparr>th_items = [], th_generation = generation\<rparr>"

definition same_kind :: "bool \<Rightarrow> 'v response_item \<times> nat \<Rightarrow> bool" where
  "same_kind is_user x \<longleftrightarrow> is_user_message (fst x) = is_user"

fun evict :: "bool \<Rightarrow> nat \<Rightarrow> nat \<Rightarrow> ('v response_item \<times> nat) list \<Rightarrow> ('v response_item \<times> nat) list" where
  "evict is_user count bytes [] = []"
| "evict is_user count bytes (x # xs) =
     (if same_kind is_user x \<and> (count \<ge> MAX_ITEMS_PER_KIND \<or> bytes > MAX_BYTES_PER_KIND)
      then evict is_user (count - 1) (bytes - snd x) xs
      else x # evict is_user count bytes xs)"

definition append_measured :: "'v response_item \<Rightarrow> nat \<Rightarrow> 'v transcript_history \<Rightarrow> 'v transcript_history" where
  "append_measured item used th =
     (let is_user = is_user_message item;
          (count, bytes) = fold (\<lambda>x (count, bytes). (count + 1, bytes + snd x))
                             (filter (same_kind is_user) (th_items th)) (0, used);
          th1 = (if count \<ge> MAX_ITEMS_PER_KIND \<or> bytes > MAX_BYTES_PER_KIND
                 then th\<lparr>th_items := evict is_user count bytes (th_items th),
                         th_generation := saturating_add (th_generation th) 1\<rparr>
                 else th)
      in th1\<lparr>th_items := th_items th1 @ [(item, used)]\<rparr>)"

fun image_parts :: "'v response_item \<Rightarrow> nat" where
  "image_parts (Message _ _ content _ _) = length (filter is_image_content content)"
| "image_parts _ = 0"

lemma measured_text_no_images: "measured_text sz used cs = Some ts \<Longrightarrow> filter is_image_content ts = []"
  by (induction sz used cs arbitrary: ts rule: measured_text.induct)
    (auto split: if_splits simp: bind_eq_Some_conv elim: is_text_content.elims)

function transcript_record :: "'v item_sizes \<Rightarrow> 'v response_item \<Rightarrow> 'v transcript_history \<Rightarrow> 'v transcript_history" where
  "transcript_record sz item th =
     (case measured_size sz item of
        Some used \<Rightarrow> append_measured item used th
      | None \<Rightarrow>
          (case item of
             Message i role content phase m \<Rightarrow>
               if role = lit ''user'' \<and> list_ex is_image_content content
               then (case to_writer (sz_header_json sz (i, role, phase, m)) (sz_fixed sz) of
                       None \<Rightarrow> th
                     | Some used \<Rightarrow>
                         (case measured_text sz used content of
                            None \<Rightarrow> th
                          | Some parts \<Rightarrow>
                              if parts \<noteq> [] then transcript_record sz (Message i role parts phase m) th else th))
               else th
           | _ \<Rightarrow> th))"
  by pat_completeness auto
termination
  by (relation "measure (\<lambda>(sz, item, th). image_parts item)")
    (auto simp: measured_text_no_images list_ex_iff filter_empty_conv)

declare transcript_record.simps [simp del]

definition transcript_reset :: "'v item_sizes \<Rightarrow> 'v response_item list \<Rightarrow> 'v transcript_history \<Rightarrow> 'v transcript_history" where
  "transcript_reset sz items th =
     fold (transcript_record sz) items
       (th\<lparr>th_items := [], th_generation := saturating_add (th_generation th) 1\<rparr>)"

definition is_boundary :: "'v response_item \<Rightarrow> 'v response_item \<times> nat \<Rightarrow> bool" where
  "is_boundary boundary x \<longleftrightarrow>
     (case (item_id (fst x), item_id boundary) of
        (Some a, Some b) \<Rightarrow> a = b
      | _ \<Rightarrow> False) \<or> fst x = boundary"

definition truncate_before :: "'v response_item \<Rightarrow> 'v transcript_history \<Rightarrow> 'v transcript_history" where
  "truncate_before boundary th =
     (let index = position (is_boundary boundary) (th_items th)
      in th\<lparr>th_items := take (case index of Some i \<Rightarrow> i | None \<Rightarrow> 0) (th_items th),
            th_generation := saturating_add (th_generation th) 1\<rparr>)"

section \<open>Limits\<close>

definition kind_count :: "bool \<Rightarrow> ('v response_item \<times> nat) list \<Rightarrow> nat" where
  "kind_count u xs = length (filter (same_kind u) xs)"

definition kind_bytes :: "bool \<Rightarrow> ('v response_item \<times> nat) list \<Rightarrow> nat" where
  "kind_bytes u xs = sum_list (map snd (filter (same_kind u) xs))"

definition within_limits :: "'v transcript_history \<Rightarrow> bool" where
  "within_limits th \<longleftrightarrow>
     (\<forall>u. kind_count u (th_items th) \<le> MAX_ITEMS_PER_KIND \<and> kind_bytes u (th_items th) \<le> MAX_BYTES_PER_KIND)"

lemma kind_simps [simp]:
  "kind_count u [] = 0" "kind_bytes u [] = 0"
  "kind_count u (x # xs) = (if same_kind u x then Suc (kind_count u xs) else kind_count u xs)"
  "kind_bytes u (x # xs) = (if same_kind u x then snd x + kind_bytes u xs else kind_bytes u xs)"
  "kind_count u (xs @ ys) = kind_count u xs + kind_count u ys"
  "kind_bytes u (xs @ ys) = kind_bytes u xs + kind_bytes u ys"
  by (simp_all add: kind_count_def kind_bytes_def)

lemma fold_count_bytes:
  "fold (\<lambda>x (c, b). (Suc c, b + snd x)) (filter (same_kind u) xs) (c, b) = (c + kind_count u xs, b + kind_bytes u xs)"
  for c b :: nat
  by (induction xs arbitrary: c b) auto

lemma evict_done: "\<not> (count \<ge> MAX_ITEMS_PER_KIND \<or> bytes > MAX_BYTES_PER_KIND) \<Longrightarrow> evict u count bytes xs = xs"
  by (induction xs) auto

lemma evict_limits:
  assumes "used \<le> MAX_BYTES_PER_KIND"
  shows "kind_count u (evict u (kind_count u xs) (used + kind_bytes u xs) xs) < MAX_ITEMS_PER_KIND \<and>
         used + kind_bytes u (evict u (kind_count u xs) (used + kind_bytes u xs) xs) \<le> MAX_BYTES_PER_KIND"
proof (induction xs)
  case Nil
  show ?case using assms by (simp add: MAX_ITEMS_PER_KIND_def)
next
  case (Cons x xs)
  show ?case
  proof (cases "same_kind u x \<and> \<not> (kind_count u (x # xs) \<ge> MAX_ITEMS_PER_KIND \<or> used + kind_bytes u (x # xs) > MAX_BYTES_PER_KIND)")
    case True
    note e = evict_done [OF conjunct2 [OF True], of u "x # xs"]
    from True show ?thesis unfolding e by auto
  next
    case False
    with Cons.IH show ?thesis by (auto simp: add.assoc)
  qed
qed

lemma evict_other_kind: "filter (same_kind (\<not> u)) (evict u count bytes xs) = filter (same_kind (\<not> u)) xs"
  by (induction u count bytes xs rule: evict.induct) (auto simp: same_kind_def)

lemma evict_oldest: "\<exists>n. filter (same_kind u) (evict u count bytes xs) = drop n (filter (same_kind u) xs)"
proof (induction u count bytes xs rule: evict.induct)
  case (2 u count bytes x xs)
  show ?case
  proof (cases "same_kind u x \<and> (count \<ge> MAX_ITEMS_PER_KIND \<or> bytes > MAX_BYTES_PER_KIND)")
    case True
    with 2(1) obtain n where "filter (same_kind u) (evict u (count - 1) (bytes - snd x) xs) = drop n (filter (same_kind u) xs)"
      by blast
    with True have "filter (same_kind u) (evict u count bytes (x # xs)) = drop (Suc n) (filter (same_kind u) (x # xs))"
      by simp
    then show ?thesis by blast
  next
    case not_evicted: False
    show ?thesis
    proof (cases "same_kind u x")
      case True
      with not_evicted have "evict u count bytes xs = xs" by (simp add: evict_done)
      with not_evicted have "filter (same_kind u) (evict u count bytes (x # xs)) = drop 0 (filter (same_kind u) (x # xs))"
        by simp
      then show ?thesis by blast
    next
      case False
      with 2(2) not_evicted show ?thesis by auto
    qed
  qed
qed simp

lemma evict_subseq: "subseq (evict u count bytes xs) xs"
  by (induction u count bytes xs rule: evict.induct) auto

lemma append_measured_items:
  "th_items (append_measured item used th) =
     (if kind_count (is_user_message item) (th_items th) \<ge> MAX_ITEMS_PER_KIND \<or>
         used + kind_bytes (is_user_message item) (th_items th) > MAX_BYTES_PER_KIND
      then evict (is_user_message item) (kind_count (is_user_message item) (th_items th))
             (used + kind_bytes (is_user_message item) (th_items th)) (th_items th)
      else th_items th) @ [(item, used)]"
  by (simp add: append_measured_def fold_count_bytes Let_def)

lemma append_measured_limits:
  assumes "within_limits th" "used \<le> MAX_BYTES_PER_KIND"
  shows "within_limits (append_measured item used th)"
proof -
  let ?u = "is_user_message item"
  let ?xs = "th_items th"
  define ys where "ys = (if kind_count ?u ?xs \<ge> MAX_ITEMS_PER_KIND \<or> used + kind_bytes ?u ?xs > MAX_BYTES_PER_KIND
    then evict ?u (kind_count ?u ?xs) (used + kind_bytes ?u ?xs) ?xs else ?xs)"
  have same: "kind_count ?u ys < MAX_ITEMS_PER_KIND \<and> used + kind_bytes ?u ys \<le> MAX_BYTES_PER_KIND"
    using evict_limits [OF assms(2), of ?u ?xs] by (auto simp: ys_def)
  have "kind_count (\<not> ?u) ys = kind_count (\<not> ?u) ?xs" "kind_bytes (\<not> ?u) ys = kind_bytes (\<not> ?u) ?xs"
    by (simp_all add: ys_def kind_count_def kind_bytes_def evict_other_kind)
  then have other: "kind_count (\<not> ?u) ys \<le> MAX_ITEMS_PER_KIND" "kind_bytes (\<not> ?u) ys \<le> MAX_BYTES_PER_KIND"
    using assms(1) by (simp_all add: within_limits_def)
  have items: "th_items (append_measured item used th) = ys @ [(item, used)]"
    unfolding ys_def by (rule append_measured_items)
  have "kind_count u (ys @ [(item, used)]) \<le> MAX_ITEMS_PER_KIND \<and> kind_bytes u (ys @ [(item, used)]) \<le> MAX_BYTES_PER_KIND" for u
  proof (cases "u = ?u")
    case True
    with same show ?thesis by (simp add: same_kind_def)
  next
    case False
    then have "u = (\<not> ?u)" by simp
    with other show ?thesis by (simp add: same_kind_def)
  qed
  then show ?thesis unfolding within_limits_def items by blast
qed

lemma bounded_writes_le: "bounded_writes lens used = Some n \<Longrightarrow> used \<le> MAX_BYTES_PER_KIND \<Longrightarrow> n \<le> MAX_BYTES_PER_KIND"
  by (induction lens arbitrary: used) (auto simp: bounded_write_def bind_eq_Some_conv split: if_splits)

lemma measured_size_le:
  assumes "measured_size sz item = Some n" "sz_fixed sz \<le> MAX_BYTES_PER_KIND"
  shows "n \<le> MAX_BYTES_PER_KIND"
  using assms
  by (cases item) (auto simp: measured_size_def to_writer_def bind_eq_Some_conv dest!: bounded_writes_le)

lemma transcript_record_cases:
  "transcript_record sz item th = th \<or>
   (\<exists>item' used. measured_size sz item' = Some used \<and> is_user_message item' = is_user_message item \<and>
                 transcript_record sz item th = append_measured item' used th)"
proof (induction sz item th rule: transcript_record.induct)
  case (1 sz item th)
  show ?case
  proof (cases "measured_size sz item")
    case (Some used)
    then have "transcript_record sz item th = append_measured item used th" by (subst transcript_record.simps) simp
    with Some show ?thesis by blast
  next
    case None
    show ?thesis
    proof (cases item)
      case (Message i role content phase m)
      show ?thesis
      proof (cases "\<exists>used parts. role = lit ''user'' \<and> list_ex is_image_content content \<and>
          to_writer (sz_header_json sz (i, role, phase, m)) (sz_fixed sz) = Some used \<and>
          measured_text sz used content = Some parts \<and> parts \<noteq> []")
        case True
        then obtain used parts where parts: "role = lit ''user'' \<and> list_ex is_image_content content"
          "to_writer (sz_header_json sz (i, role, phase, m)) (sz_fixed sz) = Some used"
          "measured_text sz used content = Some parts" "parts \<noteq> []" by blast
        then have "transcript_record sz item th = transcript_record sz (Message i role parts phase m) th"
          using None Message by (subst transcript_record.simps) simp
        moreover have "is_user_message (Message i role parts phase m) = is_user_message item"
          using Message by simp
        ultimately show ?thesis using 1 [OF None Message parts] by simp
      next
        case False
        then have "transcript_record sz item th = th"
          using None Message by (subst transcript_record.simps) (auto split: option.split)
        then show ?thesis ..
      qed
    qed (use None in \<open>subst (1) transcript_record.simps, simp\<close>)+
  qed
qed

section \<open>Generations\<close>

text \<open>
  A reader that remembers a version and an offset may continue at the offset as long as the version
  is the same: versions never go back, and states of one version extend each other. The version
  saturates, and at its last value nothing is promised.
\<close>

definition extends_view :: "('s \<Rightarrow> u64) \<Rightarrow> ('s \<Rightarrow> 'a list) \<Rightarrow> 's \<Rightarrow> 's \<Rightarrow> bool" where
  "extends_view version view s s' \<longleftrightarrow>
     version s \<le> version s' \<and> (version s = version s' \<longrightarrow> version s \<noteq> - 1 \<longrightarrow> prefix (view s) (view s'))"

lemma extends_view_refl: "extends_view version view s s"
  by (simp add: extends_view_def)

lemma extends_view_trans:
  "extends_view version view s s' \<Longrightarrow> extends_view version view s' s'' \<Longrightarrow> extends_view version view s s''"
  unfolding extends_view_def by (metis order.antisym order.trans prefix_order.trans)

lemma extends_view_bump: "version s' = saturating_add (version s) 1 \<Longrightarrow> extends_view version view s s'"
  using saturating_add_one_ge [of "version s"] saturating_add_one_gr [of "version s"]
  by (auto simp: extends_view_def)

lemma extends_view_append: "version s' = version s \<Longrightarrow> prefix (view s) (view s') \<Longrightarrow> extends_view version view s s'"
  by (simp add: extends_view_def)

locale versioned_view =
  fixes step :: "'op \<Rightarrow> 's \<Rightarrow> 's"
    and version :: "'s \<Rightarrow> u64"
    and view :: "'s \<Rightarrow> 'a list"
  assumes step_extends: "extends_view version view s (step x s)"
begin

lemma run_extends: "extends_view version view s (run_ops step xs s)"
proof (induction xs arbitrary: s)
  case (Cons x xs)
  from step_extends Cons.IH show ?case by (simp add: extends_view_trans [of version view s "step x s"])
qed (simp add: extends_view_refl)

lemma same_version_prefix:
  "version (run_ops step xs s) = version s \<Longrightarrow> version s \<noteq> - 1 \<Longrightarrow> prefix (view s) (view (run_ops step xs s))"
  using run_extends [of s xs] by (simp add: extends_view_def)

end

datatype 'v review_op = RecordItem "'v response_item" | ResetTo "'v response_item list" | TruncateBefore "'v response_item"

fun review_step :: "'v item_sizes \<Rightarrow> 'v review_op \<Rightarrow> 'v transcript_history \<Rightarrow> 'v transcript_history" where
  "review_step sz (RecordItem item) th = transcript_record sz item th"
| "review_step sz (ResetTo items) th = transcript_reset sz items th"
| "review_step sz (TruncateBefore item) th = truncate_before item th"

lemma append_measured_extends: "extends_view th_generation th_items th (append_measured item used th)"
proof (cases "kind_count (is_user_message item) (th_items th) \<ge> MAX_ITEMS_PER_KIND \<or>
    used + kind_bytes (is_user_message item) (th_items th) > MAX_BYTES_PER_KIND")
  case True
  then show ?thesis
    by (intro extends_view_bump) (simp add: append_measured_def fold_count_bytes Let_def)
next
  case False
  then show ?thesis
    by (intro extends_view_append) (simp_all add: append_measured_def fold_count_bytes Let_def)
qed

lemma transcript_record_extends: "extends_view th_generation th_items th (transcript_record sz item th)"
  using transcript_record_cases [of sz item th] append_measured_extends [of th] extends_view_refl [of th_generation th_items th]
  by metis

lemma transcript_records_extend: "extends_view th_generation th_items th (fold (transcript_record sz) items th)"
proof (induction items arbitrary: th)
  case (Cons item items)
  show ?case
    using extends_view_trans [OF transcript_record_extends [of th sz item] Cons.IH] by simp
qed (simp add: extends_view_refl)

lemma transcript_reset_extends: "extends_view th_generation th_items th (transcript_reset sz items th)"
proof -
  let ?cleared = "th\<lparr>th_items := [], th_generation := saturating_add (th_generation th) 1\<rparr>"
  have "extends_view th_generation th_items th ?cleared" by (rule extends_view_bump) simp
  from extends_view_trans [OF this transcript_records_extend] show ?thesis
    unfolding transcript_reset_def .
qed

lemma truncate_before_extends: "extends_view th_generation th_items th (truncate_before item th)"
  by (rule extends_view_bump) (simp add: truncate_before_def)

interpretation review_view: versioned_view "review_step sz" th_generation th_items for sz
proof
  fix s x
  show "extends_view th_generation th_items s (review_step sz x s)"
    by (cases x) (simp_all add: transcript_record_extends transcript_reset_extends truncate_before_extends)
qed

lemma transcript_record_limits:
  assumes "within_limits th" "sz_fixed sz \<le> MAX_BYTES_PER_KIND"
  shows "within_limits (transcript_record sz item th)"
  using transcript_record_cases [of sz item th]
proof
  assume "\<exists>item' used. measured_size sz item' = Some used \<and> is_user_message item' = is_user_message item \<and>
                 transcript_record sz item th = append_measured item' used th"
  then obtain item' used where "measured_size sz item' = Some used" "transcript_record sz item th = append_measured item' used th"
    by blast
  then show ?thesis using assms measured_size_le append_measured_limits by metis
qed (use assms in simp)

lemma transcript_reset_limits:
  assumes "sz_fixed sz \<le> MAX_BYTES_PER_KIND"
  shows "within_limits (transcript_reset sz items th)"
proof -
  have "within_limits th \<Longrightarrow> within_limits (fold (transcript_record sz) items th)" for th
    by (induction items arbitrary: th) (simp_all add: transcript_record_limits assms)
  then show ?thesis by (simp add: transcript_reset_def within_limits_def)
qed

lemma within_limits_take: "within_limits th \<Longrightarrow> within_limits (th\<lparr>th_items := take n (th_items th), th_generation := g\<rparr>)"
  for th :: "'v transcript_history"
proof -
  have "kind_count u xs = kind_count u (take n xs) + kind_count u (drop n xs)"
    "kind_bytes u xs = kind_bytes u (take n xs) + kind_bytes u (drop n xs)" for u and xs :: "('v response_item \<times> nat) list"
    by (simp_all flip: kind_simps(5,6))
  then have "kind_count u (take n xs) \<le> kind_count u xs" "kind_bytes u (take n xs) \<le> kind_bytes u xs"
    for u and xs :: "('v response_item \<times> nat) list" by (metis le_add1)+
  then show "within_limits th \<Longrightarrow> ?thesis"
    unfolding within_limits_def by simp (meson order_trans)
qed

interpretation review_bounds: guarded_machine "review_step sz" within_limits "\<lambda>_ _. sz_fixed sz \<le> MAX_BYTES_PER_KIND" for sz
proof (unfold_locales, goal_cases)
  case (1 s x)
  then show ?case
    by (cases x) (simp_all add: transcript_record_limits transcript_reset_limits truncate_before_def within_limits_take)
qed

text \<open>
  C37. Whatever is recorded, reset or rolled back, the evidence never holds more than the limits
  allow of either kind.
\<close>
theorem review_within_limits:
  assumes "sz_fixed sz \<le> MAX_BYTES_PER_KIND"
  shows "within_limits (run_ops (review_step sz) ops (transcript_new generation))"
proof (rule review_bounds.run_inv)
  show "within_limits (transcript_new generation)" by (simp add: within_limits_def transcript_new_def)
  have "allowed_run (\<lambda>_ _. sz_fixed sz \<le> MAX_BYTES_PER_KIND) (review_step sz) ops s" for s
    using assms by (induction ops arbitrary: s) simp_all
  then show "allowed_run (\<lambda>_ _. sz_fixed sz \<le> MAX_BYTES_PER_KIND) (review_step sz) ops (transcript_new generation)" .
qed

definition small_sizes :: "nat item_sizes" where
  "small_sizes = \<lparr>sz_fixed = 8, sz_item_json = (\<lambda>_. Some [16]), sz_reasoning_json = (\<lambda>_. Some [4]),
                  sz_header_json = (\<lambda>_. Some [4]), sz_content_json = (\<lambda>_. Some [4])\<rparr>"

theorem review_within_limits_witness:
  "within_limits (run_ops (review_step small_sizes) [RecordItem CompactionTrigger, ResetTo [Other]] (transcript_new 3))"
  by (rule review_within_limits) (simp add: small_sizes_def MAX_BYTES_PER_KIND_def)

end
