(* ===== verification/Token_Estimates.thy ===== *)
theory Token_Estimates
  imports Review_History
begin

text \<open>
  Byte-based token estimates of \<open>core/src/context_manager/history.rs\<close>. Amounts are \<open>i64\<close>s that
  saturate, so they are integers clamped to that range. Serialisation, image decoding and audio
  durations are third-party code and parameters; the cache in front of the image decoder returns
  what it stored for the digest of the same URL and is left out.
\<close>

section \<open>Saturating signed amounts\<close>

definition i64_max :: int where
  "i64_max = 2 ^ 63 - 1"

definition clamp_i64 :: "int \<Rightarrow> int" where
  "clamp_i64 x = max (- (2 ^ 63)) (min i64_max x)"

definition i64_add :: "int \<Rightarrow> int \<Rightarrow> int" where
  "i64_add a b = clamp_i64 (a + b)"

definition i64_sub :: "int \<Rightarrow> int \<Rightarrow> int" where
  "i64_sub a b = clamp_i64 (a - b)"

text \<open>\<open>i64::try_from(n).unwrap_or(i64::MAX)\<close> for an unsigned \<open>n\<close>.\<close>

definition i64_of_usize :: "nat \<Rightarrow> int" where
  "i64_of_usize n = min (int n) i64_max"

definition approx_tokens_from_byte_count_i64 :: "int \<Rightarrow> int" where
  "approx_tokens_from_byte_count_i64 bytes =
     (if bytes \<le> 0 then 0 else i64_of_usize (approx_tokens_from_byte_count (nat bytes)))"

section \<open>Data URLs\<close>

definition parse_base64_data_url :: "str \<Rightarrow> str \<Rightarrow> str option" where
  "parse_base64_data_url url media_type_prefix =
     (if \<not> (case get_to 5 url of None \<Rightarrow> False | Some p \<Rightarrow> eq_ignore_ascii_case p (lit ''data:'')) then None
      else case split_once 44 url of
        None \<Rightarrow> None
      | Some (metadata, payload) \<Rightarrow>
          (case get_from 5 metadata of
             None \<Rightarrow> None
           | Some metadata_without_scheme \<Rightarrow>
               let metadata_parts = split_on 59 metadata_without_scheme;
                   mime_type = hd metadata_parts;
                   has_base64_marker = list_ex (\<lambda>part. eq_ignore_ascii_case part (lit ''base64'')) (tl metadata_parts)
               in if \<not> (case get_to (byte_len media_type_prefix) mime_type of
                          None \<Rightarrow> False | Some p \<Rightarrow> eq_ignore_ascii_case p media_type_prefix) then None
                  else if \<not> has_base64_marker then None
                  else Some payload))"

record 'v media_info =
  mi_sizes :: "'v item_sizes"
  mi_audio_tokens :: "str \<Rightarrow> nat"
  mi_image_dims :: "str \<Rightarrow> (nat \<times> nat) option"

definition RESIZED_IMAGE_BYTES_ESTIMATE :: int where
  "RESIZED_IMAGE_BYTES_ESTIMATE = 7373"

definition ORIGINAL_IMAGE_PATCH_SIZE :: int where
  "ORIGINAL_IMAGE_PATCH_SIZE = 32"

definition ORIGINAL_IMAGE_MAX_PATCHES :: nat where
  "ORIGINAL_IMAGE_MAX_PATCHES = 10000"

definition estimate_original_image_bytes :: "'v media_info \<Rightarrow> str \<Rightarrow> int option" where
  "estimate_original_image_bytes mi image_url =
     (case parse_base64_data_url image_url (lit ''image/'') of
        None \<Rightarrow> None
      | Some payload \<Rightarrow>
          (case mi_image_dims mi payload of
             None \<Rightarrow> None
           | Some (width, height) \<Rightarrow>
               let patches_wide = i64_add (int width) (i64_sub ORIGINAL_IMAGE_PATCH_SIZE 1) div ORIGINAL_IMAGE_PATCH_SIZE;
                   patches_high = i64_add (int height) (i64_sub ORIGINAL_IMAGE_PATCH_SIZE 1) div ORIGINAL_IMAGE_PATCH_SIZE;
                   patch_count = min (nat (clamp_i64 (patches_wide * patches_high))) ORIGINAL_IMAGE_MAX_PATCHES
               in Some (i64_of_usize (approx_bytes_for_tokens patch_count))))"

definition estimate_image_bytes :: "'v media_info \<Rightarrow> str \<Rightarrow> image_detail option \<Rightarrow> int" where
  "estimate_image_bytes mi image_url detail =
     (case detail of
        Some Original \<Rightarrow>
          (case estimate_original_image_bytes mi image_url of Some n \<Rightarrow> n | None \<Rightarrow> RESIZED_IMAGE_BYTES_ESTIMATE)
      | _ \<Rightarrow> RESIZED_IMAGE_BYTES_ESTIMATE)"

section \<open>Adjustments of the serialised size\<close>

definition accumulate_image :: "'v media_info \<Rightarrow> str \<Rightarrow> image_detail option \<Rightarrow> int \<times> int \<Rightarrow> int \<times> int" where
  "accumulate_image mi image_url detail acc =
     (case parse_base64_data_url image_url (lit ''image/'') of
        None \<Rightarrow> acc
      | Some payload \<Rightarrow>
          (i64_add (fst acc) (i64_of_usize (byte_len payload)),
           i64_add (snd acc) (estimate_image_bytes mi image_url detail)))"

fun image_data_url_estimate_adjustment :: "'v media_info \<Rightarrow> 'v response_item \<Rightarrow> int \<times> int" where
  "image_data_url_estimate_adjustment mi (Message _ _ content _ _) =
     fold (\<lambda>c acc. case c of InputImage url detail \<Rightarrow> accumulate_image mi url detail acc | _ \<Rightarrow> acc) content (0, 0)"
| "image_data_url_estimate_adjustment mi (FunctionCallOutput _ _ _ _ output _) =
     (case body output of Text _ \<Rightarrow> (0, 0)
      | ContentItems items \<Rightarrow>
          fold (\<lambda>c acc. case c of content_item.InputImage url detail \<Rightarrow> accumulate_image mi url detail acc | _ \<Rightarrow> acc) items (0, 0))"
| "image_data_url_estimate_adjustment mi (CustomToolCallOutput _ _ _ output _) =
     (case body output of Text _ \<Rightarrow> (0, 0)
      | ContentItems items \<Rightarrow>
          fold (\<lambda>c acc. case c of content_item.InputImage url detail \<Rightarrow> accumulate_image mi url detail acc | _ \<Rightarrow> acc) items (0, 0))"
| "image_data_url_estimate_adjustment mi _ = (0, 0)"

definition accumulate_audio :: "'v media_info \<Rightarrow> str \<Rightarrow> int \<times> int \<Rightarrow> int \<times> int" where
  "accumulate_audio mi audio_url acc =
     (case parse_base64_data_url audio_url (lit ''audio/'') of
        None \<Rightarrow> acc
      | Some payload \<Rightarrow>
          (i64_add (fst acc) (i64_of_usize (byte_len payload)),
           i64_add (snd acc) (i64_of_usize (approx_bytes_for_tokens (mi_audio_tokens mi audio_url)))))"

fun audio_data_url_estimate_adjustment :: "'v media_info \<Rightarrow> 'v response_item \<Rightarrow> int \<times> int" where
  "audio_data_url_estimate_adjustment mi (Message _ _ content _ _) =
     fold (\<lambda>c acc. case c of InputAudio url \<Rightarrow> accumulate_audio mi url acc | _ \<Rightarrow> acc) content (0, 0)"
| "audio_data_url_estimate_adjustment mi (FunctionCallOutput _ _ _ _ output _) =
     (case body output of Text _ \<Rightarrow> (0, 0)
      | ContentItems items \<Rightarrow>
          fold (\<lambda>c acc. case c of content_item.InputAudio url \<Rightarrow> accumulate_audio mi url acc | _ \<Rightarrow> acc) items (0, 0))"
| "audio_data_url_estimate_adjustment mi (CustomToolCallOutput _ _ _ output _) =
     (case body output of Text _ \<Rightarrow> (0, 0)
      | ContentItems items \<Rightarrow>
          fold (\<lambda>c acc. case c of content_item.InputAudio url \<Rightarrow> accumulate_audio mi url acc | _ \<Rightarrow> acc) items (0, 0))"
| "audio_data_url_estimate_adjustment mi _ = (0, 0)"

definition estimate_reasoning_length :: "nat \<Rightarrow> nat" where
  "estimate_reasoning_length encoded_len = min (encoded_len * 3) usize_max div 4 - 650"

definition estimate_encrypted_function_output_length :: "nat \<Rightarrow> nat" where
  "estimate_encrypted_function_output_length encoded_len = (min (encoded_len * 9) usize_max + 15) div 16"

definition accumulate_encrypted :: "str \<Rightarrow> int \<times> int \<Rightarrow> int \<times> int" where
  "accumulate_encrypted encrypted_content acc =
     (i64_add (fst acc) (i64_of_usize (byte_len encrypted_content)),
      i64_add (snd acc) (i64_of_usize (estimate_encrypted_function_output_length (byte_len encrypted_content))))"

fun encrypted_function_output_estimate_adjustment :: "'v response_item \<Rightarrow> int \<times> int" where
  "encrypted_function_output_estimate_adjustment (FunctionCallOutput _ _ _ _ output _) =
     (case body output of Text _ \<Rightarrow> (0, 0)
      | ContentItems items \<Rightarrow>
          fold (\<lambda>c acc. case c of EncryptedContent e \<Rightarrow> accumulate_encrypted e acc | _ \<Rightarrow> acc) items (0, 0))"
| "encrypted_function_output_estimate_adjustment (AgentMessage _ _ _ content _) =
     fold (\<lambda>c acc. case c of AgentEncryptedContent e \<Rightarrow> accumulate_encrypted e acc | _ \<Rightarrow> acc) content (0, 0)"
| "encrypted_function_output_estimate_adjustment _ = (0, 0)"

definition serialized_json_bytes :: "'v item_sizes \<Rightarrow> 'v response_item \<Rightarrow> nat option" where
  "serialized_json_bytes sz item = map_option sum_list (sz_item_json sz item)"

definition estimate_plain_bytes :: "'v media_info \<Rightarrow> 'v response_item \<Rightarrow> int" where
  "estimate_plain_bytes mi item =
     (let raw = (case serialized_json_bytes (mi_sizes mi) item of Some len \<Rightarrow> i64_of_usize len | None \<Rightarrow> 0);
          (image_payload_bytes, image_replacement_bytes) = image_data_url_estimate_adjustment mi item;
          (audio_payload_bytes, audio_replacement_bytes) = audio_data_url_estimate_adjustment mi item;
          (encrypted_payload_bytes, encrypted_replacement_bytes) = encrypted_function_output_estimate_adjustment item;
          raw1 = i64_add (i64_sub (i64_add (i64_sub raw image_payload_bytes) image_replacement_bytes)
                   audio_payload_bytes) audio_replacement_bytes
      in i64_add (i64_sub raw1 encrypted_payload_bytes) encrypted_replacement_bytes)"

fun estimate_response_item_model_visible_bytes :: "'v media_info \<Rightarrow> 'v response_item \<Rightarrow> int" where
  "estimate_response_item_model_visible_bytes mi (Reasoning _ _ _ (Some content) _) =
     i64_of_usize (estimate_reasoning_length (byte_len content))"
| "estimate_response_item_model_visible_bytes mi (Compaction _ content _) =
     i64_of_usize (estimate_reasoning_length (byte_len content))"
| "estimate_response_item_model_visible_bytes mi (ContextCompaction _ (Some content) _) =
     i64_of_usize (estimate_reasoning_length (byte_len content))"
| "estimate_response_item_model_visible_bytes mi item = estimate_plain_bytes mi item"

definition estimate_item_token_count :: "'v media_info \<Rightarrow> 'v response_item \<Rightarrow> int" where
  "estimate_item_token_count mi item =
     approx_tokens_from_byte_count_i64 (estimate_response_item_model_visible_bytes mi item)"

end
