(* ===== verification/Context_History.thy ===== *)
theory Context_History
  imports Token_Estimates Turn_State
begin

text \<open>
  The history manager of a session, \<open>ContextManager\<close> of \<open>core/src/context_manager/history.rs\<close>:
  recording and truncating items, compaction, rollback, the prompt, the evidence kept for approval
  review, and token usage. Turn-context items and world-state snapshots are values the manager only
  stores; their type is \<open>'v\<close>. The vector that snapshots share until it is written is a list.
\<close>

section \<open>Token usage\<close>

definition wrap_i64 :: "int \<Rightarrow> int" where
  "wrap_i64 x = (x + 2 ^ 63) mod 2 ^ 64 - 2 ^ 63"

record token_usage_info =
  total_token_usage :: token_usage
  last_token_usage :: token_usage
  model_context_window :: "int option"

definition usage_add_assign :: "token_usage \<Rightarrow> token_usage \<Rightarrow> token_usage" where
  "usage_add_assign self other =
     self\<lparr>input_tokens := wrap_i64 (input_tokens self + input_tokens other),
          cached_input_tokens := wrap_i64 (cached_input_tokens self + cached_input_tokens other),
          cache_write_input_tokens := wrap_i64 (cache_write_input_tokens self + cache_write_input_tokens other),
          output_tokens := wrap_i64 (output_tokens self + output_tokens other),
          reasoning_output_tokens := wrap_i64 (reasoning_output_tokens self + reasoning_output_tokens other),
          total_tokens := wrap_i64 (total_tokens self + total_tokens other)\<rparr>"

definition append_last_usage :: "token_usage \<Rightarrow> token_usage_info \<Rightarrow> token_usage_info" where
  "append_last_usage usage info =
     info\<lparr>total_token_usage := usage_add_assign (total_token_usage info) usage, last_token_usage := usage\<rparr>"

definition new_or_append ::
    "token_usage_info option \<Rightarrow> token_usage option \<Rightarrow> int option \<Rightarrow> token_usage_info option"
where
  "new_or_append info usage window =
     (if info = None \<and> usage = None then None
      else let info1 = (case info of
                          Some i \<Rightarrow> i
                        | None \<Rightarrow> \<lparr>total_token_usage = token_usage_default, last_token_usage = token_usage_default,
                                   model_context_window = window\<rparr>);
               info2 = (case usage of Some u \<Rightarrow> append_last_usage u info1 | None \<Rightarrow> info1)
           in Some (case window of Some w \<Rightarrow> info2\<lparr>model_context_window := Some w\<rparr> | None \<Rightarrow> info2))"

definition fill_to_context_window :: "int \<Rightarrow> token_usage_info \<Rightarrow> token_usage_info" where
  "fill_to_context_window window info =
     (let previous_total = total_tokens (total_token_usage info);
          delta = max (wrap_i64 (window - previous_total)) 0
      in info\<lparr>model_context_window := Some window,
              total_token_usage := token_usage_default\<lparr>total_tokens := window\<rparr>,
              last_token_usage := token_usage_default\<lparr>total_tokens := delta\<rparr>\<rparr>)"

definition full_context_window :: "int \<Rightarrow> token_usage_info" where
  "full_context_window window =
     fill_to_context_window window
       \<lparr>total_token_usage = token_usage_default, last_token_usage = token_usage_default,
        model_context_window = Some window\<rparr>"

section \<open>Scaling a truncation policy\<close>

text \<open>
  \<open>policy * 1.2\<close> in \<open>f64\<close>: a number of units of \<open>2 ^ -52\<close> rounded to 53 significant bits, ties to
  even. The \<open>f64\<close> nearest to 1.2 is 5404319552844595 units.
\<close>

fun bit_len :: "nat \<Rightarrow> nat" where
  "bit_len n = (if n = 0 then 0 else Suc (bit_len (n div 2)))"

declare bit_len.simps [simp del]

definition f64_round :: "nat \<Rightarrow> nat" where
  "f64_round m =
     (let k = bit_len m - 53; q = m div 2 ^ k; r = m mod 2 ^ k
      in (if 2 * r > 2 ^ k \<or> (2 * r = 2 ^ k \<and> odd q) then q + 1 else q) * 2 ^ k)"

definition mul_1_2 :: "nat \<Rightarrow> nat" where
  "mul_1_2 n = min ((f64_round (f64_round n * 5404319552844595) + (2 ^ 52 - 1)) div 2 ^ 52) usize_max"

fun policy_times_1_2 :: "truncation_policy \<Rightarrow> truncation_policy" where
  "policy_times_1_2 (Bytes n) = Bytes (mul_1_2 n)"
| "policy_times_1_2 (Tokens n) = Tokens (mul_1_2 n)"

section \<open>The manager\<close>

record 'v history_env =
  he_parsers :: content_parsers
  he_media :: "'v media_info"
  he_new_v5 :: "str \<Rightarrow> str"
  he_debug_assertions :: bool

record 'v context_manager =
  cm_items :: "'v envelope list"
  cm_review_history :: "'v transcript_history option"
  cm_history_version :: u64
  cm_user_message_revision :: u64
  cm_token_info :: "token_usage_info option"
  cm_reference_context_item :: "'v option"
  cm_world_state_baseline :: "'v option"

definition context_manager_new :: "'v context_manager" where
  "context_manager_new =
     \<lparr>cm_items = [], cm_review_history = None, cm_history_version = 0, cm_user_message_revision = 0,
      cm_token_info = new_or_append None None None, cm_reference_context_item = None,
      cm_world_state_baseline = None\<rparr>"

definition set_token_info :: "token_usage_info option \<Rightarrow> 'v context_manager \<Rightarrow> 'v context_manager" where
  "set_token_info info cm = cm\<lparr>cm_token_info := info\<rparr>"

definition set_reference_context_item :: "'v option \<Rightarrow> 'v context_manager \<Rightarrow> 'v context_manager" where
  "set_reference_context_item item cm = cm\<lparr>cm_reference_context_item := item\<rparr>"

definition set_world_state_baseline :: "'v \<Rightarrow> 'v context_manager \<Rightarrow> 'v context_manager" where
  "set_world_state_baseline snapshot cm = cm\<lparr>cm_world_state_baseline := Some snapshot\<rparr>"

definition set_token_usage_full :: "int \<Rightarrow> 'v context_manager \<Rightarrow> 'v context_manager" where
  "set_token_usage_full window cm =
     cm\<lparr>cm_token_info := Some (case cm_token_info cm of
                                Some info \<Rightarrow> fill_to_context_window window info
                              | None \<Rightarrow> full_context_window window)\<rparr>"

definition update_token_info :: "token_usage \<Rightarrow> int option \<Rightarrow> 'v context_manager \<Rightarrow> 'v context_manager" where
  "update_token_info usage window cm = cm\<lparr>cm_token_info := new_or_append (cm_token_info cm) (Some usage) window\<rparr>"

text \<open>Recording: \<open>None\<close> is a panic while truncating.\<close>

fun truncate_recorded ::
    "'v history_env \<Rightarrow> truncation_policy \<Rightarrow> harness_metadata option \<Rightarrow> 'v response_item \<Rightarrow> 'v response_item option"
where
  "truncate_recorded env policy metadata (response_item.FunctionCallOutput i c n ns output m) =
     map_option (\<lambda>output'. response_item.FunctionCallOutput i c n ns output' m)
       (truncate_function_output_payload output
          (case Option.bind metadata fallback_token_limit_override of
             Some limit \<Rightarrow> Tokens limit | None \<Rightarrow> policy_times_1_2 policy)
          (mi_audio_tokens (he_media env)))"
| "truncate_recorded env policy metadata (CustomToolCallOutput i c n output m) =
     map_option (\<lambda>output'. CustomToolCallOutput i c n output' m)
       (truncate_function_output_payload output
          (case Option.bind metadata fallback_token_limit_override of
             Some limit \<Rightarrow> Tokens limit | None \<Rightarrow> policy_times_1_2 policy)
          (mi_audio_tokens (he_media env)))"
| "truncate_recorded env policy metadata item = Some item"

definition record_one ::
    "'v history_env \<Rightarrow> truncation_policy \<Rightarrow> 'v envelope \<Rightarrow> 'v context_manager \<Rightarrow> 'v context_manager option"
where
  "record_one env policy e cm =
     (let item = env_item e in
      if \<not> is_api_message item then Some cm
      else map_option (\<lambda>processed.
          cm\<lparr>cm_review_history := (case cm_review_history cm of
                 Some th \<Rightarrow> Some (if is_contextual_user_item (he_parsers env) item then th
                                  else transcript_record (mi_sizes (he_media env)) processed th)
               | None \<Rightarrow> None),
             cm_items := cm_items cm @ [\<lparr>env_item = processed, env_metadata = env_metadata e\<rparr>],
             cm_user_message_revision :=
               (if is_user_authorization_message item then saturating_add (cm_user_message_revision cm) 1
                else cm_user_message_revision cm)\<rparr>)
        (truncate_recorded env policy (env_metadata e) item))"

fun record_annotated_items ::
    "'v history_env \<Rightarrow> truncation_policy \<Rightarrow> 'v envelope list \<Rightarrow> 'v context_manager \<Rightarrow> 'v context_manager option"
where
  "record_annotated_items env policy [] cm = Some cm"
| "record_annotated_items env policy (e # es) cm =
     Option.bind (record_one env policy e cm) (record_annotated_items env policy es)"

definition record_items ::
    "'v history_env \<Rightarrow> truncation_policy \<Rightarrow> 'v response_item list \<Rightarrow> 'v context_manager \<Rightarrow> 'v context_manager option"
where
  "record_items env policy items cm = record_annotated_items env policy (map envelope_new items) cm"

definition for_prompt_annotated ::
    "'v history_env \<Rightarrow> input_modality list \<Rightarrow> 'v context_manager \<Rightarrow> 'v envelope list option"
where
  "for_prompt_annotated env modalities cm =
     normalize_items (he_debug_assertions env) (he_new_v5 env) modalities (cm_items cm)"

definition for_prompt :: "'v history_env \<Rightarrow> input_modality list \<Rightarrow> 'v context_manager \<Rightarrow> 'v response_item list option" where
  "for_prompt env modalities cm = map_option (map env_item) (for_prompt_annotated env modalities cm)"

definition remove_first_item :: "'v context_manager \<Rightarrow> 'v context_manager" where
  "remove_first_item cm =
     (case cm_items cm of
        [] \<Rightarrow> cm
      | removed # items \<Rightarrow>
          cm\<lparr>cm_items := remove_corresponding_for items (env_item removed), cm_world_state_baseline := None\<rparr>)"

definition replace_annotated :: "'v history_env \<Rightarrow> 'v envelope list \<Rightarrow> 'v context_manager \<Rightarrow> 'v context_manager" where
  "replace_annotated env items cm =
     cm\<lparr>cm_user_message_revision := saturating_add (cm_user_message_revision cm) 1,
        cm_review_history := map_option
          (transcript_reset (mi_sizes (he_media env))
            (filter (\<lambda>item. \<not> is_contextual_user_item (he_parsers env) item) (map env_item items)))
          (cm_review_history cm),
        cm_items := items,
        cm_history_version := saturating_add (cm_history_version cm) 1,
        cm_world_state_baseline := None\<rparr>"

definition replace_compacted :: "'v history_env \<Rightarrow> 'v envelope list \<Rightarrow> 'v context_manager \<Rightarrow> 'v context_manager" where
  "replace_compacted env items cm =
     cm\<lparr>cm_review_history := (case cm_review_history cm of
           Some th \<Rightarrow> Some th
         | None \<Rightarrow> Some (fold (transcript_record (mi_sizes (he_media env)))
               (filter (\<lambda>item. \<not> is_contextual_user_item (he_parsers env) item) (map env_item (cm_items cm)))
               (transcript_new (saturating_add (cm_history_version cm) 1)))),
        cm_items := items,
        cm_history_version := saturating_add (cm_history_version cm) 1,
        cm_world_state_baseline := None\<rparr>"

definition guardian_history_checkpoint :: "'v context_manager \<Rightarrow> 'v response_item list option" where
  "guardian_history_checkpoint cm = map_option (\<lambda>th. map fst (th_items th)) (cm_review_history cm)"

definition restore_guardian_history ::
    "'v history_env \<Rightarrow> 'v response_item list option \<Rightarrow> 'v context_manager \<Rightarrow> 'v context_manager"
where
  "restore_guardian_history env checkpoint cm =
     (let generation = saturating_add (case cm_review_history cm of
                                         Some th \<Rightarrow> th_generation th | None \<Rightarrow> cm_history_version cm) 1
      in cm\<lparr>cm_review_history := map_option
             (\<lambda>items. transcript_reset (mi_sizes (he_media env)) items (transcript_new generation)) checkpoint\<rparr>)"

section \<open>Rollback\<close>

definition user_message_positions :: "content_parsers \<Rightarrow> 'v envelope list \<Rightarrow> nat list" where
  "user_message_positions cp items =
     map fst (filter (\<lambda>(idx, e). is_user_turn_boundary cp (env_item e)) (enumerate 0 items))"

fun trim_pre_turn_context_updates ::
    "content_parsers \<Rightarrow> 'v envelope list \<Rightarrow> nat \<Rightarrow> nat \<Rightarrow> 'v context_manager \<Rightarrow> nat \<times> 'v context_manager"
where
  "trim_pre_turn_context_updates cp snapshot first 0 cm = (0, cm)"
| "trim_pre_turn_context_updates cp snapshot first (Suc c) cm =
     (if Suc c > first
      then (case env_item (snapshot ! c) of
              Message _ role parts _ _ \<Rightarrow>
                if role = lit ''developer'' \<and> is_contextual_dev_message_content parts
                then trim_pre_turn_context_updates cp snapshot first c
                       (if has_non_contextual_dev_message_content parts
                        then cm\<lparr>cm_reference_context_item := None\<rparr> else cm)
                else if role = lit ''user'' \<and> is_contextual_user_message_content cp parts
                then trim_pre_turn_context_updates cp snapshot first c cm
                else (Suc c, cm)
            | _ \<Rightarrow> (Suc c, cm))
      else (Suc c, cm))"

fun rebuilt_after_rollback :: "message_content \<Rightarrow> bool" where
  "rebuilt_after_rollback (InputText text) \<longleftrightarrow>
     matches_marked_text (lit ''<model_switch>'') (lit ''</model_switch>'') text \<or>
     matches_marked_text (lit ''<persistent_mode>'') (lit ''</persistent_mode>'') text"
| "rebuilt_after_rollback _ \<longleftrightarrow> False"

fun is_developer_message :: "'v response_item \<Rightarrow> bool" where
  "is_developer_message (Message _ role _ _ _) = (role = lit ''developer'')"
| "is_developer_message _ = False"

text \<open>The closure of \<open>retain_mut\<close>: \<open>None\<close> drops the item.\<close>

definition retain_first_turn :: "str \<Rightarrow> 'v envelope \<Rightarrow> 'v envelope option" where
  "retain_first_turn first_turn_id e =
     (if item_turn_id (env_item e) = Some first_turn_id \<and> is_developer_message (env_item e)
      then (case to_annotated_content (env_item e) of
              None \<Rightarrow> None
            | Some (parts, emptied) \<Rightarrow>
                let kept = filter (\<lambda>c. \<not> rebuilt_after_rollback (fst c)) parts
                in if kept = [] then None
                   else map_option (\<lambda>item. e\<lparr>env_item := item\<rparr>) (set_annotated_content kept emptied))
      else Some e)"

definition drop_last_n_user_turns :: "'v history_env \<Rightarrow> nat \<Rightarrow> 'v context_manager \<Rightarrow> 'v context_manager" where
  "drop_last_n_user_turns env num_turns cm =
     (if num_turns = 0 then cm
      else let snapshot = cm_items cm;
               user_positions = user_message_positions (he_parsers env) snapshot
           in case user_positions of
                [] \<Rightarrow> replace_annotated env snapshot cm
              | first # _ \<Rightarrow>
                  let cut = (if num_turns \<ge> length user_positions then first
                             else user_positions ! (length user_positions - num_turns));
                      review = map_option (truncate_before (env_item (snapshot ! cut))) (cm_review_history cm);
                      (cut_idx, cm1) = trim_pre_turn_context_updates (he_parsers env) snapshot first cut
                                         (cm\<lparr>cm_review_history := None\<rparr>);
                      retained = (case (cut_idx = first, item_turn_id (env_item (snapshot ! first))) of
                                    (True, Some first_turn_id) \<Rightarrow>
                                      List.map_filter (retain_first_turn first_turn_id) (take cut_idx snapshot)
                                  | _ \<Rightarrow> take cut_idx snapshot)
                  in (replace_annotated env retained cm1)\<lparr>cm_review_history := review\<rparr>)"

section \<open>Snapshots and token counts\<close>

record 'v shared_history =
  sh_items :: "'v envelope list"
  sh_review_history :: "'v transcript_history option"
  sh_history_version :: u64
  sh_user_message_revision :: u64

definition conversation_history_snapshot :: "'v context_manager \<Rightarrow> 'v shared_history" where
  "conversation_history_snapshot cm =
     \<lparr>sh_items = cm_items cm, sh_review_history = cm_review_history cm,
      sh_history_version = cm_history_version cm, sh_user_message_revision = cm_user_message_revision cm\<rparr>"

definition snapshot_items :: "content_parsers \<Rightarrow> 'v shared_history \<Rightarrow> 'v response_item list" where
  "snapshot_items cp sh = filter (\<lambda>item. \<not> is_contextual_user_item cp item) (map env_item (sh_items sh))"

definition review_items :: "content_parsers \<Rightarrow> 'v shared_history \<Rightarrow> 'v response_item list" where
  "review_items cp sh =
     (case sh_review_history sh of Some th \<Rightarrow> map fst (th_items th) | None \<Rightarrow> snapshot_items cp sh)"

definition review_history_version :: "'v shared_history \<Rightarrow> u64" where
  "review_history_version sh =
     (case sh_review_history sh of Some th \<Rightarrow> th_generation th | None \<Rightarrow> sh_history_version sh)"

datatype 'v world_state_item = FullState 'v | PatchState 'v

definition update_world_state ::
    "'v \<Rightarrow> ('v option \<Rightarrow> 'v response_item list \<Rightarrow> 'f list) \<Rightarrow> ('v \<Rightarrow> 'v \<Rightarrow> 'v option) \<Rightarrow> 'v context_manager \<Rightarrow>
     ('f list \<times> 'v world_state_item option) \<times> 'v context_manager"
where
  "update_world_state snapshot render_history_diff merge_patch_from cm =
     (let fragments = render_history_diff (cm_world_state_baseline cm) (map env_item (cm_items cm));
          rollout_item = (case cm_world_state_baseline cm of
                            None \<Rightarrow> Some (FullState snapshot)
                          | Some previous \<Rightarrow> map_option PatchState (merge_patch_from snapshot previous))
      in ((fragments, rollout_item), cm\<lparr>cm_world_state_baseline := Some snapshot\<rparr>))"

definition rposition :: "('a \<Rightarrow> bool) \<Rightarrow> 'a list \<Rightarrow> nat option" where
  "rposition P xs = map_option (\<lambda>i. length xs - 1 - i) (position P (rev xs))"

definition sum_tokens :: "'v media_info \<Rightarrow> 'v response_item list \<Rightarrow> int" where
  "sum_tokens mi items = foldl (\<lambda>acc item. i64_add acc (estimate_item_token_count mi item)) 0 items"

definition estimate_token_count_with_base_instructions :: "'v history_env \<Rightarrow> str \<Rightarrow> 'v context_manager \<Rightarrow> int option" where
  "estimate_token_count_with_base_instructions env base_text cm =
     Some (i64_add (i64_of_usize (approx_token_count base_text)) (sum_tokens (he_media env) (map env_item (cm_items cm))))"

fun is_encrypted_reasoning :: "'v response_item \<Rightarrow> bool" where
  "is_encrypted_reasoning (Reasoning _ _ _ (Some _) _) = True"
| "is_encrypted_reasoning _ = False"

definition get_non_last_reasoning_items_tokens :: "'v history_env \<Rightarrow> 'v context_manager \<Rightarrow> int" where
  "get_non_last_reasoning_items_tokens env cm =
     (case rposition (\<lambda>e. is_user_turn_boundary (he_parsers env) (env_item e)) (cm_items cm) of
        None \<Rightarrow> 0
      | Some last_user_index \<Rightarrow>
          sum_tokens (he_media env) (filter is_encrypted_reasoning (map env_item (take last_user_index (cm_items cm)))))"

definition items_after_last_model_generated_item :: "'v context_manager \<Rightarrow> 'v response_item list" where
  "items_after_last_model_generated_item cm =
     (let start = (case rposition (\<lambda>e. is_model_generated_item (env_item e)) (cm_items cm) of
                     Some index \<Rightarrow> index + 1 | None \<Rightarrow> length (cm_items cm))
      in map env_item (drop start (cm_items cm)))"

definition get_total_token_usage :: "'v history_env \<Rightarrow> bool \<Rightarrow> 'v context_manager \<Rightarrow> int" where
  "get_total_token_usage env server_reasoning_included cm =
     (let last_tokens = (case cm_token_info cm of Some info \<Rightarrow> total_tokens (last_token_usage info) | None \<Rightarrow> 0);
          after_tokens = sum_tokens (he_media env) (items_after_last_model_generated_item cm)
      in if server_reasoning_included then i64_add last_tokens after_tokens
         else i64_add (i64_add last_tokens (get_non_last_reasoning_items_tokens env cm)) after_tokens)"

definition estimated_tokens_after_last_model_generated_item :: "'v history_env \<Rightarrow> 'v context_manager \<Rightarrow> int" where
  "estimated_tokens_after_last_model_generated_item env cm =
     sum_tokens (he_media env) (items_after_last_model_generated_item cm)"

end
