(* ===== verification/Normalize_Properties.thy ===== *)
theory Normalize_Properties
  imports History_Normalize
begin

text \<open>
  What normalisation does: the index arithmetic of the two passes is equal to a one-line
  description by call identifiers, the result is paired and contains no unsupported media,
  normalising twice changes nothing, and dropping the oldest item keeps the pairing.
\<close>

section \<open>Calls and outputs by key\<close>

datatype call_kind = FunctionKind | SearchKind | CustomKind

fun call_key :: "'v response_item \<Rightarrow> (call_kind \<times> str) option" where
  "call_key (FunctionCall _ _ _ _ _ c _) = Some (FunctionKind, c)"
| "call_key (LocalShellCall _ (Some c) _ _ _) = Some (FunctionKind, c)"
| "call_key (ToolSearchCall _ (Some c) _ _ _ _) = Some (SearchKind, c)"
| "call_key (CustomToolCall _ _ c _ _ _ _) = Some (CustomKind, c)"
| "call_key _ = None"

fun output_key :: "'v response_item \<Rightarrow> (call_kind \<times> str) option" where
  "output_key (FunctionCallOutput _ (Some c) _ _ _ _) = Some (FunctionKind, c)"
| "output_key (ToolSearchOutput _ (Some c) _ _ _ _) = Some (SearchKind, c)"
| "output_key (CustomToolCallOutput _ c _ _ _) = Some (CustomKind, c)"
| "output_key _ = None"

fun runs_on_server :: "'v response_item \<Rightarrow> bool" where
  "runs_on_server (ToolSearchOutput _ _ _ execution _ _) = (execution = lit ''server'')"
| "runs_on_server _ = False"

definition call_keys :: "'v envelope list \<Rightarrow> (call_kind \<times> str) list" where
  "call_keys items = List.map_filter (\<lambda>e. call_key (env_item e)) items"

definition output_keys :: "'v envelope list \<Rightarrow> (call_kind \<times> str) list" where
  "output_keys items = List.map_filter (\<lambda>e. output_key (env_item e)) items"

definition unanswered :: "'v envelope list \<Rightarrow> 'v response_item \<Rightarrow> bool" where
  "unanswered items item = (case call_key item of None \<Rightarrow> False | Some k \<Rightarrow> k \<notin> set (output_keys items))"

definition orphaned :: "'v envelope list \<Rightarrow> 'v response_item \<Rightarrow> bool" where
  "orphaned items item =
     (case output_key item of None \<Rightarrow> False | Some k \<Rightarrow> \<not> runs_on_server item \<and> k \<notin> set (call_keys items))"

definition well_paired :: "'v envelope list \<Rightarrow> bool" where
  "well_paired items \<longleftrightarrow> (\<forall>e\<in>set items. \<not> unanswered items (env_item e) \<and> \<not> orphaned items (env_item e))"

text \<open>Calls whose missing output is an error, and the output that is made up for a call.\<close>

fun reports_missing :: "'v response_item \<Rightarrow> bool" where
  "reports_missing (CustomToolCall _ _ _ _ _ _ _) = True"
| "reports_missing (LocalShellCall _ _ _ _ _) = True"
| "reports_missing _ = False"

definition answer_for :: "(str \<Rightarrow> str) \<Rightarrow> 'v response_item \<Rightarrow> 'v response_item" where
  "answer_for new_v5 item =
     (case call_key item of
        Some (FunctionKind, c) \<Rightarrow> aborted_function_output new_v5 (item_id item) c
      | Some (SearchKind, c) \<Rightarrow>
          ToolSearchOutput (synthetic_output_id new_v5 (lit ''tso'') (item_id item)) (Some c)
            (lit ''completed'') (lit ''client'') [] None
      | Some (CustomKind, c) \<Rightarrow>
          CustomToolCallOutput (synthetic_output_id new_v5 (lit ''ctco'') (item_id item)) c None
            (payload_from_text (lit ''aborted'')) None
      | None \<Rightarrow> item)"

definition answered :: "(str \<Rightarrow> str) \<Rightarrow> 'v envelope list \<Rightarrow> 'v envelope list" where
  "answered new_v5 items =
     concat (map (\<lambda>e. if unanswered items (env_item e) then [e, envelope_new (answer_for new_v5 (env_item e))]
                      else [e]) items)"

lemma in_map_filter: "y \<in> set (List.map_filter f xs) \<longleftrightarrow> (\<exists>x\<in>set xs. f x = Some y)"
  by (induction xs) (auto simp: map_filter_simps split: option.splits)

text \<open>The three id sets of each pass are the keys of one kind.\<close>

lemma output_key_by_case:
  "(case item of FunctionCallOutput _ (Some c) _ _ _ _ \<Rightarrow> Some c | _ \<Rightarrow> None) = Some d \<longleftrightarrow>
     output_key item = Some (FunctionKind, d)"
  "(case item of ToolSearchOutput _ (Some c) _ _ _ _ \<Rightarrow> Some c | _ \<Rightarrow> None) = Some d \<longleftrightarrow>
     output_key item = Some (SearchKind, d)"
  "(case item of CustomToolCallOutput _ c _ _ _ \<Rightarrow> Some c | _ \<Rightarrow> None) = Some d \<longleftrightarrow>
     output_key item = Some (CustomKind, d)"
  by (cases item rule: output_key.cases; simp)+

lemma call_key_by_case:
  "(case item of FunctionCall _ _ _ _ _ c _ \<Rightarrow> Some c | LocalShellCall _ (Some c) _ _ _ \<Rightarrow> Some c | _ \<Rightarrow> None)
     = Some d \<longleftrightarrow> call_key item = Some (FunctionKind, d)"
  "(case item of ToolSearchCall _ (Some c) _ _ _ _ \<Rightarrow> Some c | _ \<Rightarrow> None) = Some d \<longleftrightarrow>
     call_key item = Some (SearchKind, d)"
  "(case item of CustomToolCall _ _ c _ _ _ _ \<Rightarrow> Some c | _ \<Rightarrow> None) = Some d \<longleftrightarrow>
     call_key item = Some (CustomKind, d)"
  by (cases item rule: call_key.cases; simp)+

lemma output_ids_by_key:
  "c \<in> function_output_ids items \<longleftrightarrow> (FunctionKind, c) \<in> set (output_keys items)"
  "c \<in> tool_search_output_ids items \<longleftrightarrow> (SearchKind, c) \<in> set (output_keys items)"
  "c \<in> custom_tool_output_ids items \<longleftrightarrow> (CustomKind, c) \<in> set (output_keys items)"
  unfolding function_output_ids_def tool_search_output_ids_def custom_tool_output_ids_def output_keys_def
    in_map_filter output_key_by_case by (rule refl)+

lemma call_ids_by_key:
  "c \<in> function_call_ids items \<longleftrightarrow> (FunctionKind, c) \<in> set (call_keys items)"
  "c \<in> tool_search_call_ids items \<longleftrightarrow> (SearchKind, c) \<in> set (call_keys items)"
  "c \<in> custom_tool_call_ids items \<longleftrightarrow> (CustomKind, c) \<in> set (call_keys items)"
  unfolding function_call_ids_def tool_search_call_ids_def custom_tool_call_ids_def call_keys_def
    in_map_filter call_key_by_case by (rule refl)+

lemma missing_output_by_key:
  "missing_output strict new_v5 (function_output_ids items) (tool_search_output_ids items)
       (custom_tool_output_ids items) item =
     (if unanswered items item
      then if strict \<and> reports_missing item then None else Some (Some (answer_for new_v5 item))
      else Some None)"
  by (cases item rule: call_key.cases)
    (simp_all add: unanswered_def answer_for_def output_ids_by_key error_or_panic_def)

lemma is_orphan_output_by_key:
  "is_orphan_output (function_call_ids items) (tool_search_call_ids items) (custom_tool_call_ids items) item
     = orphaned items item"
  by (cases item rule: output_key.cases) (simp_all add: orphaned_def call_ids_by_key)

section \<open>The two passes\<close>

lemma collect_missing_insert:
  assumes "collect_missing missing (length pre) es = Some ms"
  shows "fold (\<lambda>(idx, x). insert_at (idx + 1) x) (rev ms) (pre @ es) =
    pre @ concat (map (\<lambda>e. case missing (env_item e) of Some (Some x) \<Rightarrow> [e, envelope_new x] | _ \<Rightarrow> [e]) es)"
  using assms
proof (induction es arbitrary: pre ms)
  case (Cons e es)
  from Cons.prems obtain out rest where out: "missing (env_item e) = Some out"
    and rest: "collect_missing missing (length (pre @ [e])) es = Some rest"
    and ms: "ms = (case out of None \<Rightarrow> rest | Some item \<Rightarrow> (length pre, envelope_new item) # rest)"
    by (auto simp: bind_eq_Some_conv)
  show ?case
    using Cons.IH [OF rest] by (cases out) (simp_all add: ms out insert_at_def)
qed simp

lemma collect_missing_defined:
  "(\<exists>ms. collect_missing missing idx es = Some ms) \<longleftrightarrow> (\<forall>e\<in>set es. missing (env_item e) \<noteq> None)"
  by (induction es arbitrary: idx) (auto simp: bind_eq_Some_conv)

lemma ensure_equation:
  "ensure_call_outputs_present strict new_v5 items =
     (if strict \<and> (\<exists>e\<in>set items. unanswered items (env_item e) \<and> reports_missing (env_item e))
      then None else Some (answered new_v5 items))"
proof (cases "strict \<and> (\<exists>e\<in>set items. unanswered items (env_item e) \<and> reports_missing (env_item e))")
  case True
  then have "collect_missing (missing_output strict new_v5 (function_output_ids items)
      (tool_search_output_ids items) (custom_tool_output_ids items)) 0 items = None"
    using collect_missing_defined [of "missing_output strict new_v5 (function_output_ids items)
      (tool_search_output_ids items) (custom_tool_output_ids items)" 0 items]
    by (auto simp: missing_output_by_key)
  with True show ?thesis by (simp add: ensure_call_outputs_present_def)
next
  case False
  let ?m = "missing_output strict new_v5 (function_output_ids items) (tool_search_output_ids items)
    (custom_tool_output_ids items)"
  from False obtain ms where ms: "collect_missing ?m 0 items = Some ms"
    using collect_missing_defined [of ?m 0 items] by (auto simp: missing_output_by_key)
  have "map (\<lambda>e. case ?m (env_item e) of Some (Some x) \<Rightarrow> [e, envelope_new x] | _ \<Rightarrow> [e]) items =
      map (\<lambda>e. if unanswered items (env_item e) then [e, envelope_new (answer_for new_v5 (env_item e))] else [e]) items"
    using False unfolding missing_output_by_key by (intro map_cong refl) (simp split: if_split, blast)
  then have "concat (map (\<lambda>e. case ?m (env_item e) of Some (Some x) \<Rightarrow> [e, envelope_new x] | _ \<Rightarrow> [e]) items)
      = answered new_v5 items"
    unfolding answered_def by (rule arg_cong)
  then show ?thesis
    using False ms collect_missing_insert [of ?m "[]" items ms]
    by (simp add: ensure_call_outputs_present_def)
qed

lemma orphan_positions_equation:
  "orphan_positions strict orphan pos es =
     (if strict \<and> (\<exists>e\<in>set es. orphan (env_item e)) then None
      else Some (map fst (filter (\<lambda>(i, e). orphan (env_item e)) (enumerate pos es))))"
  by (induction es arbitrary: pos) (auto simp: error_or_panic_def)

lemma retain_except_equation:
  "retain_except (map fst (filter (\<lambda>(i, e). P e) (enumerate pos es))) pos es = filter (\<lambda>e. \<not> P e) es"
proof (induction es arbitrary: pos)
  case (Cons e es)
  have later: "Suc pos \<le> p" if "p \<in> set (map fst (filter (\<lambda>(i, e). P e) (enumerate (Suc pos) es)))" for p
    using that by (auto simp: in_set_enumerate_eq)
  show ?case
  proof (cases "P e")
    case True
    with Cons show ?thesis by simp
  next
    case False
    with Cons.IH [of "Suc pos"] later show ?thesis
      by (cases "map fst (filter (\<lambda>(i, e). P e) (enumerate (Suc pos) es))") fastforce+
  qed
qed simp

lemma retain_except_none: "retain_except [] pos es = es"
  by (induction es arbitrary: pos) simp_all

lemma orphans_equation:
  "remove_orphan_outputs strict items =
     (if strict \<and> (\<exists>e\<in>set items. orphaned items (env_item e)) then None
      else Some (filter (\<lambda>e. \<not> orphaned items (env_item e)) items))"
proof -
  define positions where "positions = map fst (filter (\<lambda>(i, e). orphaned items (env_item e)) (enumerate 0 items))"
  have "retain_except positions 0 items = filter (\<lambda>e. \<not> orphaned items (env_item e)) items"
    unfolding positions_def by (rule retain_except_equation)
  moreover have "(if positions \<noteq> [] then retain_except positions 0 items else items) = retain_except positions 0 items"
    by (simp add: retain_except_none)
  ultimately show ?thesis
    unfolding remove_orphan_outputs_def is_orphan_output_by_key orphan_positions_equation
      positions_def [symmetric] by simp
qed

section \<open>Media\<close>

fun payload_items :: "output_payload \<Rightarrow> content_item list" where
  "payload_items p = (case body p of Text _ \<Rightarrow> [] | ContentItems items \<Rightarrow> items)"

fun output_image :: "content_item \<Rightarrow> bool" where
  "output_image (content_item.InputImage _ _) = True"
| "output_image _ = False"

fun image_free :: "'v response_item \<Rightarrow> bool" where
  "image_free (Message _ _ content _ _) = (\<not> list_ex is_image_content content)"
| "image_free (FunctionCallOutput _ _ _ _ output _) = (\<not> list_ex output_image (payload_items output))"
| "image_free (CustomToolCallOutput _ _ _ output _) = (\<not> list_ex output_image (payload_items output))"
| "image_free (ImageGenerationCall _ _ _ result _) = (result = [])"
| "image_free _ = True"

fun audio_free :: "'v response_item \<Rightarrow> bool" where
  "audio_free (Message _ _ content _ _) = (\<not> list_ex is_audio_content content)"
| "audio_free (FunctionCallOutput _ _ _ _ output _) = (\<not> list_ex is_audio (payload_items output))"
| "audio_free (CustomToolCallOutput _ _ _ output _) = (\<not> list_ex is_audio (payload_items output))"
| "audio_free _ = True"

text \<open>Messages whose classifications line up with their content.\<close>

fun classified :: "'v response_item \<Rightarrow> bool" where
  "classified (Message _ _ content _ m) =
     (case Option.bind m pt_content_item_kinds of None \<Rightarrow> False | Some ks \<Rightarrow> length ks = length content)"
| "classified _ = True"

lemma replace_content_message:
  "\<exists>m'. replace_content P r (Message i role content phase m) =
          Message i role (map (\<lambda>c. if P c then fst r else c) content) phase m' \<and>
        classified (replace_content P r (Message i role content phase m))"
proof -
  let ?ks = "(case Option.bind m pt_content_item_kinds of None \<Rightarrow> [] | Some ks \<Rightarrow> ks) @ replicate (length content) (lit ''unknown'')"
  have "map fst (map (\<lambda>c. if P (fst c) then r else c) (zip content ?ks)) =
      map (\<lambda>c. if P c then fst r else c) (map fst (zip content ?ks))"
    by (simp add: if_distrib [of fst])
  moreover have "map fst (zip content ?ks) = content"
    by (simp add: map_fst_zip_take)
  ultimately show ?thesis
    by (simp add: replace_content_def Let_def o_def del: map_map)
qed

lemma replace_content_none:
  assumes "classified (Message i role content phase m)" "\<not> list_ex P content"
  shows "replace_content P r (Message i role content phase m) = Message i role content phase m"
proof -
  from assms(1) obtain p ks where m: "m = Some p" "pt_content_item_kinds p = Some ks" "length ks = length content"
    by (auto split: option.splits simp: bind_eq_Some_conv)
  then have zip: "zip content (ks @ replicate (length content) (lit ''unknown'')) = zip content ks"
    by (simp add: zip_append2)
  have "map (\<lambda>c. if P (fst c) then r else c) (zip content ks) = zip content ks"
    using assms(2) by (auto simp: list_ex_iff intro!: map_idI dest: set_zip_leftD)
  with m zip show ?thesis
    by (simp add: replace_content_def Let_def)
qed

lemma strip_output_images: "\<not> list_ex output_image (payload_items (map_output_items strip_output_image p))"
proof -
  have "\<not> output_image (strip_output_image c)" for c by (cases c) simp_all
  then show ?thesis by (auto simp: map_output_items_def list_ex_iff split: output_body.split)
qed

lemma strip_output_audios: "\<not> list_ex is_audio (payload_items (map_output_items strip_output_audio p))"
proof -
  have "\<not> is_audio (strip_output_audio c)" for c by (cases c) simp_all
  then show ?thesis by (auto simp: map_output_items_def list_ex_iff split: output_body.split)
qed

lemma map_output_items_id:
  "(\<And>c. c \<in> set (payload_items p) \<Longrightarrow> f c = c) \<Longrightarrow> map_output_items f p = p"
  by (auto simp: map_output_items_def map_idI split: output_body.split)

lemma keeps_output_images:
  "\<not> list_ex output_image (payload_items p) \<Longrightarrow> \<not> list_ex output_image (payload_items (map_output_items strip_output_audio p))"
proof -
  have "output_image (strip_output_audio c) = output_image c" for c by (cases c) simp_all
  then show "\<not> list_ex output_image (payload_items p) \<Longrightarrow> ?thesis"
    by (auto simp: map_output_items_def list_ex_iff split: output_body.split)
qed

lemma strip_images_result: "image_free (strip_item_images item) \<and> classified (strip_item_images item)"
proof (cases item)
  case (Message i role content phase m)
  then show ?thesis
    using replace_content_message [of is_image_content UNSUPPORTED_IMAGE i role content phase m]
    by (auto simp: list_ex_iff UNSUPPORTED_IMAGE_def)
qed (simp_all add: strip_output_images del: payload_items.simps)

lemma strip_audio_result: "audio_free (strip_item_audio item) \<and> classified (strip_item_audio item)"
proof (cases item)
  case (Message i role content phase m)
  then show ?thesis
    using replace_content_message [of is_audio_content UNSUPPORTED_AUDIO i role content phase m]
    by (auto simp: list_ex_iff UNSUPPORTED_AUDIO_def)
qed (simp_all add: strip_output_audios del: payload_items.simps)

lemma strip_audio_keeps_image_free: "image_free item \<Longrightarrow> image_free (strip_item_audio item)"
proof (cases item)
  case (Message i role content phase m)
  then show "image_free item \<Longrightarrow> ?thesis"
    using replace_content_message [of is_audio_content UNSUPPORTED_AUDIO i role content phase m]
    by (auto simp: list_ex_iff UNSUPPORTED_AUDIO_def)
qed (simp_all add: keeps_output_images del: payload_items.simps)

lemma strip_images_id:
  assumes "image_free item" "classified item"
  shows "strip_item_images item = item"
proof -
  have "strip_output_image c = c" if "\<not> output_image c" for c using that by (cases c) simp_all
  then have "map_output_items strip_output_image p = p" if "\<not> list_ex output_image (payload_items p)" for p
    using that by (intro map_output_items_id) (auto simp: list_ex_iff)
  with assms show ?thesis
    by (cases item) (simp_all add: replace_content_none del: payload_items.simps classified.simps)
qed

lemma strip_audio_id:
  assumes "audio_free item" "classified item"
  shows "strip_item_audio item = item"
proof -
  have "strip_output_audio c = c" if "\<not> is_audio c" for c using that by (cases c) simp_all
  then have "map_output_items strip_output_audio p = p" if "\<not> list_ex is_audio (payload_items p)" for p
    using that by (intro map_output_items_id) (auto simp: list_ex_iff)
  with assms show ?thesis
    by (cases item) (simp_all add: replace_content_none del: payload_items.simps classified.simps)
qed

definition strip_item :: "input_modality list \<Rightarrow> 'v response_item \<Rightarrow> 'v response_item" where
  "strip_item modalities item =
     (let item1 = (if ImageInput \<in> set modalities then item else strip_item_images item)
      in if AudioInput \<in> set modalities then item1 else strip_item_audio item1)"

definition media_free :: "input_modality list \<Rightarrow> 'v response_item \<Rightarrow> bool" where
  "media_free modalities item \<longleftrightarrow>
     (ImageInput \<in> set modalities \<or> image_free item) \<and> (AudioInput \<in> set modalities \<or> audio_free item)"

lemma strip_item_media_free: "media_free modalities (strip_item modalities item)"
  using strip_images_result [of item] strip_audio_result [of item] strip_audio_result [of "strip_item_images item"]
    strip_audio_keeps_image_free [of "strip_item_images item"]
  by (simp add: media_free_def strip_item_def)

lemma strip_item_idem: "strip_item modalities (strip_item modalities item) = strip_item modalities item"
proof (cases "ImageInput \<in> set modalities")
  case True
  then show ?thesis
    using strip_audio_result [of item] by (simp add: strip_item_def strip_audio_id)
next
  case False
  define img where "img = strip_item_images item"
  have img: "image_free img" "classified img" and aud: "audio_free (strip_item_audio img)" "classified (strip_item_audio img)"
    using strip_images_result [of item] strip_audio_result [of img] by (simp_all add: img_def)
  have "strip_item_images img = img" "strip_item_images (strip_item_audio img) = strip_item_audio img"
    "strip_item_audio (strip_item_audio img) = strip_item_audio img"
    using img aud by (simp_all add: strip_images_id strip_audio_id strip_audio_keeps_image_free)
  with False show ?thesis by (simp add: strip_item_def flip: img_def)
qed

lemma replace_content_keys:
  "call_key (replace_content P r (Message i role content phase m)) = None"
  "output_key (replace_content P r (Message i role content phase m)) = None"
  "\<not> runs_on_server (replace_content P r (Message i role content phase m))"
  using replace_content_message [of P r i role content phase m] by auto

lemma strip_images_keys:
  "call_key (strip_item_images item) = call_key item"
  "output_key (strip_item_images item) = output_key item"
  "runs_on_server (strip_item_images item) = runs_on_server item"
  by (cases item rule: call_key.cases; simp add: replace_content_keys)
    (cases item rule: output_key.cases; simp add: replace_content_keys)+

lemma strip_audio_keys:
  "call_key (strip_item_audio item) = call_key item"
  "output_key (strip_item_audio item) = output_key item"
  "runs_on_server (strip_item_audio item) = runs_on_server item"
  by (cases item rule: call_key.cases; simp add: replace_content_keys)
    (cases item rule: output_key.cases; simp add: replace_content_keys)+

lemma strip_item_keys [simp]:
  "call_key (strip_item modalities item) = call_key item"
  "output_key (strip_item modalities item) = output_key item"
  "runs_on_server (strip_item modalities item) = runs_on_server item"
  by (simp_all add: strip_item_def strip_images_keys strip_audio_keys Let_def)

section \<open>Normal form\<close>

definition normalized :: "(str \<Rightarrow> str) \<Rightarrow> input_modality list \<Rightarrow> 'v envelope list \<Rightarrow> 'v envelope list" where
  "normalized new_v5 modalities items =
     map (env_item_update (strip_item modalities))
       (filter (\<lambda>e. \<not> orphaned items (env_item e)) (answered new_v5 items))"

lemma call_or_output: "output_key item \<noteq> None \<Longrightarrow> call_key item = None"
  by (cases item rule: output_key.cases) simp_all

lemma output_or_call: "call_key item \<noteq> None \<Longrightarrow> output_key item = None"
  using call_or_output [of item] by (cases "output_key item") simp_all

lemma answer_for_keys:
  assumes "call_key item = Some k"
  shows "call_key (answer_for new_v5 item) = None" "output_key (answer_for new_v5 item) = Some k"
    "\<not> runs_on_server (answer_for new_v5 item)"
  using assms
  by (cases item rule: call_key.cases; auto simp: answer_for_def aborted_function_output_def lit_eval)+

lemma in_answered:
  "e \<in> set (answered new_v5 items) \<longleftrightarrow>
     e \<in> set items \<or> (\<exists>c\<in>set items. unanswered items (env_item c) \<and> e = envelope_new (answer_for new_v5 (env_item c)))"
  by (auto simp: answered_def split: if_splits)

lemma in_call_keys: "k \<in> set (call_keys items) \<longleftrightarrow> (\<exists>e\<in>set items. call_key (env_item e) = Some k)"
  by (simp add: call_keys_def in_map_filter)

lemma in_output_keys: "k \<in> set (output_keys items) \<longleftrightarrow> (\<exists>e\<in>set items. output_key (env_item e) = Some k)"
  by (simp add: output_keys_def in_map_filter)

lemma unanswered_key: "unanswered items item \<Longrightarrow> \<exists>k. call_key item = Some k \<and> k \<notin> set (output_keys items)"
  by (auto simp: unanswered_def split: option.splits)

lemma call_keys_answered: "set (call_keys (answered new_v5 items)) = set (call_keys items)"
proof (intro equalityI subsetI)
  fix k assume "k \<in> set (call_keys (answered new_v5 items))"
  then obtain e where e: "e \<in> set (answered new_v5 items)" "call_key (env_item e) = Some k"
    unfolding in_call_keys by blast
  moreover have "call_key (answer_for new_v5 item) = None" if "unanswered items item" for item
    using unanswered_key [OF that] by (auto simp: answer_for_keys)
  ultimately have "e \<in> set items" by (auto simp: in_answered envelope_new_def)
  with e(2) show "k \<in> set (call_keys items)" unfolding in_call_keys by blast
next
  fix k assume "k \<in> set (call_keys items)"
  then obtain e where "e \<in> set items" "call_key (env_item e) = Some k"
    unfolding in_call_keys by blast
  then show "k \<in> set (call_keys (answered new_v5 items))"
    unfolding in_call_keys by (intro bexI [of _ e]) (simp_all add: in_answered)
qed

lemma orphaned_answered: "orphaned (answered new_v5 items) = orphaned items"
  by (simp add: orphaned_def fun_eq_iff call_keys_answered cong: option.case_cong)

lemma answer_not_orphaned:
  assumes "c \<in> set items" "unanswered items (env_item c)"
  shows "\<not> orphaned items (answer_for new_v5 (env_item c))"
proof -
  from assms(2) obtain k where "call_key (env_item c) = Some k" by (auto dest: unanswered_key)
  with assms(1) show ?thesis
    using in_call_keys [of k items] by (auto simp: orphaned_def answer_for_keys)
qed

lemma normalize_equation:
  "normalize_items strict new_v5 modalities items =
     (if strict \<and> (\<exists>e\<in>set items. orphaned items (env_item e) \<or>
                      unanswered items (env_item e) \<and> reports_missing (env_item e))
      then None else Some (normalized new_v5 modalities items))"
proof -
  have "orphaned items (env_item e) \<Longrightarrow> e \<in> set items" if "e \<in> set (answered new_v5 items)" for e
    using that answer_not_orphaned [of _ items new_v5] by (auto simp: in_answered envelope_new_def)
  then have orphans: "(\<exists>e\<in>set (answered new_v5 items). orphaned items (env_item e)) \<longleftrightarrow> (\<exists>e\<in>set items. orphaned items (env_item e))"
    using in_answered [of _ new_v5 items] by blast
  have strip: "strip_audio_when_unsupported modalities (strip_images_when_unsupported modalities xs) =
      map (env_item_update (strip_item modalities)) xs" for xs :: "'v envelope list"
    by (auto simp: strip_audio_when_unsupported_def strip_images_when_unsupported_def strip_item_def [abs_def] o_def map_idI)
  show ?thesis
    unfolding normalize_items_def ensure_equation orphans_equation normalized_def strip
    using orphans by (simp add: orphaned_answered Bex_def) blast
qed

lemma in_normalized:
  "e \<in> set (normalized new_v5 modalities items) \<longleftrightarrow>
     (\<exists>e'\<in>set (answered new_v5 items). \<not> orphaned items (env_item e') \<and> e = env_item_update (strip_item modalities) e')"
  by (auto simp: normalized_def)

lemma call_keys_normalized: "set (call_keys (normalized new_v5 modalities items)) = set (call_keys items)"
proof -
  have "\<not> orphaned items item" if "call_key item \<noteq> None" for item
    using that call_or_output [of item] by (auto simp: orphaned_def split: option.split)
  then have keep: "\<not> orphaned items item" if "call_key item = Some k" for item k
    using that by simp
  have "k \<in> set (call_keys (normalized new_v5 modalities items)) \<longleftrightarrow>
      (\<exists>e\<in>set (answered new_v5 items). \<not> orphaned items (env_item e) \<and> call_key (env_item e) = Some k)" for k
    unfolding in_call_keys normalized_def by auto
  then have "k \<in> set (call_keys (normalized new_v5 modalities items)) \<longleftrightarrow> k \<in> set (call_keys (answered new_v5 items))" for k
    unfolding in_call_keys using keep by blast
  then show ?thesis by (auto simp: call_keys_answered)
qed

lemma answer_present:
  assumes "k \<in> set (call_keys items)"
  shows "\<exists>a\<in>set (answered new_v5 items). output_key (env_item a) = Some k"
proof (cases "k \<in> set (output_keys items)")
  case True
  then show ?thesis unfolding in_output_keys using in_answered [of _ new_v5 items] by blast
next
  case False
  from assms obtain c where c: "c \<in> set items" "call_key (env_item c) = Some k" unfolding in_call_keys by blast
  let ?a = "envelope_new (answer_for new_v5 (env_item c))"
  have "unanswered items (env_item c)" using False c(2) by (simp add: unanswered_def)
  then have "?a \<in> set (answered new_v5 items)" using c(1) unfolding in_answered by blast
  then show ?thesis by (rule rev_bexI) (simp add: envelope_new_def answer_for_keys c(2))
qed

lemma normalized_well_paired: "well_paired (normalized new_v5 modalities items)"
  unfolding well_paired_def
proof (intro ballI conjI)
  let ?r = "normalized new_v5 modalities items"
  fix e assume "e \<in> set ?r"
  then obtain e' where e': "e' \<in> set (answered new_v5 items)" "\<not> orphaned items (env_item e')"
      "e = env_item_update (strip_item modalities) e'"
    unfolding in_normalized by blast
  show "\<not> orphaned ?r (env_item e)"
    using e'(2) by (auto simp: e'(3) orphaned_def call_keys_normalized split: option.splits)
  show "\<not> unanswered ?r (env_item e)"
  proof
    assume "unanswered ?r (env_item e)"
    then obtain k where k: "call_key (env_item e') = Some k" "k \<notin> set (output_keys ?r)"
      using unanswered_key by (fastforce simp: e'(3))
    have called: "k \<in> set (call_keys items)"
      using e'(1) k(1) call_keys_answered [of new_v5 items] in_call_keys [of k "answered new_v5 items"] by blast
    obtain a where a: "a \<in> set (answered new_v5 items)" "output_key (env_item a) = Some k"
      using answer_present [OF called] by blast
    then have "\<not> orphaned items (env_item a)" using called by (simp add: orphaned_def)
    with a have "env_item_update (strip_item modalities) a \<in> set ?r" unfolding in_normalized by blast
    then have "k \<in> set (output_keys ?r)"
      unfolding in_output_keys by (rule rev_bexI) (simp add: a(2))
    with k(2) show False by blast
  qed
qed

lemma normalized_fixpoint:
  assumes "well_paired items" "\<And>e. e \<in> set items \<Longrightarrow> strip_item modalities (env_item e) = env_item e"
  shows "normalized new_v5 modalities items = items"
proof -
  have "map (\<lambda>e. if unanswered items (env_item e) then [e, envelope_new (answer_for new_v5 (env_item e))] else [e]) items
      = map (\<lambda>e. [e]) items"
    using assms(1) by (intro map_cong refl) (simp add: well_paired_def)
  then have "answered new_v5 items = concat (map (\<lambda>e. [e]) items)" unfolding answered_def by (rule arg_cong)
  then have "answered new_v5 items = items" by simp
  moreover have "filter (\<lambda>e. \<not> orphaned items (env_item e)) items = items"
    using assms(1) by (simp add: well_paired_def)
  ultimately show ?thesis
    using assms(2) by (simp add: normalized_def map_idI)
qed

lemma normalized_idem: "normalized new_v5 modalities (normalized new_v5' modalities items) = normalized new_v5' modalities items"
  by (rule normalized_fixpoint [OF normalized_well_paired]) (auto simp: in_normalized strip_item_idem)

lemma normalize_well_paired:
  assumes "well_paired items"
  shows "normalize_items strict new_v5 modalities items = Some (normalized new_v5 modalities items)"
  using assms by (simp add: normalize_equation well_paired_def)

section \<open>Dropping the oldest item\<close>

definition well_keyed :: "'v envelope list \<Rightarrow> bool" where
  "well_keyed items \<longleftrightarrow> well_paired items \<and> distinct (call_keys items) \<and> distinct (output_keys items)"

lemma distinct_key_once: "distinct (List.map_filter f xs) \<Longrightarrow> length (filter (\<lambda>x. f x = Some k) xs) \<le> 1"
proof (induction xs)
  case (Cons x xs)
  show ?case
  proof (cases "f x = Some k")
    case True
    with Cons.prems have "\<forall>y\<in>set xs. f y \<noteq> Some k" by (auto simp: map_filter_simps in_map_filter)
    then have "filter (\<lambda>x. f x = Some k) xs = []" by (simp add: filter_empty_conv)
    with True show ?thesis by simp
  next
    case False
    with Cons show ?thesis by (auto simp: map_filter_simps split: option.splits)
  qed
qed simp

lemma distinct_map_filter_filter: "distinct (List.map_filter f xs) \<Longrightarrow> distinct (List.map_filter f (filter P xs))"
  by (induction xs) (auto simp: map_filter_simps in_map_filter split: option.splits)

lemma position_remove_unique:
  "length (filter P xs) \<le> 1 \<Longrightarrow>
     (case position P xs of Some i \<Rightarrow> remove_nth i xs | None \<Rightarrow> xs) = filter (\<lambda>x. \<not> P x) xs"
proof (induction xs)
  case (Cons x xs)
  show ?case
  proof (cases "P x")
    case True
    with Cons.prems have "filter P xs = []" by simp
    then have "filter (\<lambda>x. \<not> P x) xs = xs" by (auto simp: filter_empty_conv)
    with True show ?thesis by (simp add: remove_nth_def)
  next
    case False
    with Cons show ?thesis
      by (cases "position P xs") (simp_all add: remove_nth_def del: position_None_iff)
  qed
qed simp

lemma partner_by_key:
  "function_output_for c item \<longleftrightarrow> output_key item = Some (FunctionKind, c)"
  "tool_search_output_for c item \<longleftrightarrow> output_key item = Some (SearchKind, c)"
  "custom_output_for c item \<longleftrightarrow> output_key item = Some (CustomKind, c)"
  "tool_search_call_for c item \<longleftrightarrow> call_key item = Some (SearchKind, c)"
  "custom_call_for c item \<longleftrightarrow> call_key item = Some (CustomKind, c)"
  "call_key item = Some (FunctionKind, c) \<longleftrightarrow> function_call_for c item \<or> local_shell_call_for c item"
  "function_call_for c item \<Longrightarrow> \<not> local_shell_call_for c item"
  by (cases item rule: output_key.cases; simp; fail)+ (cases item rule: call_key.cases; simp)+

text \<open>A function or shell call is looked for in two rounds, which with distinct keys are one.\<close>

lemma two_rounds:
  assumes "length (filter (\<lambda>e. P e \<or> Q e) xs) \<le> 1"
  shows "(case position P xs of Some i \<Rightarrow> remove_nth i xs
          | None \<Rightarrow> (case position Q xs of Some i \<Rightarrow> remove_nth i xs | None \<Rightarrow> xs)) =
         filter (\<lambda>e. \<not> (P e \<or> Q e)) xs"
proof (cases "position P xs")
  case None
  then have "filter P xs = []" by (simp add: filter_empty_conv)
  then have P: "filter (\<lambda>e. P e \<or> Q e) xs = filter Q xs" "filter (\<lambda>e. \<not> (P e \<or> Q e)) xs = filter (\<lambda>e. \<not> Q e) xs"
    by (auto simp: filter_empty_conv intro: filter_cong)
  with assms None position_remove_unique [of Q xs] show ?thesis by (simp del: position_None_iff)
next
  case (Some i)
  have le: "length (filter P xs) \<le> length (filter (\<lambda>e. P e \<or> Q e) xs)" by (induction xs) auto
  from Some have "filter P xs \<noteq> []" using position_nth [OF Some] by (auto simp: filter_empty_conv)
  with le assms have len: "length (filter P xs) = 1" "length (filter (\<lambda>e. P e \<or> Q e) xs) = 1"
    by (simp_all add: Suc_le_eq flip: length_greater_0_conv)
  have "filter P (filter (\<lambda>e. P e \<or> Q e) xs) = filter P xs" by (induction xs) auto
  then have all: "\<forall>e\<in>set (filter (\<lambda>e. P e \<or> Q e) xs). P e"
    using len by (metis filter_id_conv length_filter_less less_irrefl)
  then have "filter (\<lambda>e. \<not> (P e \<or> Q e)) xs = filter (\<lambda>e. \<not> P e) xs" by (auto intro: filter_cong)
  with Some len position_remove_unique [of P xs] show ?thesis by simp
qed

lemma remove_corresponding_by_key:
  assumes "distinct (call_keys items)" "distinct (output_keys items)"
  shows "remove_corresponding_for items item =
    filter (\<lambda>e. \<not> (call_key item \<noteq> None \<and> output_key (env_item e) = call_key item \<or>
                   output_key item \<noteq> None \<and> call_key (env_item e) = output_key item)) items"
proof -
  have outs: "length (filter (\<lambda>e. output_key (env_item e) = Some k) items) \<le> 1" for k
    using distinct_key_once [of "\<lambda>e. output_key (env_item e)" items k] assms(2) by (simp add: output_keys_def)
  have calls: "length (filter (\<lambda>e. call_key (env_item e) = Some k) items) \<le> 1" for k
    using distinct_key_once [of "\<lambda>e. call_key (env_item e)" items k] assms(1) by (simp add: call_keys_def)
  note unique = position_remove_unique [OF outs] position_remove_unique [OF calls]
  show ?thesis
  proof (cases "(items, item)" rule: remove_corresponding_for.cases)
    case (2 its i c n ns p m)
    then have "item = FunctionCallOutput i (Some c) n ns p m" by simp
    then show ?thesis
      using two_rounds [OF calls [of "(FunctionKind, c)", unfolded partner_by_key(6)]]
      by (simp add: partner_by_key(6))
  qed (simp_all add: remove_first_matching_def partner_by_key(1-5) unique)
qed

lemma key_cases:
  obtains (Call) k where "call_key item = Some k" "output_key item = None"
  | (Output) k where "output_key item = Some k" "call_key item = None"
  | (Neither) "call_key item = None" "output_key item = None"
  using call_or_output [of item] by (cases "call_key item"; cases "output_key item") auto

lemma well_paired_iff:
  "well_paired items \<longleftrightarrow>
     set (call_keys items) \<subseteq> set (output_keys items) \<and>
     (\<forall>e\<in>set items. \<forall>k. output_key (env_item e) = Some k \<longrightarrow> \<not> runs_on_server (env_item e) \<longrightarrow> k \<in> set (call_keys items))"
proof -
  have un: "unanswered items item \<longleftrightarrow> (\<exists>k. call_key item = Some k \<and> k \<notin> set (output_keys items))" for item
    by (cases "call_key item") (simp_all add: unanswered_def)
  have orph: "orphaned items item \<longleftrightarrow> (\<exists>k. output_key item = Some k \<and> \<not> runs_on_server item \<and> k \<notin> set (call_keys items))" for item
    by (cases "output_key item") (simp_all add: orphaned_def)
  have "set (call_keys items) \<subseteq> set (output_keys items) \<longleftrightarrow>
      (\<forall>e\<in>set items. \<forall>k. call_key (env_item e) = Some k \<longrightarrow> k \<in> set (output_keys items))"
    unfolding subset_iff in_call_keys by blast
  then show ?thesis unfolding well_paired_def un orph by blast
qed

lemma call_keys_Cons: "call_keys (e # items) = (case call_key (env_item e) of None \<Rightarrow> [] | Some k \<Rightarrow> [k]) @ call_keys items"
  by (simp add: call_keys_def map_filter_simps split: option.split)

lemma output_keys_Cons: "output_keys (e # items) = (case output_key (env_item e) of None \<Rightarrow> [] | Some k \<Rightarrow> [k]) @ output_keys items"
  by (simp add: output_keys_def map_filter_simps split: option.split)

lemma key_filter:
  "set (List.map_filter f (filter (\<lambda>x. f x \<noteq> Some k) xs)) = set (List.map_filter f xs) - {k}"
  by (induction xs) (auto simp: map_filter_simps split: option.splits)

lemma other_key_filter:
  "(\<And>x. f x \<noteq> None \<Longrightarrow> g x = None) \<Longrightarrow>
     set (List.map_filter g (filter (\<lambda>x. f x \<noteq> Some k) xs)) = set (List.map_filter g xs)"
  by (induction xs) (auto simp: map_filter_simps split: option.splits)

lemma keys_without_output:
  "set (output_keys (filter (\<lambda>e. output_key (env_item e) \<noteq> Some k) items)) = set (output_keys items) - {k}"
  "set (call_keys (filter (\<lambda>e. output_key (env_item e) \<noteq> Some k) items)) = set (call_keys items)"
  unfolding output_keys_def call_keys_def by (rule key_filter, rule other_key_filter, rule call_or_output)

lemma keys_without_call:
  "set (call_keys (filter (\<lambda>e. call_key (env_item e) \<noteq> Some k) items)) = set (call_keys items) - {k}"
  "set (output_keys (filter (\<lambda>e. call_key (env_item e) \<noteq> Some k) items)) = set (output_keys items)"
  unfolding output_keys_def call_keys_def
  by (rule key_filter, rule other_key_filter, erule output_or_call)

lemma remove_corresponding_keeps:
  assumes "well_keyed (e # items)"
  shows "well_keyed (remove_corresponding_for items (env_item e))"
proof -
  let ?r = "remove_corresponding_for items (env_item e)"
  have dist: "distinct (call_keys items)" "distinct (output_keys items)"
    using assms by (auto simp: well_keyed_def call_keys_Cons output_keys_Cons split: option.splits)
  note r = remove_corresponding_by_key [OF dist, of "env_item e"]
  have "distinct (call_keys ?r)" "distinct (output_keys ?r)"
    using dist unfolding r call_keys_def output_keys_def by (auto intro: distinct_map_filter_filter)
  moreover have "well_paired ?r"
  proof (cases "env_item e" rule: key_cases)
    case (Call k)
    then have "?r = filter (\<lambda>e. output_key (env_item e) \<noteq> Some k) items" by (simp add: r)
    with Call assms show ?thesis
      unfolding well_keyed_def well_paired_iff call_keys_Cons output_keys_Cons
      by (auto simp: keys_without_output)
  next
    case (Output k)
    then have "?r = filter (\<lambda>e. call_key (env_item e) \<noteq> Some k) items" by (simp add: r)
    with Output assms show ?thesis
      unfolding well_keyed_def well_paired_iff call_keys_Cons output_keys_Cons
      by (auto simp: keys_without_call in_output_keys)
  next
    case Neither
    with assms show ?thesis
      by (simp add: r well_keyed_def well_paired_iff call_keys_Cons output_keys_Cons)
  qed
  ultimately show ?thesis by (simp add: well_keyed_def)
qed

end
