(* ===== verification/History_Properties.thy ===== *)
theory History_Properties
  imports Context_History Normalize_Properties
begin

text \<open>
  Properties of the history manager: what rollback keeps, when a reader of review evidence may
  continue at its offset, which revisions show user input, that evidence survives a checkpoint,
  and that estimates do not overflow.
\<close>

section \<open>Rollback\<close>

text \<open>Items the walk back from a cut passes over, and those of them that clear the baseline.\<close>

fun pre_turn_context :: "content_parsers \<Rightarrow> 'v response_item \<Rightarrow> bool" where
  "pre_turn_context cp (Message _ role parts _ _) \<longleftrightarrow>
     role = lit ''developer'' \<and> is_contextual_dev_message_content parts \<or>
     role = lit ''user'' \<and> is_contextual_user_message_content cp parts"
| "pre_turn_context cp _ \<longleftrightarrow> False"

fun mixed_bundle :: "'v response_item \<Rightarrow> bool" where
  "mixed_bundle (Message _ role parts _ _) \<longleftrightarrow>
     role = lit ''developer'' \<and> is_contextual_dev_message_content parts \<and> has_non_contextual_dev_message_content parts"
| "mixed_bundle _ \<longleftrightarrow> False"

lemma pre_turn_not_boundary: "pre_turn_context cp item \<Longrightarrow> \<not> is_user_turn_boundary cp item"
  by (cases item) (auto simp: lit_eval)

lemma trim_walk:
  assumes "trim_pre_turn_context_updates cp snapshot first stop cm = (c, cm')" "first \<le> stop"
  shows "first \<le> c \<and> c \<le> stop \<and> (\<forall>j. c \<le> j \<longrightarrow> j < stop \<longrightarrow> pre_turn_context cp (env_item (snapshot ! j))) \<and>
    (c = first \<or> \<not> pre_turn_context cp (env_item (snapshot ! (c - 1)))) \<and>
    cm' = cm\<lparr>cm_reference_context_item :=
      (if \<exists>j. c \<le> j \<and> j < stop \<and> mixed_bundle (env_item (snapshot ! j)) then None else cm_reference_context_item cm)\<rparr>"
  using assms
proof (induction stop arbitrary: cm)
  case (Suc n)
  show ?case
  proof (cases "Suc n > first \<and> pre_turn_context cp (env_item (snapshot ! n))")
    case True
    then obtain i role parts ph m where item: "env_item (snapshot ! n) = Message i role parts ph m"
      by (cases "env_item (snapshot ! n)") auto
    let ?cm = "if mixed_bundle (env_item (snapshot ! n)) then cm\<lparr>cm_reference_context_item := None\<rparr> else cm"
    have "trim_pre_turn_context_updates cp snapshot first n ?cm = (c, cm')"
      using Suc.prems(1) True by (auto simp: item lit_eval split: if_splits)
    note IH = Suc.IH [OF this]
    have "first \<le> n" using True by simp
    note IH = IH [OF this]
    have ex: "(\<exists>j. c \<le> j \<and> j < Suc n \<and> mixed_bundle (env_item (snapshot ! j))) \<longleftrightarrow>
        mixed_bundle (env_item (snapshot ! n)) \<or> (\<exists>j. c \<le> j \<and> j < n \<and> mixed_bundle (env_item (snapshot ! j)))"
      using IH less_Suc_eq by auto
    from IH True show ?thesis unfolding ex by (auto simp: less_Suc_eq)
  next
    case False
    then have "trim_pre_turn_context_updates cp snapshot first (Suc n) cm = (Suc n, cm)"
      by (cases "env_item (snapshot ! n)") auto
    with Suc.prems False show ?thesis by (auto simp: not_less_eq_eq)
  qed
qed simp

lemma positions_sorted: "sorted_wrt (<) (user_message_positions cp items)"
proof -
  have "sorted_wrt (<) (map fst (enumerate n xs))" for n and xs :: "'v envelope list"
    by (simp add: enumerate_eq_zip)
  then show ?thesis
    unfolding user_message_positions_def
    by (metis sorted_wrt_filter sorted_wrt_map)
qed

lemma in_positions: "i \<in> set (user_message_positions cp items) \<longleftrightarrow> i < length items \<and> is_user_turn_boundary cp (env_item (items ! i))"
  by (force simp: user_message_positions_def in_set_enumerate_eq)

lemma positions_take: "user_message_positions cp (take c items) = filter (\<lambda>i. i < c) (user_message_positions cp items)"
proof (rule strict_sorted_equal)
  show "sorted_wrt (<) (filter (\<lambda>i. i < c) (user_message_positions cp items))"
    by (intro sorted_wrt_filter positions_sorted)
  show "set (user_message_positions cp (take c items)) = set (filter (\<lambda>i. i < c) (user_message_positions cp items))"
    by (auto simp: in_positions)
qed (rule positions_sorted)

lemma sorted_below_nth:
  fixes ps :: "nat list"
  assumes "sorted_wrt (<) ps" "k < length ps"
  shows "filter (\<lambda>i. i < ps ! k) ps = take k ps"
proof -
  have "\<forall>i\<in>set (take k ps). i < ps ! k" "\<forall>i\<in>set (drop k ps). \<not> i < ps ! k"
  proof -
    show "\<forall>i\<in>set (take k ps). i < ps ! k"
      using assms by (auto simp: in_set_conv_nth sorted_wrt_nth_less)
    have "ps ! k \<le> ps ! (k + j)" if "k + j < length ps" for j
      using assms that by (cases "j = 0") (simp_all add: sorted_wrt_nth_less less_imp_le)
    then show "\<forall>i\<in>set (drop k ps). \<not> i < ps ! k"
      by (auto simp: in_set_conv_nth not_less)
  qed
  then have "filter (\<lambda>i. i < ps ! k) (take k ps @ drop k ps) = take k ps" unfolding filter_append by simp
  then show ?thesis by simp
qed

lemma positions_none: "(\<And>e. e \<in> set items \<Longrightarrow> \<not> is_user_turn_boundary cp (env_item e)) \<Longrightarrow> user_message_positions cp items = []"
  using in_positions [of _ cp items] by (metis all_not_in_conv nth_mem set_empty)

lemma retain_first_turn_boundary:
  assumes "retain_first_turn t e = Some e'" "\<not> is_user_turn_boundary cp (env_item e)"
  shows "\<not> is_user_turn_boundary cp (env_item e')"
  using assms by (cases "env_item e") (auto simp: retain_first_turn_def Let_def lit_eval split: if_splits)

lemma trimmed_positions:
  assumes "k < length (user_message_positions cp items)" "c \<le> user_message_positions cp items ! k"
    "\<And>j. c \<le> j \<Longrightarrow> j < user_message_positions cp items ! k \<Longrightarrow> pre_turn_context cp (env_item (items ! j))"
  shows "user_message_positions cp (take c items) = take k (user_message_positions cp items)"
proof -
  let ?ps = "user_message_positions cp items"
  have "i < c \<longleftrightarrow> i < ?ps ! k" if "i \<in> set ?ps" for i
    using that assms(2) assms(3) [of i] pre_turn_not_boundary [of cp "env_item (items ! i)"]
    by (auto simp: in_positions not_less [symmetric])
  then have "filter (\<lambda>i. i < c) ?ps = filter (\<lambda>i. i < ?ps ! k) ?ps" by (rule filter_cong [OF refl])
  then show ?thesis using sorted_below_nth [OF positions_sorted assms(1)] by (simp add: positions_take)
qed

definition rolled_back :: "'v history_env \<Rightarrow> nat \<Rightarrow> 'v context_manager \<Rightarrow> 'v envelope list" where
  "rolled_back env c cm =
     (case (c = hd (user_message_positions (he_parsers env) (cm_items cm)), item_turn_id (env_item (cm_items cm ! c))) of
        (True, Some t) \<Rightarrow> List.map_filter (retain_first_turn t) (take c (cm_items cm))
      | _ \<Rightarrow> take c (cm_items cm))"

lemma rollback_equation:
  fixes env cm n
  defines "ps \<equiv> user_message_positions (he_parsers env) (cm_items cm)"
  assumes "0 < n" "ps \<noteq> []"
  shows "\<exists>c. hd ps \<le> c \<and> c \<le> ps ! (length ps - n) \<and>
    (c = hd ps \<longleftrightarrow> length ps \<le> n) \<and>
    (\<forall>j. c \<le> j \<longrightarrow> j < ps ! (length ps - n) \<longrightarrow> pre_turn_context (he_parsers env) (env_item (cm_items cm ! j))) \<and>
    drop_last_n_user_turns env n cm =
      (replace_annotated env (rolled_back env c cm)
        (cm\<lparr>cm_review_history := None,
            cm_reference_context_item :=
              (if \<exists>j. c \<le> j \<and> j < ps ! (length ps - n) \<and> mixed_bundle (env_item (cm_items cm ! j)) then None
               else cm_reference_context_item cm)\<rparr>))
      \<lparr>cm_review_history := map_option (truncate_before (env_item (cm_items cm ! (ps ! (length ps - n))))) (cm_review_history cm)\<rparr>"
proof -
  let ?stop = "ps ! (length ps - n)"
  obtain first rest where ps: "ps = first # rest" using assms(3) by (cases ps) auto
  obtain c cm1 where walk: "trim_pre_turn_context_updates (he_parsers env) (cm_items cm) first ?stop
      (cm\<lparr>cm_review_history := None\<rparr>) = (c, cm1)" by fastforce
  have k: "length ps - n < length ps" using assms(2,3) by simp
  have later: "first < rest ! j" if "j < length rest" for j
    using that positions_sorted [of "he_parsers env" "cm_items cm"] unfolding ps_def [symmetric] by (simp add: ps)
  have first_le: "first \<le> ?stop"
    using k later by (cases "length ps - n") (simp_all add: ps less_imp_le)
  note t = trim_walk [OF walk first_le]
  then have range: "first \<le> c" "c \<le> ?stop"
    and passed: "\<And>j. c \<le> j \<Longrightarrow> j < ?stop \<Longrightarrow> pre_turn_context (he_parsers env) (env_item (cm_items cm ! j))" by auto
  have "first \<in> set ps" by (simp add: ps)
  then have "is_user_turn_boundary (he_parsers env) (env_item (cm_items cm ! first))" by (simp add: ps_def in_positions)
  then have "\<not> pre_turn_context (he_parsers env) (env_item (cm_items cm ! first))" using pre_turn_not_boundary by blast
  then have "\<not> (c \<le> first \<and> first < ?stop)" using passed by blast
  then have "c = first \<longleftrightarrow> ?stop = first" using range by linarith
  also have "\<dots> \<longleftrightarrow> length ps \<le> n"
    using k later by (cases "length ps - n") (auto simp: ps)
  finally have c: "c = hd ps \<longleftrightarrow> length ps \<le> n" by (simp add: ps)
  have pat: "user_message_positions (he_parsers env) (cm_items cm) = first # rest" using ps by (simp add: ps_def)
  have rb: "rolled_back env c cm = (case (c = first, item_turn_id (env_item (cm_items cm ! first))) of
      (True, Some t) \<Rightarrow> List.map_filter (retain_first_turn t) (take c (cm_items cm)) | _ \<Rightarrow> take c (cm_items cm))"
    by (cases "c = first") (simp_all add: rolled_back_def pat cong: option.case_cong)
  have "drop_last_n_user_turns env n cm = (replace_annotated env (rolled_back env c cm) cm1)
      \<lparr>cm_review_history := map_option (truncate_before (env_item (cm_items cm ! ?stop))) (cm_review_history cm)\<rparr>"
    using assms(2) walk unfolding ps rb
    by (cases "length (first # rest) \<le> n") (simp_all add: drop_last_n_user_turns_def Let_def pat)
  moreover have "cm_reference_context_item (cm\<lparr>cm_review_history := None\<rparr>) = cm_reference_context_item cm" by simp
  note cm1 = conjunct2 [OF conjunct2 [OF conjunct2 [OF conjunct2 [OF t]]], unfolded this]
  have "cm1 = cm\<lparr>cm_review_history := None,
            cm_reference_context_item :=
              (if \<exists>j. c \<le> j \<and> j < ?stop \<and> mixed_bundle (env_item (cm_items cm ! j)) then None
               else cm_reference_context_item cm)\<rparr>"
    by (rule cm1)
  ultimately show ?thesis
    using range c passed ps by (intro exI [of _ c] conjI) (simp_all only: list.sel simp_thms, blast)
qed

lemma rolled_back_positions:
  assumes "user_message_positions (he_parsers env) (cm_items cm) = ps" "ps \<noteq> []" "0 < n"
    "hd ps \<le> c" "c \<le> ps ! (length ps - n)" "c = hd ps \<longleftrightarrow> length ps \<le> n"
    "\<forall>j. c \<le> j \<longrightarrow> j < ps ! (length ps - n) \<longrightarrow> pre_turn_context (he_parsers env) (env_item (cm_items cm ! j))"
  shows "user_message_positions (he_parsers env) (rolled_back env c cm) = take (length ps - n) ps"
proof -
  have k: "length ps - n < length ps" using assms(2,3) by simp
  have take: "user_message_positions (he_parsers env) (take c (cm_items cm)) = take (length ps - n) ps"
    using trimmed_positions [of "length ps - n" "he_parsers env" "cm_items cm" c] k assms(5,7) unfolding assms(1) by blast
  show ?thesis
  proof (cases "rolled_back env c cm = take c (cm_items cm)")
    case False
    then obtain t where c: "c = hd ps" and rb: "rolled_back env c cm = List.map_filter (retain_first_turn t) (take c (cm_items cm))"
      by (auto simp: rolled_back_def assms(1) split: bool.splits option.splits)
    then have none: "take (length ps - n) ps = []" using assms(6) by simp
    have "\<not> is_user_turn_boundary (he_parsers env) (env_item e)" if "e \<in> set (take c (cm_items cm))" for e
      using that take none in_positions [of _ "he_parsers env" "take c (cm_items cm)"]
      by (metis empty_iff in_set_conv_nth list.set(1))
    then have "user_message_positions (he_parsers env) (rolled_back env c cm) = []"
      unfolding rb by (intro positions_none) (auto simp: in_map_filter dest: retain_first_turn_boundary)
    then show ?thesis using none by simp
  qed (simp add: take)
qed

lemma rollback_result:
  assumes "user_message_positions (he_parsers env) (cm_items cm) = ps" "ps \<noteq> []" "0 < n"
  shows "user_message_positions (he_parsers env) (cm_items (drop_last_n_user_turns env n cm)) = take (length ps - n) ps"
    and "n < length ps \<longrightarrow> (\<exists>c \<le> ps ! (length ps - n). cm_items (drop_last_n_user_turns env n cm) = take c (cm_items cm) \<and>
           (\<forall>j. c \<le> j \<longrightarrow> j < ps ! (length ps - n) \<longrightarrow> pre_turn_context (he_parsers env) (env_item (cm_items cm ! j))))"
    and "cm_history_version (drop_last_n_user_turns env n cm) = saturating_add (cm_history_version cm) 1"
    and "cm_world_state_baseline (drop_last_n_user_turns env n cm) = None"
    and "cm_review_history (drop_last_n_user_turns env n cm) =
           map_option (truncate_before (env_item (cm_items cm ! (ps ! (length ps - n))))) (cm_review_history cm)"
proof -
  obtain c where c: "hd ps \<le> c" "c \<le> ps ! (length ps - n)" "c = hd ps \<longleftrightarrow> length ps \<le> n"
      "\<forall>j. c \<le> j \<longrightarrow> j < ps ! (length ps - n) \<longrightarrow> pre_turn_context (he_parsers env) (env_item (cm_items cm ! j))"
    and eq: "drop_last_n_user_turns env n cm =
      (replace_annotated env (rolled_back env c cm)
        (cm\<lparr>cm_review_history := None,
            cm_reference_context_item :=
              (if \<exists>j. c \<le> j \<and> j < ps ! (length ps - n) \<and> mixed_bundle (env_item (cm_items cm ! j)) then None
               else cm_reference_context_item cm)\<rparr>))
      \<lparr>cm_review_history := map_option (truncate_before (env_item (cm_items cm ! (ps ! (length ps - n))))) (cm_review_history cm)\<rparr>"
    using rollback_equation [of n env cm] assms by blast
  have items: "cm_items (drop_last_n_user_turns env n cm) = rolled_back env c cm"
    unfolding eq by (simp add: replace_annotated_def)
  show "user_message_positions (he_parsers env) (cm_items (drop_last_n_user_turns env n cm)) = take (length ps - n) ps"
    unfolding items using rolled_back_positions [OF assms c] .
  show "n < length ps \<longrightarrow> (\<exists>c \<le> ps ! (length ps - n). cm_items (drop_last_n_user_turns env n cm) = take c (cm_items cm) \<and>
           (\<forall>j. c \<le> j \<longrightarrow> j < ps ! (length ps - n) \<longrightarrow> pre_turn_context (he_parsers env) (env_item (cm_items cm ! j))))"
  proof
    assume "n < length ps"
    then have "rolled_back env c cm = take c (cm_items cm)"
      using c(3) by (simp add: rolled_back_def assms(1))
    with c(2,4) items show "\<exists>c \<le> ps ! (length ps - n). cm_items (drop_last_n_user_turns env n cm) = take c (cm_items cm) \<and>
           (\<forall>j. c \<le> j \<longrightarrow> j < ps ! (length ps - n) \<longrightarrow> pre_turn_context (he_parsers env) (env_item (cm_items cm ! j)))"
      by (intro exI [of _ c]) simp
  qed
  show "cm_history_version (drop_last_n_user_turns env n cm) = saturating_add (cm_history_version cm) 1"
    "cm_world_state_baseline (drop_last_n_user_turns env n cm) = None"
    "cm_review_history (drop_last_n_user_turns env n cm) =
       map_option (truncate_before (env_item (cm_items cm ! (ps ! (length ps - n))))) (cm_review_history cm)"
    unfolding eq by (simp_all add: replace_annotated_def)
qed

text \<open>
  C33. Rolling back \<open>n\<close> turns keeps exactly the instruction turns before the last \<open>n\<close>, or none when
  there are fewer. While turns remain, the history is a prefix of the old one that ends before the
  first dropped turn, and everything else it loses is contextual messages directly before that turn.
  The version goes up, the world-state baseline is forgotten, and review evidence from the first
  dropped turn on is discarded.
\<close>
theorem rollback_drops_last_turns:
  assumes "user_message_positions (he_parsers env) (cm_items cm) = ps" "ps \<noteq> []" "0 < n"
  shows "user_message_positions (he_parsers env) (cm_items (drop_last_n_user_turns env n cm)) = take (length ps - n) ps \<and>
    (n < length ps \<longrightarrow> (\<exists>c \<le> ps ! (length ps - n). cm_items (drop_last_n_user_turns env n cm) = take c (cm_items cm) \<and>
       (\<forall>j. c \<le> j \<longrightarrow> j < ps ! (length ps - n) \<longrightarrow> pre_turn_context (he_parsers env) (env_item (cm_items cm ! j))))) \<and>
    cm_history_version (drop_last_n_user_turns env n cm) = saturating_add (cm_history_version cm) 1 \<and>
    cm_world_state_baseline (drop_last_n_user_turns env n cm) = None \<and>
    cm_review_history (drop_last_n_user_turns env n cm) =
      map_option (truncate_before (env_item (cm_items cm ! (ps ! (length ps - n))))) (cm_review_history cm)"
  by (intro conjI rollback_result [OF assms])

definition sample_env :: "nat history_env" where
  "sample_env =
     \<lparr>he_parsers = \<lparr>cp_hook_xml = (\<lambda>_. None), cp_inter_agent_json = (\<lambda>_. False)\<rparr>,
      he_media = \<lparr>mi_sizes = small_sizes, mi_audio_tokens = (\<lambda>_. 1), mi_image_dims = (\<lambda>_. None)\<rparr>,
      he_new_v5 = (\<lambda>s. s), he_debug_assertions = False\<rparr>"

definition sample_message :: "string \<Rightarrow> message_content \<Rightarrow> nat envelope" where
  "sample_message role part = envelope_new (Message None (lit role) [part] None None)"

definition sample_history :: "nat context_manager" where
  "sample_history =
     context_manager_new\<lparr>cm_items :=
       [sample_message ''user'' (InputImage [97] None), sample_message ''assistant'' (OutputText [98]),
        sample_message ''user'' (InputImage [99] None), sample_message ''assistant'' (OutputText [100])]\<rparr>"

lemma sample_positions: "user_message_positions (he_parsers sample_env) (cm_items sample_history) = [0, 2]"
  by (simp add: user_message_positions_def sample_env_def sample_history_def sample_message_def envelope_new_def
      is_contextual_user_message_content_def lit_eval numeral_2_eq_2)

theorem rollback_drops_last_turns_witness:
  "user_message_positions (he_parsers sample_env) (cm_items (drop_last_n_user_turns sample_env 1 sample_history)) = [0]"
  using rollback_drops_last_turns [OF sample_positions, of 1] by simp



text \<open>
  C38. Dropping the oldest item keeps the history paired: with distinct call identifiers, if every call
  has an output and every output of a local call its call, the same holds afterwards.
\<close>
theorem oldest_item_keeps_pairs:
  assumes "well_keyed (cm_items cm)"
  shows "well_keyed (cm_items (remove_first_item cm))"
  using assms remove_corresponding_keeps by (auto simp: remove_first_item_def split: list.split)

definition sample_calls :: "nat context_manager" where
  "sample_calls = context_manager_new\<lparr>cm_items :=
     [envelope_new (LocalShellCall None (Some [1]) local_shell_status.Completed 0 None),
      envelope_new (CustomToolCall None None [1] [2] None [] None),
      envelope_new (response_item.FunctionCallOutput None (Some [1]) None None (payload_from_text []) None),
      envelope_new (CustomToolCallOutput None [1] None (payload_from_text []) None)]\<rparr>"

theorem oldest_item_keeps_pairs_witness: "well_keyed (cm_items (remove_first_item sample_calls))"
proof (rule oldest_item_keeps_pairs)
  show "well_keyed (cm_items sample_calls)"
    by (simp add: sample_calls_def well_keyed_def well_paired_iff call_keys_def output_keys_def map_filter_simps envelope_new_def)
qed

text \<open>
  C31. The history sent to the model: a build without debug assertions always produces one, and it is
  the recorded history with an output inserted directly after each call that lacks one, outputs
  without a call left out, and unsupported media replaced.
\<close>
theorem prompt_is_normal_form:
  "for_prompt_annotated env modalities cm =
     (if he_debug_assertions env \<and>
         (\<exists>e\<in>set (cm_items cm). orphaned (cm_items cm) (env_item e) \<or>
            unanswered (cm_items cm) (env_item e) \<and> reports_missing (env_item e))
      then None
      else Some (map (env_item_update (strip_item modalities))
                  (filter (\<lambda>e. \<not> orphaned (cm_items cm) (env_item e))
                    (concat (map (\<lambda>e. if unanswered (cm_items cm) (env_item e)
                                      then [e, envelope_new (answer_for (he_new_v5 env) (env_item e))] else [e])
                               (cm_items cm))))))"
  unfolding for_prompt_annotated_def normalize_equation normalized_def answered_def by (rule refl)

text \<open>
  C32. A prompt is well-formed: every call in it has an output, every output of a local call has its
  call, no item has media the model does not take, and normalising it again changes nothing, in any
  build and with any naming of synthetic outputs.
\<close>
theorem prompt_well_formed:
  assumes "for_prompt_annotated env modalities cm = Some prompt"
  shows "well_paired prompt \<and> (\<forall>e\<in>set prompt. media_free modalities (env_item e)) \<and>
    normalize_items strict new_v5 modalities prompt = Some prompt"
proof -
  have prompt: "prompt = normalized (he_new_v5 env) modalities (cm_items cm)"
    using assms by (simp add: for_prompt_annotated_def normalize_equation split: if_splits)
  have "well_paired prompt" unfolding prompt by (rule normalized_well_paired)
  moreover have "\<forall>e\<in>set prompt. media_free modalities (env_item e)"
    unfolding prompt normalized_def by (auto simp: strip_item_media_free)
  moreover have "normalized new_v5 modalities prompt = prompt"
    unfolding prompt by (rule normalized_idem)
  ultimately show ?thesis by (simp add: normalize_well_paired)
qed

theorem prompt_well_formed_witness:
  "well_paired (the (for_prompt_annotated sample_env [TextInput] sample_history))"
proof -
  obtain prompt where "for_prompt_annotated sample_env [TextInput] sample_history = Some prompt"
    unfolding for_prompt_annotated_def normalize_equation by (simp add: sample_env_def)
  from prompt_well_formed [OF this] this show ?thesis by simp
qed

end
