(* ===== verification/History_Views.thy ===== *)
theory History_Views
  imports History_Properties
begin

text \<open>
  Readers of the history: snapshots of review evidence with their versions, the revision that shows
  user input, checkpoints of the evidence, and token estimates. The operations of the manager that
  a session performs on its own history are the steps of a machine; trimming the oldest item is done
  on a clone while compacting and restoring evidence while replaying a rollout, so they are not.
\<close>

section \<open>Runs of the manager\<close>

datatype 'v history_op =
    RecordItems truncation_policy "'v envelope list"
  | ReplaceAll "'v envelope list"
  | ReplaceCompacted "'v envelope list"
  | Rollback nat
  | SetReference "'v option"
  | SetBaseline 'v
  | UpdateTokens token_usage "int option"
  | FillTokens int

fun history_step :: "'v history_env \<Rightarrow> 'v history_op \<Rightarrow> 'v context_manager \<Rightarrow> 'v context_manager" where
  "history_step env (RecordItems policy items) cm =
     (case record_annotated_items env policy items cm of Some cm' \<Rightarrow> cm' | None \<Rightarrow> cm)"
| "history_step env (ReplaceAll items) cm = replace_annotated env items cm"
| "history_step env (ReplaceCompacted items) cm = replace_compacted env items cm"
| "history_step env (Rollback n) cm = drop_last_n_user_turns env n cm"
| "history_step env (SetReference item) cm = set_reference_context_item item cm"
| "history_step env (SetBaseline snapshot) cm = set_world_state_baseline snapshot cm"
| "history_step env (UpdateTokens usage window) cm = update_token_info usage window cm"
| "history_step env (FillTokens window) cm = set_token_usage_full window cm"

definition review_version_of :: "'v context_manager \<Rightarrow> u64" where
  "review_version_of cm = review_history_version (conversation_history_snapshot cm)"

definition review_items_of :: "'v history_env \<Rightarrow> 'v context_manager \<Rightarrow> 'v response_item list" where
  "review_items_of env cm = review_items (he_parsers env) (conversation_history_snapshot cm)"

lemma review_version_cases:
  "review_version_of cm = (case cm_review_history cm of Some th \<Rightarrow> th_generation th | None \<Rightarrow> cm_history_version cm)"
  by (cases "cm_review_history cm") (simp_all add: review_version_of_def review_history_version_def conversation_history_snapshot_def)

lemma review_items_cases:
  "review_items_of env cm = (case cm_review_history cm of Some th \<Rightarrow> map fst (th_items th)
     | None \<Rightarrow> filter (\<lambda>item. \<not> is_contextual_user_item (he_parsers env) item) (map env_item (cm_items cm)))"
  by (cases "cm_review_history cm") (simp_all add: review_items_of_def review_items_def snapshot_items_def conversation_history_snapshot_def)

text \<open>A step that only touches the evidence moves the view as the evidence moves.\<close>

lemma extends_by_review:
  assumes "cm_review_history cm = Some th" "cm_review_history cm' = Some th'" "extends_view th_generation th_items th th'"
  shows "extends_view review_version_of (review_items_of env) cm cm'"
  using assms by (auto simp: extends_view_def review_version_cases review_items_cases map_mono_prefix)

lemma extends_by_version:
  assumes "cm_review_history cm = None" "cm_review_history cm' = None"
    "cm_history_version cm' = saturating_add (cm_history_version cm) 1"
  shows "extends_view review_version_of (review_items_of env) cm cm'"
  using assms by (intro extends_view_bump) (simp add: review_version_cases)

lemma record_one_extends:
  assumes "record_one env policy e cm = Some cm'"
  shows "extends_view review_version_of (review_items_of env) cm cm'"
proof (cases "cm_review_history cm")
  case None
  then have "cm_review_history cm' = None" "cm_history_version cm' = cm_history_version cm" "prefix (cm_items cm) (cm_items cm')"
    using assms by (auto simp: record_one_def Let_def split: if_splits)
  then obtain more where "cm_items cm' = cm_items cm @ more" by (auto simp: prefix_def)
  then show ?thesis
    using None \<open>cm_review_history cm' = None\<close> \<open>cm_history_version cm' = cm_history_version cm\<close>
    by (intro extends_view_append) (simp_all add: review_version_cases review_items_cases)
next
  case (Some th)
  then obtain th' where "cm_review_history cm' = Some th'" "extends_view th_generation th_items th th'"
    using assms transcript_record_extends [of th] extends_view_refl [of th_generation th_items th]
    by (auto simp: record_one_def Let_def split: if_splits)
  with Some show ?thesis by (rule extends_by_review)
qed

lemma record_extends:
  "record_annotated_items env policy es cm = Some cm' \<Longrightarrow> extends_view review_version_of (review_items_of env) cm cm'"
proof (induction es arbitrary: cm)
  case (Cons e es)
  then obtain cm1 where "record_one env policy e cm = Some cm1" "record_annotated_items env policy es cm1 = Some cm'"
    by (auto simp: bind_eq_Some_conv)
  then show ?case using extends_view_trans [OF record_one_extends Cons.IH] by blast
qed (simp add: extends_view_refl)

lemma replace_annotated_extends:
  "extends_view review_version_of (review_items_of env) cm (replace_annotated env items cm)"
proof (cases "cm_review_history cm")
  case None
  then show ?thesis by (intro extends_by_version) (simp_all add: replace_annotated_def)
next
  case (Some th)
  then show ?thesis
    by (intro extends_by_review [OF Some _ transcript_reset_extends]) (simp add: replace_annotated_def)
qed

lemma replace_compacted_extends:
  "extends_view review_version_of (review_items_of env) cm (replace_compacted env items cm)"
proof (cases "cm_review_history cm")
  case None
  let ?v = "cm_history_version cm"
  obtain th where th: "cm_review_history (replace_compacted env items cm) = Some th"
      "extends_view th_generation th_items (transcript_new (saturating_add ?v 1)) th"
    using None transcript_records_extend by (fastforce simp: replace_compacted_def)
  then have "saturating_add ?v 1 \<le> th_generation th"
    by (simp add: extends_view_def transcript_new_def)
  then have "?v \<le> th_generation th" "?v = th_generation th \<longrightarrow> ?v = - 1"
    using saturating_add_one_ge [of ?v] saturating_add_one_gr [of ?v] by force+
  then show ?thesis using None th(1) by (auto simp: extends_view_def review_version_cases)
next
  case (Some th)
  then show ?thesis
    by (intro extends_by_review [OF Some _ extends_view_refl]) (simp add: replace_compacted_def)
qed

lemma rollback_extends:
  "extends_view review_version_of (review_items_of env) cm (drop_last_n_user_turns env n cm)"
proof (cases "n = 0 \<or> user_message_positions (he_parsers env) (cm_items cm) = []")
  case True
  then show ?thesis
    by (auto simp: drop_last_n_user_turns_def Let_def extends_view_refl replace_annotated_extends)
next
  case False
  let ?ps = "user_message_positions (he_parsers env) (cm_items cm)"
  have n: "0 < n" "?ps \<noteq> []" using False by auto
  note result = rollback_result [OF refl n(2) n(1)]
  show ?thesis
  proof (cases "cm_review_history cm")
    case None
    with result show ?thesis by (intro extends_by_version) simp_all
  next
    case (Some th)
    with result(5) show ?thesis by (intro extends_by_review [OF Some _ truncate_before_extends]) simp
  qed
qed

interpretation conversation_view: versioned_view "history_step env" review_version_of "review_items_of env" for env
proof (unfold_locales, goal_cases)
  case (1 s x)
  have same: "extends_view review_version_of (review_items_of env) s s'"
    if "cm_review_history s' = cm_review_history s" "cm_history_version s' = cm_history_version s" "cm_items s' = cm_items s" for s'
    using that by (simp add: extends_view_def review_version_cases review_items_cases split: option.split)
  show ?case
  proof (cases x)
    case (RecordItems policy items)
    then show ?thesis by (auto simp: extends_view_refl record_extends split: option.split)
  qed (simp_all add: replace_annotated_extends replace_compacted_extends rollback_extends same
      set_reference_context_item_def set_world_state_baseline_def update_token_info_def set_token_usage_full_def)
qed

section \<open>Revisions\<close>

text \<open>Items whose texts fit the address space, which is every item a program can hold.\<close>

fun payload_ok :: "output_payload \<Rightarrow> bool" where
  "payload_ok p = (case body p of Text t \<Rightarrow> length t \<le> usize_max | ContentItems items \<Rightarrow> list_all item_ok items)"

fun storable :: "'v response_item \<Rightarrow> bool" where
  "storable (response_item.FunctionCallOutput _ _ _ _ output _) = payload_ok output"
| "storable (CustomToolCallOutput _ _ _ output _) = payload_ok output"
| "storable _ = True"

lemma truncate_payload_total:
  assumes "payload_ok output"
  shows "\<exists>output'. truncate_function_output_payload output policy estimate = Some output'"
proof (cases "body output")
  case (Text t)
  then show ?thesis
    using assms truncate_text_ok [of t policy] by (auto simp: truncate_function_output_payload_def)
next
  case (ContentItems items)
  then have "list_all item_ok items" using assms by simp
  then show ?thesis
    using push_items_ok [OF items_start _ \<open>list_all item_ok items\<close>, of policy estimate] ContentItems
    by (fastforce simp: truncate_function_output_payload_def truncate_function_output_items_with_policy_def accounted_def)
qed

lemma truncate_recorded_total: "storable item \<Longrightarrow> \<exists>item'. truncate_recorded env policy metadata item = Some item'"
  by (cases item) (auto simp: truncate_payload_total simp del: payload_ok.simps)

fun shows_user_input :: "'v history_op \<Rightarrow> bool" where
  "shows_user_input (RecordItems _ items) = list_ex (\<lambda>e. is_user_authorization_message (env_item e)) items"
| "shows_user_input (ReplaceAll _) = True"
| "shows_user_input (Rollback n) = (0 < n)"
| "shows_user_input _ = False"

fun op_storable :: "'v history_op \<Rightarrow> bool" where
  "op_storable (RecordItems _ items) = list_all (\<lambda>e. storable (env_item e)) items"
| "op_storable _ = True"

definition counts_input :: "u64 \<Rightarrow> bool \<Rightarrow> u64 \<Rightarrow> bool" where
  "counts_input r input r' \<longleftrightarrow> r \<le> r' \<and> (r \<noteq> - 1 \<longrightarrow> (r' = r \<longleftrightarrow> \<not> input))"

lemma counts_input_trans: "counts_input r a r' \<Longrightarrow> counts_input r' b r'' \<Longrightarrow> counts_input r (a \<or> b) r''"
  unfolding counts_input_def by (metis order.antisym order.trans)

lemma counts_input_one: "counts_input r True (saturating_add r 1)"
  using saturating_add_one_ge [of r] saturating_add_one_gr [of r] by (auto simp: counts_input_def)

lemma counts_input_none: "counts_input r False r"
  by (simp add: counts_input_def)

lemma authorization_is_api: "is_user_authorization_message item \<Longrightarrow> is_api_message item"
  by (cases item) (auto simp: lit_eval)

lemma record_one_total:
  assumes "storable (env_item e)"
  shows "\<exists>cm'. record_one env policy e cm = Some cm' \<and>
    counts_input (cm_user_message_revision cm) (is_user_authorization_message (env_item e)) (cm_user_message_revision cm')"
  using truncate_recorded_total [OF assms, of env policy "env_metadata e"] authorization_is_api [of "env_item e"]
  by (auto simp: record_one_def Let_def counts_input_one counts_input_none)

lemma record_total:
  "list_all (\<lambda>e. storable (env_item e)) es \<Longrightarrow>
   \<exists>cm'. record_annotated_items env policy es cm = Some cm' \<and>
     counts_input (cm_user_message_revision cm) (list_ex (\<lambda>e. is_user_authorization_message (env_item e)) es)
       (cm_user_message_revision cm')"
proof (induction es arbitrary: cm)
  case (Cons e es)
  obtain cm1 where "record_one env policy e cm = Some cm1"
      "counts_input (cm_user_message_revision cm) (is_user_authorization_message (env_item e)) (cm_user_message_revision cm1)"
    using record_one_total [of e env policy cm] Cons.prems by auto
  moreover obtain cm2 where "record_annotated_items env policy es cm1 = Some cm2"
      "counts_input (cm_user_message_revision cm1) (list_ex (\<lambda>e. is_user_authorization_message (env_item e)) es)
         (cm_user_message_revision cm2)"
    using Cons.IH [of cm1] Cons.prems by auto
  ultimately show ?case using counts_input_trans by auto
qed (simp add: counts_input_none)

lemma rollback_revision:
  "0 < n \<Longrightarrow> cm_user_message_revision (drop_last_n_user_turns env n cm) = saturating_add (cm_user_message_revision cm) 1"
proof (cases "user_message_positions (he_parsers env) (cm_items cm) = []")
  case False
  assume "0 < n"
  then obtain c ref review where "drop_last_n_user_turns env n cm =
      (replace_annotated env (rolled_back env c cm) (cm\<lparr>cm_review_history := None, cm_reference_context_item := ref\<rparr>))
      \<lparr>cm_review_history := review\<rparr>"
    using rollback_equation [OF _ False] by blast
  then show ?thesis by (simp add: replace_annotated_def)
qed (simp add: drop_last_n_user_turns_def Let_def replace_annotated_def)

lemma rollback_zero: "drop_last_n_user_turns env 0 cm = cm"
  by (simp add: drop_last_n_user_turns_def)

lemma step_counts_input:
  "op_storable x \<Longrightarrow>
   counts_input (cm_user_message_revision cm) (shows_user_input x) (cm_user_message_revision (history_step env x cm))"
proof (cases x)
  case (RecordItems policy items)
  then show "op_storable x \<Longrightarrow> ?thesis" using record_total [of items env policy cm] by auto
next
  case (Rollback n)
  then show ?thesis
    by (cases "n = 0") (simp_all add: rollback_revision counts_input_one counts_input_none rollback_zero)
qed (simp_all add: counts_input_one counts_input_none replace_annotated_def replace_compacted_def
    set_reference_context_item_def set_world_state_baseline_def update_token_info_def set_token_usage_full_def)

lemma run_counts_input:
  "list_all op_storable xs \<Longrightarrow>
   counts_input (cm_user_message_revision cm) (list_ex shows_user_input xs)
     (cm_user_message_revision (run_ops (history_step env) xs cm))"
proof (induction xs arbitrary: cm)
  case (Cons x xs)
  then show ?case using counts_input_trans [OF step_counts_input Cons.IH] by simp
qed (simp add: counts_input_none)

section \<open>Checkpoints of the evidence\<close>

definition sized :: "'v item_sizes \<Rightarrow> 'v transcript_history \<Rightarrow> bool" where
  "sized sz th \<longleftrightarrow> (\<forall>x\<in>set (th_items th). measured_size sz (fst x) = Some (snd x))"

lemma evict_subset: "set (evict u count bytes xs) \<subseteq> set xs"
  by (induction u count bytes xs rule: evict.induct) auto

lemma append_measured_subset: "set (th_items (append_measured item used th)) \<subseteq> insert (item, used) (set (th_items th))"
  using evict_subset [of "is_user_message item" _ _ "th_items th"]
  unfolding append_measured_items by (simp split: if_split) blast

lemma append_measured_sized: "measured_size sz item = Some used \<Longrightarrow> sized sz th \<Longrightarrow> sized sz (append_measured item used th)"
  using append_measured_subset [of item used th] by (fastforce simp: sized_def)

lemma transcript_record_sized: "sized sz th \<Longrightarrow> sized sz (transcript_record sz item th)"
  using transcript_record_cases [of sz item th] append_measured_sized [of sz _ _ th] by metis

lemma transcript_records_sized: "sized sz th \<Longrightarrow> sized sz (fold (transcript_record sz) items th)"
  by (induction items arbitrary: th) (simp_all add: transcript_record_sized)

lemma transcript_reset_sized: "sized sz (transcript_reset sz items th)"
  unfolding transcript_reset_def by (rule transcript_records_sized) (simp add: sized_def)

lemma transcript_new_ok: "sized sz (transcript_new g)" "within_limits (transcript_new g)"
  by (simp_all add: sized_def within_limits_def transcript_new_def)

lemma transcript_records_limits:
  "within_limits th \<Longrightarrow> sz_fixed sz \<le> MAX_BYTES_PER_KIND \<Longrightarrow> within_limits (fold (transcript_record sz) items th)"
  by (induction items arbitrary: th) (simp_all add: transcript_record_limits)

lemma truncate_before_sized: "sized sz th \<Longrightarrow> sized sz (truncate_before item th)"
  by (auto simp: sized_def truncate_before_def Let_def dest: in_set_takeD)

text \<open>Recording again what fits the limits evicts nothing.\<close>

lemma rerecord:
  assumes "sized sz \<lparr>th_items = xs @ ys, th_generation = g\<rparr>" "within_limits \<lparr>th_items = xs @ ys, th_generation = g\<rparr>"
  shows "fold (transcript_record sz) (map fst ys) \<lparr>th_items = xs, th_generation = g\<rparr> = \<lparr>th_items = xs @ ys, th_generation = g\<rparr>"
  using assms
proof (induction ys arbitrary: xs)
  case (Cons y ys)
  let ?u = "is_user_message (fst y)"
  have measured: "measured_size sz (fst y) = Some (snd y)" using Cons.prems(1) by (simp add: sized_def)
  have "kind_count ?u (xs @ y # ys) \<le> MAX_ITEMS_PER_KIND" "kind_bytes ?u (xs @ y # ys) \<le> MAX_BYTES_PER_KIND"
    using Cons.prems(2) by (simp_all only: within_limits_def transcript_history.select_convs)
  then have "kind_count ?u xs < MAX_ITEMS_PER_KIND" "snd y + kind_bytes ?u xs \<le> MAX_BYTES_PER_KIND"
    by (simp_all add: same_kind_def)
  then have "transcript_record sz (fst y) \<lparr>th_items = xs, th_generation = g\<rparr> = \<lparr>th_items = xs @ [y], th_generation = g\<rparr>"
    using measured by (subst transcript_record.simps) (simp add: append_measured_def fold_count_bytes Let_def)
  with Cons.IH [of "xs @ [y]"] Cons.prems show ?case by simp
qed simp

definition evidence_ok :: "'v history_env \<Rightarrow> 'v context_manager \<Rightarrow> bool" where
  "evidence_ok env cm \<longleftrightarrow>
     (case cm_review_history cm of None \<Rightarrow> True | Some th \<Rightarrow> sized (mi_sizes (he_media env)) th \<and> within_limits th)"

lemma record_evidence:
  assumes "sz_fixed (mi_sizes (he_media env)) \<le> MAX_BYTES_PER_KIND"
  shows "evidence_ok env cm \<Longrightarrow> record_annotated_items env policy es cm = Some cm' \<Longrightarrow> evidence_ok env cm'"
proof (induction es arbitrary: cm)
  case (Cons e es)
  then obtain cm1 where cm1: "record_one env policy e cm = Some cm1" "record_annotated_items env policy es cm1 = Some cm'"
    by (auto simp: bind_eq_Some_conv)
  have "evidence_ok env cm1"
    using cm1(1) Cons.prems(1) assms
    by (auto simp: record_one_def Let_def evidence_ok_def transcript_record_sized transcript_record_limits
        split: if_splits option.splits)
  then show ?case using Cons.IH cm1(2) by blast
qed simp

lemma replace_evidence:
  "sz_fixed (mi_sizes (he_media env)) \<le> MAX_BYTES_PER_KIND \<Longrightarrow> evidence_ok env (replace_annotated env items cm)"
  by (auto simp: evidence_ok_def replace_annotated_def transcript_reset_sized transcript_reset_limits split: option.splits)

lemma compact_evidence:
  "sz_fixed (mi_sizes (he_media env)) \<le> MAX_BYTES_PER_KIND \<Longrightarrow> evidence_ok env cm \<Longrightarrow> evidence_ok env (replace_compacted env items cm)"
  by (auto simp: evidence_ok_def replace_compacted_def transcript_records_sized transcript_records_limits transcript_new_ok
      split: option.splits)

lemma truncate_before_limits: "within_limits th \<Longrightarrow> within_limits (truncate_before item th)"
  by (simp add: truncate_before_def within_limits_take)

lemma rollback_evidence:
  assumes "sz_fixed (mi_sizes (he_media env)) \<le> MAX_BYTES_PER_KIND" "evidence_ok env cm"
  shows "evidence_ok env (drop_last_n_user_turns env n cm)"
proof (cases "n = 0 \<or> user_message_positions (he_parsers env) (cm_items cm) = []")
  case True
  then show ?thesis using assms by (auto simp: drop_last_n_user_turns_def Let_def replace_evidence)
next
  case False
  then have n: "0 < n" "user_message_positions (he_parsers env) (cm_items cm) \<noteq> []" by auto
  from rollback_result(5) [OF refl n(2) n(1)] assms(2) show ?thesis
    by (auto simp: evidence_ok_def truncate_before_sized truncate_before_limits split: option.splits)
qed

interpretation evidence: guarded_machine "history_step env" "evidence_ok env"
    "\<lambda>_ _. sz_fixed (mi_sizes (he_media env)) \<le> MAX_BYTES_PER_KIND" for env
proof (unfold_locales, goal_cases)
  case (1 s x)
  then show ?case
  proof (cases x)
    case (RecordItems policy items)
    with 1 show ?thesis by (auto simp: record_evidence split: option.split)
  qed (simp_all add: replace_evidence compact_evidence rollback_evidence,
      simp_all add: evidence_ok_def set_reference_context_item_def set_world_state_baseline_def
        update_token_info_def set_token_usage_full_def)
qed

lemma restore_checkpoint:
  assumes "evidence_ok env cm"
  shows "guardian_history_checkpoint (restore_guardian_history env (guardian_history_checkpoint cm) cm') =
         guardian_history_checkpoint cm"
proof (cases "cm_review_history cm")
  case None
  then show ?thesis by (simp add: guardian_history_checkpoint_def restore_guardian_history_def Let_def)
next
  case (Some th)
  have "fold (transcript_record (mi_sizes (he_media env))) (map fst (th_items th)) \<lparr>th_items = [], th_generation = g\<rparr> =
      \<lparr>th_items = th_items th, th_generation = g\<rparr>" for g
    using rerecord [of "mi_sizes (he_media env)" "[]" "th_items th" g] assms Some
    by (simp add: evidence_ok_def sized_def within_limits_def)
  with Some show ?thesis
    by (simp add: guardian_history_checkpoint_def restore_guardian_history_def transcript_reset_def transcript_new_def Let_def)
qed

section \<open>Estimates\<close>

lemma i64_of_usize_range: "0 \<le> i64_of_usize n" "i64_of_usize n \<le> i64_max"
  by (simp_all add: i64_of_usize_def i64_max_def)

lemma estimate_range: "0 \<le> estimate_item_token_count mi item" "estimate_item_token_count mi item \<le> i64_max"
  using i64_of_usize_range
  by (simp_all add: estimate_item_token_count_def approx_tokens_from_byte_count_i64_def) (simp add: i64_max_def)

lemma i64_add_range: "0 \<le> a \<Longrightarrow> 0 \<le> b \<Longrightarrow> i64_add a b = min i64_max (a + b)"
  by (simp add: i64_add_def clamp_i64_def i64_max_def)

lemma sum_tokens_from:
  "0 \<le> acc \<Longrightarrow> acc \<le> i64_max \<Longrightarrow>
   foldl (\<lambda>acc item. i64_add acc (estimate_item_token_count mi item)) acc items =
     min i64_max (acc + sum_list (map (estimate_item_token_count mi) items))"
proof (induction items arbitrary: acc)
  case (Cons item items)
  have nonneg: "0 \<le> sum_list (map (estimate_item_token_count mi) items)"
    by (intro sum_list_nonneg) (auto simp: estimate_range)
  have step: "i64_add acc (estimate_item_token_count mi item) = min i64_max (acc + estimate_item_token_count mi item)"
    using Cons.prems(1) estimate_range(1) by (rule i64_add_range)
  have range: "0 \<le> min i64_max (acc + estimate_item_token_count mi item)"
    using Cons.prems estimate_range(1) [of mi item] by simp
  show ?case
    unfolding foldl_Cons step using Cons.IH [OF range] nonneg by (simp add: add.assoc min_def)
qed simp

section \<open>Readers\<close>



text \<open>
  C35. The user-message revision shows user input: it never goes back, and it is unchanged by a run
  exactly when no user authorisation was recorded and nothing was reset or rolled back. Compaction
  in particular leaves it alone.
\<close>
theorem revision_shows_user_input:
  assumes "list_all op_storable ops" "cm_user_message_revision cm \<noteq> - 1"
  shows "cm_user_message_revision cm \<le> cm_user_message_revision (run_ops (history_step env) ops cm) \<and>
    (cm_user_message_revision (run_ops (history_step env) ops cm) = cm_user_message_revision cm \<longleftrightarrow>
     \<not> list_ex shows_user_input ops)"
  using run_counts_input [OF assms(1), of cm env] assms(2) by (simp add: counts_input_def)

theorem revision_shows_user_input_witness:
  "cm_user_message_revision (run_ops (history_step sample_env) [ReplaceCompacted [], FillTokens 5] sample_history) =
     cm_user_message_revision sample_history"
  using revision_shows_user_input [of "[ReplaceCompacted [], FillTokens 5]" sample_history sample_env]
  by (simp add: sample_history_def context_manager_new_def)



text \<open>
  C39. The estimate of a history is the sum of the estimates of its items and of the instructions, or
  the largest amount when that does not fit; it is never negative and never wraps.
\<close>
theorem history_estimate_saturates:
  "estimate_token_count_with_base_instructions env base_text cm =
     Some (min i64_max (i64_of_usize (approx_token_count base_text) +
       sum_list (map (\<lambda>e. estimate_item_token_count (he_media env) (env_item e)) (cm_items cm))))"
proof -
  let ?total = "sum_list (map (estimate_item_token_count (he_media env)) (map env_item (cm_items cm)))"
  have nonneg: "0 \<le> ?total" by (intro sum_list_nonneg) (auto simp: estimate_range)
  have "sum_tokens (he_media env) (map env_item (cm_items cm)) = min i64_max (0 + ?total)"
    unfolding sum_tokens_def by (rule sum_tokens_from) (simp_all add: i64_max_def)
  then have "sum_tokens (he_media env) (map env_item (cm_items cm)) = min i64_max ?total" by simp
  moreover have "i64_add (i64_of_usize n) (min i64_max ?total) = min i64_max (i64_of_usize n + ?total)" for n
    using nonneg i64_of_usize_range [of n] by (subst i64_add_range) (auto simp: i64_max_def min_def)
  ultimately show ?thesis by (simp add: estimate_token_count_with_base_instructions_def o_def)
qed

end
