(* ===== verification/Shell_Syntax.thy ===== *)
theory Shell_Syntax
  imports Absolute_Path Utf8_Stream "HOL-Library.Multiset"
begin

text \<open>
  Reading shell commands: \<open>shell-command/src/bash.rs\<close> and \<open>detect_shell_type\<close> of \<open>shell_detect.rs\<close>. The
  tree-sitter library is a parameter: a function from a script to its syntax tree. A node is what the
  code reads of it, that is its kind, whether it is named, its byte range and its children; the text of a
  node is cut out of the script. Paths are those of a build for platforms other than Windows.
\<close>

section \<open>Syntax trees\<close>

datatype syntax_node =
  SyntaxNode (node_kind: str) (is_named: bool) (start_byte: nat) (end_byte: nat) (children: "syntax_node list")

record syntax_tree =
  root_node :: syntax_node
  has_error :: bool

definition named_children :: "syntax_node \<Rightarrow> syntax_node list" where
  "named_children n = filter is_named (children n)"

text \<open>\<open>Node::utf8_text\<close>; the range of a node lies within the script it was parsed from.\<close>

definition utf8_text :: "syntax_node \<Rightarrow> str \<Rightarrow> str option" where
  "utf8_text n src =
     (case from_utf8 (take (end_byte n - start_byte n) (drop (start_byte n) (as_bytes src))) of
        Inr s \<Rightarrow> Some s | Inl _ \<Rightarrow> None)"

lemma child_smaller: "c \<in> set (children n) \<Longrightarrow> size c < size n"
  by (cases n) (auto dest: size_list_estimation' [where f = size])

lemma named_child_smaller: "c \<in> set (named_children n) \<Longrightarrow> size c < size n"
  by (auto simp: named_children_def child_smaller)

definition stack_size :: "syntax_node list \<Rightarrow> nat" where
  "stack_size stack = sum_list (map size stack)"

lemma sum_sizes: "sum_list (map size (filter P ns)) \<le> size_list size ns"
  by (induction ns) auto

lemma stack_shrinks [simp]:
  "stack_size (rev (children n) @ stack) < stack_size (n # stack)"
  "stack_size (rev (named_children n) @ stack) < stack_size (n # stack)"
  "stack_size (named_children n @ stack) < stack_size (n # stack)"
  "stack_size stack < stack_size (n # stack)"
  using sum_sizes [of "\<lambda>_. True" "children n"] sum_sizes [of is_named "children n"]
  by (cases n; simp add: stack_size_def named_children_def flip: rev_map)+

section \<open>Which shell\<close>

datatype shell_type = Zsh | Bash | PowerShell | Sh | Cmd

text \<open>\<open>Path::file_stem\<close>: the file name up to its last dot, unless the dot is its first character.\<close>

definition file_stem :: "path \<Rightarrow> str option" where
  "file_stem p =
     map_option (\<lambda>n. case rsplit_once 46 n of Some (before, after) \<Rightarrow> if before = [] then n else before | None \<Rightarrow> n)
       (file_name p)"

lemma split_on_infix: "seg \<in> set (split_on c s) \<Longrightarrow> \<exists>a b. s = a @ seg @ b"
proof (induction s arbitrary: seg)
  case (Cons x xs)
  obtain y ys where y: "split_on c xs = y # ys" by (meson split_on_ne neq_Nil_conv)
  have "\<exists>b. xs = y @ b" using join_split_on [of c xs] y by (auto simp: join_with_Cons split: if_splits)
  with Cons y show ?case by (auto split: if_splits) (metis append_Cons append_Nil)+
qed simp

lemma file_name_segment: "file_name (components s) = Some f \<Longrightarrow> f \<in> set (split_on 47 s)"
proof -
  assume f: "file_name (components s) = Some f"
  then have "components s \<noteq> []" "last (components s) = Normal f"
    by (simp_all add: file_name_def split: if_split_asm component.split_asm)
  then have "Normal f \<in> set (components s)" using last_in_set by fastforce
  then have "Normal f \<in> set (segments (split_on 47 s))" by (simp add: components_def Let_def split: if_split_asm)
  then show ?thesis by (auto simp: segments_def segment_component.simps split: if_split_asm)
qed

lemma file_stem_prefix:
  "\<exists>r. f = (case rsplit_once 46 f of Some (before, after) \<Rightarrow> if before = [] then f else before | None \<Rightarrow> f) @ r"
proof (cases "rsplit_once 46 f")
  case (Some p)
  then have "f = fst p @ 46 # snd p" using rsplit_once_Some_iff [of 46 f "fst p" "snd p"] by simp
  then show ?thesis unfolding Some by (auto simp: case_prod_beta)
qed simp

lemma file_stem_shorter:
  assumes "file_stem (components s) = Some n" "components n \<noteq> components s"
  shows "length n < length s"
proof -
  obtain f where f: "file_name (components s) = Some f"
    and n: "n = (case rsplit_once 46 f of Some (before, after) \<Rightarrow> if before = [] then f else before | None \<Rightarrow> f)"
    using assms(1) unfolding file_stem_def by blast
  then obtain r where r: "f = n @ r" using file_stem_prefix by blast
  then obtain a b where s: "s = a @ f @ b" using split_on_infix [OF file_name_segment [OF f]] by blast
  have "n \<noteq> s" using assms(2) by blast
  then have "\<not> (a = [] \<and> r = [] \<and> b = [])" unfolding s r by (cases a) simp_all
  then have "0 < length a + length r + length b" by simp
  then show ?thesis unfolding s r by simp
qed

function detect_shell_type :: "str \<Rightarrow> shell_type option" where
  "detect_shell_type shell_path =
     (if shell_path = lit ''zsh'' then Some Zsh
      else if shell_path = lit ''sh'' then Some Sh
      else if shell_path = lit ''cmd'' then Some Cmd
      else if shell_path = lit ''bash'' then Some Bash
      else if shell_path = lit ''pwsh'' then Some PowerShell
      else if shell_path = lit ''powershell'' then Some PowerShell
      else (case file_stem (components shell_path) of
              Some shell_name \<Rightarrow>
                if components shell_name \<noteq> components shell_path then detect_shell_type shell_name else None
            | None \<Rightarrow> None))"
  by pat_completeness auto
termination
  by (relation "measure length") (auto dest: file_stem_shorter)

declare detect_shell_type.simps [simp del]

definition extract_bash_command :: "str list \<Rightarrow> (str \<times> str) option" where
  "extract_bash_command cmd =
     (case cmd of
        [shell, flag, script] \<Rightarrow>
          if (flag \<noteq> lit ''-lc'' \<and> flag \<noteq> lit ''-c'')
             \<or> detect_shell_type shell \<notin> {Some Zsh, Some Bash, Some Sh}
          then None else Some (shell, script)
      | _ \<Rightarrow> None)"

section \<open>Words\<close>

text \<open>The characters that a shell may expand: braces, globs, escapes, tilde, caret, hash, dollar, backtick.\<close>

definition EXPANSION_CHARS :: str where
  "EXPANSION_CHARS = [123, 125, 42, 63, 91, 93, 92, 126, 94, 35, 36, 96]"

definition is_word_kind :: "syntax_node \<Rightarrow> bool" where
  "is_word_kind n \<longleftrightarrow> node_kind n = lit ''word'' \<or> node_kind n = lit ''number''"

definition is_literal_word_or_number :: "str \<Rightarrow> syntax_node \<Rightarrow> bool" where
  "is_literal_word_or_number src n \<longleftrightarrow>
     is_word_kind n \<and> named_children n = []
     \<and> (case utf8_text n src of
          Some w \<Rightarrow> \<not> starts_with [61] w \<and> \<not> list_ex (\<lambda>c. c \<in> set EXPANSION_CHARS) w
        | None \<Rightarrow> False)"

text \<open>In double quotes a backslash before one of \<open>$\<close>, a backtick, a quote, a backslash or a line end is removed.\<close>

definition has_escape :: "str \<Rightarrow> bool" where
  "has_escape s \<longleftrightarrow> (let bs = as_bytes s in list_ex (\<lambda>(a, b). a = 92 \<and> b \<in> {36, 96, 34, 92, 10}) (zip bs (tl bs)))"

definition parse_double_quoted_string :: "str \<Rightarrow> syntax_node \<Rightarrow> str option" where
  "parse_double_quoted_string src n =
     (if node_kind n \<noteq> lit ''string'' then None
      else if list_ex (\<lambda>part. node_kind part \<noteq> lit ''string_content'') (named_children n) then None
      else Option.bind (utf8_text n src) (\<lambda>raw.
           Option.bind (Option.bind (strip_prefix [34] raw) (strip_suffix [34])) (\<lambda>stripped.
             if has_escape stripped then None else Some stripped)))"

definition parse_raw_string :: "str \<Rightarrow> syntax_node \<Rightarrow> str option" where
  "parse_raw_string src n =
     (if node_kind n \<noteq> lit ''raw_string'' then None
      else Option.bind (utf8_text n src) (\<lambda>raw. Option.bind (strip_prefix [39] raw) (strip_suffix [39])))"

definition non_empty :: "str \<Rightarrow> str option" where
  "non_empty s = (if s = [] then None else Some s)"

function parse_literal_shell_word :: "str \<Rightarrow> syntax_node \<Rightarrow> str option" where
  "parse_literal_shell_word src n =
     (if is_word_kind n \<and> is_literal_word_or_number src n then utf8_text n src
      else if node_kind n = lit ''string'' then parse_double_quoted_string src n
      else if node_kind n = lit ''raw_string'' then parse_raw_string src n
      else if node_kind n = lit ''concatenation''
      then Option.bind (those (map (parse_literal_shell_word src) (named_children n))) (\<lambda>parts. non_empty (concat parts))
      else None)"
  by pat_completeness auto
termination
  by (relation "measure (\<lambda>(src, n). size n)") (auto dest: named_child_smaller)

declare parse_literal_shell_word.simps [simp del]

section \<open>Plain commands\<close>

definition plain_part :: "str \<Rightarrow> syntax_node \<Rightarrow> str option" where
  "plain_part src part =
     (if is_word_kind part then utf8_text part src
      else if node_kind part = lit ''string'' then parse_double_quoted_string src part
      else if node_kind part = lit ''raw_string'' then parse_raw_string src part
      else None)"

definition plain_child :: "str \<Rightarrow> syntax_node \<Rightarrow> str option" where
  "plain_child src child =
     (if node_kind child = lit ''command_name''
      then (case named_children child of
              [] \<Rightarrow> None
            | word_node # _ \<Rightarrow> if node_kind word_node \<noteq> lit ''word'' then None else utf8_text word_node src)
      else if node_kind child = lit ''concatenation''
      then Option.bind (those (map (plain_part src) (named_children child))) (\<lambda>parts. non_empty (concat parts))
      else plain_part src child)"

definition parse_plain_command_from_node :: "str \<Rightarrow> syntax_node \<Rightarrow> str list option" where
  "parse_plain_command_from_node src cmd =
     (if node_kind cmd \<noteq> lit ''command'' then None else those (map (plain_child src) (named_children cmd)))"

definition ALLOWED_KINDS :: "str list" where
  "ALLOWED_KINDS = map lit
     [''program'', ''list'', ''pipeline'', ''command'', ''command_name'', ''word'', ''string'', ''string_content'',
      ''raw_string'', ''number'', ''concatenation'']"

definition ALLOWED_PUNCT_TOKENS :: "str list" where
  "ALLOWED_PUNCT_TOKENS = [lit ''&&'', lit ''||'', lit '';'', lit ''|'', [34], [39]]"

definition is_command :: "syntax_node \<Rightarrow> bool" where
  "is_command n \<longleftrightarrow> node_kind n = lit ''command''"

definition allowed_node :: "str \<Rightarrow> syntax_node \<Rightarrow> bool" where
  "allowed_node src n =
     (if is_named n
      then node_kind n \<in> set ALLOWED_KINDS \<and> (is_word_kind n \<longrightarrow> is_literal_word_or_number src n)
      else \<not> (list_ex (\<lambda>c. c \<in> set (lit ''&;|'')) (node_kind n) \<and> node_kind n \<notin> set ALLOWED_PUNCT_TOKENS)
        \<and> (node_kind n \<in> set ALLOWED_PUNCT_TOKENS \<or> trim (node_kind n) = []))"

text \<open>The walk over all nodes; the last child that was pushed is the first that is popped.\<close>

function collect_plain_nodes :: "str \<Rightarrow> syntax_node list \<Rightarrow> syntax_node list \<Rightarrow> syntax_node list option" where
  "collect_plain_nodes src [] command_nodes = Some command_nodes"
| "collect_plain_nodes src (n # stack) command_nodes =
     (if \<not> allowed_node src n then None
      else collect_plain_nodes src (rev (children n) @ stack)
             (if is_named n \<and> is_command n then command_nodes @ [n] else command_nodes))"
  by pat_completeness auto
termination
  by (relation "measure (\<lambda>(src, stack, acc). stack_size stack)") auto

definition try_parse_word_only_commands_sequence :: "syntax_tree \<Rightarrow> str \<Rightarrow> str list list option" where
  "try_parse_word_only_commands_sequence tree src =
     (if has_error tree then None
      else Option.bind (collect_plain_nodes src [root_node tree] []) (\<lambda>command_nodes.
             those (map (parse_plain_command_from_node src) (sort_key start_byte command_nodes))))"

type_synonym shell_parser = "str \<Rightarrow> syntax_tree option"

definition parse_shell_script_into_commands :: "shell_parser \<Rightarrow> str \<Rightarrow> str list list option" where
  "parse_shell_script_into_commands try_parse_shell script =
     Option.bind (try_parse_shell script) (\<lambda>tree. try_parse_word_only_commands_sequence tree script)"

definition parse_shell_lc_plain_commands :: "shell_parser \<Rightarrow> str list \<Rightarrow> str list list option" where
  "parse_shell_lc_plain_commands try_parse_shell cmd =
     Option.bind (extract_bash_command cmd) (\<lambda>(_, script). parse_shell_script_into_commands try_parse_shell script)"

section \<open>Literal commands\<close>

fun literal_words :: "str \<Rightarrow> syntax_node list \<Rightarrow> str list \<Rightarrow> bool \<Rightarrow> str list option" where
  "literal_words src [] words found_command_name = (if found_command_name then Some words else None)"
| "literal_words src (child # cs) words found_command_name =
     (if node_kind child = lit ''command_name''
      then (case named_children child of
              [] \<Rightarrow> None
            | first # _ \<Rightarrow>
                (case parse_literal_shell_word src first of
                   Some command_name \<Rightarrow> literal_words src cs (words @ [command_name]) True
                 | None \<Rightarrow> None))
      else if found_command_name
      then (case parse_literal_shell_word src child of
              Some w \<Rightarrow> literal_words src cs (words @ [w]) True
            | None \<Rightarrow> literal_words src cs words True)
      else literal_words src cs words False)"

definition parse_literal_command_from_node :: "str \<Rightarrow> syntax_node \<Rightarrow> str list option" where
  "parse_literal_command_from_node src cmd =
     (if node_kind cmd \<noteq> lit ''command'' then None else literal_words src (named_children cmd) [] False)"

function collect_literal_commands :: "str \<Rightarrow> syntax_node list \<Rightarrow> str list list \<Rightarrow> str list list" where
  "collect_literal_commands src [] commands = commands"
| "collect_literal_commands src (n # stack) commands =
     collect_literal_commands src (rev (named_children n) @ stack)
       (if is_command n
        then (case parse_literal_command_from_node src n of Some cmd \<Rightarrow> commands @ [cmd] | None \<Rightarrow> commands)
        else commands)"
  by pat_completeness auto
termination
  by (relation "measure (\<lambda>(src, stack, acc). stack_size stack)") auto

definition parse_shell_lc_literal_commands :: "shell_parser \<Rightarrow> str list \<Rightarrow> str list list option" where
  "parse_shell_lc_literal_commands try_parse_shell cmd =
     Option.bind (extract_bash_command cmd) (\<lambda>(_, script).
     Option.bind (try_parse_shell script) (\<lambda>tree.
       if has_error tree then None else Some (collect_literal_commands script [root_node tree] [])))"

end
