(* ===== verification/Shell_Properties.thy ===== *)
theory Shell_Properties
  imports Shell_Syntax
begin

text \<open>
  What the two readings of a shell script have to do with each other. The walks of \<open>bash.rs\<close> are
  shown to visit every node, in closed form; a script that is accepted as plain commands consists of
  allowed nodes only, and its literal commands, which the search for dangerous commands uses, are
  exactly its plain commands, which the execution policy uses.
\<close>

section \<open>The order of a walk\<close>

definition kids :: "bool \<Rightarrow> syntax_node \<Rightarrow> syntax_node list" where
  "kids only_named n = (if only_named then named_children n else children n)"

lemma kid_smaller: "c \<in> set (kids b n) \<Longrightarrow> size c < size n"
  by (auto simp: kids_def child_smaller named_child_smaller split: if_splits)

function visit :: "bool \<Rightarrow> syntax_node \<Rightarrow> syntax_node list" where
  "visit b n = n # concat (map (visit b) (rev (kids b n)))"
  by pat_completeness auto
termination
  by (relation "measure (\<lambda>(b, n). size n)") (auto dest: kid_smaller)

declare visit.simps [simp del]

abbreviation nodes :: "syntax_tree \<Rightarrow> syntax_node list" where
  "nodes tree \<equiv> visit False (root_node tree)"

lemma visit_self [simp]: "n \<in> set (visit b n)"
  by (subst visit.simps) simp

lemma visit_kid: "c \<in> set (kids b n) \<Longrightarrow> set (visit b c) \<subseteq> set (visit b n)"
  by (subst (2) visit.simps) auto

lemma visit_trans: "c \<in> set (visit b n) \<Longrightarrow> set (visit b c) \<subseteq> set (visit b n)"
proof (induction n rule: measure_induct_rule [of size])
  case (less n)
  then consider "c = n" | k where "k \<in> set (kids b n)" "c \<in> set (visit b k)"
    by (subst (asm) visit.simps) auto
  then show ?case
  proof cases
    case 2
    then show ?thesis using less.IH [OF kid_smaller] visit_kid by blast
  qed simp
qed

lemma named_is_kid: "c \<in> set (named_children n) \<Longrightarrow> c \<in> set (kids False n)"
  by (simp add: kids_def named_children_def)

lemma visit_concat: "visit b n @ concat (map (visit b) stack) = n # concat (map (visit b) (rev (kids b n) @ stack))"
  by (subst visit.simps) simp

lemma collect_plain_nodes_eq:
  "collect_plain_nodes src stack acc =
     (let ns = concat (map (visit False) stack) in
      if list_all (allowed_node src) ns then Some (acc @ filter (\<lambda>n. is_named n \<and> is_command n) ns) else None)"
proof (induction src stack acc rule: collect_plain_nodes.induct)
  case (2 src n stack acc)
  have v: "concat (map (visit False) (n # stack)) = n # concat (map (visit False) (rev (children n) @ stack))"
    using visit_concat [of False n stack] by (simp add: kids_def)
  show ?case
  proof (cases "allowed_node src n")
    case True
    then show ?thesis unfolding v using 2 by (simp add: Let_def)
  next
    case False
    then show ?thesis unfolding v by (simp add: Let_def)
  qed
qed simp

lemma collect_literal_commands_eq:
  "collect_literal_commands src stack acc =
     acc @ List.map_filter (parse_literal_command_from_node src) (concat (map (visit True) stack))"
proof (induction src stack acc rule: collect_literal_commands.induct)
  case (2 src n stack acc)
  have v: "concat (map (visit True) (n # stack)) = n # concat (map (visit True) (rev (named_children n) @ stack))"
    using visit_concat [of True n stack] by (simp add: kids_def)
  have c: "\<not> is_command n \<Longrightarrow> parse_literal_command_from_node src n = None"
    by (simp add: parse_literal_command_from_node_def is_command_def)
  show ?case unfolding v collect_literal_commands.simps 2
    using c by (auto simp: map_filter_simps split: option.split)
qed (simp add: map_filter_simps)

section \<open>The grammar\<close>

text \<open>
  What the grammar of tree-sitter-bash gives: an anonymous node is a token and has no children, and
  in a command the assignments and redirections that may stand before the name are no words.
\<close>

definition WORD_KINDS :: "str list" where
  "WORD_KINDS = map lit [''word'', ''number'', ''string'', ''raw_string'', ''concatenation'']"

definition named_command :: "syntax_node \<Rightarrow> bool" where
  "named_command n \<longleftrightarrow>
     (case dropWhile (\<lambda>c. node_kind c \<noteq> lit ''command_name'') (named_children n) of
        [] \<Rightarrow> False
      | _ \<Rightarrow> list_all (\<lambda>c. node_kind c \<notin> set WORD_KINDS)
               (takeWhile (\<lambda>c. node_kind c \<noteq> lit ''command_name'') (named_children n)))"

definition grammatical :: "syntax_tree \<Rightarrow> bool" where
  "grammatical tree \<longleftrightarrow>
     list_all (\<lambda>n. (is_named n \<or> children n = []) \<and> (is_command n \<longrightarrow> named_command n)) (nodes tree)"

definition bash_grammar :: "shell_parser \<Rightarrow> bool" where
  "bash_grammar try_parse_shell \<longleftrightarrow>
     (\<forall>script tree. try_parse_shell script = Some tree \<longrightarrow> has_error tree \<or> grammatical tree)"

section \<open>Plain words are literal words\<close>

lemma those_Some_iff: "those xs = Some ys \<longleftrightarrow> xs = map Some ys"
  by (induction xs arbitrary: ys) (auto split: option.splits)

lemma those_map_mono:
  "those (map f xs) = Some ys \<Longrightarrow> (\<And>x y. x \<in> set xs \<Longrightarrow> f x = Some y \<Longrightarrow> g x = Some y) \<Longrightarrow> those (map g xs) = Some ys"
  by (auto simp: those_Some_iff list_eq_iff_nth_eq all_set_conv_all_nth)

lemma plain_part_literal:
  assumes "plain_part src n = Some w" "allowed_node src n" "is_named n"
  shows "parse_literal_shell_word src n = Some w"
  using assms by (subst parse_literal_shell_word.simps)
    (auto simp: plain_part_def allowed_node_def split: if_split_asm)

lemma word_not_concatenation: "node_kind n = lit ''concatenation'' \<Longrightarrow> \<not> is_word_kind n"
  by (simp add: is_word_kind_def lit_eval)

lemma plain_child_literal:
  assumes w: "plain_child src c = Some w" and ok: "list_all (allowed_node src) (visit False c)"
    and c: "is_named c" "node_kind c \<noteq> lit ''command_name''"
  shows "parse_literal_shell_word src c = Some w"
proof (cases "node_kind c = lit ''concatenation''")
  case True
  then obtain parts where p: "those (map (plain_part src) (named_children c)) = Some parts" "non_empty (concat parts) = Some w"
    using w c(2) unfolding plain_child_def by (auto simp: bind_eq_Some_conv)
  have "those (map (parse_literal_shell_word src) (named_children c)) = Some parts"
  proof (rule those_map_mono [OF p(1)])
    fix x y assume x: "x \<in> set (named_children c)" and y: "plain_part src x = Some y"
    have "x \<in> set (visit False c)" using visit_kid [OF named_is_kid [OF x]] by auto
    then have "allowed_node src x" using ok by (simp add: list_all_iff)
    then show "parse_literal_shell_word src x = Some y"
      using plain_part_literal [OF y] x by (simp add: named_children_def)
  qed
  then show ?thesis using p(2) True word_not_concatenation [OF True]
    by (subst parse_literal_shell_word.simps) (simp add: lit_eval)
next
  case False
  have "allowed_node src c" using ok by (simp add: list_all_iff)
  then show ?thesis using w c False unfolding plain_child_def by (simp add: plain_part_literal)
qed

lemma plain_name_literal:
  assumes "plain_child src c = Some w" "list_all (allowed_node src) (visit False c)" "node_kind c = lit ''command_name''"
  shows "\<exists>first rest. named_children c = first # rest \<and> parse_literal_shell_word src first = Some w"
proof -
  obtain first rest where f: "named_children c = first # rest" "node_kind first = lit ''word''" "utf8_text first src = Some w"
    using assms(1,3) by (auto simp: plain_child_def split: list.split_asm if_split_asm)
  have "first \<in> set (visit False c)" using visit_kid [OF named_is_kid, of first c] f(1) by auto
  then have "allowed_node src first" "is_named first"
    using assms(2) f(1) by (auto simp: list_all_iff named_children_def filter_eq_Cons_iff)
  then have "parse_literal_shell_word src first = Some w"
    using f(2,3) by (intro plain_part_literal) (simp_all add: plain_part_def is_word_kind_def)
  with f(1) show ?thesis by blast
qed

lemma literal_words_found:
  assumes "those (map (plain_child src) cs) = Some ws"
    and "\<And>c. c \<in> set cs \<Longrightarrow> is_named c \<and> list_all (allowed_node src) (visit False c)"
  shows "literal_words src cs words True = Some (words @ ws)"
  using assms
proof (induction cs arbitrary: ws words)
  case (Cons c cs)
  obtain w ws' where w: "plain_child src c = Some w" "those (map (plain_child src) cs) = Some ws'" "ws = w # ws'"
    using Cons.prems(1) by (auto split: option.split_asm)
  have c: "is_named c" "list_all (allowed_node src) (visit False c)" using Cons.prems(2) [of c] by simp_all
  show ?case
  proof (cases "node_kind c = lit ''command_name''")
    case True
    then show ?thesis using plain_name_literal [OF w(1) c(2)] Cons.IH [OF w(2)] Cons.prems(2) w(3) by force
  next
    case False
    then show ?thesis using plain_child_literal [OF w(1) c(2,1)] Cons.IH [OF w(2)] Cons.prems(2) w(3) by simp
  qed
qed simp

lemma named_command_first:
  assumes g: "named_command n" and ws: "those (map (plain_child src) (named_children n)) = Some ws"
  shows "\<exists>c cs. named_children n = c # cs \<and> node_kind c = lit ''command_name''"
proof (cases "named_children n")
  case Nil
  then show ?thesis using g by (simp add: named_command_def)
next
  case (Cons c cs)
  have "plain_child src c \<noteq> None" using ws Cons by (auto split: option.split_asm)
  then have "node_kind c = lit ''command_name'' \<or> node_kind c \<in> set WORD_KINDS"
    by (auto simp: plain_child_def plain_part_def is_word_kind_def WORD_KINDS_def split: if_split_asm)
  then show ?thesis using g Cons by (auto simp: named_command_def split: list.split_asm if_split_asm)
qed

lemma plain_is_literal_command:
  assumes ws: "parse_plain_command_from_node src n = Some ws" and g: "named_command n"
    and ok: "list_all (allowed_node src) (visit False n)"
  shows "parse_literal_command_from_node src n = Some ws"
proof -
  have n: "node_kind n = lit ''command''" and ws: "those (map (plain_child src) (named_children n)) = Some ws"
    using ws by (auto simp: parse_plain_command_from_node_def split: if_split_asm)
  obtain c cs where c: "named_children n = c # cs" "node_kind c = lit ''command_name''"
    using named_command_first [OF g ws] by blast
  have kid: "is_named x \<and> list_all (allowed_node src) (visit False x)" if "x \<in> set (c # cs)" for x
    using that ok visit_kid [OF named_is_kid, of x n] c(1)
    by (auto simp: list_all_iff named_children_def filter_eq_Cons_iff simp flip: c(1))
  have "literal_words src (c # cs) [] False = literal_words src (c # cs) [] True" using c(2) by simp
  then show ?thesis
    using literal_words_found [OF ws [unfolded c(1)] kid, of "[]"] n c(1) by (simp add: parse_literal_command_from_node_def)
qed

section \<open>Both readings find the same commands\<close>

lemma concat_map_filter:
  "(\<And>x. x \<in> set xs \<Longrightarrow> \<not> P x \<Longrightarrow> g x = []) \<Longrightarrow> (\<And>x. x \<in> set xs \<Longrightarrow> P x \<Longrightarrow> f x = g x) \<Longrightarrow>
   concat (map f (filter P xs)) = concat (map g xs)"
  by (induction xs) simp_all

lemma anonymous_no_command: "allowed_node src n \<Longrightarrow> \<not> is_named n \<Longrightarrow> \<not> is_command n"
  by (auto simp: allowed_node_def is_command_def ALLOWED_PUNCT_TOKENS_def trim_empty_iff is_whitespace_def lit_eval)

lemma filter_visit:
  assumes "list_all (\<lambda>n. (is_named n \<or> children n = []) \<and> allowed_node src n) (visit False n)"
  shows "filter is_command (visit True n) = filter (\<lambda>n. is_named n \<and> is_command n) (visit False n)"
  using assms
proof (induction n rule: measure_induct_rule [of size])
  case (less n)
  let ?g = "\<lambda>c. filter (\<lambda>n. is_named n \<and> is_command n) (visit False c)"
  have ok: "list_all (\<lambda>n. (is_named n \<or> children n = []) \<and> allowed_node src n) (visit False c)" if "c \<in> set (children n)" for c
    using less.prems visit_kid [of c False n] that by (auto simp: list_all_iff kids_def)
  have anon: "?g c = []" if "c \<in> set (rev (children n))" "\<not> is_named c" for c
    using ok [of c] that by (subst visit.simps) (auto simp: kids_def list_all_iff)
  have named: "filter is_command (visit True c) = ?g c" if "c \<in> set (rev (children n))" "is_named c" for c
    using less.IH ok that child_smaller by simp
  have "concat (map (\<lambda>c. filter is_command (visit True c)) (filter is_named (rev (children n))))
      = concat (map ?g (rev (children n)))"
    by (rule concat_map_filter [OF anon named])
  moreover have "is_command n \<longleftrightarrow> is_named n \<and> is_command n"
    using less.prems anonymous_no_command [of src n] by (auto simp: list_all_iff)
  ultimately show ?case
    by (subst (1 2) visit.simps) (simp add: kids_def named_children_def filter_concat rev_filter comp_def)
qed

lemma map_filter_those:
  "those (map f xs) = Some ys \<Longrightarrow> List.map_filter f xs = ys"
  by (induction xs arbitrary: ys) (auto simp: map_filter_simps split: option.split_asm)

lemma map_filter_filter: "(\<And>x. \<not> P x \<Longrightarrow> f x = None) \<Longrightarrow> List.map_filter f (filter P xs) = List.map_filter f xs"
  by (induction xs) (auto simp: map_filter_simps split: option.split)

lemma mset_those_sort:
  assumes "those (map f (sort_key k xs)) = Some ys"
  shows "\<exists>zs. those (map f xs) = Some zs \<and> mset zs = mset ys"
proof -
  have *: "map f (sort_key k xs) = map Some ys" using assms by (simp add: those_Some_iff)
  then have "\<forall>x \<in> set xs. f x \<noteq> None" by (metis in_set_conv_nth length_map nth_map option.distinct(1) set_sort)
  then have "map f xs = map Some (map (the \<circ> f) xs)" by simp
  moreover have "mset (map (the \<circ> f) xs) = mset (map (the \<circ> f) (sort_key k xs))" by simp
  moreover have "map (the \<circ> f) (sort_key k xs) = ys" using arg_cong [OF *, of "map the"] by (simp add: comp_def)
  ultimately show ?thesis by (metis those_Some_iff)
qed

lemma literal_of_plain:
  assumes g: "grammatical tree" and ok: "list_all (allowed_node script) (nodes tree)"
    and cs: "those (map (parse_plain_command_from_node script)
      (sort_key start_byte (filter (\<lambda>n. is_named n \<and> is_command n) (nodes tree)))) = Some cs"
  shows "mset (collect_literal_commands script [root_node tree] []) = mset cs"
proof -
  let ?ns = "filter (\<lambda>n. is_named n \<and> is_command n) (nodes tree)"
  let ?lit = "parse_literal_command_from_node script"
  obtain zs where zs: "those (map (parse_plain_command_from_node script) ?ns) = Some zs" "mset zs = mset cs"
    using mset_those_sort [OF cs] by blast
  have "those (map ?lit ?ns) = Some zs"
  proof (rule those_map_mono [OF zs(1)])
    fix n ws assume n: "n \<in> set ?ns" and ws: "parse_plain_command_from_node script n = Some ws"
    have "set (visit False n) \<subseteq> set (nodes tree)" using n visit_trans by auto
    then have "list_all (allowed_node script) (visit False n)" using ok by (auto simp: list_all_iff)
    moreover have "named_command n" using g n by (auto simp: grammatical_def list_all_iff)
    ultimately show "?lit n = Some ws" using plain_is_literal_command [OF ws] by blast
  qed
  then have "List.map_filter ?lit ?ns = zs" by (rule map_filter_those)
  moreover have "filter is_command (visit True (root_node tree)) = ?ns"
    using g ok by (intro filter_visit [of script]) (auto simp: grammatical_def list_all_iff)
  ultimately have "List.map_filter ?lit (visit True (root_node tree)) = zs"
    using map_filter_filter [of is_command ?lit "visit True (root_node tree)"]
    by (simp add: parse_literal_command_from_node_def is_command_def)
  then show ?thesis using zs(2) by (simp add: collect_literal_commands_eq)
qed

text \<open>
  A shell invocation that is accepted as plain commands was parsed without errors into a tree
  whose every node is allowed: no redirection, substitution, expansion or control flow is in it. There
  is one plain command for each command of the tree, and the literal commands that are searched for
  dangerous ones are, counted with repetitions, the same commands.
\<close>

theorem plain_script_is_literal:
  assumes g: "bash_grammar try_parse_shell" and cs: "parse_shell_lc_plain_commands try_parse_shell cmd = Some cs"
  shows "\<exists>shell script tree ls. extract_bash_command cmd = Some (shell, script) \<and> try_parse_shell script = Some tree
    \<and> \<not> has_error tree \<and> list_all (allowed_node script) (nodes tree)
    \<and> length cs = length (filter is_command (nodes tree))
    \<and> parse_shell_lc_literal_commands try_parse_shell cmd = Some ls \<and> mset ls = mset cs"
proof -
  obtain shell script tree where s: "extract_bash_command cmd = Some (shell, script)" "try_parse_shell script = Some tree"
      "try_parse_word_only_commands_sequence tree script = Some cs"
    using cs by (auto simp: parse_shell_lc_plain_commands_def parse_shell_script_into_commands_def bind_eq_Some_conv)
  have e: "\<not> has_error tree" and ok: "list_all (allowed_node script) (nodes tree)"
    and those: "those (map (parse_plain_command_from_node script)
      (sort_key start_byte (filter (\<lambda>n. is_named n \<and> is_command n) (nodes tree)))) = Some cs"
    using s(3) by (auto simp: try_parse_word_only_commands_sequence_def collect_plain_nodes_eq Let_def bind_eq_Some_conv
        split: if_split_asm)
  have "grammatical tree" using g s(2) e by (auto simp: bash_grammar_def)
  then have "mset (collect_literal_commands script [root_node tree] []) = mset cs"
    by (rule literal_of_plain [OF _ ok those])
  moreover have "filter (\<lambda>n. is_named n \<and> is_command n) (nodes tree) = filter is_command (nodes tree)"
    using ok anonymous_no_command by (intro filter_cong) (auto simp: list_all_iff)
  then have "length cs = length (filter is_command (nodes tree))"
    using those by (metis length_map length_sort those_Some_iff)
  ultimately show ?thesis using s e ok by (auto simp: parse_shell_lc_literal_commands_def)
qed

text \<open>A parser that knows one script, with the tree that tree-sitter gives for it.\<close>

definition sample_script :: str where
  "sample_script = lit ''rm -f x''"

definition sample_tree :: syntax_tree where
  "sample_tree = \<lparr>root_node = SyntaxNode (lit ''program'') True 0 7
     [SyntaxNode (lit ''command'') True 0 7
        [SyntaxNode (lit ''command_name'') True 0 2 [SyntaxNode (lit ''word'') True 0 2 []],
         SyntaxNode (lit ''word'') True 3 5 [], SyntaxNode (lit ''word'') True 6 7 []]],
     has_error = False\<rparr>"

definition sample_parser :: shell_parser where
  "sample_parser script = (if script = sample_script then Some sample_tree else None)"

lemma sample_grammar: "bash_grammar sample_parser"
proof -
  have "grammatical sample_tree" by code_simp
  then show ?thesis by (simp add: bash_grammar_def sample_parser_def)
qed

lemma sample_plain:
  "parse_shell_lc_plain_commands sample_parser [lit ''/bin/bash'', lit ''-lc'', sample_script] =
     Some [[lit ''rm'', lit ''-f'', lit ''x'']]"
  by code_simp

theorem plain_script_is_literal_witness:
  "\<exists>ls. parse_shell_lc_literal_commands sample_parser [lit ''/bin/bash'', lit ''-lc'', sample_script] = Some ls
    \<and> mset ls = {#[lit ''rm'', lit ''-f'', lit ''x'']#}"
  using plain_script_is_literal [OF sample_grammar sample_plain] by auto

end
