(* ===== verification/Powershell_Lowering.thy ===== *)
theory Powershell_Lowering
  imports Shell_Properties
begin

text \<open>
  PowerShell scripts as commands: \<open>shell-command/src/powershell.rs\<close> and the lowering of literal scripts
  in \<open>command_safety/powershell_tree_sitter.rs\<close>. The tree-sitter parser and the error of loading its
  grammar are parameters. Loops over an index into the characters of a command are recursions over
  the characters that are left; offsets into the script are bytes, and slicing a string inside a
  character panics, which is \<open>None\<close> in \<open>source_is_covered_by_commands\<close>.
\<close>

section \<open>Invocations\<close>

definition POWERSHELL_FLAGS :: "str list" where
  "POWERSHELL_FLAGS = map lit [''-nologo'', ''-noprofile'', ''-command'', ''-c'']"

fun find_powershell_script :: "str list \<Rightarrow> str option" where
  "find_powershell_script (flag # following # rest) =
     (if ascii_lower flag \<notin> set POWERSHELL_FLAGS then None
      else if ascii_lower flag = lit ''-command'' \<or> ascii_lower flag = lit ''-c'' then Some following
      else find_powershell_script (following # rest))"
| "find_powershell_script _ = None"

definition extract_powershell_command :: "str list \<Rightarrow> (str \<times> str) option" where
  "extract_powershell_command cmd =
     (if length cmd < 3 then None
      else if detect_shell_type (hd cmd) \<noteq> Some PowerShell then None
      else map_option (\<lambda>script. (hd cmd, script)) (find_powershell_script (tl cmd)))"

definition UTF8_OUTPUT_PREFIX :: str where
  "UTF8_OUTPUT_PREFIX = lit ''try { [Console]::OutputEncoding=[System.Text.Encoding]::UTF8 } catch {}'' @ [10]"

definition prefix_powershell_script_with_utf8 :: "str list \<Rightarrow> str list" where
  "prefix_powershell_script_with_utf8 cmd =
     (case extract_powershell_command cmd of
        None \<Rightarrow> cmd
      | Some (_, script) \<Rightarrow>
          butlast cmd @ [if starts_with UTF8_OUTPUT_PREFIX (trim_start script) then script else UTF8_OUTPUT_PREFIX @ script])"

section \<open>Words\<close>

fun parse_single_quoted :: "str \<Rightarrow> str \<Rightarrow> str + str \<times> str" where
  "parse_single_quoted [] val = Inl (lit ''unterminated single-quoted string'')"
| "parse_single_quoted (c # cs) val =
     (if c = 39
      then (case cs of
              [] \<Rightarrow> Inr (val, cs)
            | c' # cs' \<Rightarrow> if c' = 39 then parse_single_quoted cs' (val @ [39]) else Inr (val, cs))
      else parse_single_quoted cs (val @ [c]))"

definition decode_backtick_escape :: "uchar \<Rightarrow> uchar" where
  "decode_backtick_escape ch =
     (if ch = 48 then 0 else if ch = 97 then 7 else if ch = 98 then 8 else if ch = 102 then 12
      else if ch = 110 then 10 else if ch = 114 then 13 else if ch = 116 then 9 else if ch = 118 then 11 else ch)"

fun parse_double_quoted :: "str \<Rightarrow> str \<Rightarrow> str + str \<times> str" where
  "parse_double_quoted [] val = Inl (lit ''unterminated double-quoted string'')"
| "parse_double_quoted (c # cs) val =
     (if c = 34 then Inr (val, cs)
      else if c = 36 then Inl (lit ''expandable string contains variable syntax'')
      else if c = 96
      then (case cs of
              [] \<Rightarrow> Inl (lit ''trailing PowerShell escape'')
            | escaped # cs' \<Rightarrow>
                if escaped = 101 then Inl (lit ''PowerShell-version-dependent escape'')
                else if escaped = 117 \<and> starts_with [123] cs' then Inl (lit ''PowerShell Unicode escape'')
                else parse_double_quoted cs' (val @ [decode_backtick_escape escaped]))
      else parse_double_quoted cs (val @ [c]))"

text \<open>Dollar, at, quotes, parentheses, braces, brackets, semicolon, bar, ampersand, angle brackets, comma.\<close>

definition is_rejected_bare_character :: "uchar \<Rightarrow> bool" where
  "is_rejected_bare_character ch \<longleftrightarrow>
     ch \<in> {36, 64, 39, 34, 40, 41, 123, 125, 91, 93, 59, 124, 38, 62, 60, 44}"

text \<open>The \<open>Debug\<close> text of such a character: only a single quote is escaped.\<close>

definition debug_bare :: "uchar \<Rightarrow> str" where
  "debug_bare ch = (if ch = 39 then [39, 92, 39, 39] else [39, ch, 39])"

fun bare_word :: "str \<Rightarrow> str \<Rightarrow> str + str \<times> str" where
  "bare_word [] val = Inr (val, [])"
| "bare_word (c # cs) val =
     (if is_whitespace c then Inr (val, c # cs)
      else if c = 96
      then (case cs of
              [] \<Rightarrow> Inl (lit ''trailing PowerShell escape'')
            | escaped # cs' \<Rightarrow>
                if escaped = 101 then Inl (lit ''PowerShell-version-dependent escape'')
                else bare_word cs' (val @ [decode_backtick_escape escaped]))
      else if is_rejected_bare_character c then Inl (lit ''dynamic or structural bare character: '' @ debug_bare c)
      else bare_word cs (val @ [c]))"

definition parse_bare_word :: "str \<Rightarrow> str + str \<times> str" where
  "parse_bare_word chars =
     and_then (bare_word chars []) (\<lambda>(val, rest).
       if val = [] then Inl (lit ''empty bare word'') else Inr (val, rest))"

definition reject_unsupported_bare_word :: "str \<Rightarrow> str + unit" where
  "reject_unsupported_bare_word w =
     (if starts_with [45] w \<and> \<not> starts_with [45, 45] w \<and> 58 \<in> set w
      then Inl (lit ''attached PowerShell parameter value'')
      else if (case w of [] \<Rightarrow> False | c # _ \<Rightarrow> is_ascii_digit c)
              \<and> \<not> (w = [48] \<or> (\<not> starts_with [48] w \<and> list_all is_ascii_digit w))
      then Inl (lit ''non-canonical numeric-leading bare word'')
      else Inr ())"

text \<open>One word, whether it was bare, and what follows it.\<close>

definition next_word :: "str \<Rightarrow> str + (str \<times> str) \<times> bool" where
  "next_word chars =
     (case chars of
        [] \<Rightarrow> and_then (parse_bare_word chars) (\<lambda>w. Inr (w, True))
      | c # cs \<Rightarrow>
          if c = 39 then and_then (parse_single_quoted cs []) (\<lambda>w. Inr (w, False))
          else if c = 34 then and_then (parse_double_quoted cs []) (\<lambda>w. Inr (w, False))
          else and_then (parse_bare_word chars) (\<lambda>w. Inr (w, True)))"

lemma single_quoted_shorter: "parse_single_quoted cs val = Inr (w, rest) \<Longrightarrow> length rest < length cs"
  by (induction cs val rule: parse_single_quoted.induct) (auto split: if_splits list.splits)

lemma double_quoted_shorter: "parse_double_quoted cs val = Inr (w, rest) \<Longrightarrow> length rest < length cs"
  by (induction cs val rule: parse_double_quoted.induct) (auto split: if_splits list.splits)

lemma bare_word_shorter:
  "bare_word cs val = Inr (w, rest) \<Longrightarrow> length rest \<le> length cs \<and> (w \<noteq> val \<longrightarrow> length rest < length cs)"
  by (induction cs val rule: bare_word.induct) (auto split: if_splits list.splits)

lemma next_word_shorter: "next_word chars = Inr ((w, rest), bare) \<Longrightarrow> length rest < length chars"
  by (cases chars) (auto simp: next_word_def parse_bare_word_def and_then_Inr_iff simp del: bare_word.simps split: if_splits
      dest!: single_quoted_shorter double_quoted_shorter bare_word_shorter)

function lower_words :: "str \<Rightarrow> str list \<Rightarrow> str + str list" where
  "lower_words chars words =
     (let cs = dropWhile is_whitespace chars in
      if cs = [] \<or> hd cs = 35 then Inr words
      else (case next_word cs of
              Inl e \<Rightarrow> Inl e
            | Inr ((w, rest), is_bare) \<Rightarrow>
                if rest \<noteq> [] \<and> \<not> is_whitespace (hd rest) \<and> hd rest \<noteq> 35
                then Inl (lit ''adjacent/concatenated command elements'')
                else if w = [] then Inl (lit ''empty word'')
                else (case (if is_bare then reject_unsupported_bare_word w else Inr ()) of
                        Inl e \<Rightarrow> Inl e
                      | Inr _ \<Rightarrow> lower_words rest (words @ [w]))))"
  by pat_completeness auto
termination
proof (relation "measure (\<lambda>(chars, words). length chars)", goal_cases)
  case (2 chars words cs p q is_bare w rest u)
  then have "length rest < length (dropWhile is_whitespace chars)" using next_word_shorter by auto
  then show ?case using length_dropWhile_le [of is_whitespace chars] by simp
qed simp

declare lower_words.simps [simp del]

definition lower_command_text :: "str \<Rightarrow> str + str list" where
  "lower_command_text command_text =
     and_then (lower_words (trim command_text) []) (\<lambda>words.
       if words = [] then Inl (lit ''command lowered to no words'') else Inr words)"

section \<open>Masking inline parameters\<close>

definition is_inline_parameter_token_separator :: "uchar \<Rightarrow> bool" where
  "is_inline_parameter_token_separator ch \<longleftrightarrow> is_whitespace ch \<or> ch \<in> {124, 38, 59, 35, 62, 60, 40, 41, 123, 125}"

definition is_rejected_inline_parameter_character :: "uchar \<Rightarrow> bool" where
  "is_rejected_inline_parameter_character ch \<longleftrightarrow> is_whitespace ch \<or> is_rejected_bare_character ch \<or> ch = 96 \<or> ch = 35"

definition push_inline_parameter_equals :: "nat \<Rightarrow> str \<Rightarrow> nat list" where
  "push_inline_parameter_equals start tok =
     (if starts_with [45, 45] tok \<and> list_all (\<lambda>ch. \<not> is_rejected_inline_parameter_character ch) tok
      then (case position (\<lambda>c. c = 61) tok of
              Some i \<Rightarrow>
                let relative_equals = byte_len (take i tok) in
                if 2 < relative_equals \<and> relative_equals + 1 < byte_len tok then [start + relative_equals] else []
            | None \<Rightarrow> [])
      else [])"

fun inline_parameter_equals :: "nat \<Rightarrow> str \<Rightarrow> str \<Rightarrow> nat list" where
  "inline_parameter_equals start tok [] = push_inline_parameter_equals start tok"
| "inline_parameter_equals start tok (ch # rest) =
     (if is_inline_parameter_token_separator ch
      then push_inline_parameter_equals start tok @ inline_parameter_equals (start + byte_len tok + length (utf8_char ch)) [] rest
      else inline_parameter_equals start (tok @ [ch]) rest)"

definition inline_double_dash_parameter_equals :: "str \<Rightarrow> nat list" where
  "inline_double_dash_parameter_equals script = inline_parameter_equals 0 [] script"

definition mask_source :: "str \<Rightarrow> nat list" where
  "mask_source script = foldl (\<lambda>bs i. bs[i := 32]) (as_bytes script) (inline_double_dash_parameter_equals script)"

section \<open>The tree\<close>

function collect_command_nodes :: "syntax_node list \<Rightarrow> syntax_node list \<Rightarrow> syntax_node list" where
  "collect_command_nodes [] commands = commands"
| "collect_command_nodes (n # stack) commands =
     (if is_command n then collect_command_nodes stack (commands @ [n])
      else collect_command_nodes (named_children n @ stack) commands)"
  by pat_completeness auto
termination
  by (relation "measure (\<lambda>(stack, acc). stack_size stack)") auto

function has_requires_directive :: "str \<Rightarrow> syntax_node list \<Rightarrow> bool" where
  "has_requires_directive script [] = False"
| "has_requires_directive script (n # stack) =
     (if node_kind n = lit ''comment''
         \<and> (case utf8_text n script of
              Some comment \<Rightarrow> starts_with (lit ''#requires'') (ascii_lower (trim_start comment))
            | None \<Rightarrow> False)
      then True
      else has_requires_directive script (rev (named_children n) @ stack))"
  by pat_completeness auto
termination
  by (relation "measure (\<lambda>(script, stack). stack_size stack)") auto

definition ALLOWED_NAMED_KINDS :: "str list" where
  "ALLOWED_NAMED_KINDS = map lit
     [''program'', ''statement_list'', ''pipeline'', ''pipeline_chain'', ''pipeline_chain_tail'', ''command'',
      ''command_name'', ''command_elements'', ''command_argument_sep'', ''command_parameter'', ''generic_token'',
      ''array_literal_expression'', ''unary_expression'', ''string_literal'', ''verbatim_string_characters'',
      ''expandable_string_literal'', ''integer_literal'', ''decimal_integer_literal'', ''comment'', ''empty_statement'',
      ''expression_with_unary_operator'']"

definition is_allowed_named_kind :: "str \<Rightarrow> bool" where
  "is_allowed_named_kind k \<longleftrightarrow> k \<in> set ALLOWED_NAMED_KINDS"

function first_unrecognized_named_kind :: "syntax_node list \<Rightarrow> str option" where
  "first_unrecognized_named_kind [] = None"
| "first_unrecognized_named_kind (n # stack) =
     (if is_named n \<and> \<not> is_allowed_named_kind (node_kind n) then Some (node_kind n)
      else first_unrecognized_named_kind (rev (named_children n) @ stack))"
  by pat_completeness auto
termination
  by (relation "measure stack_size") auto

section \<open>Covering the source\<close>

text \<open>Cutting a string at a byte offset; an offset inside a character or behind the end panics.\<close>

fun split_bytes :: "nat \<Rightarrow> str \<Rightarrow> (str \<times> str) option" where
  "split_bytes n [] = (if n = 0 then Some ([], []) else None)"
| "split_bytes n (c # s) =
     (if n = 0 then Some ([], c # s)
      else if length (utf8_char c) \<le> n then map_option (\<lambda>(a, b). (c # a, b)) (split_bytes (n - length (utf8_char c)) s)
      else None)"

definition token_boundary :: "str \<Rightarrow> bool" where
  "token_boundary before \<longleftrightarrow> (case last_opt before of Some previous \<Rightarrow> is_whitespace previous \<or> previous = 59 | None \<Rightarrow> False)"

function covered :: "str \<Rightarrow> (nat \<times> nat) list \<Rightarrow> nat \<Rightarrow> bool \<Rightarrow> bool \<Rightarrow> nat \<Rightarrow> bool option" where
  "covered script ranges index can_chain needs_command paren_depth =
     (if \<not> index < byte_len script then Some (ranges = [] \<and> \<not> needs_command \<and> paren_depth = 0)
      else if ranges \<noteq> [] \<and> index = fst (hd ranges)
      then covered script (tl ranges) (snd (hd ranges)) True False paren_depth
      else (case split_bytes index script of
              None \<Rightarrow> None
            | Some (before, []) \<Rightarrow> Some False
            | Some (before, ch # rest) \<Rightarrow>
                let following = index + length (utf8_char ch) in
                if ch = 13 \<or> ch = 10 then covered script ranges following False needs_command paren_depth
                else if is_whitespace ch then covered script ranges following can_chain needs_command paren_depth
                else if ch = 59
                then (if needs_command then Some False
                      else covered script ranges following False needs_command paren_depth)
                else if ch = 40 \<and> \<not> can_chain
                then covered script ranges following can_chain needs_command (paren_depth + 1)
                else if ch = 41 \<and> 0 < paren_depth \<and> \<not> needs_command
                then covered script ranges following can_chain needs_command (paren_depth - 1)
                else if ch = 124 \<and> can_chain
                then covered script ranges (if starts_with [124] rest then following + 1 else following) False True paren_depth
                else if ch = 38 \<and> can_chain \<and> starts_with [38] rest
                then covered script ranges (following + 1) False True paren_depth
                else if ch = 35 \<and> \<not> needs_command
                then (if 0 < index \<and> \<not> token_boundary before then Some False
                      else covered script ranges (following + byte_len (takeWhile (\<lambda>c. c \<noteq> 13 \<and> c \<noteq> 10) rest))
                             can_chain needs_command paren_depth)
                else if ch = 60 \<and> starts_with [35] rest \<and> \<not> needs_command \<and> (index = 0 \<or> token_boundary before)
                then (case find_str [35, 62] rest of
                        None \<Rightarrow> Some False
                      | Some i \<Rightarrow>
                          covered script ranges (following + byte_len (take i rest) + 2) can_chain needs_command paren_depth)
                else Some False))"
  by pat_completeness auto
termination
  by (relation "measures [\<lambda>(script, ranges, index, a, b, c). length ranges, \<lambda>(script, ranges, index, a, b, c). byte_len script - index]")
    (auto simp: diff_less_mono2 add_pos_pos trans_less_add1)

declare covered.simps [simp del]

definition source_is_covered_by_commands :: "str \<Rightarrow> (nat \<times> nat) list \<Rightarrow> bool option" where
  "source_is_covered_by_commands script command_ranges = covered script command_ranges 0 False False 0"

section \<open>Lowering a script\<close>

record powershell_parser =
  grammar_error :: "str option"
  powershell_tree :: "str \<Rightarrow> syntax_tree option"

fun lower_nodes :: "str \<Rightarrow> syntax_node list \<Rightarrow> str + str list list" where
  "lower_nodes script [] = Inr []"
| "lower_nodes script (n # ns) =
     (case utf8_text n script of
        None \<Rightarrow> Inl (lit ''command source is not UTF-8'')
      | Some command_text \<Rightarrow>
          and_then (lower_command_text command_text) (\<lambda>cmd. and_then (lower_nodes script ns) (\<lambda>cmds. Inr (cmd # cmds))))"

definition check_commands :: "str list list \<Rightarrow> str + str list list" where
  "check_commands commands =
     (if list_ex (\<lambda>cmd. cmd \<noteq> [] \<and> ascii_lower (hd cmd) = lit ''using'') commands
      then Inl (lit ''using declarations require the PowerShell AST oracle'')
      else if list_ex (\<lambda>cmd. cmd = [] \<or> list_ex (\<lambda>w. w = []) cmd) commands
      then Inl (lit ''empty lowered command or word'')
      else Inr commands)"

definition lower_tree :: "str \<Rightarrow> syntax_tree \<Rightarrow> (str + str list list) option" where
  "lower_tree script tree =
     (let root = root_node tree; command_nodes = collect_command_nodes [root] [] in
      if has_error tree then Some (Inl (lit ''tree contains ERROR or missing nodes''))
      else if has_requires_directive script [root]
      then Some (Inl (lit ''requires directives can execute before command lowering''))
      else case first_unrecognized_named_kind [root] of
        Some k \<Rightarrow> Some (Inl (lit ''unrecognized named node: '' @ k))
      | None \<Rightarrow>
          if command_nodes = [] then Some (Inl (lit ''no literal command nodes''))
          else case lower_nodes script command_nodes of
            Inl e \<Rightarrow> Some (Inl e)
          | Inr commands \<Rightarrow>
              map_option (\<lambda>ok. if ok then check_commands commands else Inl (lit ''source outside literal command nodes''))
                (source_is_covered_by_commands script (map (\<lambda>n. (start_byte n, end_byte n)) command_nodes)))"

definition UNICODE_ALIASES :: str where
  "UNICODE_ALIASES = [8216, 8217, 8220, 8221, 8211, 8212, 8213]"

definition lower_with_tree_sitter :: "powershell_parser \<Rightarrow> str \<Rightarrow> (str + str list list) option" where
  "lower_with_tree_sitter pp script =
     (if list_ex (\<lambda>ch. ch \<in> set UNICODE_ALIASES) script then Some (Inl (lit ''PowerShell Unicode syntax alias''))
      else case grammar_error pp of
        Some e \<Rightarrow> Some (Inl (lit ''load grammar: '' @ e))
      | None \<Rightarrow>
         (case from_utf8 (mask_source script) of
            Inl _ \<Rightarrow> Some (Inl (lit ''masked command source is not UTF-8''))
          | Inr parse_source \<Rightarrow>
             (case powershell_tree pp parse_source of
                None \<Rightarrow> Some (Inl (lit ''tree-sitter returned no tree''))
              | Some tree \<Rightarrow> lower_tree script tree)))"

definition try_parse_powershell_commands :: "powershell_parser \<Rightarrow> str \<Rightarrow> str list list option option" where
  "try_parse_powershell_commands pp script =
     map_option (\<lambda>r. case r of Inr commands \<Rightarrow> Some commands | Inl _ \<Rightarrow> None) (lower_with_tree_sitter pp script)"

definition parse_powershell_command_into_plain_commands ::
  "powershell_parser \<Rightarrow> str list \<Rightarrow> str list list option option" where
  "parse_powershell_command_into_plain_commands pp cmd =
     (case extract_powershell_command cmd of
        None \<Rightarrow> Some None
      | Some (_, script) \<Rightarrow> try_parse_powershell_commands pp script)"

definition parse_powershell_script_into_plain_commands ::
  "powershell_parser \<Rightarrow> str \<Rightarrow> str list list option option" where
  "parse_powershell_script_into_plain_commands pp script = try_parse_powershell_commands pp script"

end
