(* ===== verification/Powershell_Properties.thy ===== *)
theory Powershell_Properties
  imports Powershell_Lowering
begin

text \<open>
  Properties of the lowering of PowerShell scripts: words in single quotes are read back as they
  were, and a script is only lowered when every character outside its command nodes is accounted for.
\<close>

section \<open>Quoted words\<close>

definition quote_word :: "str \<Rightarrow> str" where
  "quote_word w = [39] @ concat (map (\<lambda>c. if c = 39 then [39, 39] else [c]) w) @ [39]"

lemma parse_quoted:
  "\<not> starts_with [39] rest \<Longrightarrow>
   parse_single_quoted (concat (map (\<lambda>c. if c = 39 then [39, 39] else [c]) w) @ 39 # rest) val = Inr (val @ w, rest)"
proof (induction w arbitrary: val)
  case Nil
  then show ?case by (cases rest) (auto simp: starts_with_def)
next
  case (Cons c w)
  then show ?case by simp
qed

lemma next_quoted:
  "\<not> starts_with [39] rest \<Longrightarrow> next_word (quote_word w @ rest) = Inr ((w, rest), False)"
  using parse_quoted [of rest w "[]"] by (simp add: next_word_def quote_word_def)

lemma quote_hd: "quote_word w @ rest \<noteq> []" "hd (quote_word w @ rest) = 39"
  by (simp_all add: quote_word_def)

lemma drop_space_quote:
  "dropWhile is_whitespace (quote_word w @ rest) = quote_word w @ rest"
  "dropWhile is_whitespace (32 # quote_word w @ rest) = quote_word w @ rest"
  by (simp_all add: quote_word_def is_whitespace_def)

lemma lower_quoted_word:
  assumes "w \<noteq> []" "rest = [] \<or> hd rest = 32" "dropWhile is_whitespace chars = quote_word w @ rest"
  shows "lower_words chars words = lower_words rest (words @ [w])"
proof -
  have "\<not> starts_with [39] rest" using assms(2) by (cases rest) (auto simp: starts_with_def)
  from next_quoted [OF this] show ?thesis using assms quote_hd [of w rest]
    by (subst lower_words.simps) (auto simp: Let_def is_whitespace_def)
qed

lemma lower_quoted:
  "\<forall>w \<in> set ws. w \<noteq> [] \<Longrightarrow> lower_words (concat (map (\<lambda>w. 32 # quote_word w) ws)) words = Inr (words @ ws)"
proof (induction ws arbitrary: words)
  case Nil
  then show ?case by (subst lower_words.simps) (simp add: Let_def)
next
  case (Cons w ws)
  let ?rest = "concat (map (\<lambda>w. 32 # quote_word w) ws)"
  have "lower_words (32 # quote_word w @ ?rest) words = lower_words ?rest (words @ [w])"
    using Cons.prems drop_space_quote(2) by (intro lower_quoted_word) (auto simp: neq_Nil_conv, cases ws, auto)
  with Cons show ?case by simp
qed

lemma join_quoted: "join_with [32] (map quote_word (w # ws)) = quote_word w @ concat (map (\<lambda>w. 32 # quote_word w) ws)"
  by (induction ws arbitrary: w) auto

text \<open>
  Words in single quotes, with the quotes inside doubled and separated by spaces, are lowered to
  exactly these words, whatever characters they contain; only empty words are refused.
\<close>

theorem quoted_words_roundtrip:
  assumes ws: "ws \<noteq> []" "[] \<notin> set ws"
  shows "lower_command_text (join_with [32] (map quote_word ws)) = Inr ws"
proof -
  obtain w ws' where c: "ws = w # ws'" using ws(1) by (cases ws) auto
  let ?rest = "concat (map (\<lambda>w. 32 # quote_word w) ws')"
  let ?t = "quote_word w @ ?rest"
  have q: "quote_word v \<noteq> [] \<and> last (quote_word v) = 39" for v by (simp add: quote_word_def)
  then have "last ?t = 39" by (cases ws' rule: rev_cases) simp_all
  then have t: "trim ?t = ?t" using quote_hd [of w ?rest] by (intro trim_id) (simp add: is_whitespace_def)
  have "lower_words ?t [] = lower_words ?rest ([] @ [w])"
    using ws c by (intro lower_quoted_word drop_space_quote) (auto, cases ws', auto)
  also have "\<dots> = Inr ws" using lower_quoted [of ws' "[w]"] ws(2) c by auto
  finally show ?thesis using ws(1) c t by (simp only: lower_command_text_def join_quoted) simp
qed

theorem quoted_words_roundtrip_witness:
  "lower_command_text (join_with [32] (map quote_word [[101, 99, 104, 111], [36, 120, 32, 39, 59]])) =
     Inr [[101, 99, 104, 111], [36, 120, 32, 39, 59]]"
  by (rule quoted_words_roundtrip) simp_all

section \<open>Characters outside commands\<close>

definition is_separator :: "uchar \<Rightarrow> bool" where
  "is_separator ch \<longleftrightarrow> is_whitespace ch \<or> ch \<in> {59, 40, 41, 124, 38}"

text \<open>From an offset on, every character outside the ranges is a separator.\<close>

definition clear_from :: "str \<Rightarrow> (nat \<times> nat) list \<Rightarrow> nat \<Rightarrow> bool" where
  "clear_from script ranges index \<longleftrightarrow>
     (\<forall>a ch b. script = a @ ch # b \<longrightarrow> index \<le> byte_len a \<longrightarrow>
        (\<exists>(start, stop) \<in> set ranges. start \<le> byte_len a \<and> byte_len a < stop) \<or> is_separator ch)"

lemma split_bytes_Some: "split_bytes i s = Some (a, b) \<Longrightarrow> s = a @ b \<and> byte_len a = i"
  by (induction i s arbitrary: a rule: split_bytes.induct) (auto split: if_split_asm)

lemma clear_end:
  assumes "\<not> index < byte_len script" shows "clear_from script ranges index"
  unfolding clear_from_def
proof (intro allI impI)
  fix a ch b assume "script = a @ ch # b" "index \<le> byte_len a"
  then have "byte_len script = byte_len a + (length (utf8_char ch) + byte_len b)" "index \<le> byte_len a" by simp_all
  then have False using assms utf8_char_pos(1) [of ch] by linarith
  then show "(\<exists>(start, stop) \<in> set ranges. start \<le> byte_len a \<and> byte_len a < stop) \<or> is_separator ch" ..
qed

lemma clear_range:
  assumes "clear_from script ranges stop" shows "clear_from script ((index, stop) # ranges) index"
  unfolding clear_from_def
proof (intro allI impI)
  fix a ch b assume s: "script = a @ ch # b" and i: "index \<le> byte_len a"
  show "(\<exists>(start, stop') \<in> set ((index, stop) # ranges). start \<le> byte_len a \<and> byte_len a < stop') \<or> is_separator ch"
  proof (cases "byte_len a < stop")
    case True
    then show ?thesis using i by simp
  next
    case False
    then have "stop \<le> byte_len a" by simp
    then show ?thesis using assms s unfolding clear_from_def by auto
  qed
qed

lemma prefixes_compare:
  assumes "a @ ch # b = before @ c # rest" "byte_len before \<le> byte_len a"
  shows "a = before \<and> ch = c \<or> byte_len before + length (utf8_char c) \<le> byte_len a"
proof -
  consider us where "a = before @ us" "us @ ch # b = c # rest" | us where "before = a @ us" "ch # b = us @ c # rest"
    using assms(1) by (auto simp: append_eq_append_conv2)
  then show ?thesis
  proof cases
    case 1
    then show ?thesis by (cases us) auto
  next
    case 2
    then show ?thesis using assms(2) by (cases us) auto
  qed
qed

lemma clear_step:
  assumes "clear_from script ranges (index + length (utf8_char c))" "script = before @ c # rest" "byte_len before = index"
    "is_separator c"
  shows "clear_from script ranges index"
  unfolding clear_from_def
proof (intro allI impI)
  fix a ch b assume s: "script = a @ ch # b" and i: "index \<le> byte_len a"
  from s assms(2,3) i consider "ch = c" | "index + length (utf8_char c) \<le> byte_len a"
    using prefixes_compare [of a ch b before c rest] by auto
  then show "(\<exists>(start, stop) \<in> set ranges. start \<le> byte_len a \<and> byte_len a < stop) \<or> is_separator ch"
    using assms(1,4) s unfolding clear_from_def by cases blast+
qed

lemma clear_step2:
  assumes "clear_from script ranges (index + length (utf8_char c) + 1)" "script = before @ c # rest" "byte_len before = index"
    "is_separator c" "starts_with [c] rest" "c < 128"
  shows "clear_from script ranges index"
proof -
  obtain rest' where r: "rest = c # rest'" using assms(5) by (auto simp: starts_with_iff)
  have one: "length (utf8_char c) = 1" using assms(6) by (simp add: utf8_char_def)
  have "clear_from script ranges (index + length (utf8_char c))"
    by (rule clear_step [where c = c and before = "before @ [c]" and rest = rest']) (use assms r one in simp_all)
  then show ?thesis by (rule clear_step [OF _ assms(2-4)])
qed

text \<open>One step outside the ranges, in a script without a hash: the character is a separator.\<close>

lemma covered_step:
  assumes run: "covered script ranges index can_chain needs_command paren_depth = Some True"
    and in_script: "index < byte_len script" and no_range: "\<not> (ranges \<noteq> [] \<and> index = fst (hd ranges))"
    and sp: "split_bytes index script = Some (before, ch # rest)" and hash: "ch \<noteq> 35" "\<not> starts_with [35] rest"
  shows "is_separator ch \<and> (\<exists>following cc nc pd. covered script ranges following cc nc pd = Some True
    \<and> (following = index + length (utf8_char ch)
       \<or> following = index + length (utf8_char ch) + 1 \<and> starts_with [ch] rest \<and> ch < 128))"
proof -
  note run = run [unfolded covered.simps [of script ranges index], unfolded if_not_P [OF no_range] sp option.case prod.case
      list.case Let_def if_not_P [OF not_not [THEN iffD2, OF in_script]]]
  show ?thesis
  proof (cases "is_separator ch")
    case True
    then show ?thesis using run hash by (simp split: if_split_asm) blast+
  next
    case False
    then have "ch \<noteq> 13" "ch \<noteq> 10" "\<not> is_whitespace ch" "ch \<noteq> 59" "ch \<noteq> 40" "ch \<noteq> 41" "ch \<noteq> 124" "ch \<noteq> 38"
      by (auto simp: is_separator_def is_whitespace_def)
    then show ?thesis using run hash by simp
  qed
qed

lemma covered_position:
  assumes "covered script ranges index can_chain needs_command paren_depth = Some True" "index < byte_len script"
    "\<not> (ranges \<noteq> [] \<and> index = fst (hd ranges))"
  shows "\<exists>before ch rest. split_bytes index script = Some (before, ch # rest)"
  using assms by (subst (asm) covered.simps) (simp split: option.split_asm list.split_asm prod.split_asm)

text \<open>Up to the next range the walk goes from character to character.\<close>

lemma covered_clear_gap:
  assumes no_hash: "35 \<notin> set script"
    and "covered script ranges index can_chain needs_command paren_depth = Some True"
    and at_range: "\<And>k cc nc pd. covered script ranges k cc nc pd = Some True \<Longrightarrow> ranges \<noteq> [] \<Longrightarrow> k = fst (hd ranges) \<Longrightarrow>
      k < byte_len script \<Longrightarrow> clear_from script ranges k"
  shows "clear_from script ranges index"
  using assms(2)
proof (induction "byte_len script - index" arbitrary: index can_chain needs_command paren_depth rule: less_induct)
  case less
  note run = \<open>covered script ranges index can_chain needs_command paren_depth = Some True\<close>
  consider "\<not> index < byte_len script" | "index < byte_len script" "ranges \<noteq> [] \<and> index = fst (hd ranges)"
    | (char) "index < byte_len script" "\<not> (ranges \<noteq> [] \<and> index = fst (hd ranges))" by blast
  then show ?case
  proof cases
    case char
    obtain before ch rest where sp: "split_bytes index script = Some (before, ch # rest)"
      using covered_position [OF run char] by blast
    note s = split_bytes_Some [OF sp]
    have "ch \<noteq> 35" "\<not> starts_with [35] rest" using no_hash s by (auto simp: starts_with_iff)
    from covered_step [OF run char sp this] obtain following cc nc pd where sep: "is_separator ch"
      and go: "covered script ranges following cc nc pd = Some True"
      and k: "following = index + length (utf8_char ch)
        \<or> following = index + length (utf8_char ch) + 1 \<and> starts_with [ch] rest \<and> ch < 128" by blast
    have "index < following" using k utf8_char_pos(1) [of ch] by linarith
    then have "clear_from script ranges following" using less.hyps [OF _ go] char(1) by simp
    then show ?thesis
      using k clear_step [OF _ conjunct1 [OF s] conjunct2 [OF s] sep] clear_step2 [OF _ conjunct1 [OF s] conjunct2 [OF s] sep] by blast
  qed (use clear_end at_range [OF run] in blast)+
qed

lemma covered_clear:
  assumes "covered script ranges index can_chain needs_command paren_depth = Some True" "35 \<notin> set script"
  shows "clear_from script ranges index"
  using assms(1)
proof (induction ranges arbitrary: index can_chain needs_command paren_depth)
  case Nil
  then show ?case by (rule covered_clear_gap [OF assms(2)]) simp
next
  case (Cons range ranges)
  show ?case
  proof (rule covered_clear_gap [OF assms(2) Cons.prems])
    fix k cc nc pd assume "covered script (range # ranges) k cc nc pd = Some True" "range # ranges \<noteq> []"
      and k: "k = fst (hd (range # ranges))" and "k < byte_len script"
    then have "covered script ranges (snd range) True False pd = Some True"
      by (subst (asm) covered.simps) simp
    then have "clear_from script ranges (snd range)" by (rule Cons.IH)
    then show "clear_from script (range # ranges) k"
      using clear_range [of script ranges "snd range" k] k by simp
  qed
qed

lemma lower_nodes_length: "lower_nodes script ns = Inr cmds \<Longrightarrow> length cmds = length ns"
  by (induction ns arbitrary: cmds) (auto simp: and_then_Inr_iff split: option.split_asm)

lemma lower_tree_Inr:
  assumes "lower_tree script tree = Some (Inr cmds)"
  defines "ns \<equiv> collect_command_nodes [root_node tree] []"
  shows "ns \<noteq> [] \<and> lower_nodes script ns = Inr cmds \<and> check_commands cmds = Inr cmds
    \<and> covered script (map (\<lambda>n. (start_byte n, end_byte n)) ns) 0 False False 0 = Some True"
proof -
  obtain cmds' where l: "ns \<noteq> []" "lower_nodes script ns = Inr cmds'" and ok: "check_commands cmds' = Inr cmds"
    and c: "covered script (map (\<lambda>n. (start_byte n, end_byte n)) ns) 0 False False 0 = Some True"
    using assms unfolding lower_tree_def Let_def source_is_covered_by_commands_def
    by (auto split: if_split_asm option.split_asm sum.split_asm)
  have "cmds = cmds'" using ok by (auto simp: check_commands_def split: if_split_asm)
  with l ok c show ?thesis by simp
qed

text \<open>
  Nothing of a script is overlooked: when a script without a hash sign, and so without comments, is
  lowered, there is one command for each command node, none of them is empty or has an empty word, and
  every character of the script lies in one of these nodes or is white space, a semicolon, a
  parenthesis, a bar or an ampersand.
\<close>

theorem nothing_outside_commands:
  assumes low: "lower_with_tree_sitter pp script = Some (Inr cmds)" and no_hash: "35 \<notin> set script"
  shows "\<exists>parse_source tree. from_utf8 (mask_source script) = Inr parse_source \<and> powershell_tree pp parse_source = Some tree
    \<and> cmds \<noteq> [] \<and> length cmds = length (collect_command_nodes [root_node tree] [])
    \<and> (\<forall>cmd \<in> set cmds. cmd \<noteq> [] \<and> [] \<notin> set cmd)
    \<and> (\<forall>a ch b. script = a @ ch # b \<longrightarrow> is_separator ch
        \<or> (\<exists>n \<in> set (collect_command_nodes [root_node tree] []). start_byte n \<le> byte_len a \<and> byte_len a < end_byte n))"
proof -
  obtain parse_source tree where p: "from_utf8 (mask_source script) = Inr parse_source" "powershell_tree pp parse_source = Some tree"
    and t: "lower_tree script tree = Some (Inr cmds)"
    using low by (auto simp: lower_with_tree_sitter_def split: if_split_asm option.split_asm sum.split_asm)
  let ?ns = "collect_command_nodes [root_node tree] []"
  note r = lower_tree_Inr [OF t]
  have "length cmds = length ?ns" using r lower_nodes_length by blast
  moreover have "\<forall>cmd \<in> set cmds. cmd \<noteq> [] \<and> [] \<notin> set cmd"
    using r by (auto simp: check_commands_def list_ex_iff split: if_split_asm)
  moreover have "clear_from script (map (\<lambda>n. (start_byte n, end_byte n)) ?ns) 0"
    using r covered_clear [OF _ no_hash] by blast
  then have "\<forall>a ch b. script = a @ ch # b \<longrightarrow> is_separator ch
      \<or> (\<exists>n \<in> set ?ns. start_byte n \<le> byte_len a \<and> byte_len a < end_byte n)"
    unfolding clear_from_def by fastforce
  ultimately show ?thesis using p r by fastforce
qed

text \<open>A parser that knows the script \<open>a; b\<close>.\<close>

definition sample_powershell :: powershell_parser where
  "sample_powershell = \<lparr>grammar_error = None, powershell_tree = \<lambda>s.
     if s = [97, 59, 32, 98]
     then Some \<lparr>root_node = SyntaxNode (lit ''program'') True 0 4
       [SyntaxNode (lit ''command'') True 0 1 [], SyntaxNode [59] False 1 2 [], SyntaxNode (lit ''command'') True 3 4 []],
       has_error = False\<rparr>
     else None\<rparr>"

lemma sample_covered: "covered [97, 59, 32, 98] [(0, 1), (3, 4)] 0 False False 0 = Some True"
proof -
  have "covered [97, 59, 32, 98] [] 4 True False 0 = Some True" by (subst covered.simps) (simp add: utf8_char_def)
  then have 3: "covered [97, 59, 32, 98] [(3, 4)] 3 False False 0 = Some True"
    by (subst covered.simps) (simp add: utf8_char_def)
  have 2: "covered [97, 59, 32, 98] [(3, 4)] 2 False False 0 = Some True"
    by (subst covered.simps) (simp add: utf8_char_def is_whitespace_def, simp only: 3 flip: numeral_3_eq_3)
  have 1: "covered [97, 59, 32, 98] [(3, 4)] (Suc 0) True False 0 = Some True"
    by (subst covered.simps) (simp add: utf8_char_def is_whitespace_def, simp only: 2 flip: numeral_2_eq_2)
  show ?thesis by (subst covered.simps) (simp add: utf8_char_def 1)
qed

lemma sample_word: "c = 97 \<or> c = 98 \<Longrightarrow> lower_command_text [c] = Inr [[c]]"
proof -
  assume c: "c = 97 \<or> c = 98"
  then have "lower_words [c] [] = Inr [[c]]"
    by (subst lower_words.simps) (auto simp: next_word_def parse_bare_word_def is_whitespace_def is_rejected_bare_character_def
        reject_unsupported_bare_word_def starts_with_def is_ascii_digit_def lower_words.simps [of "[]"])
  then show ?thesis using c by (auto simp: lower_command_text_def trim_id is_whitespace_def)
qed

lemma sample_source: "from_utf8 (mask_source [97, 59, 32, 98]) = Inr [97, 59, 32, 98]"
proof -
  have "inline_double_dash_parameter_equals [97, 59, 32, 98] = []"
    by (simp add: inline_double_dash_parameter_equals_def is_inline_parameter_token_separator_def is_whitespace_def
        push_inline_parameter_equals_def starts_with_def)
  moreover have "from_utf8 (as_bytes [97, 59, 32, 98]) = Inr [97, 59, 32, 98]" by code_simp
  ultimately show ?thesis by (simp add: mask_source_def)
qed

lemma sample_texts_of_nodes:
  "utf8_text (SyntaxNode k True 0 (Suc 0) []) [97, 59, 32, 98] = Some [97]"
  "utf8_text (SyntaxNode k True 3 4 []) [97, 59, 32, 98] = Some [98]"
  by code_simp+

lemma sample_lowered: "lower_with_tree_sitter sample_powershell [97, 59, 32, 98] = Some (Inr [[[97]], [[98]]])"
  by (simp add: lower_with_tree_sitter_def UNICODE_ALIASES_def sample_powershell_def sample_source lower_tree_def Let_def
      is_command_def named_children_def is_allowed_named_kind_def ALLOWED_NAMED_KINDS_def lit_eval sample_texts_of_nodes
      sample_word source_is_covered_by_commands_def sample_covered [unfolded One_nat_def] check_commands_def ascii_lower_def)

theorem nothing_outside_commands_witness:
  "\<exists>tree. powershell_tree sample_powershell [97, 59, 32, 98] = Some tree
    \<and> length (collect_command_nodes [root_node tree] []) = 2"
proof -
  have "35 \<notin> set [97, 59, 32, 98 :: nat]" by simp
  then obtain tree where "powershell_tree sample_powershell [97, 59, 32, 98] = Some tree"
      "length [[[97]], [[98 :: nat]]] = length (collect_command_nodes [root_node tree] [])"
    using nothing_outside_commands [OF sample_lowered] sample_source by (metis sum.inject(2))
  then show ?thesis by (metis One_nat_def Suc_1 length_Cons list.size(3))
qed

end
