(* ===== verification/Spec2Isabelle.thy ===== *)
theory Spec2Isabelle
  imports Agent_Registry Execution_Limiter Residency Join_Contracts Patch_Roundtrip Patch_Verify
    Turn_Diff_Properties Exec_Parser Exec_Amend Capacity_Lease Output_Buffer
    Output_Truncation Assistant_Text Utf8_Stream History_Views Powershell_Properties
begin

text \<open>
  \<^bold>\<open>A verification development for the agent runtime in \<open>codex-rs\<close>.\<close>

  The program is an agent that works in a terminal: a session receives user input, streams
  answers of a model, runs commands, edits files with patches and spawns sub-agents that report
  back to their parents. The development models the parts that decide: who may run, which message
  is delivered when, what a patch does to the files, which commands are allowed, and what of the
  output is kept and shown. Paths below are relative to \<open>src/codex-rs\<close>.

  \<^bold>\<open>Conventions.\<close> Structs are records, enums datatypes, \<open>Result\<close> is a sum with the error on the left,
  \<open>Option\<close> and panics are options, strings are lists of Unicode scalar values. Counters and
  identifiers whose width matters are machine words with Rust's wrapping or saturating operations;
  lengths are naturals. Code under a lock is one state transformer, and code that gives up the lock
  is split where it does: threads are sequences of steps that interleave in an \<open>inductive\<close> relation
  or a list of operations. Code outside the repository is a parameter of the definitions that call
  it, collected in a record, with the laws it is relied on for as a predicate on that record; every
  such predicate has an instance in the development. \<open>Prelude\<close> holds the shared vocabulary: strings,
  UTF-8, words, results, and two locales, \<open>guarded_machine\<close> (invariants over runs of operations) and
  \<open>stuttering_simulation\<close> (refinement of step relations), which the components interpret.

  \<^bold>\<open>Agents.\<close> \<open>Agent_Path\<close> models \<open>protocol/src/agent_path.rs\<close>: names, absolute paths and relative
  references. \<open>Agent_Registry\<close> models \<open>core/src/agent/registry.rs\<close> with every method that changes the
  table: the count is exact, limits hold, the two indices agree. \<open>Execution_Limiter\<close> models
  \<open>core/src/agent/control/execution.rs\<close> at the level of single atomic operations and refines an
  abstract counter of permits. \<open>Residency\<close> models \<open>control/residency.rs\<close>: the least recently used
  order, unloading, and the reservation loop, which ends because each round removes a candidate.
  \<open>Capacity_Lease\<close> models \<open>control/capacity_ready.rs\<close>: the leases of completions that found no
  capacity and the tasks that watch for a release; each lease has one owner and no release is
  missed. Six steps of a watcher are enough there because its loop has six program points between
  seeing a release and starting a turn.

  \<^bold>\<open>Joins and mail.\<close> \<open>Protocol_Types\<close> and \<open>Turn_State\<close> hold the types and the turn state
  (\<open>core/src/state/turn.rs\<close>, parts of \<open>tasks/mod.rs\<close>). \<open>Owned_Join\<close> models
  \<open>core/src/session/input_queue/owned_join.rs\<close> and its two submodules, \<open>Input_Queue\<close> models
  \<open>input_queue.rs\<close> and \<open>mailbox_delivery.rs\<close>. \<open>Join_Invariants\<close> shows what every operation keeps,
  \<open>Join_Delivery\<close> and \<open>Join_Runs\<close> put the operations together into runs with any interleaving, also
  between the critical sections of \<open>get_pending_input\<close>, and \<open>Join_Properties\<close> and \<open>Join_Contracts\<close>
  derive what parents can rely on: a completion is delivered at most once, reports every target, and
  is accepted only from the bound turn.

  \<^bold>\<open>Patches.\<close> \<open>Patch_Text\<close> models \<open>apply-patch/src\<close> (\<open>text_file.rs\<close>, \<open>seek_sequence.rs\<close>,
  \<open>file_update.rs\<close>), \<open>Patch_Parser\<close> the streaming and the batch parser, \<open>Patch_Files\<close> and
  \<open>Patch_Verify\<close> the application (\<open>lib.rs\<close>) and the verification for approval (\<open>invocation.rs\<close>) over a
  file system given by its operations. \<open>Patch_Apply\<close>, \<open>Patch_Grammar\<close>, \<open>Patch_Roundtrip\<close> and
  \<open>Patch_Delta\<close> prove: a printed patch is parsed back, cutting the stream does not matter, no index
  is out of range, an exact delta describes the change, and applying does what was shown.
  \<open>Turn_Diff\<close> and \<open>Turn_Diff_Properties\<close> model \<open>core/src/turn_diff_tracker.rs\<close>: the tracker follows the
  files without reading them, and its cached diff is the fresh one.

  \<^bold>\<open>Execution policy.\<close> \<open>Absolute_Path\<close> models \<open>utils/absolute-path\<close>. \<open>Exec_Rules\<close>, \<open>Exec_Policy\<close>,
  \<open>Exec_Parser\<close> and \<open>Exec_Amend\<close> model \<open>execpolicy/src\<close>: rules and hosts, matching and merging, the
  built-in functions of rule files, saving rules and the migration of saved rules. A check takes the
  strictest decision, merging never weakens one, examples of an accepted file hold, and the
  migration removes exactly the saved rules it is meant to remove.

  \<^bold>\<open>Output.\<close> \<open>Output_Buffer\<close> models \<open>core/src/unified_exec/head_tail_buffer.rs\<close> and shows that any
  mixture of writes and merges is a summary of the concatenated bytes. \<open>Output_Truncation\<close> models
  \<open>utils/string/src/truncate.rs\<close> and \<open>utils/output-truncation\<close>: cuts at character boundaries, exact
  counts, budgets. \<open>Stream_Text\<close> is the contract of the parsers of \<open>utils/stream-parser\<close> as a locale;
  \<open>Inline_Tags\<close> (inline tags and citations) and \<open>Tagged_Lines\<close> (tag lines and proposed plans)
  interpret it, \<open>Assistant_Text\<close> combines them and \<open>Utf8_Stream\<close> feeds them with bytes: streamed text
  ends as the text that is shown for the finished message. The loop of the inline parser is a
  partial function; that it returns is proved for every parser the constructor accepts.

  \<^bold>\<open>Conversation history.\<close> \<open>Response_Items\<close> holds the items of a conversation
  (\<open>protocol/src/models.rs\<close>), \<open>Context_Fragments\<close> the markers that tell injected context from what the
  user wrote (\<open>context-fragments/src\<close>, \<open>core/src/context\<close>, \<open>core/src/event_mapping.rs\<close>).
  \<open>History_Normalize\<close> models \<open>core/src/context_manager/normalize.rs\<close> and \<open>Context_History\<close> the
  \<open>ContextManager\<close> of \<open>history.rs\<close>; \<open>Token_Estimates\<close> holds its saturating 64-bit estimates and
  \<open>Review_History\<close> the bounded evidence of \<open>guardian-context/src/history.rs\<close>. \<open>Normalize_Properties\<close>
  gives the prompt in closed form: every call has its one output, no output is an orphan, and
  normalising twice changes nothing. \<open>History_Properties\<close> and \<open>History_Views\<close> show what readers rely on:
  a rollback removes exactly the last turns, an offset into the evidence stays valid while the
  version is the same, and a checkpoint restores the history. The sizes of serialised items, the
  image decoder and the parsers of structured contents are parameters.

  \<^bold>\<open>Not modelled.\<close> The terminal user interface, the app server, the command line, telemetry, login and
  the model client are input and output around the parts above. Sandboxing and process spawning
  are calls into the operating system. Threads, sessions and tasks appear only as the steps that
  change the modelled state: \<open>thread_manager.rs\<close>, \<open>control/spawn.rs\<close> and \<open>control/join_observer.rs\<close>
  connect these steps through channels of the runtime. Shell parsing uses a syntax tree of a
  library outside the repository, and the heredoc extraction of \<open>invocation.rs\<close>, the Starlark engine,
  hashing, line diffs, JSON, multimaps and the file system are parameters. Symbolic links are not
  modelled in \<open>Absolute_Path\<close>. Overflow of a 64-bit counter by counting is excluded where a
  property says so: registrations of joins and release notifications.
\<close>

end
